(* ===== verification/Prelude.thy ===== *)
theory Prelude
  imports Main "HOL-Library.Word" "HOL-Library.Sublist"
begin

text \<open>
  What every component of the model shares: the result of a C call that may return, fault or
  not return at all, C strings and the parts of the C standard library the server calls on them
  (\<open>strlen\<close>, \<open>strchr\<close>, \<open>strstr\<close>, \<open>atoi\<close>, \<open>tolower\<close>), decimal printing, and
  the splitting of a byte stream at its first CRLF with the list lemmas the readers need.
\<close>

named_theorems run_simps
  \<comment> \<open>equations for the sequencing of calls\<close>
named_theorems lib_simps
  \<comment> \<open>equations the documented behaviour of the external libraries gives\<close>

section \<open>Outcomes of a call\<close>

text \<open>
  \<open>None\<close>: the call does not return. \<open>Some (Inl f)\<close>: it runs into undefined behaviour of
  the kind \<open>f\<close>. \<open>Some (Inr x)\<close>: it returns \<open>x\<close>.
\<close>

datatype fault = OutOfBounds | NullDeref | UseAfterFree

type_synonym 'a run = "(fault + 'a) option"

abbreviation ret :: "'a \<Rightarrow> 'a run" where
  "ret x \<equiv> Some (Inr x)"

abbreviation ub :: "fault \<Rightarrow> 'a run" where
  "ub f \<equiv> Some (Inl f)"

definition bindR :: "'a run \<Rightarrow> ('a \<Rightarrow> 'b run) \<Rightarrow> 'b run" where
  "bindR m k = (case m of None \<Rightarrow> None | Some (Inl f) \<Rightarrow> ub f | Some (Inr x) \<Rightarrow> k x)"

lemma bindR_simps [simp, run_simps]:
  "bindR None k = None"
  "bindR (ub f) k = ub f"
  "bindR (ret x) k = k x"
  by (simp_all add: bindR_def)

lemma some_bool [simp]: "\<exists>b. b" "\<exists>b. \<not> b"
  by blast+

lemma bindR_assoc: "bindR (bindR m k) h = bindR m (\<lambda>x. bindR (k x) h)"
  by (simp add: bindR_def split: option.splits sum.splits)

lemma bindR_eq_ret:
  "bindR m k = ret y \<longleftrightarrow> (\<exists>x. m = ret x \<and> k x = ret y)"
  by (auto simp: bindR_def split: option.splits sum.splits)

lemma bindR_retE:
  assumes "bindR m k = ret y"
  obtains x where "m = ret x" "k x = ret y"
  using assms by (auto simp: bindR_eq_ret)

lemma bindR_mono [partial_function_mono]:
  fixes B :: "('a \<Rightarrow> 'b option) \<Rightarrow> 'c run"
  assumes "mono_option B" and "\<And>y. mono_option (\<lambda>f. C y f)"
  shows "mono_option (\<lambda>f. bindR (B f) (\<lambda>y. C y f))"
proof (rule monotoneI)
  fix f g :: "'a \<Rightarrow> 'b option"
  assume fg: "option.le_fun f g"
  with assms(1) have B: "option_ord (B f) (B g)" by (rule monotoneD [of _ _ _ f g])
  show "option_ord (bindR (B f) (\<lambda>y. C y f)) (bindR (B g) (\<lambda>y. C y g))"
  proof (cases "B f")
    case None
    then show ?thesis by (simp add: flat_ord_def)
  next
    case (Some r)
    with B have Bg: "B g = Some r" by (simp add: flat_ord_def)
    show ?thesis
    proof (cases r)
      case (Inl e)
      with Some Bg show ?thesis by (simp add: flat_ord_def)
    next
      case (Inr y)
      have "option_ord (C y f) (C y g)" using assms(2) fg by (rule monotoneD [of _ _ _ f g])
      with Some Bg Inr show ?thesis by simp
    qed
  qed
qed

section \<open>C strings\<close>

text \<open>A \<open>char *\<close>: \<open>None\<close> is NULL; a string is the characters before the terminator.\<close>

type_synonym cstr = "string option"

type_synonym size_t = "64 word"

abbreviation NUL :: char where
  "NUL \<equiv> CHR 0x00"

definition c_string :: "char list \<Rightarrow> string" where
  \<comment> \<open>the string a pointer into a char array denotes\<close>
  "c_string bytes = takeWhile (\<lambda>c. c \<noteq> NUL) bytes"

definition nul_free :: "string \<Rightarrow> bool" where
  "nul_free s \<longleftrightarrow> NUL \<notin> set s"

lemma nul_free_simps [simp]:
  "nul_free []" "nul_free (c # s) \<longleftrightarrow> c \<noteq> NUL \<and> nul_free s"
  "nul_free (s @ t) \<longleftrightarrow> nul_free s \<and> nul_free t"
  by (auto simp: nul_free_def)

lemma nul_free_take [simp, intro]: "nul_free s \<Longrightarrow> nul_free (take n s)"
  by (auto simp: nul_free_def dest: in_set_takeD)

lemma nul_free_drop [simp, intro]: "nul_free s \<Longrightarrow> nul_free (drop n s)"
  by (auto simp: nul_free_def dest: in_set_dropD)

lemma c_string_terminated: "nul_free s \<Longrightarrow> c_string (s @ NUL # r) = s"
  by (induction s) (auto simp: c_string_def)

lemma c_string_id: "nul_free s \<Longrightarrow> c_string s = s"
  by (induction s) (auto simp: c_string_def)

primrec strchr :: "string \<Rightarrow> char \<Rightarrow> nat option" where
  \<comment> \<open>\<open>strchr\<close>: the index of the first occurrence\<close>
  "strchr [] c = None"
| "strchr (x # xs) c = (if x = c then Some 0 else map_option Suc (strchr xs c))"

lemma strchr_None: "strchr s c = None \<longleftrightarrow> c \<notin> set s"
  by (induction s) auto

lemma strchr_append: "c \<notin> set a \<Longrightarrow> strchr (a @ c # b) c = Some (length a)"
  by (induction a) auto

lemma strchr_append2: "c \<notin> set a \<Longrightarrow> strchr (a @ b) c = map_option (\<lambda>i. length a + i) (strchr b c)"
  by (cases "strchr b c"; induction a) auto

lemma strchr_Some_nth: "strchr s c = Some i \<Longrightarrow> i < length s \<and> s ! i = c \<and> c \<notin> set (take i s)"
  by (induction s arbitrary: i) (auto split: if_splits)

primrec strstr :: "string \<Rightarrow> string \<Rightarrow> bool" where
  \<comment> \<open>\<open>strstr (s, n) != NULL\<close>\<close>
  "strstr [] n = (n = [])"
| "strstr (x # xs) n = (prefix n (x # xs) \<or> strstr xs n)"

lemma strstr_sublist: "strstr s n \<longleftrightarrow> sublist n s"
  by (induction s) (auto simp: sublist_Cons_right)

definition c_tolower :: "char \<Rightarrow> char" where
  "c_tolower c = (let n = of_char c :: nat
                  in if 65 \<le> n \<and> n \<le> 90 then char_of (n + 32) else c)"

definition c_isspace :: "char \<Rightarrow> bool" where
  "c_isspace c \<longleftrightarrow> c \<in> {CHR '' '', CHR 0x09, CHR 0x0A, CHR 0x0B, CHR 0x0C, CHR 0x0D}"

definition c_isdigit :: "char \<Rightarrow> bool" where
  "c_isdigit c \<longleftrightarrow> (let n = of_char c :: nat in 48 \<le> n \<and> n \<le> 57)"

definition digit_value :: "char \<Rightarrow> nat" where
  "digit_value c = of_char c - 48"

definition digits_value :: "string \<Rightarrow> nat" where
  "digits_value s = foldl (\<lambda>n c. 10 * n + digit_value c) 0 (takeWhile c_isdigit s)"

definition strtol :: "string \<Rightarrow> int" where
  \<comment> \<open>base 10, result clamped to the range of a 64-bit \<open>long\<close>\<close>
  "strtol s =
     (case dropWhile c_isspace s of
        [] \<Rightarrow> 0
      | c # r \<Rightarrow>
          if c = CHR ''-'' then max (- (2 ^ 63)) (- int (digits_value r))
          else if c = CHR ''+'' then min (2 ^ 63 - 1) (int (digits_value r))
          else min (2 ^ 63 - 1) (int (digits_value (c # r))))"

definition atoi :: "string \<Rightarrow> int" where
  \<comment> \<open>as the C library of the supported platform computes it: \<open>(int) strtol (s, NULL, 10)\<close>\<close>
  "atoi s = (strtol s + 2 ^ 31) mod 2 ^ 32 - 2 ^ 31"

section \<open>Decimal printing\<close>

fun show_nat :: "nat \<Rightarrow> string" where
  "show_nat n = (if n < 10 then [char_of (48 + n)] else show_nat (n div 10) @ [char_of (48 + n mod 10)])"

declare show_nat.simps [simp del]

definition show_int :: "int \<Rightarrow> string" where
  "show_int i = (if i < 0 then CHR ''-'' # show_nat (nat (- i)) else show_nat (nat i))"

lemma of_char_digit: "n < 10 \<Longrightarrow> of_char (char_of (48 + n) :: char) = (48 + n :: nat)"
  by simp

lemma digit_char [simp]:
  assumes "n < 10"
  shows "c_isdigit (char_of (48 + n))" "digit_value (char_of (48 + n)) = n"
  using assms by (simp_all add: c_isdigit_def digit_value_def Let_def)

lemma show_nat_digits: "list_all c_isdigit (show_nat n)"
proof (induction n rule: show_nat.induct)
  case (1 n)
  show ?case
  proof (cases "n < 10")
    case True
    then show ?thesis by (simp add: show_nat.simps [of n])
  next
    case False
    with 1 have "list_all c_isdigit (show_nat (n div 10))" by simp
    with False show ?thesis by (simp add: show_nat.simps [of n])
  qed
qed

lemma show_nat_nonempty [simp]: "show_nat n \<noteq> []"
  by (subst show_nat.simps) simp

lemma digits_value_app:
  "list_all c_isdigit s \<Longrightarrow> digits_value (s @ [c]) =
     (if c_isdigit c then 10 * digits_value s + digit_value c else digits_value s)"
  by (simp add: digits_value_def list_all_iff takeWhile_append takeWhile_eq_all_conv [THEN iffD2])

lemma digits_value_show: "digits_value (show_nat n) = n"
proof (induction n rule: show_nat.induct)
  case (1 n)
  show ?case
  proof (cases "n < 10")
    case True
    then show ?thesis by (simp add: show_nat.simps [of n] digits_value_def)
  next
    case False
    then have "digits_value (show_nat (n div 10)) = n div 10" using 1 by simp
    with False show ?thesis
      by (simp add: show_nat.simps [of n] digits_value_app [OF show_nat_digits] del: char_of_def)
  qed
qed

lemma digit_not_special:
  assumes "c_isdigit c"
  shows "c \<noteq> CHR ''-''" "c \<noteq> CHR ''+''" "\<not> c_isspace c" "c \<noteq> CHR ''/''" "c \<noteq> CHR ''?''"
    "c \<noteq> CHR '':''" "c \<noteq> NUL"
  using assms by (auto simp: c_isdigit_def c_isspace_def)

lemma strtol_show_nat: "n < 2 ^ 63 \<Longrightarrow> strtol (show_nat n) = int n"
proof -
  assume n: "n < 2 ^ 63"
  obtain c r where s: "show_nat n = c # r" by (cases "show_nat n") auto
  then have "c_isdigit c" using show_nat_digits [of n] by simp
  with s show ?thesis
    using digits_value_show [of n] digit_not_special [of c] n by (simp add: strtol_def)
qed

lemma atoi_show_nat: "n < 2 ^ 31 \<Longrightarrow> atoi (show_nat n) = int n"
  by (simp add: atoi_def strtol_show_nat)

section \<open>Splitting at the first CRLF\<close>

abbreviation CR :: char where "CR \<equiv> CHR 0x0D"
abbreviation LF :: char where "LF \<equiv> CHR 0x0A"

fun crlf_index :: "string \<Rightarrow> nat option" where
  \<comment> \<open>the least index at which CRLF starts\<close>
  "crlf_index (a # b # r) = (if a = CR \<and> b = LF then Some 0 else map_option Suc (crlf_index (b # r)))"
| "crlf_index s = None"

lemma crlf_index_Some: "crlf_index s = Some i \<Longrightarrow> s = take i s @ CR # LF # drop (i + 2) s"
  by (induction s arbitrary: i rule: crlf_index.induct) (auto split: if_splits)

lemma crlf_index_bound: "crlf_index s = Some i \<Longrightarrow> i + 1 < length s"
  by (induction s arbitrary: i rule: crlf_index.induct) (auto split: if_splits)

lemma crlf_index_append: "crlf_index s = Some i \<Longrightarrow> crlf_index (s @ t) = Some i"
  by (induction s arbitrary: i rule: crlf_index.induct) (auto split: if_splits)

lemma crlf_index_line:
  assumes "CR \<notin> set l"
  shows "crlf_index (l @ CR # LF # r) = Some (length l)"
  using assms
proof (induction l)
  case Nil
  then show ?case by simp
next
  case (Cons a l)
  then show ?case by (cases l) auto
qed

end
