(* ===== verification/Structs.thy ===== *)
theory Structs
  imports Prelude
begin

text \<open>
  The enumerations of \<open>include/hs_constants.h\<close>, with the constructors of the source, and the two
  structs that are elements of a vector: \<open>struct HSArrayPair\<close> (\<open>src/hs_types_array.c\<close>) and
  \<open>struct HSCookie\<close> (\<open>include/hs_types_cookie.h\<close>); the session struct of
  \<open>include/hs_routes_session.h\<close>, which the data table of the route state holds.
\<close>

section \<open>Enumerations\<close>

datatype HSHttpMethod =
    HS_HTTP_METHOD_UNKNOWN
  | HS_HTTP_METHOD_GET
  | HS_HTTP_METHOD_POST
  | HS_HTTP_METHOD_PUT
  | HS_HTTP_METHOD_DELETE
  | HS_HTTP_METHOD_HEAD
  | HS_HTTP_METHOD_CONNECT
  | HS_HTTP_METHOD_OPTIONS
  | HS_HTTP_METHOD_TRACE
  | HS_HTTP_METHOD_PATCH

datatype HSHttpProtocol =
    HS_HTTP_PROTOCOL_UNKNOWN
  | HS_HTTP_PROTOCOL_HTTP
  | HS_HTTP_PROTOCOL_HTTPS

datatype HSHttpResponseCode =
    HS_HTTP_RESPONSE_CODE_CONTINUE
  | HS_HTTP_RESPONSE_CODE_SWITCHING_PROTOCOL
  | HS_HTTP_RESPONSE_CODE_PROCESSING
  | HS_HTTP_RESPONSE_CODE_EARLY_HINTS
  | HS_HTTP_RESPONSE_CODE_OK
  | HS_HTTP_RESPONSE_CODE_CREATED
  | HS_HTTP_RESPONSE_CODE_ACCEPTED
  | HS_HTTP_RESPONSE_CODE_NON_AUTHORITATIVE_INFORMATION
  | HS_HTTP_RESPONSE_CODE_NO_CONTENT
  | HS_HTTP_RESPONSE_CODE_RESET_CONTENT
  | HS_HTTP_RESPONSE_CODE_PARTIAL_CONTENT
  | HS_HTTP_RESPONSE_CODE_MULTIPLE_CHOICES
  | HS_HTTP_RESPONSE_CODE_MOVED_PERMANENTLY
  | HS_HTTP_RESPONSE_CODE_FOUND
  | HS_HTTP_RESPONSE_CODE_SEE_OTHER
  | HS_HTTP_RESPONSE_CODE_NOT_MODIFIED
  | HS_HTTP_RESPONSE_CODE_TEMPORARY_REDIRECT
  | HS_HTTP_RESPONSE_CODE_PERMANENT_REDIRECT
  | HS_HTTP_RESPONSE_CODE_BAD_REQUEST
  | HS_HTTP_RESPONSE_CODE_UNAUTHORIZED
  | HS_HTTP_RESPONSE_CODE_PAYMENT_REQUIRED
  | HS_HTTP_RESPONSE_CODE_FORBIDDEN
  | HS_HTTP_RESPONSE_CODE_NOT_FOUND
  | HS_HTTP_RESPONSE_CODE_METHOD_NOT_ALLOWED
  | HS_HTTP_RESPONSE_CODE_NOT_ACCEPTABLE
  | HS_HTTP_RESPONSE_CODE_PROXY_AUTHENTICATION_REQUIRED
  | HS_HTTP_RESPONSE_CODE_REQUEST_TIMEOUT
  | HS_HTTP_RESPONSE_CODE_CONFLICT
  | HS_HTTP_RESPONSE_CODE_GONE
  | HS_HTTP_RESPONSE_CODE_LENGTH_REQUIRED
  | HS_HTTP_RESPONSE_CODE_PRECONDITION_FAILED
  | HS_HTTP_RESPONSE_CODE_PAYLOAD_TOO_LARGE
  | HS_HTTP_RESPONSE_CODE_URI_TOO_LONG
  | HS_HTTP_RESPONSE_CODE_UNSUPPORTED_MEDIA_TYPE
  | HS_HTTP_RESPONSE_CODE_RANGE_NOT_SATISFIABLE
  | HS_HTTP_RESPONSE_CODE_EXPECTATION_FAILED
  | HS_HTTP_RESPONSE_CODE_IM_A_TEAPOT
  | HS_HTTP_RESPONSE_CODE_UNPROCESSABLE_ENTITY
  | HS_HTTP_RESPONSE_CODE_TOO_EARLY
  | HS_HTTP_RESPONSE_CODE_UPGRADE_REQUIRED
  | HS_HTTP_RESPONSE_CODE_PRECONDITION_REQUIRED
  | HS_HTTP_RESPONSE_CODE_TOO_MANY_REQUESTS
  | HS_HTTP_RESPONSE_CODE_REQUEST_HEADER_FIELDS_TOO_LARGE
  | HS_HTTP_RESPONSE_CODE_UNAVAILABLE_FOR_LEGAL_REASONS
  | HS_HTTP_RESPONSE_CODE_INTERNAL_SERVER_ERROR
  | HS_HTTP_RESPONSE_CODE_NOT_IMPLEMENTED
  | HS_HTTP_RESPONSE_CODE_BAD_GATEWAY
  | HS_HTTP_RESPONSE_CODE_SERVICE_UNAVAILABLE
  | HS_HTTP_RESPONSE_CODE_GATEWAY_TIMEOUT
  | HS_HTTP_RESPONSE_CODE_HTTP_VERSION_NOT_SUPPORTED
  | HS_HTTP_RESPONSE_CODE_VARIANT_ALSO_NEGOTIATES
  | HS_HTTP_RESPONSE_CODE_INSUFFICIENT_STORAGE
  | HS_HTTP_RESPONSE_CODE_LOOP_DETECTED
  | HS_HTTP_RESPONSE_CODE_NOT_EXTENDED
  | HS_HTTP_RESPONSE_CODE_NETWORK_AUTHENTICATION_REQUIRED

datatype HSCookieSameSite =
    HS_COOKIE_SAME_SITE_NONE
  | HS_COOKIE_SAME_SITE_STRICT
  | HS_COOKIE_SAME_SITE_LAX

datatype HSMimeType =
    HS_MIME_TYPE_NONE
  | HS_MIME_TYPE_APPLICATION_OCTET_STREAM
  | HS_MIME_TYPE_TEXT_HTML
  | HS_MIME_TYPE_TEXT_PLAIN
  | HS_MIME_TYPE_TEXT_CSS
  | HS_MIME_TYPE_TEXT_XML
  | HS_MIME_TYPE_TEXT_JAVASCRIPT
  | HS_MIME_TYPE_TEXT_MATHML
  | HS_MIME_TYPE_IMAGE_APNG
  | HS_MIME_TYPE_IMAGE_AVIF
  | HS_MIME_TYPE_IMAGE_GIF
  | HS_MIME_TYPE_IMAGE_JPEG
  | HS_MIME_TYPE_IMAGE_PNG
  | HS_MIME_TYPE_IMAGE_SVG
  | HS_MIME_TYPE_IMAGE_WEBP
  | HS_MIME_TYPE_IMAGE_X_ICON
  | HS_MIME_TYPE_IMAGE_TIFF
  | HS_MIME_TYPE_IMAGE_X_MS_BMP
  | HS_MIME_TYPE_AUDIO_MIDI
  | HS_MIME_TYPE_AUDIO_MPEG
  | HS_MIME_TYPE_AUDIO_WAV
  | HS_MIME_TYPE_AUDIO_WEBM
  | HS_MIME_TYPE_AUDIO_OGG
  | HS_MIME_TYPE_AUDIO_X_M4A
  | HS_MIME_TYPE_AUDIO_X_REALAUDIO
  | HS_MIME_TYPE_VIDEO_WEBM
  | HS_MIME_TYPE_VIDEO_3GPP
  | HS_MIME_TYPE_VIDEO_MP2T
  | HS_MIME_TYPE_VIDEO_MP4
  | HS_MIME_TYPE_VIDEO_MPEG
  | HS_MIME_TYPE_VIDEO_QUICKTIME
  | HS_MIME_TYPE_VIDEO_X_FLV
  | HS_MIME_TYPE_APPLICATION_OGG
  | HS_MIME_TYPE_APPLICATION_FONT_WOFF
  | HS_MIME_TYPE_APPLICATION_ATOM
  | HS_MIME_TYPE_APPLICATION_RSS
  | HS_MIME_TYPE_APPLICATION_JSON
  | HS_MIME_TYPE_APPLICATION_JAVA_ARCHIVE
  | HS_MIME_TYPE_APPLICATION_MSWORD
  | HS_MIME_TYPE_APPLICATION_PDF
  | HS_MIME_TYPE_APPLICATION_POSTSCRIPT
  | HS_MIME_TYPE_APPLICATION_RTF
  | HS_MIME_TYPE_APPLICATION_X_7Z_COMPRESSED
  | HS_MIME_TYPE_APPLICATION_X_JAVA_JNLP_FILE
  | HS_MIME_TYPE_APPLICATION_X_PERL
  | HS_MIME_TYPE_APPLICATION_X_RAR_COMPRESSED
  | HS_MIME_TYPE_APPLICATION_X_REDHAT_PACKAGE_MANAGER
  | HS_MIME_TYPE_APPLICATION_X_SHOCKWAVE_FLASH
  | HS_MIME_TYPE_APPLICATION_X_TCL
  | HS_MIME_TYPE_APPLICATION_X_X509_CA_CERT
  | HS_MIME_TYPE_APPLICATION_XHTML_XML
  | HS_MIME_TYPE_APPLICATION_ZIP

datatype HSConnectionType =
    HS_CONNECTION_TYPE_UNKNOWN
  | HS_CONNECTION_TYPE_CLOSE
  | HS_CONNECTION_TYPE_KEEP_ALIVE

datatype HSXFrameOptionsReponseHeader =
    HS_X_FRAME_OPTIONS_RESPONSE_HEADER_NONE
  | HS_X_FRAME_OPTIONS_RESPONSE_HEADER_DENY
  | HS_X_FRAME_OPTIONS_RESPONSE_HEADER_SAMEORIGIN

datatype HSXContentTypeOptionsResponseHeader =
    HS_X_CONTENT_TYPE_OPTIONS_RESPONSE_HEADER_NONE
  | HS_X_CONTENT_TYPE_OPTIONS_RESPONSE_HEADER_NOSNIFF

datatype HSReferrerPolicyResponseHeader =
    HS_REFERRER_POLICY_RESPONSE_HEADER_NONE
  | HS_REFERRER_POLICY_RESPONSE_HEADER_NO_REFERRER
  | HS_REFERRER_POLICY_RESPONSE_HEADER_NO_REFERRER_WHEN_DOWNGRADE
  | HS_REFERRER_POLICY_RESPONSE_HEADER_ORIGIN
  | HS_REFERRER_POLICY_RESPONSE_HEADER_ORIGIN_WHEN_CROSS_ORIGIN
  | HS_REFERRER_POLICY_RESPONSE_HEADER_SAME_ORIGIN
  | HS_REFERRER_POLICY_RESPONSE_HEADER_STRICT_ORIGIN
  | HS_REFERRER_POLICY_RESPONSE_HEADER_STRICT_ORIGIN_WHEN_CROSS_ORIGIN
  | HS_REFERRER_POLICY_RESPONSE_HEADER_UNSAFE_URL

primrec response_code_value :: "HSHttpResponseCode \<Rightarrow> nat" where
  \<comment> \<open>the number an enumeration constant stands for in C\<close>
    "response_code_value HS_HTTP_RESPONSE_CODE_CONTINUE = 100"
  | "response_code_value HS_HTTP_RESPONSE_CODE_SWITCHING_PROTOCOL = 101"
  | "response_code_value HS_HTTP_RESPONSE_CODE_PROCESSING = 102"
  | "response_code_value HS_HTTP_RESPONSE_CODE_EARLY_HINTS = 103"
  | "response_code_value HS_HTTP_RESPONSE_CODE_OK = 200"
  | "response_code_value HS_HTTP_RESPONSE_CODE_CREATED = 201"
  | "response_code_value HS_HTTP_RESPONSE_CODE_ACCEPTED = 202"
  | "response_code_value HS_HTTP_RESPONSE_CODE_NON_AUTHORITATIVE_INFORMATION = 203"
  | "response_code_value HS_HTTP_RESPONSE_CODE_NO_CONTENT = 204"
  | "response_code_value HS_HTTP_RESPONSE_CODE_RESET_CONTENT = 205"
  | "response_code_value HS_HTTP_RESPONSE_CODE_PARTIAL_CONTENT = 206"
  | "response_code_value HS_HTTP_RESPONSE_CODE_MULTIPLE_CHOICES = 300"
  | "response_code_value HS_HTTP_RESPONSE_CODE_MOVED_PERMANENTLY = 301"
  | "response_code_value HS_HTTP_RESPONSE_CODE_FOUND = 302"
  | "response_code_value HS_HTTP_RESPONSE_CODE_SEE_OTHER = 303"
  | "response_code_value HS_HTTP_RESPONSE_CODE_NOT_MODIFIED = 304"
  | "response_code_value HS_HTTP_RESPONSE_CODE_TEMPORARY_REDIRECT = 307"
  | "response_code_value HS_HTTP_RESPONSE_CODE_PERMANENT_REDIRECT = 308"
  | "response_code_value HS_HTTP_RESPONSE_CODE_BAD_REQUEST = 400"
  | "response_code_value HS_HTTP_RESPONSE_CODE_UNAUTHORIZED = 401"
  | "response_code_value HS_HTTP_RESPONSE_CODE_PAYMENT_REQUIRED = 402"
  | "response_code_value HS_HTTP_RESPONSE_CODE_FORBIDDEN = 403"
  | "response_code_value HS_HTTP_RESPONSE_CODE_NOT_FOUND = 404"
  | "response_code_value HS_HTTP_RESPONSE_CODE_METHOD_NOT_ALLOWED = 405"
  | "response_code_value HS_HTTP_RESPONSE_CODE_NOT_ACCEPTABLE = 406"
  | "response_code_value HS_HTTP_RESPONSE_CODE_PROXY_AUTHENTICATION_REQUIRED = 407"
  | "response_code_value HS_HTTP_RESPONSE_CODE_REQUEST_TIMEOUT = 408"
  | "response_code_value HS_HTTP_RESPONSE_CODE_CONFLICT = 409"
  | "response_code_value HS_HTTP_RESPONSE_CODE_GONE = 410"
  | "response_code_value HS_HTTP_RESPONSE_CODE_LENGTH_REQUIRED = 411"
  | "response_code_value HS_HTTP_RESPONSE_CODE_PRECONDITION_FAILED = 412"
  | "response_code_value HS_HTTP_RESPONSE_CODE_PAYLOAD_TOO_LARGE = 413"
  | "response_code_value HS_HTTP_RESPONSE_CODE_URI_TOO_LONG = 414"
  | "response_code_value HS_HTTP_RESPONSE_CODE_UNSUPPORTED_MEDIA_TYPE = 415"
  | "response_code_value HS_HTTP_RESPONSE_CODE_RANGE_NOT_SATISFIABLE = 416"
  | "response_code_value HS_HTTP_RESPONSE_CODE_EXPECTATION_FAILED = 417"
  | "response_code_value HS_HTTP_RESPONSE_CODE_IM_A_TEAPOT = 418"
  | "response_code_value HS_HTTP_RESPONSE_CODE_UNPROCESSABLE_ENTITY = 422"
  | "response_code_value HS_HTTP_RESPONSE_CODE_TOO_EARLY = 425"
  | "response_code_value HS_HTTP_RESPONSE_CODE_UPGRADE_REQUIRED = 426"
  | "response_code_value HS_HTTP_RESPONSE_CODE_PRECONDITION_REQUIRED = 428"
  | "response_code_value HS_HTTP_RESPONSE_CODE_TOO_MANY_REQUESTS = 429"
  | "response_code_value HS_HTTP_RESPONSE_CODE_REQUEST_HEADER_FIELDS_TOO_LARGE = 431"
  | "response_code_value HS_HTTP_RESPONSE_CODE_UNAVAILABLE_FOR_LEGAL_REASONS = 451"
  | "response_code_value HS_HTTP_RESPONSE_CODE_INTERNAL_SERVER_ERROR = 500"
  | "response_code_value HS_HTTP_RESPONSE_CODE_NOT_IMPLEMENTED = 501"
  | "response_code_value HS_HTTP_RESPONSE_CODE_BAD_GATEWAY = 502"
  | "response_code_value HS_HTTP_RESPONSE_CODE_SERVICE_UNAVAILABLE = 503"
  | "response_code_value HS_HTTP_RESPONSE_CODE_GATEWAY_TIMEOUT = 504"
  | "response_code_value HS_HTTP_RESPONSE_CODE_HTTP_VERSION_NOT_SUPPORTED = 505"
  | "response_code_value HS_HTTP_RESPONSE_CODE_VARIANT_ALSO_NEGOTIATES = 506"
  | "response_code_value HS_HTTP_RESPONSE_CODE_INSUFFICIENT_STORAGE = 507"
  | "response_code_value HS_HTTP_RESPONSE_CODE_LOOP_DETECTED = 508"
  | "response_code_value HS_HTTP_RESPONSE_CODE_NOT_EXTENDED = 510"
  | "response_code_value HS_HTTP_RESPONSE_CODE_NETWORK_AUTHENTICATION_REQUIRED = 511"

section \<open>Elements of the vectors\<close>

record HSArrayPair =
  pair_key :: string
  pair_value :: cstr

record HSCookie =
  cookie_name :: cstr
  cookie_value :: cstr
  cookie_expires :: cstr
  cookie_max_age :: int
  cookie_secure :: bool
  cookie_http_only :: bool
  cookie_domain :: cstr
  cookie_path :: cstr
  cookie_same_site :: HSCookieSameSite

section \<open>Sessions and the values of the data table\<close>

record 'sh HSSession =
  session_id :: cstr
  session_data :: 'sh

text \<open>
  The data table of the route state holds \<open>void *\<close>: a session, a session that has been released
  since, or another object by its address.
\<close>

datatype 'sh route_value = SessionValue "'sh HSSession" | ReleasedSession | OtherValue nat

end
