(* ===== verification/World.thy ===== *)
theory World
  imports Prelude
begin

text \<open>
  The part of the operating system and of the C library the server works on: the descriptor
  table with the byte streams behind it (\<open>read\<close>, \<open>write\<close>, \<open>close\<close>, \<open>accept\<close>), the file
  system, the clock and \<open>rand\<close>. What the peer and the kernel do is data of the world, so that
  every execution is one choice of these scripts.
\<close>

section \<open>Descriptors and streams\<close>

text \<open>
  \<open>incoming\<close>: what successive reads find, a segment that has arrived, a failure (a reset), or
  silence: the peer keeps the connection open and sends nothing for longer than any receive
  timeout. Silence ends a read with a failure after the timeout when one is set; without one the
  read never returns. The empty list is end of file. \<open>wscript\<close>: the answers of successive
  writes, a negative one a failure, another one the most the kernel takes in that call; the
  empty list takes everything. \<open>sent\<close>: all bytes the kernel has taken.
\<close>

datatype rd_event = Arrive string | ReadFail | Silence

record stream =
  incoming :: "rd_event list"
  wscript :: "int list"
  sent :: string
  rcvtimeo :: int   \<comment> \<open>\<open>SO_RCVTIMEO\<close> in seconds; no timeout unless positive\<close>

record world =
  fds :: "int \<rightharpoonup> stream"
  free_fds :: "int list"
  backlog :: "stream option list"
  files :: "string \<rightharpoonup> string"
  dirs :: "string \<rightharpoonup> string list"
  unwritable :: "string list"
  disk_free :: nat
  file_buffers :: "string \<Rightarrow> string"
  bufsiz :: nat
  clock :: int
  rands :: "int list"

definition posix_read :: "int \<Rightarrow> nat \<Rightarrow> world \<Rightarrow> (int \<times> string \<times> world) run" where
  \<comment> \<open>the returned size, the bytes put at the start of the buffer\<close>
  "posix_read fd count w =
     (case fds w fd of
        None \<Rightarrow> ret (-1, [], w)
      | Some st \<Rightarrow>
          (case incoming st of
             [] \<Rightarrow> ret (0, [], w)
           | ReadFail # es \<Rightarrow> ret (-1, [], w\<lparr>fds := (fds w)(fd \<mapsto> st\<lparr>incoming := es\<rparr>)\<rparr>)
           | Silence # es \<Rightarrow>
               if 0 < rcvtimeo st then ret (-1, [], w\<lparr>fds := (fds w)(fd \<mapsto> st\<lparr>incoming := es\<rparr>)\<rparr>)
               else None
           | Arrive bs # es \<Rightarrow>
               ret (int (min count (length bs)), take count bs,
                w\<lparr>fds := (fds w)(fd \<mapsto> st\<lparr>incoming :=
                   (if length bs \<le> count then es else Arrive (drop count bs) # es)\<rparr>)\<rparr>)))"

definition posix_write :: "int \<Rightarrow> string \<Rightarrow> world \<Rightarrow> int \<times> world" where
  \<comment> \<open>the second argument: the bytes at the pointer, as many as the count given\<close>
  "posix_write fd buf w =
     (case fds w fd of
        None \<Rightarrow> (-1, w)
      | Some st \<Rightarrow>
          (case wscript st of
             [] \<Rightarrow> (int (length buf), w\<lparr>fds := (fds w)(fd \<mapsto> st\<lparr>sent := sent st @ buf\<rparr>)\<rparr>)
           | r # rs \<Rightarrow>
               if r < 0 then (-1, w\<lparr>fds := (fds w)(fd \<mapsto> st\<lparr>wscript := rs\<rparr>)\<rparr>)
               else (int (min (nat r) (length buf)),
                     w\<lparr>fds := (fds w)(fd \<mapsto>
                        st\<lparr>wscript := rs, sent := sent st @ take (nat r) buf\<rparr>)\<rparr>)))"

definition posix_close :: "int \<Rightarrow> world \<Rightarrow> int \<times> world" where
  "posix_close fd w =
     (case fds w fd of
        None \<Rightarrow> (-1, w)
      | Some _ \<Rightarrow> (0, w\<lparr>fds := (fds w)(fd := None), free_fds := insort fd (free_fds w)\<rparr>))"

definition posix_accept :: "int \<Rightarrow> world \<Rightarrow> int \<times> world" where
  \<comment> \<open>the new descriptor is the lowest one that is free\<close>
  "posix_accept fd w =
     (case (fds w fd, backlog w) of
        (Some _, Some st # rest) \<Rightarrow>
          (case free_fds w of
             [] \<Rightarrow> (-1, w)
           | n # ns \<Rightarrow> (n, w\<lparr>fds := (fds w)(n \<mapsto> st), free_fds := ns, backlog := rest\<rparr>))
      | (Some _, None # rest) \<Rightarrow> (-1, w\<lparr>backlog := rest\<rparr>)
      | _ \<Rightarrow> (-1, w))"

definition posix_set_rcvtimeo :: "int \<Rightarrow> int \<Rightarrow> world \<Rightarrow> int \<times> world" where
  \<comment> \<open>\<open>setsockopt\<close> with \<open>SO_RCVTIMEO\<close>\<close>
  "posix_set_rcvtimeo fd seconds w =
     (case fds w fd of
        None \<Rightarrow> (-1, w)
      | Some st \<Rightarrow> (0, w\<lparr>fds := (fds w)(fd \<mapsto> st\<lparr>rcvtimeo := seconds\<rparr>)\<rparr>))"

section \<open>Files\<close>

text \<open>
  \<open>unwritable\<close>: the paths that cannot be created; \<open>disk_free\<close>: the bytes the disk still takes.
  A file open for writing is a fully buffered stream: \<open>file_buffers\<close> holds the bytes the program has
  written and the library has not, and \<open>bufsiz\<close> is the size of such a buffer (0 for none). A write
  that overflows the buffer puts the whole blocks out, so it is the one that notices a full disk;
  what stays in the buffer goes out in \<open>fflush\<close> or \<open>fclose\<close>.
\<close>

definition disk_write :: "string \<Rightarrow> string \<Rightarrow> world \<Rightarrow> nat \<times> world" where
  \<comment> \<open>what the library does with a block: the number of bytes that reached the disk\<close>
  "disk_write path bytes w =
     (let n = min (length bytes) (disk_free w); old = (case files w path of None \<Rightarrow> [] | Some s \<Rightarrow> s)
      in (n, w\<lparr>files := (files w)(path \<mapsto> old @ take n bytes), disk_free := disk_free w - n\<rparr>))"

definition put_buffer :: "string \<Rightarrow> string \<Rightarrow> world \<Rightarrow> world" where
  "put_buffer path bytes w = w\<lparr>file_buffers := (file_buffers w)(path := bytes)\<rparr>"

definition c_fopen_w :: "string \<Rightarrow> world \<Rightarrow> bool \<times> world" where
  "c_fopen_w path w =
     (if path \<in> set (unwritable w) then (False, w)
      else (True, put_buffer path [] (w\<lparr>files := (files w)(path \<mapsto> [])\<rparr>)))"

definition whole_blocks :: "nat \<Rightarrow> nat \<Rightarrow> nat" where
  \<comment> \<open>how many of \<open>len\<close> bytes leave a buffer of \<open>cap\<close> bytes\<close>
  "whole_blocks cap len = (if len \<le> cap then 0 else len - len mod max 1 cap)"

definition c_fwrite :: "string \<Rightarrow> string \<Rightarrow> world \<Rightarrow> nat \<times> world" where
  \<comment> \<open>\<open>fwrite\<close> on a file open for writing: the number of bytes taken\<close>
  "c_fwrite path bytes w =
     (let held = file_buffers w path; data = held @ bytes; k = whole_blocks (bufsiz w) (length data)
      in if bytes = [] then (0, w)
         else (case disk_write path (take k data) w of
                 (n, w1) \<Rightarrow>
                   if n < k then (n - length held, put_buffer path (drop n held) w1)
                   else (length bytes, put_buffer path (drop k data) w1)))"

definition c_fputs :: "string \<Rightarrow> string \<Rightarrow> world \<Rightarrow> bool \<times> world" where
  \<comment> \<open>whether the result is not \<open>EOF\<close>\<close>
  "c_fputs path text w = (case c_fwrite path text w of (n, w') \<Rightarrow> (n = length text, w'))"

definition c_fflush :: "string \<Rightarrow> world \<Rightarrow> bool \<times> world" where
  \<comment> \<open>whether the whole buffer reached the disk\<close>
  "c_fflush path w =
     (case disk_write path (file_buffers w path) w of
        (n, w') \<Rightarrow> (n = length (file_buffers w path), put_buffer path (drop n (file_buffers w path)) w'))"

definition c_fclose :: "string \<Rightarrow> world \<Rightarrow> bool \<times> world" where
  \<comment> \<open>flushes, and gives the stream up with what could not be written\<close>
  "c_fclose path w = (case c_fflush path w of (flushed, w') \<Rightarrow> (flushed, put_buffer path [] w'))"

definition c_remove :: "string \<Rightarrow> world \<Rightarrow> world" where
  "c_remove path w = w\<lparr>files := (files w)(path := None)\<rparr>"

section \<open>Time and chance\<close>

definition c_time :: "world \<Rightarrow> int" where
  "c_time w = clock w"

definition c_rand :: "world \<Rightarrow> int \<times> world" where
  "c_rand w = (case rands w of [] \<Rightarrow> (0, w) | r # rs \<Rightarrow> (r, w\<lparr>rands := rs\<rparr>))"

section \<open>What is left to read\<close>

text \<open>The bytes a descriptor still delivers before its first failure or its end.\<close>

fun arriving :: "rd_event list \<Rightarrow> string" where
  "arriving (Arrive bs # es) = bs @ arriving es"
| "arriving _ = []"

definition stream_bytes :: "int \<Rightarrow> world \<Rightarrow> string" where
  "stream_bytes fd w = (case fds w fd of None \<Rightarrow> [] | Some st \<Rightarrow> arriving (incoming st))"

definition sent_bytes :: "int \<Rightarrow> world \<Rightarrow> string" where
  "sent_bytes fd w = (case fds w fd of None \<Rightarrow> [] | Some st \<Rightarrow> sent st)"

definition pending :: "int \<Rightarrow> world \<Rightarrow> nat" where
  \<comment> \<open>a bound on the number of further reads that find something\<close>
  "pending fd w = (case fds w fd of None \<Rightarrow> 0
     | Some st \<Rightarrow> sum_list (map (\<lambda>e. case e of Arrive bs \<Rightarrow> length bs + 1 | _ \<Rightarrow> 1) (incoming st)))"

text \<open>
  A peer whose segments fit the server's buffer with its terminator, carry no NUL byte and
  never fail: the executions in which the readers are free of undefined behaviour.
\<close>

fun smooth_event :: "nat \<Rightarrow> rd_event \<Rightarrow> bool" where
  "smooth_event n (Arrive bs) = (bs \<noteq> [] \<and> length bs < n \<and> nul_free bs)"
| "smooth_event n _ = False"

definition smooth :: "nat \<Rightarrow> int \<Rightarrow> world \<Rightarrow> bool" where
  "smooth n fd w \<longleftrightarrow> (case fds w fd of None \<Rightarrow> False | Some st \<Rightarrow> list_all (smooth_event n) (incoming st))"

text \<open>Descriptors are positive, and the kernel hands out no number that is in use.\<close>

definition world_wf :: "world \<Rightarrow> bool" where
  "world_wf w \<longleftrightarrow> sorted (free_fds w) \<and> distinct (free_fds w) \<and> (\<forall>n \<in> set (free_fds w). 0 < n \<and> fds w n = None)"

lemma posix_close_wf: "world_wf w \<Longrightarrow> 0 < fd \<Longrightarrow> world_wf (snd (posix_close fd w))"
  by (auto simp: world_wf_def posix_close_def sorted_insort distinct_insort set_insort_key split: option.splits)

lemma posix_accept_wf: "world_wf w \<Longrightarrow> world_wf (snd (posix_accept fd w))"
  by (auto simp: world_wf_def posix_accept_def split: option.splits list.splits)

lemma posix_read_wf: "world_wf w \<Longrightarrow> posix_read fd n w = ret (sz, bs, w') \<Longrightarrow> world_wf w'"
  by (auto simp: world_wf_def posix_read_def split: option.splits list.splits rd_event.splits if_splits)

lemma posix_write_wf: "world_wf w \<Longrightarrow> world_wf (snd (posix_write fd b w))"
  by (auto simp: world_wf_def posix_write_def split: option.splits list.splits)

lemma posix_read_cases:
  assumes "posix_read fd count w = ret (sz, bs, w')" and "0 < sz"
  obtains st seg es where "fds w fd = Some st" "incoming st = Arrive seg # es"
    "sz = int (min count (length seg))" "bs = take count seg"
    "w' = w\<lparr>fds := (fds w)(fd \<mapsto> st\<lparr>incoming :=
                   (if length seg \<le> count then es else Arrive (drop count seg) # es)\<rparr>)\<rparr>"
  using assms unfolding posix_read_def
  by (auto split: option.splits list.splits rd_event.splits if_splits)

lemma posix_read_stream:
  assumes "posix_read fd count w = ret (sz, bs, w')" and "0 < sz"
  shows "stream_bytes fd w = bs @ stream_bytes fd w'" "int (length bs) = sz" "length bs \<le> count"
    "pending fd w' < pending fd w"
  using assms by (auto elim!: posix_read_cases simp: stream_bytes_def pending_def min_def)

lemma posix_read_size_bounds:
  "posix_read fd count w = ret (sz, bs, w') \<Longrightarrow> -1 \<le> sz \<and> sz \<le> int count"
  unfolding posix_read_def by (auto split: option.splits list.splits rd_event.splits if_splits)

text \<open>Between two worlds only the incoming events of one descriptor have been consumed.\<close>

definition consumed :: "int \<Rightarrow> world \<Rightarrow> world \<Rightarrow> bool" where
  "consumed fd w w' \<longleftrightarrow>
     (\<exists>st es. fds w fd = Some st \<and> w' = w\<lparr>fds := (fds w)(fd \<mapsto> st\<lparr>incoming := es\<rparr>)\<rparr>)"

lemma consumed_refl: "fds w fd = Some st \<Longrightarrow> consumed fd w w"
  unfolding consumed_def by (rule exI [of _ st], rule exI [of _ "incoming st"]) (simp add: fun_upd_idem)

lemma consumed_trans:
  assumes "consumed fd w1 w2" and "consumed fd w2 w3"
  shows "consumed fd w1 w3"
proof -
  from assms(1) obtain st es where 1: "fds w1 fd = Some st"
    and w2: "w2 = w1\<lparr>fds := (fds w1)(fd \<mapsto> st\<lparr>incoming := es\<rparr>)\<rparr>"
    unfolding consumed_def by blast
  from assms(2) w2 obtain es' where "w3 = w1\<lparr>fds := (fds w1)(fd \<mapsto> st\<lparr>incoming := es'\<rparr>)\<rparr>"
    unfolding consumed_def by auto
  with 1 show ?thesis unfolding consumed_def by blast
qed

lemma posix_read_consumes:
  assumes "posix_read fd count w = ret (sz, bs, w')" and "0 < sz"
  shows "consumed fd w w'"
  using assms unfolding consumed_def by (elim posix_read_cases) blast+

lemma consumed_frame:
  assumes "consumed fd w w'"
  shows "sent_bytes fd' w' = sent_bytes fd' w" "fd' \<noteq> fd \<Longrightarrow> fds w' fd' = fds w fd'"
    "files w' = files w" "clock w' = clock w" "rands w' = rands w" "fds w' fd \<noteq> None"
    "dirs w' = dirs w" "disk_free w' = disk_free w" "file_buffers w' = file_buffers w" "bufsiz w' = bufsiz w"
  using assms by (auto simp: consumed_def sent_bytes_def)

text \<open>A read of a smooth stream takes exactly the next segment, or meets the end.\<close>

lemma smooth_open: "smooth n fd w \<Longrightarrow> \<exists>st. fds w fd = Some st"
  by (auto simp: smooth_def split: option.splits)

lemma smooth_refl: "smooth n fd w \<Longrightarrow> consumed fd w w"
  using smooth_open consumed_refl by blast

lemma smooth_read:
  assumes "smooth n fd w" and "n \<le> Suc count"
  obtains (eof) "posix_read fd count w = ret (0, [], w)" "stream_bytes fd w = []"
    | (more) bs w' where "posix_read fd count w = ret (int (length bs), bs, w')" "bs \<noteq> []"
        "length bs < n" "nul_free bs" "smooth n fd w'" "stream_bytes fd w = bs @ stream_bytes fd w'"
        "pending fd w' < pending fd w" "consumed fd w w'"
proof -
  from assms(1) obtain st where st: "fds w fd = Some st" and sm: "list_all (smooth_event n) (incoming st)"
    by (auto simp: smooth_def split: option.splits)
  show thesis
  proof (cases "incoming st")
    case Nil
    with st show thesis by (intro eof) (simp_all add: posix_read_def stream_bytes_def)
  next
    case (Cons e es)
    with sm obtain bs where e: "e = Arrive bs" and b: "bs \<noteq> []" "length bs < n" "nul_free bs"
      by (cases e) auto
    let ?w' = "w\<lparr>fds := (fds w)(fd \<mapsto> st\<lparr>incoming := es\<rparr>)\<rparr>"
    from b assms(2) have "length bs \<le> count" by simp
    moreover have "consumed fd w ?w'" using st unfolding consumed_def by blast
    ultimately show thesis using st Cons e b sm
      by (intro more [of bs ?w'])
        (simp_all add: posix_read_def stream_bytes_def smooth_def pending_def)
  qed
qed

lemma smooth_stream_nul_free: "smooth n fd w \<Longrightarrow> nul_free (stream_bytes fd w)"
proof -
  have "list_all (smooth_event n) es \<Longrightarrow> nul_free (arriving es)" for es
    by (induction es rule: arriving.induct) auto
  then show "smooth n fd w \<Longrightarrow> nul_free (stream_bytes fd w)"
    by (auto simp: smooth_def stream_bytes_def split: option.splits)
qed

text \<open>A peer that sends its bytes in any segments and never fails; a read of any size.\<close>

definition steady :: "int \<Rightarrow> world \<Rightarrow> bool" where
  "steady fd w \<longleftrightarrow>
     (case fds w fd of
        None \<Rightarrow> False
      | Some st \<Rightarrow> list_all (\<lambda>e. case e of Arrive bs \<Rightarrow> bs \<noteq> [] | _ \<Rightarrow> False) (incoming st))"

lemma smooth_steady: "smooth n fd w \<Longrightarrow> steady fd w"
proof -
  have "smooth_event n e \<Longrightarrow> (case e of Arrive bs \<Rightarrow> bs \<noteq> [] | _ \<Rightarrow> False)" for e
    by (cases e) auto
  then show "smooth n fd w \<Longrightarrow> steady fd w"
    by (auto simp: smooth_def steady_def list_all_iff split: option.splits)
qed

lemma steady_refl: "steady fd w \<Longrightarrow> consumed fd w w"
  by (auto simp: steady_def split: option.splits intro: consumed_refl)

lemma steady_read:
  assumes "steady fd w" and "0 < count"
  obtains (eof) "posix_read fd count w = ret (0, [], w)" "stream_bytes fd w = []"
    | (more) bs w' where "posix_read fd count w = ret (int (length bs), bs, w')" "bs \<noteq> []"
        "length bs \<le> count" "steady fd w'" "stream_bytes fd w = bs @ stream_bytes fd w'"
        "pending fd w' < pending fd w" "consumed fd w w'" "smooth n fd w \<Longrightarrow> smooth n fd w'"
        "smooth n fd w \<Longrightarrow> length bs < n \<and> nul_free bs"
proof -
  from assms(1) obtain st where st: "fds w fd = Some st"
    and sm: "list_all (\<lambda>e. case e of Arrive bs \<Rightarrow> bs \<noteq> [] | _ \<Rightarrow> False) (incoming st)"
    by (auto simp: steady_def split: option.splits)
  show thesis
  proof (cases "incoming st")
    case Nil
    with st show thesis by (intro eof) (simp_all add: posix_read_def stream_bytes_def)
  next
    case (Cons e es)
    with sm obtain seg where e: "e = Arrive seg" "seg \<noteq> []" by (cases e) auto
    let ?es = "if length seg \<le> count then es else Arrive (drop count seg) # es"
    let ?w' = "w\<lparr>fds := (fds w)(fd \<mapsto> st\<lparr>incoming := ?es\<rparr>)\<rparr>"
    have read: "posix_read fd count w = ret (int (length (take count seg)), take count seg, ?w')"
      using st Cons e by (simp add: posix_read_def min.commute)
    moreover have "0 < int (length (take count seg))" using e assms(2) by simp
    ultimately have "stream_bytes fd w = take count seg @ stream_bytes fd ?w'"
      "pending fd ?w' < pending fd w" "consumed fd w ?w'"
      by (rule posix_read_stream(1), rule posix_read_stream(4), rule posix_read_consumes)
    with read show thesis
      using st Cons e sm assms(2)
      by (intro more [of "take count seg" ?w']) (auto simp: steady_def smooth_def)
  qed
qed

section \<open>A file written through its buffer\<close>

definition file_state :: "string \<Rightarrow> string \<Rightarrow> string \<Rightarrow> nat \<Rightarrow> world \<Rightarrow> world" where
  \<comment> \<open>the world in which \<open>D\<close> is on the disk, \<open>B\<close> in the buffer and \<open>d\<close> bytes are free\<close>
  "file_state path D B d w =
     w\<lparr>files := (files w)(path \<mapsto> D), disk_free := d, file_buffers := (file_buffers w)(path := B)\<rparr>"

lemma file_state_simps [simp]:
  "files (file_state path D B d w) = (files w)(path \<mapsto> D)" "disk_free (file_state path D B d w) = d"
  "file_buffers (file_state path D B d w) path = B" "bufsiz (file_state path D B d w) = bufsiz w"
  "file_state path D2 B2 d2 (file_state path D B d w) = file_state path D2 B2 d2 w"
  "put_buffer path B2 (file_state path D B d w) = file_state path D B2 d w"
  "steady fd (file_state path D B d w) = steady fd w" "pending fd (file_state path D B d w) = pending fd w"
  "stream_bytes fd (file_state path D B d w) = stream_bytes fd w"
  "sent_bytes fd (file_state path D B d w) = sent_bytes fd w"
  by (simp_all add: file_state_def put_buffer_def steady_def pending_def stream_bytes_def sent_bytes_def)

lemma posix_read_file_state:
  "posix_read fd count (file_state path D B d w)
     = bindR (posix_read fd count w) (\<lambda>(sz, bs, w'). ret (sz, bs, file_state path D B d w'))"
  by (auto simp: posix_read_def file_state_def split: option.split list.split rd_event.split)

lemma file_state_id:
  "files w path = Some D \<Longrightarrow> file_state path D (file_buffers w path) (disk_free w) w = w"
  by (simp add: file_state_def map_upd_triv)

lemma disk_write_state:
  "disk_write path bytes (file_state path D B d w)
     = (min (length bytes) d, file_state path (D @ take d bytes) B (d - length bytes) w)"
  by (simp add: disk_write_def file_state_def Let_def min_def)

lemma whole_blocks_le: "whole_blocks cap n \<le> n"
  by (simp add: whole_blocks_def)

text \<open>
  A write that is taken whole appends its bytes to what has been written, on the disk or in the
  buffer; it is taken whole when the disk has room for all of it, or the buffer has.
\<close>

lemma c_fwrite_state:
  obtains m D' B' d' where "c_fwrite path bytes (file_state path D B d w) = (m, file_state path D' B' d' w)"
    and "d' \<le> d" and "d' + length D' = d + length D" and "m \<le> length bytes" and "m = length bytes \<Longrightarrow> D' @ B' = D @ B @ bytes"
    and "length (B @ bytes) \<le> d \<or> length (B @ bytes) \<le> bufsiz w \<Longrightarrow> m = length bytes"
proof (cases "bytes = []")
  case True
  then show thesis by (intro that [of 0 D B d]) (simp_all add: c_fwrite_def)
next
  case False
  let ?data = "B @ bytes" and ?k = "whole_blocks (bufsiz w) (length B + length bytes)"
  note unfold = c_fwrite_def Let_def disk_write_state
  have k: "?k \<le> length B + length bytes" by (rule whole_blocks_le)
  show thesis
  proof (cases "d < ?k")
    case True
    then have "?k \<noteq> 0" by simp
    then have "\<not> length B + length bytes \<le> bufsiz w" by (auto simp: whole_blocks_def)
    moreover have "d - length B \<le> ?k - length B" using True by simp
    moreover have "d - length B < length bytes" "min ?k d = d" using True False k by (auto simp flip: length_greater_0_conv)
    ultimately show thesis using True False k
      by (intro that [of "d - length B" "D @ take d (take ?k ?data)" "drop d B" 0]) (simp_all add: unfold min_def)
  next
    case fits: False
    then have "c_fwrite path bytes (file_state path D B d w)
        = (length bytes, file_state path (D @ take ?k ?data) (drop ?k ?data) (d - ?k) w)"
      using False k by (simp add: unfold min_absorb2)
    moreover have "length (take ?k ?data) = ?k" using k by simp
    then have "d - ?k + length (D @ take ?k ?data) = d + length D" using fits by simp
    moreover have "(D @ take ?k ?data) @ drop ?k ?data = D @ ?data"
      unfolding append_assoc append_take_drop_id ..
    ultimately show thesis
      by (intro that [of "length bytes" "D @ take ?k ?data" "drop ?k ?data" "d - ?k"]) (assumption | rule order_refl refl diff_le_self)+
  qed
qed

lemma c_fclose_state:
  "snd (c_fclose path (file_state path D B d w)) = file_state path (D @ take d B) [] (d - length B) w"
  "snd (c_fclose path (snd (c_fflush path (file_state path D B d w)))) = file_state path (D @ take d B) [] (d - length B) w"
proof -
  have flush: "snd (c_fflush path (file_state path D B d w)) = file_state path (D @ take d B) (drop d B) (d - length B) w" for D B d
    by (simp add: c_fflush_def disk_write_state min_def split_def)
  then show close: "snd (c_fclose path (file_state path D B d w)) = file_state path (D @ take d B) [] (d - length B) w" for D B d
    by (simp add: c_fclose_def split_def)
  show "snd (c_fclose path (snd (c_fflush path (file_state path D B d w)))) = file_state path (D @ take d B) [] (d - length B) w"
    by (cases "length B \<le> d") (simp_all add: flush close)
qed

lemma c_fopen_state: "path \<notin> set (unwritable w) \<Longrightarrow> c_fopen_w path w = (True, file_state path [] [] (disk_free w) w)"
  by (simp add: c_fopen_w_def put_buffer_def file_state_def)

end
