(* ===== verification/External_Libs.thy ===== *)
theory External_Libs
  imports Structs World "HOL-Library.AList"
begin

text \<open>
  The libraries the server is linked with and whose code is not in the repository (stringfn,
  string_buffer, vector, hashtable, fsio, ini, OpenSSL; \<open>CMakeLists.txt\<close>) are parameters of the
  model: one record of operations, passed to every definition that calls them. What the server
  relies on is the documented behaviour stated by \<open>stringfn_ok\<close>, \<open>stringbuffer_ok\<close>,
  \<open>vector_ok\<close>, \<open>hashtable_ok\<close> and \<open>fsio_ok\<close>. The types of the containers are parameters too; the
  content of a vector is what \<open>vector_get\<close> finds in it (\<open>vec_list\<close>).

  At the end, a concrete instance shows that the laws can hold together; it evaluates, so
  properties can be applied to concrete inputs with it.
\<close>

section \<open>Operations\<close>

record ('v, 'a) vector_lib =
  vector_new :: 'v
  vector_push :: "'v \<Rightarrow> 'a \<Rightarrow> 'v"
  vector_get :: "'v \<Rightarrow> nat \<Rightarrow> 'a option"
  vector_size :: "'v \<Rightarrow> nat"
  vector_remove :: "'v \<Rightarrow> nat \<Rightarrow> 'v"

record ('h, 'a) hashtable_lib =
  hashtable_new :: 'h
  hashtable_insert :: "'h \<Rightarrow> string \<Rightarrow> 'a \<Rightarrow> 'h"
  hashtable_get :: "'h \<Rightarrow> string \<Rightarrow> 'a option"
  hashtable_size :: "'h \<Rightarrow> nat"
  hashtable_entries :: "'h \<Rightarrow> (string \<times> 'a) list"

text \<open>The structs of the ini library, which its callers build and read.\<close>

record IniKeyValue =
  ini_key :: cstr
  ini_value :: cstr

record IniSection =
  ini_section_name :: cstr
  ini_key_value_pairs :: "IniKeyValue option list"

record Ini =
  ini_sections :: "IniSection option list"

text \<open>
  \<open>stringfn_mut_substring s start count\<close>: what the argument's memory denotes after the call, and
  the string at the returned pointer. The operations of fsio and OpenSSL act on the world.
\<close>

record ('sb, 'pv, 'cv, 'dt, 'sh) libs =
  stringfn_equal :: "cstr \<Rightarrow> cstr \<Rightarrow> bool"
  stringfn_starts_with :: "cstr \<Rightarrow> cstr \<Rightarrow> bool"
  stringfn_substring :: "string \<Rightarrow> int \<Rightarrow> nat \<Rightarrow> cstr"
  stringfn_mut_substring :: "string \<Rightarrow> int \<Rightarrow> nat \<Rightarrow> string \<times> cstr"
  stringfn_mut_to_lowercase :: "string \<Rightarrow> string"
  stringfn_split_words :: "string \<Rightarrow> string list"
  stringbuffer_new :: 'sb
  stringbuffer_append :: "'sb \<Rightarrow> char \<Rightarrow> 'sb"
  stringbuffer_append_string :: "'sb \<Rightarrow> string \<Rightarrow> 'sb"
  stringbuffer_append_int :: "'sb \<Rightarrow> int \<Rightarrow> 'sb"
  stringbuffer_append_long :: "'sb \<Rightarrow> int \<Rightarrow> 'sb"
  stringbuffer_append_unsigned :: "'sb \<Rightarrow> nat \<Rightarrow> 'sb"
  stringbuffer_to_string :: "'sb \<Rightarrow> string"
  stringbuffer_get_content_size :: "'sb \<Rightarrow> nat"
  stringbuffer_is_empty :: "'sb \<Rightarrow> bool"
  stringbuffer_clear :: "'sb \<Rightarrow> 'sb"
  pair_vec :: "('pv, HSArrayPair) vector_lib"
  cookie_vec :: "('cv, HSCookie) vector_lib"
  state_table :: "('dt, 'sh route_value) hashtable_lib"
  session_table :: "('sh, string) hashtable_lib"
  fsio_file_extension :: "string \<Rightarrow> cstr"
  fsio_join_paths :: "cstr \<Rightarrow> cstr \<Rightarrow> cstr"
  fsio_file_exists :: "string \<Rightarrow> world \<Rightarrow> bool"
  fsio_dir_exists :: "string \<Rightarrow> world \<Rightarrow> bool"
  fsio_file_size :: "string \<Rightarrow> world \<Rightarrow> int"
  fsio_read_text_file :: "string \<Rightarrow> world \<Rightarrow> cstr"
  fsio_write_text_file :: "string \<Rightarrow> cstr \<Rightarrow> world \<Rightarrow> bool \<times> world"
  fsio_remove :: "string \<Rightarrow> world \<Rightarrow> world"
  ini_to_string :: "Ini \<Rightarrow> cstr"
  ini_parse_string :: "string \<Rightarrow> Ini option"
  SSL_new :: "nat \<Rightarrow> world \<Rightarrow> nat option \<times> world"
  SSL_set_fd :: "nat \<Rightarrow> int \<Rightarrow> world \<Rightarrow> world"
  SSL_accept :: "nat \<Rightarrow> world \<Rightarrow> int \<times> world"
  SSL_read :: "nat \<Rightarrow> int \<Rightarrow> world \<Rightarrow> (int \<times> string \<times> world) run"   \<comment> \<open>may not return\<close>
  SSL_write :: "nat \<Rightarrow> string \<Rightarrow> int \<Rightarrow> world \<Rightarrow> int \<times> world"
  SSL_shutdown :: "nat \<Rightarrow> world \<Rightarrow> world"
  SSL_free :: "nat \<Rightarrow> world \<Rightarrow> world"

section \<open>Documented behaviour\<close>

definition stringfn_ok :: "('sb, 'pv, 'cv, 'dt, 'sh) libs \<Rightarrow> bool" where
  "stringfn_ok L \<longleftrightarrow>
     (\<forall>a b. stringfn_equal L (Some a) (Some b) = (a = b)) \<and>
     (\<forall>a b. stringfn_starts_with L (Some a) (Some b) = prefix b a) \<and>
     (\<forall>s i n. i < length s \<longrightarrow> stringfn_substring L s (int i) n =
        Some (if n = 0 then drop i s else take n (drop i s))) \<and>
     (\<forall>s i n. i < length s \<longrightarrow> snd (stringfn_mut_substring L s (int i) n) =
        Some (if n = 0 then drop i s else take n (drop i s))) \<and>
     (\<forall>s n. 0 < n \<longrightarrow> n \<le> length s \<longrightarrow> fst (stringfn_mut_substring L s 0 n) = take n s) \<and>
     (\<forall>s. stringfn_mut_to_lowercase L s = map c_tolower s) \<and>
     (\<forall>a b c. list_all (\<lambda>w. w \<noteq> [] \<and> list_all (\<lambda>x. \<not> c_isspace x) w) [a, b, c] \<longrightarrow>
        stringfn_split_words L (a @ CHR '' '' # b @ CHR '' '' # c) = [a, b, c])"

definition stringbuffer_ok :: "('sb, 'pv, 'cv, 'dt, 'sh) libs \<Rightarrow> bool" where
  "stringbuffer_ok L \<longleftrightarrow>
     stringbuffer_to_string L (stringbuffer_new L) = [] \<and>
     (\<forall>b c. stringbuffer_to_string L (stringbuffer_append L b c) = stringbuffer_to_string L b @ [c]) \<and>
     (\<forall>b s. stringbuffer_to_string L (stringbuffer_append_string L b s) = stringbuffer_to_string L b @ s) \<and>
     (\<forall>b i. stringbuffer_to_string L (stringbuffer_append_int L b i) = stringbuffer_to_string L b @ show_int i) \<and>
     (\<forall>b n. stringbuffer_to_string L (stringbuffer_append_unsigned L b n) = stringbuffer_to_string L b @ show_nat n) \<and>
     (\<forall>b. stringbuffer_get_content_size L b = length (stringbuffer_to_string L b)) \<and>
     (\<forall>b. stringbuffer_is_empty L b = (stringbuffer_to_string L b = [])) \<and>
     (\<forall>b. stringbuffer_to_string L (stringbuffer_clear L b) = []) \<and>
     (\<forall>b i. stringbuffer_to_string L (stringbuffer_append_long L b i) = stringbuffer_to_string L b @ show_int i)"

definition vector_ok :: "('v, 'a) vector_lib \<Rightarrow> bool" where
  "vector_ok V \<longleftrightarrow>
     vector_size V (vector_new V) = 0 \<and>
     (\<forall>v i. (vector_get V v i = None) = (vector_size V v \<le> i)) \<and>
     (\<forall>v x. vector_size V (vector_push V v x) = Suc (vector_size V v)) \<and>
     (\<forall>v x i. i < vector_size V v \<longrightarrow> vector_get V (vector_push V v x) i = vector_get V v i) \<and>
     (\<forall>v x. vector_get V (vector_push V v x) (vector_size V v) = Some x) \<and>
     (\<forall>v i. i < vector_size V v \<longrightarrow> vector_size V (vector_remove V v i) = vector_size V v - 1) \<and>
     (\<forall>v i j. i < vector_size V v \<longrightarrow> vector_get V (vector_remove V v i) j =
        (if j < i then vector_get V v j else vector_get V v (Suc j)))"

definition hashtable_ok :: "('h, 'a) hashtable_lib \<Rightarrow> bool" where
  "hashtable_ok H \<longleftrightarrow>
     (\<forall>k. hashtable_get H (hashtable_new H) k = None) \<and>
     (\<forall>h k x k'. hashtable_get H (hashtable_insert H h k x) k' =
        (if k' = k then Some x else hashtable_get H h k')) \<and>
     (\<forall>h. distinct (map fst (hashtable_entries H h))) \<and>
     (\<forall>h k. hashtable_get H h k = map_of (hashtable_entries H h) k) \<and>
     (\<forall>h. hashtable_size H h = length (hashtable_entries H h))"

definition fsio_ok :: "('sb, 'pv, 'cv, 'dt, 'sh) libs \<Rightarrow> bool" where
  "fsio_ok L \<longleftrightarrow>
     (\<forall>base ext. CHR ''.'' \<notin> set ext \<and> CHR ''/'' \<notin> set ext \<and> base \<noteq> [] \<longrightarrow>
        fsio_file_extension L (base @ CHR ''.'' # ext) = Some (CHR ''.'' # ext)) \<and>
     (\<forall>a b. a \<noteq> [] \<and> last a \<noteq> CHR ''/'' \<longrightarrow>
        fsio_join_paths L (Some a) (Some (CHR ''/'' # b)) = Some (a @ CHR ''/'' # b)) \<and>
     (\<forall>a b. a \<noteq> [] \<and> b \<noteq> [] \<and> hd b \<noteq> CHR ''/'' \<longrightarrow>
        fsio_join_paths L (Some a) (Some b) = Some (if last a = CHR ''/'' then a @ b else a @ CHR ''/'' # b)) \<and>
     (\<forall>p w. fsio_file_exists L p w = (files w p \<noteq> None)) \<and>
     (\<forall>p w. fsio_dir_exists L p w = (dirs w p \<noteq> None)) \<and>
     (\<forall>p w s. files w p = Some s \<longrightarrow> fsio_file_size L p w = int (length s)) \<and>
     (\<forall>p w. fsio_read_text_file L p w = files w p) \<and>
     (\<forall>p w s. fst (fsio_write_text_file L p (Some s) w) \<longrightarrow>
        snd (fsio_write_text_file L p (Some s) w) = w\<lparr>files := (files w)(p \<mapsto> s)\<rparr>) \<and>
     (\<forall>p w. fsio_remove L p w = w\<lparr>files := (files w)(p := None)\<rparr>)"

definition libs_ok :: "('sb, 'pv, 'cv, 'dt, 'sh) libs \<Rightarrow> bool" where
  "libs_ok L \<longleftrightarrow> stringfn_ok L \<and> stringbuffer_ok L \<and> vector_ok (pair_vec L) \<and> vector_ok (cookie_vec L)
     \<and> hashtable_ok (state_table L) \<and> hashtable_ok (session_table L)"

definition alphanumeric :: "char \<Rightarrow> bool" where
  "alphanumeric c \<longleftrightarrow> (let n = of_char c :: nat in 48 \<le> n \<and> n \<le> 57 \<or> 65 \<le> n \<and> n \<le> 90 \<or> 97 \<le> n \<and> n \<le> 122)"

definition plain_word :: "string \<Rightarrow> bool" where
  \<comment> \<open>text no syntax of the ini format can touch\<close>
  "plain_word s \<longleftrightarrow> s \<noteq> [] \<and> list_all alphanumeric s"

definition one_section :: "string \<Rightarrow> (string \<times> string) list \<Rightarrow> Ini" where
  "one_section name pairs =
     \<lparr>ini_sections = [Some \<lparr>ini_section_name = Some name,
        ini_key_value_pairs = map (\<lambda>(k, v). Some \<lparr>ini_key = Some k, ini_value = Some v\<rparr>) pairs\<rparr>]\<rparr>"

definition ini_ok :: "('sb, 'pv, 'cv, 'dt, 'sh) libs \<Rightarrow> bool" where
  \<comment> \<open>printing and parsing a section of plain words, and parsing nothing\<close>
  "ini_ok L \<longleftrightarrow>
     (\<forall>name pairs. plain_word name \<and> pairs \<noteq> [] \<and> distinct (map fst pairs)
        \<and> list_all (\<lambda>(k, v). plain_word k \<and> plain_word v) pairs \<longrightarrow>
        (\<exists>s. ini_to_string L (one_section name pairs) = Some s
           \<and> ini_parse_string L s = Some (one_section name pairs))) \<and>
     (\<forall>ini. ini_parse_string L [] = Some ini \<longrightarrow> ini_sections ini = [])"

text \<open>The laws as rewrite rules.\<close>

lemma libs_ok_parts [lib_simps]:
  assumes "libs_ok L"
  shows "stringfn_ok L" "stringbuffer_ok L" "vector_ok (pair_vec L)" "vector_ok (cookie_vec L)"
    "hashtable_ok (state_table L)" "hashtable_ok (session_table L)"
  using assms by (simp_all add: libs_ok_def)

lemma stringfn_laws [lib_simps]:
  assumes "stringfn_ok L"
  shows "stringfn_equal L (Some a) (Some b) = (a = b)"
    and "stringfn_starts_with L (Some a) (Some b) = prefix b a"
    and "stringfn_mut_to_lowercase L s = map c_tolower s"
    and "i < length s \<Longrightarrow> stringfn_substring L s (int i) n =
           Some (if n = 0 then drop i s else take n (drop i s))"
    and "0 < length s \<Longrightarrow> stringfn_substring L s 0 n = Some (if n = 0 then s else take n s)"
    and "i < length s \<Longrightarrow> snd (stringfn_mut_substring L s (int i) n) =
           Some (if n = 0 then drop i s else take n (drop i s))"
    and "0 < length s \<Longrightarrow> snd (stringfn_mut_substring L s 0 n) = Some (if n = 0 then s else take n s)"
    and "0 < n \<Longrightarrow> n \<le> length s \<Longrightarrow> fst (stringfn_mut_substring L s 0 n) = take n s"
proof -
  from assms have ok:
    "\<forall>a b. stringfn_equal L (Some a) (Some b) = (a = b)"
    "\<forall>a b. stringfn_starts_with L (Some a) (Some b) = prefix b a"
    "\<forall>s. stringfn_mut_to_lowercase L s = map c_tolower s"
    "\<forall>s i n. i < length s \<longrightarrow> stringfn_substring L s (int i) n =
        Some (if n = 0 then drop i s else take n (drop i s))"
    "\<forall>s i n. i < length s \<longrightarrow> snd (stringfn_mut_substring L s (int i) n) =
        Some (if n = 0 then drop i s else take n (drop i s))"
    "\<forall>s n. 0 < n \<longrightarrow> n \<le> length s \<longrightarrow> fst (stringfn_mut_substring L s 0 n) = take n s"
    unfolding stringfn_ok_def by - (elim conjE, assumption)+
  show "stringfn_equal L (Some a) (Some b) = (a = b)" using ok(1) by blast
  show "stringfn_starts_with L (Some a) (Some b) = prefix b a" using ok(2) by blast
  show "stringfn_mut_to_lowercase L s = map c_tolower s" using ok(3) by blast
  show "i < length s \<Longrightarrow> stringfn_substring L s (int i) n =
           Some (if n = 0 then drop i s else take n (drop i s))" using ok(4) by blast
  show "i < length s \<Longrightarrow> snd (stringfn_mut_substring L s (int i) n) =
           Some (if n = 0 then drop i s else take n (drop i s))" using ok(5) by blast
  show "0 < n \<Longrightarrow> n \<le> length s \<Longrightarrow> fst (stringfn_mut_substring L s 0 n) = take n s"
    using ok(6) by blast
  show "0 < length s \<Longrightarrow> stringfn_substring L s 0 n = Some (if n = 0 then s else take n s)"
    using ok(4) [rule_format, of 0 s n] by simp
  show "0 < length s \<Longrightarrow> snd (stringfn_mut_substring L s 0 n) = Some (if n = 0 then s else take n s)"
    using ok(5) [rule_format, of 0 s n] by simp
qed

lemma stringfn_split3:
  assumes "stringfn_ok L"
    and "list_all (\<lambda>w. w \<noteq> [] \<and> list_all (\<lambda>x. \<not> c_isspace x) w) [a, b, c]"
  shows "stringfn_split_words L (a @ CHR '' '' # b @ CHR '' '' # c) = [a, b, c]"
  using assms unfolding stringfn_ok_def by blast

lemma stringbuffer_laws [lib_simps]:
  assumes "stringbuffer_ok L"
  shows "stringbuffer_to_string L (stringbuffer_new L) = []"
    and "stringbuffer_to_string L (stringbuffer_append L b c) = stringbuffer_to_string L b @ [c]"
    and "stringbuffer_to_string L (stringbuffer_append_string L b s) = stringbuffer_to_string L b @ s"
    and "stringbuffer_to_string L (stringbuffer_append_int L b i) = stringbuffer_to_string L b @ show_int i"
    and "stringbuffer_to_string L (stringbuffer_append_unsigned L b n) = stringbuffer_to_string L b @ show_nat n"
    and "stringbuffer_get_content_size L b = length (stringbuffer_to_string L b)"
    and "stringbuffer_is_empty L b = (stringbuffer_to_string L b = [])"
    and "stringbuffer_to_string L (stringbuffer_clear L b) = []"
    and "stringbuffer_to_string L (stringbuffer_append_long L b i) = stringbuffer_to_string L b @ show_int i"
  using assms unfolding stringbuffer_ok_def by blast+

lemma hashtable_laws [lib_simps]:
  assumes "hashtable_ok H"
  shows "hashtable_get H (hashtable_new H) k = None"
    and "hashtable_get H (hashtable_insert H h k x) k' = (if k' = k then Some x else hashtable_get H h k')"
    and "hashtable_size H h = length (hashtable_entries H h)"
    and "distinct (map fst (hashtable_entries H h))"
    and "map_of (hashtable_entries H h) k = hashtable_get H h k"
  using assms unfolding hashtable_ok_def by (blast, blast, blast, blast, metis)

section \<open>The content of a vector\<close>

definition vec_list :: "('v, 'a) vector_lib \<Rightarrow> 'v \<Rightarrow> 'a list" where
  "vec_list V v = List.map_filter (vector_get V v) [0..<vector_size V v]"

lemma map_filter_total:
  "(\<And>i. i \<in> set xs \<Longrightarrow> f i \<noteq> None) \<Longrightarrow> List.map_filter f xs = map (\<lambda>i. the (f i)) xs"
  by (induction xs) (auto simp: List.map_filter_simps split: option.splits)

lemma vec_list_eq:
  assumes "vector_ok V"
  shows "vec_list V v = map (\<lambda>i. the (vector_get V v i)) [0..<vector_size V v]"
proof -
  have "vector_get V v i \<noteq> None" if "i \<in> set [0..<vector_size V v]" for i
    using assms that unfolding vector_ok_def by (metis atLeastLessThan_iff atLeast_upt leD not_le set_upt)
  then show ?thesis unfolding vec_list_def by (rule map_filter_total)
qed

lemma vector_laws [lib_simps]:
  assumes "vector_ok V"
  shows "vector_size V v = length (vec_list V v)"
    and "vector_get V v i = (if i < length (vec_list V v) then Some (vec_list V v ! i) else None)"
    and "vec_list V (vector_new V) = []"
    and "vec_list V (vector_push V v x) = vec_list V v @ [x]"
    and "i < length (vec_list V v) \<Longrightarrow>
           vec_list V (vector_remove V v i) = take i (vec_list V v) @ drop (Suc i) (vec_list V v)"
proof -
  note ok = assms [unfolded vector_ok_def]
  show len: "vector_size V v = length (vec_list V v)" for v
    by (simp add: vec_list_eq [OF assms])
  show get: "vector_get V v i = (if i < length (vec_list V v) then Some (vec_list V v ! i) else None)" for v i
  proof (cases "i < vector_size V v")
    case True
    then have "vector_get V v i \<noteq> None" using ok by (simp add: not_le)
    with True show ?thesis by (simp add: vec_list_eq [OF assms])
  next
    case False
    then show ?thesis using ok len [of v] by (simp add: not_less)
  qed
  show "vec_list V (vector_new V) = []"
    using ok len [of "vector_new V"] by simp
  show "vec_list V (vector_push V v x) = vec_list V v @ [x]"
  proof (rule nth_equalityI)
    show l: "length (vec_list V (vector_push V v x)) = length (vec_list V v @ [x])"
      using ok len [of v] len [of "vector_push V v x"] by simp
    fix i assume "i < length (vec_list V (vector_push V v x))"
    with l have i: "i < length (vec_list V v) \<or> i = length (vec_list V v)" by auto
    have old: "\<forall>i. i < length (vec_list V v) \<longrightarrow> vector_get V (vector_push V v x) i = vector_get V v i"
      using ok len [of v] by simp
    have "vector_get V (vector_push V v x) (vector_size V v) = Some x" using ok by blast
    then have new: "vector_get V (vector_push V v x) (length (vec_list V v)) = Some x"
      by (simp only: len)
    have "Some (vec_list V (vector_push V v x) ! i) = Some ((vec_list V v @ [x]) ! i)"
      using get [of "vector_push V v x" i] get [of v i] i l old new by (auto simp: nth_append)
    then show "vec_list V (vector_push V v x) ! i = (vec_list V v @ [x]) ! i" by simp
  qed
  show "vec_list V (vector_remove V v i) = take i (vec_list V v) @ drop (Suc i) (vec_list V v)"
    if i: "i < length (vec_list V v)"
  proof (rule nth_equalityI)
    show l: "length (vec_list V (vector_remove V v i)) = length (take i (vec_list V v) @ drop (Suc i) (vec_list V v))"
      using ok len [of v] len [of "vector_remove V v i"] i by simp
    fix j assume j: "j < length (vec_list V (vector_remove V v i))"
    then have "Some (vec_list V (vector_remove V v i) ! j) = vector_get V (vector_remove V v i) j"
      using get by simp
    also have "\<dots> = (if j < i then vector_get V v j else vector_get V v (Suc j))"
      using ok len [of v] i by simp
    also have "\<dots> = Some ((take i (vec_list V v) @ drop (Suc i) (vec_list V v)) ! j)"
      using get [of v j] get [of v "Suc j"] i j l by (auto simp: nth_append)
    finally show "vec_list V (vector_remove V v i) ! j = (take i (vec_list V v) @ drop (Suc i) (vec_list V v)) ! j"
      by simp
  qed
qed

section \<open>A concrete instance\<close>

definition list_vector :: "('a list, 'a) vector_lib" where
  "list_vector = \<lparr>vector_new = [], vector_push = (\<lambda>v x. v @ [x]),
     vector_get = (\<lambda>v i. if i < length v then Some (v ! i) else None),
     vector_size = length, vector_remove = (\<lambda>v i. take i v @ drop (Suc i) v)\<rparr>"

definition alist_table :: "((string \<times> 'a) list, 'a) hashtable_lib" where
  "alist_table = \<lparr>hashtable_new = [], hashtable_insert = (\<lambda>h k x. (k, x) # h),
     hashtable_get = map_of, hashtable_size = (\<lambda>h. length (AList.clearjunk h)),
     hashtable_entries = AList.clearjunk\<rparr>"

fun list_words :: "string \<Rightarrow> string \<Rightarrow> string list" where
  "list_words acc [] = (if acc = [] then [] else [rev acc])"
| "list_words acc (c # s) =
     (if c_isspace c then (if acc = [] then list_words [] s else rev acc # list_words [] s)
      else list_words (c # acc) s)"

definition list_extension :: "string \<Rightarrow> cstr" where
  "list_extension s =
     (let e = takeWhile (\<lambda>c. c \<noteq> CHR ''.'' \<and> c \<noteq> CHR ''/'') (rev s); r = drop (length e) (rev s)
      in case r of c # _ \<Rightarrow> if c = CHR ''.'' then Some (CHR ''.'' # rev e) else None | [] \<Rightarrow> None)"

definition list_join :: "cstr \<Rightarrow> cstr \<Rightarrow> cstr" where
  "list_join a b =
     (case (a, b) of
        (Some x, Some y) \<Rightarrow>
          Some (if x \<noteq> [] \<and> last x = CHR ''/'' then (case y of c # r \<Rightarrow> if c = CHR ''/'' then x @ r else x @ y | [] \<Rightarrow> x)
                else (case y of c # _ \<Rightarrow> if c = CHR ''/'' then x @ y else x @ CHR ''/'' # y | [] \<Rightarrow> x))
      | (Some x, None) \<Rightarrow> Some x
      | (None, y) \<Rightarrow> y)"

text \<open>Ini files, one line for a section header and for a pair.\<close>

definition ini_pair_text :: "IniKeyValue option \<Rightarrow> string" where
  "ini_pair_text kv = (case kv of None \<Rightarrow> [] | Some p \<Rightarrow> concat (map (\<lambda>s. case s of None \<Rightarrow> [] | Some t \<Rightarrow> t)
     [ini_key p, Some ''='', ini_value p]) @ [CHR 0x0A])"

definition ini_section_text :: "IniSection option \<Rightarrow> string" where
  "ini_section_text sec = (case sec of None \<Rightarrow> []
     | Some s \<Rightarrow> CHR ''['' # (case ini_section_name s of None \<Rightarrow> [] | Some n \<Rightarrow> n) @ CHR '']'' # CHR 0x0A
         # concat (map ini_pair_text (ini_key_value_pairs s)))"

primrec ini_lines :: "string \<Rightarrow> string list" where
  "ini_lines [] = []"
| "ini_lines (c # s) =
     (if c = CHR 0x0A then [] # ini_lines s
      else (case ini_lines s of [] \<Rightarrow> [[c]] | l # ls \<Rightarrow> (c # l) # ls))"

primrec ini_read_lines :: "string list \<Rightarrow> IniKeyValue option list \<times> IniSection option list" where
  \<comment> \<open>the pairs before the first header, and the sections\<close>
  "ini_read_lines [] = ([], [])"
| "ini_read_lines (l # ls) =
     (case ini_read_lines ls of
        (pairs, sections) \<Rightarrow>
          (case l of
             [] \<Rightarrow> (pairs, sections)
           | c # r \<Rightarrow>
               if c = CHR ''['' then ([], Some \<lparr>ini_section_name = Some (butlast r), ini_key_value_pairs = pairs\<rparr> # sections)
               else (Some \<lparr>ini_key = Some (takeWhile (\<lambda>x. x \<noteq> CHR ''='') l),
                           ini_value = Some (tl (dropWhile (\<lambda>x. x \<noteq> CHR ''='') l))\<rparr> # pairs, sections)))"

definition list_ini_parse :: "string \<Rightarrow> Ini option" where
  "list_ini_parse s = Some \<lparr>ini_sections = snd (ini_read_lines (ini_lines s))\<rparr>"

definition reference_libs ::
  "(string, HSArrayPair list, HSCookie list, (string \<times> (string \<times> string) list route_value) list,
    (string \<times> string) list) libs" where
  "reference_libs = \<lparr>
     stringfn_equal = (\<lambda>a b. a \<noteq> None \<and> a = b),
     stringfn_starts_with = (\<lambda>a b. case (a, b) of (Some x, Some y) \<Rightarrow> prefix y x | _ \<Rightarrow> False),
     stringfn_substring = (\<lambda>s i n. Some (if n = 0 then drop (nat i) s else take n (drop (nat i) s))),
     stringfn_mut_substring = (\<lambda>s i n. let r = (if n = 0 then drop (nat i) s else take n (drop (nat i) s)) in (r, Some r)),
     stringfn_mut_to_lowercase = map c_tolower,
     stringfn_split_words = list_words [],
     stringbuffer_new = [], stringbuffer_append = (\<lambda>b c. b @ [c]), stringbuffer_append_string = (@),
     stringbuffer_append_int = (\<lambda>b i. b @ show_int i), stringbuffer_append_long = (\<lambda>b i. b @ show_int i), stringbuffer_append_unsigned = (\<lambda>b n. b @ show_nat n),
     stringbuffer_to_string = id, stringbuffer_get_content_size = length,
     stringbuffer_is_empty = (\<lambda>b. b = []), stringbuffer_clear = (\<lambda>_. []),
     pair_vec = list_vector, cookie_vec = list_vector, state_table = alist_table, session_table = alist_table,
     fsio_file_extension = list_extension, fsio_join_paths = list_join,
     fsio_file_exists = (\<lambda>p w. files w p \<noteq> None), fsio_dir_exists = (\<lambda>p w. dirs w p \<noteq> None),
     fsio_file_size = (\<lambda>p w. case files w p of None \<Rightarrow> 0 | Some s \<Rightarrow> int (length s)),
     fsio_read_text_file = (\<lambda>p w. files w p),
     fsio_write_text_file = (\<lambda>p s w. case s of None \<Rightarrow> (False, w) | Some t \<Rightarrow> (True, w\<lparr>files := (files w)(p \<mapsto> t)\<rparr>)),
     fsio_remove = (\<lambda>p w. w\<lparr>files := (files w)(p := None)\<rparr>),
     ini_to_string = (\<lambda>ini. Some (concat (map ini_section_text (ini_sections ini)))), ini_parse_string = list_ini_parse,
     SSL_new = (\<lambda>_ w. (None, w)), SSL_set_fd = (\<lambda>_ _ w. w), SSL_accept = (\<lambda>_ w. (-1, w)),
     SSL_read = (\<lambda>_ _ w. ret (-1, [], w)), SSL_write = (\<lambda>_ _ _ w. (-1, w)),
     SSL_shutdown = (\<lambda>_ w. w), SSL_free = (\<lambda>_ w. w)\<rparr>"

lemma list_vector_ok: "vector_ok list_vector"
  by (auto simp: vector_ok_def list_vector_def nth_append min_def)

lemma alist_table_ok: "hashtable_ok alist_table"
  by (auto simp: hashtable_ok_def alist_table_def AList.distinct_clearjunk AList.map_of_clearjunk)

lemma list_words_word:
  "list_all (\<lambda>x. \<not> c_isspace x) w \<Longrightarrow> list_words acc (w @ s) = list_words (rev w @ acc) s"
  by (induction w arbitrary: acc) auto

lemma list_words3:
  assumes "list_all (\<lambda>w. w \<noteq> [] \<and> list_all (\<lambda>x. \<not> c_isspace x) w) [a, b, c]"
  shows "list_words [] (a @ CHR '' '' # b @ CHR '' '' # c) = [a, b, c]"
  using assms list_words_word [of c "[]" "[]"] by (simp add: list_words_word c_isspace_def)

lemma takeWhile_rev_ext:
  "\<forall>c \<in> set ext. P c \<Longrightarrow> \<not> P x \<Longrightarrow> takeWhile P (rev (base @ x # ext)) = rev ext"
  by (simp add: takeWhile_append)

lemma list_extension_dot:
  assumes "CHR ''.'' \<notin> set ext" "CHR ''/'' \<notin> set ext"
  shows "list_extension (base @ CHR ''.'' # ext) = Some (CHR ''.'' # ext)"
proof -
  let ?P = "\<lambda>c. c \<noteq> CHR ''.'' \<and> c \<noteq> CHR ''/''"
  have "\<forall>c \<in> set ext. ?P c" using assms by auto
  then have "takeWhile ?P (rev (base @ CHR ''.'' # ext)) = rev ext"
    by (intro takeWhile_rev_ext) simp_all
  then show ?thesis by (simp add: list_extension_def Let_def)
qed

lemma reference_libs_ok: "libs_ok reference_libs"
  unfolding libs_ok_def stringfn_ok_def stringbuffer_ok_def
  using list_words3
  by (simp add: reference_libs_def list_vector_ok alist_table_ok Let_def)

lemmas reference_ok = reference_libs_ok [THEN libs_ok_parts(1)] reference_libs_ok [THEN libs_ok_parts(2)]
  reference_libs_ok [THEN libs_ok_parts(3)] reference_libs_ok [THEN libs_ok_parts(4)] reference_libs_ok

lemma reference_fsio_ok: "fsio_ok reference_libs"
  by (auto simp: fsio_ok_def reference_libs_def list_extension_dot list_join_def neq_Nil_conv)

lemma ini_lines_line: "CHR 0x0A \<notin> set l \<Longrightarrow> ini_lines (l @ CHR 0x0A # s) = l # ini_lines s"
  by (induction l) auto

lemma plain_word_chars:
  assumes "plain_word s"
  shows "s \<noteq> []" "CHR 0x0A \<notin> set s" "CHR ''='' \<notin> set s" "CHR ''['' \<notin> set s"
  using assms by (auto simp: plain_word_def list_all_iff alphanumeric_def Let_def)

lemma ini_read_pair:
  assumes "plain_word k" "plain_word v"
  shows "ini_read_lines ((k @ CHR ''='' # v) # ls) =
    (Some \<lparr>ini_key = Some k, ini_value = Some v\<rparr> # fst (ini_read_lines ls), snd (ini_read_lines ls))"
proof -
  have k: "\<forall>x \<in> set k. x \<noteq> CHR ''=''" using plain_word_chars(3) [OF assms(1)] by auto
  have h: "k = hd k # tl k" "hd k \<noteq> CHR ''[''"
    using plain_word_chars [OF assms(1)] by (auto simp: neq_Nil_conv)
  have "takeWhile (\<lambda>x. x \<noteq> CHR ''='') (k @ CHR ''='' # v) = k" "dropWhile (\<lambda>x. x \<noteq> CHR ''='') (k @ CHR ''='' # v) = CHR ''='' # v"
    using k by (simp_all add: takeWhile_append dropWhile_append)
  with h show ?thesis by (cases k) (auto split: prod.splits)
qed

lemma ini_read_pairs:
  "list_all (\<lambda>(k, v). plain_word k \<and> plain_word v) pairs \<Longrightarrow>
   ini_read_lines (ini_lines (concat (map (\<lambda>(k, v). ini_pair_text (Some \<lparr>ini_key = Some k, ini_value = Some v\<rparr>)) pairs)))
     = (map (\<lambda>(k, v). Some \<lparr>ini_key = Some k, ini_value = Some v\<rparr>) pairs, [])"
proof (induction pairs)
  case Nil
  then show ?case by simp
next
  case (Cons p ps)
  obtain k v where p: "p = (k, v)" by (cases p)
  with Cons.prems have kv: "plain_word k" "plain_word v" by simp_all
  let ?rest = "concat (map (\<lambda>(k, v). ini_pair_text (Some \<lparr>ini_key = Some k, ini_value = Some v\<rparr>)) ps)"
  have "ini_lines (ini_pair_text (Some \<lparr>ini_key = Some k, ini_value = Some v\<rparr>) @ ?rest) = (k @ CHR ''='' # v) # ini_lines ?rest"
    using ini_lines_line [of "k @ CHR ''='' # v" ?rest] plain_word_chars(2) [OF kv(1)] plain_word_chars(2) [OF kv(2)]
    by (simp add: ini_pair_text_def)
  with Cons p ini_read_pair [OF kv, of "ini_lines ?rest"] show ?case by (simp del: ini_read_lines.simps)
qed

lemma reference_ini_ok: "ini_ok reference_libs"
proof -
  have "list_ini_parse (concat (map ini_section_text (ini_sections (one_section name pairs)))) = Some (one_section name pairs)"
    if "plain_word name" "list_all (\<lambda>(k, v). plain_word k \<and> plain_word v) pairs" for name pairs
  proof -
    let ?body = "concat (map (\<lambda>(k, v). ini_pair_text (Some \<lparr>ini_key = Some k, ini_value = Some v\<rparr>)) pairs)"
    have "concat (map ini_section_text (ini_sections (one_section name pairs))) = (CHR ''['' # name @ '']'') @ CHR 0x0A # ?body"
      by (simp add: one_section_def ini_section_text_def comp_def split_def)
    moreover have "ini_lines ((CHR ''['' # name @ '']'') @ CHR 0x0A # ?body) = (CHR ''['' # name @ '']'') # ini_lines ?body"
      using plain_word_chars(2) [OF that(1)] by (intro ini_lines_line) simp
    ultimately show ?thesis
      using ini_read_pairs [OF that(2)] by (simp add: list_ini_parse_def one_section_def)
  qed
  then show ?thesis by (auto simp: ini_ok_def reference_libs_def list_ini_parse_def)
qed

end
