(* ===== verification/Constants.thy ===== *)
theory Constants
  imports External_Libs
begin

text \<open>
  The mime type functions of \<open>src/hs_constants.c\<close>. The chain of comparisons of
  \<open>hs_constants_file_extension_to_mime_type\<close> is kept in the order of the source, one definition
  per family of types; a table of extensions is the specification it is proved against.
\<close>

primrec hs_constants_mime_type_to_string :: "HSMimeType \<Rightarrow> cstr" where
    "hs_constants_mime_type_to_string HS_MIME_TYPE_NONE = None"
  | "hs_constants_mime_type_to_string HS_MIME_TYPE_APPLICATION_OCTET_STREAM = Some ''application/octet-stream''"
  | "hs_constants_mime_type_to_string HS_MIME_TYPE_TEXT_HTML = Some ''text/html''"
  | "hs_constants_mime_type_to_string HS_MIME_TYPE_TEXT_PLAIN = Some ''text/plain''"
  | "hs_constants_mime_type_to_string HS_MIME_TYPE_TEXT_CSS = Some ''text/css''"
  | "hs_constants_mime_type_to_string HS_MIME_TYPE_TEXT_XML = Some ''text/xml''"
  | "hs_constants_mime_type_to_string HS_MIME_TYPE_TEXT_JAVASCRIPT = Some ''text/javascript''"
  | "hs_constants_mime_type_to_string HS_MIME_TYPE_TEXT_MATHML = Some ''text/mathml''"
  | "hs_constants_mime_type_to_string HS_MIME_TYPE_IMAGE_APNG = Some ''image/apng''"
  | "hs_constants_mime_type_to_string HS_MIME_TYPE_IMAGE_AVIF = Some ''image/avif''"
  | "hs_constants_mime_type_to_string HS_MIME_TYPE_IMAGE_GIF = Some ''image/gif''"
  | "hs_constants_mime_type_to_string HS_MIME_TYPE_IMAGE_JPEG = Some ''image/jpeg''"
  | "hs_constants_mime_type_to_string HS_MIME_TYPE_IMAGE_PNG = Some ''image/png''"
  | "hs_constants_mime_type_to_string HS_MIME_TYPE_IMAGE_SVG = Some ''image/svg+xml''"
  | "hs_constants_mime_type_to_string HS_MIME_TYPE_IMAGE_WEBP = Some ''image/webp''"
  | "hs_constants_mime_type_to_string HS_MIME_TYPE_IMAGE_X_ICON = Some ''image/x-icon''"
  | "hs_constants_mime_type_to_string HS_MIME_TYPE_IMAGE_TIFF = Some ''image/tiff''"
  | "hs_constants_mime_type_to_string HS_MIME_TYPE_IMAGE_X_MS_BMP = Some ''image/x-ms-bmp''"
  | "hs_constants_mime_type_to_string HS_MIME_TYPE_AUDIO_MIDI = Some ''audio/midi''"
  | "hs_constants_mime_type_to_string HS_MIME_TYPE_AUDIO_MPEG = Some ''audio/mpeg''"
  | "hs_constants_mime_type_to_string HS_MIME_TYPE_AUDIO_WAV = Some ''audio/wave''"
  | "hs_constants_mime_type_to_string HS_MIME_TYPE_AUDIO_WEBM = Some ''audio/webm''"
  | "hs_constants_mime_type_to_string HS_MIME_TYPE_AUDIO_OGG = Some ''audio/ogg''"
  | "hs_constants_mime_type_to_string HS_MIME_TYPE_AUDIO_X_M4A = Some ''audio/x-m4a''"
  | "hs_constants_mime_type_to_string HS_MIME_TYPE_AUDIO_X_REALAUDIO = Some ''audio/x-realaudio''"
  | "hs_constants_mime_type_to_string HS_MIME_TYPE_VIDEO_WEBM = Some ''video/webm''"
  | "hs_constants_mime_type_to_string HS_MIME_TYPE_VIDEO_3GPP = Some ''video/3gpp''"
  | "hs_constants_mime_type_to_string HS_MIME_TYPE_VIDEO_MP2T = Some ''video/mp2t''"
  | "hs_constants_mime_type_to_string HS_MIME_TYPE_VIDEO_MP4 = Some ''video/mp4''"
  | "hs_constants_mime_type_to_string HS_MIME_TYPE_VIDEO_MPEG = Some ''video/mpeg''"
  | "hs_constants_mime_type_to_string HS_MIME_TYPE_VIDEO_QUICKTIME = Some ''video/quicktime''"
  | "hs_constants_mime_type_to_string HS_MIME_TYPE_VIDEO_X_FLV = Some ''video/x-flv''"
  | "hs_constants_mime_type_to_string HS_MIME_TYPE_APPLICATION_OGG = Some ''application/ogg''"
  | "hs_constants_mime_type_to_string HS_MIME_TYPE_APPLICATION_FONT_WOFF = Some ''application/font-woff''"
  | "hs_constants_mime_type_to_string HS_MIME_TYPE_APPLICATION_ATOM = Some ''application/atom+xml''"
  | "hs_constants_mime_type_to_string HS_MIME_TYPE_APPLICATION_RSS = Some ''application/rss+xml''"
  | "hs_constants_mime_type_to_string HS_MIME_TYPE_APPLICATION_JSON = Some ''application/json''"
  | "hs_constants_mime_type_to_string HS_MIME_TYPE_APPLICATION_JAVA_ARCHIVE = Some ''application/java-archive''"
  | "hs_constants_mime_type_to_string HS_MIME_TYPE_APPLICATION_MSWORD = Some ''application/msword''"
  | "hs_constants_mime_type_to_string HS_MIME_TYPE_APPLICATION_PDF = Some ''application/pdf''"
  | "hs_constants_mime_type_to_string HS_MIME_TYPE_APPLICATION_POSTSCRIPT = Some ''application/postscript''"
  | "hs_constants_mime_type_to_string HS_MIME_TYPE_APPLICATION_RTF = Some ''application/rtf''"
  | "hs_constants_mime_type_to_string HS_MIME_TYPE_APPLICATION_X_7Z_COMPRESSED = Some ''application/x-7z-compressed''"
  | "hs_constants_mime_type_to_string HS_MIME_TYPE_APPLICATION_X_JAVA_JNLP_FILE = Some ''application/x-java-jnlp-file''"
  | "hs_constants_mime_type_to_string HS_MIME_TYPE_APPLICATION_X_PERL = Some ''application/x-perl''"
  | "hs_constants_mime_type_to_string HS_MIME_TYPE_APPLICATION_X_RAR_COMPRESSED = Some ''application/x-rar-compressed''"
  | "hs_constants_mime_type_to_string HS_MIME_TYPE_APPLICATION_X_REDHAT_PACKAGE_MANAGER = Some ''application/x-redhat-package-manager''"
  | "hs_constants_mime_type_to_string HS_MIME_TYPE_APPLICATION_X_SHOCKWAVE_FLASH = Some ''application/x-shockwave-flash''"
  | "hs_constants_mime_type_to_string HS_MIME_TYPE_APPLICATION_X_TCL = Some ''application/x-tcl''"
  | "hs_constants_mime_type_to_string HS_MIME_TYPE_APPLICATION_X_X509_CA_CERT = Some ''application/x-x509-ca-cert''"
  | "hs_constants_mime_type_to_string HS_MIME_TYPE_APPLICATION_XHTML_XML = Some ''application/xhtml+xml''"
  | "hs_constants_mime_type_to_string HS_MIME_TYPE_APPLICATION_ZIP = Some ''application/zip''"

definition text_extension_mime :: "('sb, 'pv, 'cv, 'dt, 'sh) libs \<Rightarrow> string \<Rightarrow> HSMimeType option" where
  "text_extension_mime L e =
     (if stringfn_equal L (Some e) (Some ''.html'') \<or> stringfn_equal L (Some e) (Some ''.htm'')
        \<or> stringfn_equal L (Some e) (Some ''.shtml'') then Some HS_MIME_TYPE_TEXT_HTML
      else if stringfn_equal L (Some e) (Some ''.txt'') \<or> stringfn_equal L (Some e) (Some ''.md'')
        \<or> stringfn_equal L (Some e) (Some ''.c'') \<or> stringfn_equal L (Some e) (Some ''.h'')
        \<or> stringfn_equal L (Some e) (Some ''.cpp'') \<or> stringfn_equal L (Some e) (Some ''.java'')
        \<or> stringfn_equal L (Some e) (Some ''.toml'') \<or> stringfn_equal L (Some e) (Some ''.cfg'')
        \<or> stringfn_equal L (Some e) (Some ''.sh'') \<or> stringfn_equal L (Some e) (Some ''.bat'')
        \<or> stringfn_equal L (Some e) (Some ''.com'') \<or> stringfn_equal L (Some e) (Some ''.rust'')
        \<or> stringfn_equal L (Some e) (Some ''.editorconfig'') \<or> stringfn_equal L (Some e) (Some ''.gitignore'')
        \<or> stringfn_equal L (Some e) (Some ''.gitattributes'')
        \<or> stringfn_equal L (Some e) (Some ''.R'') then Some HS_MIME_TYPE_TEXT_PLAIN
      else if stringfn_equal L (Some e) (Some ''.css'') then Some HS_MIME_TYPE_TEXT_CSS
      else if stringfn_equal L (Some e) (Some ''.xml'') then Some HS_MIME_TYPE_TEXT_XML
      else if stringfn_equal L (Some e) (Some ''.js'') then Some HS_MIME_TYPE_TEXT_JAVASCRIPT
      else if stringfn_equal L (Some e) (Some ''.mml'') then Some HS_MIME_TYPE_TEXT_MATHML
      else None)"

definition image_extension_mime :: "('sb, 'pv, 'cv, 'dt, 'sh) libs \<Rightarrow> string \<Rightarrow> HSMimeType option" where
  "image_extension_mime L e =
     (if stringfn_equal L (Some e) (Some ''.gif'') then Some HS_MIME_TYPE_IMAGE_GIF
      else if stringfn_equal L (Some e) (Some ''.jpeg'')
        \<or> stringfn_equal L (Some e) (Some ''.jpg'') then Some HS_MIME_TYPE_IMAGE_JPEG
      else if stringfn_equal L (Some e) (Some ''.png'') then Some HS_MIME_TYPE_IMAGE_PNG
      else if stringfn_equal L (Some e) (Some ''.svg'')
        \<or> stringfn_equal L (Some e) (Some ''.sngz'') then Some HS_MIME_TYPE_IMAGE_SVG
      else if stringfn_equal L (Some e) (Some ''.webp'') then Some HS_MIME_TYPE_IMAGE_WEBP
      else if stringfn_equal L (Some e) (Some ''.ico'') then Some HS_MIME_TYPE_IMAGE_X_ICON
      else if stringfn_equal L (Some e) (Some ''.tif'')
        \<or> stringfn_equal L (Some e) (Some ''.tiff'') then Some HS_MIME_TYPE_IMAGE_TIFF
      else if stringfn_equal L (Some e) (Some ''.bmp'') then Some HS_MIME_TYPE_IMAGE_X_MS_BMP
      else None)"

definition audio_extension_mime :: "('sb, 'pv, 'cv, 'dt, 'sh) libs \<Rightarrow> string \<Rightarrow> HSMimeType option" where
  "audio_extension_mime L e =
     (if stringfn_equal L (Some e) (Some ''.mid'') \<or> stringfn_equal L (Some e) (Some ''.midi'')
        \<or> stringfn_equal L (Some e) (Some ''.kar'') then Some HS_MIME_TYPE_AUDIO_MIDI
      else if stringfn_equal L (Some e) (Some ''.mp3'') then Some HS_MIME_TYPE_AUDIO_MPEG
      else if stringfn_equal L (Some e) (Some ''.wav'') then Some HS_MIME_TYPE_AUDIO_WAV
      else if stringfn_equal L (Some e) (Some ''.ogg'') then Some HS_MIME_TYPE_AUDIO_OGG
      else if stringfn_equal L (Some e) (Some ''.m4a'') then Some HS_MIME_TYPE_AUDIO_X_M4A
      else if stringfn_equal L (Some e) (Some ''.ra'') then Some HS_MIME_TYPE_AUDIO_X_REALAUDIO
      else None)"

definition video_extension_mime :: "('sb, 'pv, 'cv, 'dt, 'sh) libs \<Rightarrow> string \<Rightarrow> HSMimeType option" where
  "video_extension_mime L e =
     (if stringfn_equal L (Some e) (Some ''.webm'') then Some HS_MIME_TYPE_VIDEO_WEBM
      else if stringfn_equal L (Some e) (Some ''.3gpp'')
        \<or> stringfn_equal L (Some e) (Some ''.3gp'') then Some HS_MIME_TYPE_VIDEO_3GPP
      else if stringfn_equal L (Some e) (Some ''.ts'') then Some HS_MIME_TYPE_VIDEO_MP2T
      else if stringfn_equal L (Some e) (Some ''.mp4'') then Some HS_MIME_TYPE_VIDEO_MP4
      else if stringfn_equal L (Some e) (Some ''.mpeg'')
        \<or> stringfn_equal L (Some e) (Some ''.mpg'') then Some HS_MIME_TYPE_VIDEO_MPEG
      else if stringfn_equal L (Some e) (Some ''.mpeg'')
        \<or> stringfn_equal L (Some e) (Some ''.mpg'') then Some HS_MIME_TYPE_VIDEO_QUICKTIME
      else if stringfn_equal L (Some e) (Some ''.mov'') then Some HS_MIME_TYPE_VIDEO_X_FLV
      else if stringfn_equal L (Some e) (Some ''.flv'') then Some HS_MIME_TYPE_VIDEO_X_FLV
      else None)"

definition application_extension_mime :: "('sb, 'pv, 'cv, 'dt, 'sh) libs \<Rightarrow> string \<Rightarrow> HSMimeType option" where
  "application_extension_mime L e =
     (if stringfn_equal L (Some e) (Some ''.woff'') then Some HS_MIME_TYPE_APPLICATION_FONT_WOFF
      else if stringfn_equal L (Some e) (Some ''.atom'') then Some HS_MIME_TYPE_APPLICATION_ATOM
      else if stringfn_equal L (Some e) (Some ''.rss'') then Some HS_MIME_TYPE_APPLICATION_RSS
      else if stringfn_equal L (Some e) (Some ''.json'') then Some HS_MIME_TYPE_APPLICATION_JSON
      else if stringfn_equal L (Some e) (Some ''.jar'') \<or> stringfn_equal L (Some e) (Some ''.war'')
        \<or> stringfn_equal L (Some e) (Some ''.ear'') then Some HS_MIME_TYPE_APPLICATION_JAVA_ARCHIVE
      else if stringfn_equal L (Some e) (Some ''.doc'') then Some HS_MIME_TYPE_APPLICATION_MSWORD
      else if stringfn_equal L (Some e) (Some ''.pdf'') then Some HS_MIME_TYPE_APPLICATION_PDF
      else if stringfn_equal L (Some e) (Some ''.ps'') \<or> stringfn_equal L (Some e) (Some ''.eps'')
        \<or> stringfn_equal L (Some e) (Some ''.ai'') then Some HS_MIME_TYPE_APPLICATION_POSTSCRIPT
      else if stringfn_equal L (Some e) (Some ''.rtf'') then Some HS_MIME_TYPE_APPLICATION_RTF
      else if stringfn_equal L (Some e) (Some ''.7z'') then Some HS_MIME_TYPE_APPLICATION_X_7Z_COMPRESSED
      else if stringfn_equal L (Some e) (Some ''.jnlp'') then Some HS_MIME_TYPE_APPLICATION_X_JAVA_JNLP_FILE
      else if stringfn_equal L (Some e) (Some ''.pl'')
        \<or> stringfn_equal L (Some e) (Some ''.pm'') then Some HS_MIME_TYPE_APPLICATION_X_PERL
      else if stringfn_equal L (Some e) (Some ''.rar'') then Some HS_MIME_TYPE_APPLICATION_X_RAR_COMPRESSED
      else if stringfn_equal L (Some e) (Some ''.rpm'') then Some HS_MIME_TYPE_APPLICATION_X_REDHAT_PACKAGE_MANAGER
      else if stringfn_equal L (Some e) (Some ''.swf'') then Some HS_MIME_TYPE_APPLICATION_X_SHOCKWAVE_FLASH
      else if stringfn_equal L (Some e) (Some ''.tcl'')
        \<or> stringfn_equal L (Some e) (Some ''.tk'') then Some HS_MIME_TYPE_APPLICATION_X_TCL
      else if stringfn_equal L (Some e) (Some ''.cert'') \<or> stringfn_equal L (Some e) (Some ''.der'')
        \<or> stringfn_equal L (Some e) (Some ''.pem'') then Some HS_MIME_TYPE_APPLICATION_X_X509_CA_CERT
      else if stringfn_equal L (Some e) (Some ''.xhtml'') then Some HS_MIME_TYPE_APPLICATION_XHTML_XML
      else if stringfn_equal L (Some e) (Some ''.zip'') then Some HS_MIME_TYPE_APPLICATION_ZIP
      else None)"

definition hs_constants_file_extension_to_mime_type ::
  "('sb, 'pv, 'cv, 'dt, 'sh) libs \<Rightarrow> cstr \<Rightarrow> HSMimeType" where
  "hs_constants_file_extension_to_mime_type L path =
     (case path of
        None \<Rightarrow> HS_MIME_TYPE_APPLICATION_OCTET_STREAM
      | Some p \<Rightarrow>
          (case fsio_file_extension L p of
             None \<Rightarrow> HS_MIME_TYPE_APPLICATION_OCTET_STREAM
           | Some extension \<Rightarrow>
               (let e = stringfn_mut_to_lowercase L extension in
                case text_extension_mime L e of Some m \<Rightarrow> m | None \<Rightarrow>
                (case image_extension_mime L e of Some m \<Rightarrow> m | None \<Rightarrow>
                (case audio_extension_mime L e of Some m \<Rightarrow> m | None \<Rightarrow>
                (case video_extension_mime L e of Some m \<Rightarrow> m | None \<Rightarrow>
                (case application_extension_mime L e of Some m \<Rightarrow> m | None \<Rightarrow>
                   HS_MIME_TYPE_APPLICATION_OCTET_STREAM)))))))"

section \<open>The table the chain implements\<close>

definition text_mime_table :: "(string \<times> HSMimeType) list" where
  "text_mime_table =
    [(''.html'', HS_MIME_TYPE_TEXT_HTML),
     (''.htm'', HS_MIME_TYPE_TEXT_HTML),
     (''.shtml'', HS_MIME_TYPE_TEXT_HTML),
     (''.txt'', HS_MIME_TYPE_TEXT_PLAIN),
     (''.md'', HS_MIME_TYPE_TEXT_PLAIN),
     (''.c'', HS_MIME_TYPE_TEXT_PLAIN),
     (''.h'', HS_MIME_TYPE_TEXT_PLAIN),
     (''.cpp'', HS_MIME_TYPE_TEXT_PLAIN),
     (''.java'', HS_MIME_TYPE_TEXT_PLAIN),
     (''.toml'', HS_MIME_TYPE_TEXT_PLAIN),
     (''.cfg'', HS_MIME_TYPE_TEXT_PLAIN),
     (''.sh'', HS_MIME_TYPE_TEXT_PLAIN),
     (''.bat'', HS_MIME_TYPE_TEXT_PLAIN),
     (''.com'', HS_MIME_TYPE_TEXT_PLAIN),
     (''.rust'', HS_MIME_TYPE_TEXT_PLAIN),
     (''.editorconfig'', HS_MIME_TYPE_TEXT_PLAIN),
     (''.gitignore'', HS_MIME_TYPE_TEXT_PLAIN),
     (''.gitattributes'', HS_MIME_TYPE_TEXT_PLAIN),
     (''.css'', HS_MIME_TYPE_TEXT_CSS),
     (''.xml'', HS_MIME_TYPE_TEXT_XML),
     (''.js'', HS_MIME_TYPE_TEXT_JAVASCRIPT),
     (''.mml'', HS_MIME_TYPE_TEXT_MATHML)]"

definition image_mime_table :: "(string \<times> HSMimeType) list" where
  "image_mime_table =
    [(''.gif'', HS_MIME_TYPE_IMAGE_GIF),
     (''.jpeg'', HS_MIME_TYPE_IMAGE_JPEG),
     (''.jpg'', HS_MIME_TYPE_IMAGE_JPEG),
     (''.png'', HS_MIME_TYPE_IMAGE_PNG),
     (''.svg'', HS_MIME_TYPE_IMAGE_SVG),
     (''.sngz'', HS_MIME_TYPE_IMAGE_SVG),
     (''.webp'', HS_MIME_TYPE_IMAGE_WEBP),
     (''.ico'', HS_MIME_TYPE_IMAGE_X_ICON),
     (''.tif'', HS_MIME_TYPE_IMAGE_TIFF),
     (''.tiff'', HS_MIME_TYPE_IMAGE_TIFF),
     (''.bmp'', HS_MIME_TYPE_IMAGE_X_MS_BMP)]"

definition audio_mime_table :: "(string \<times> HSMimeType) list" where
  "audio_mime_table =
    [(''.mid'', HS_MIME_TYPE_AUDIO_MIDI),
     (''.midi'', HS_MIME_TYPE_AUDIO_MIDI),
     (''.kar'', HS_MIME_TYPE_AUDIO_MIDI),
     (''.mp3'', HS_MIME_TYPE_AUDIO_MPEG),
     (''.wav'', HS_MIME_TYPE_AUDIO_WAV),
     (''.ogg'', HS_MIME_TYPE_AUDIO_OGG),
     (''.m4a'', HS_MIME_TYPE_AUDIO_X_M4A),
     (''.ra'', HS_MIME_TYPE_AUDIO_X_REALAUDIO)]"

definition video_mime_table :: "(string \<times> HSMimeType) list" where
  "video_mime_table =
    [(''.webm'', HS_MIME_TYPE_VIDEO_WEBM),
     (''.3gpp'', HS_MIME_TYPE_VIDEO_3GPP),
     (''.3gp'', HS_MIME_TYPE_VIDEO_3GPP),
     (''.ts'', HS_MIME_TYPE_VIDEO_MP2T),
     (''.mp4'', HS_MIME_TYPE_VIDEO_MP4),
     (''.mpeg'', HS_MIME_TYPE_VIDEO_MPEG),
     (''.mpg'', HS_MIME_TYPE_VIDEO_MPEG),
     (''.mov'', HS_MIME_TYPE_VIDEO_X_FLV),
     (''.flv'', HS_MIME_TYPE_VIDEO_X_FLV)]"

definition application_mime_table :: "(string \<times> HSMimeType) list" where
  "application_mime_table =
    [(''.woff'', HS_MIME_TYPE_APPLICATION_FONT_WOFF),
     (''.atom'', HS_MIME_TYPE_APPLICATION_ATOM),
     (''.rss'', HS_MIME_TYPE_APPLICATION_RSS),
     (''.json'', HS_MIME_TYPE_APPLICATION_JSON),
     (''.jar'', HS_MIME_TYPE_APPLICATION_JAVA_ARCHIVE),
     (''.war'', HS_MIME_TYPE_APPLICATION_JAVA_ARCHIVE),
     (''.ear'', HS_MIME_TYPE_APPLICATION_JAVA_ARCHIVE),
     (''.doc'', HS_MIME_TYPE_APPLICATION_MSWORD),
     (''.pdf'', HS_MIME_TYPE_APPLICATION_PDF),
     (''.ps'', HS_MIME_TYPE_APPLICATION_POSTSCRIPT),
     (''.eps'', HS_MIME_TYPE_APPLICATION_POSTSCRIPT),
     (''.ai'', HS_MIME_TYPE_APPLICATION_POSTSCRIPT),
     (''.rtf'', HS_MIME_TYPE_APPLICATION_RTF),
     (''.7z'', HS_MIME_TYPE_APPLICATION_X_7Z_COMPRESSED),
     (''.jnlp'', HS_MIME_TYPE_APPLICATION_X_JAVA_JNLP_FILE),
     (''.pl'', HS_MIME_TYPE_APPLICATION_X_PERL),
     (''.pm'', HS_MIME_TYPE_APPLICATION_X_PERL),
     (''.rar'', HS_MIME_TYPE_APPLICATION_X_RAR_COMPRESSED),
     (''.rpm'', HS_MIME_TYPE_APPLICATION_X_REDHAT_PACKAGE_MANAGER),
     (''.swf'', HS_MIME_TYPE_APPLICATION_X_SHOCKWAVE_FLASH),
     (''.tcl'', HS_MIME_TYPE_APPLICATION_X_TCL),
     (''.tk'', HS_MIME_TYPE_APPLICATION_X_TCL),
     (''.cert'', HS_MIME_TYPE_APPLICATION_X_X509_CA_CERT),
     (''.der'', HS_MIME_TYPE_APPLICATION_X_X509_CA_CERT),
     (''.pem'', HS_MIME_TYPE_APPLICATION_X_X509_CA_CERT),
     (''.xhtml'', HS_MIME_TYPE_APPLICATION_XHTML_XML),
     (''.zip'', HS_MIME_TYPE_APPLICATION_ZIP)]"

definition mime_table :: "(string \<times> HSMimeType) list" where
  "mime_table = text_mime_table @ image_mime_table @ audio_mime_table @ video_mime_table @ application_mime_table"

lemma if_disj: "(if P \<or> Q then x else y) = (if P then x else if Q then x else y)"
  by simp

lemma lower_no_R: "map c_tolower x \<noteq> ''.R''"
proof -
  have "c_tolower c \<noteq> CHR ''R''" for c
  proof
    assume "c_tolower c = CHR ''R''"
    then have "of_char (c_tolower c) = (82::nat)" by simp
    moreover have "(of_char c :: nat) < 256" by simp
    ultimately show False by (simp add: c_tolower_def Let_def split: if_splits)
  qed
  then show ?thesis by (auto simp: map_eq_Cons_conv)
qed

lemma text_extension_table:
  assumes "stringfn_ok L" and "e \<noteq> ''.R''"
  shows "text_extension_mime L e = map_of text_mime_table e"
  using assms(2) unfolding text_extension_mime_def text_mime_table_def stringfn_laws(1) [OF assms(1)]
  by (simp add: if_disj)

lemma image_extension_table:
  assumes "stringfn_ok L"
  shows "image_extension_mime L e = map_of image_mime_table e"
  unfolding image_extension_mime_def image_mime_table_def stringfn_laws(1) [OF assms]
  by (simp add: if_disj)

lemma audio_extension_table:
  assumes "stringfn_ok L"
  shows "audio_extension_mime L e = map_of audio_mime_table e"
  unfolding audio_extension_mime_def audio_mime_table_def stringfn_laws(1) [OF assms]
  by (simp add: if_disj)

lemma video_extension_table:
  assumes "stringfn_ok L"
  shows "video_extension_mime L e = map_of video_mime_table e"
  unfolding video_extension_mime_def video_mime_table_def stringfn_laws(1) [OF assms]
  by (simp add: if_disj)

lemma application_extension_table:
  assumes "stringfn_ok L"
  shows "application_extension_mime L e = map_of application_mime_table e"
  unfolding application_extension_mime_def application_mime_table_def stringfn_laws(1) [OF assms]
  by (simp add: if_disj)

lemmas extension_tables = text_extension_table [OF _ lower_no_R] image_extension_table
  audio_extension_table video_extension_table application_extension_table

lemma mime_chain_lookup:
  assumes "stringfn_ok L"
  shows "hs_constants_file_extension_to_mime_type L path =
    (case Option.bind path (fsio_file_extension L) of
       None \<Rightarrow> HS_MIME_TYPE_APPLICATION_OCTET_STREAM
     | Some x \<Rightarrow> (case map_of mime_table (map c_tolower x) of
                   None \<Rightarrow> HS_MIME_TYPE_APPLICATION_OCTET_STREAM | Some m \<Rightarrow> m))"
  by (cases path)
    (simp_all add: hs_constants_file_extension_to_mime_type_def extension_tables [OF assms]
      stringfn_laws(3) [OF assms] mime_table_def map_of_append map_add_def Let_def split: option.splits)

section \<open>Names of the types\<close>

definition mime_types :: "HSMimeType list" where
  \<comment> \<open>the types a file can get\<close>
  "mime_types = remdups (HS_MIME_TYPE_APPLICATION_OCTET_STREAM # map snd mime_table)"

definition mime_name_wf :: "string \<Rightarrow> bool" where
  \<comment> \<open>a type and a subtype, one slash, no white space: fit for a header line\<close>
  "mime_name_wf s \<longleftrightarrow> length (filter (\<lambda>c. c = CHR ''/'') s) = 1 \<and> hd s \<noteq> CHR ''/'' \<and> last s \<noteq> CHR ''/''
     \<and> list_all (\<lambda>c. \<not> c_isspace c) s"

lemma mime_types_named:
  "list_all (\<lambda>m. case hs_constants_mime_type_to_string m of None \<Rightarrow> False | Some s \<Rightarrow> mime_name_wf s) mime_types"
  by code_simp

lemma mime_types_missing:
  "list_all (\<lambda>m. \<not> List.member mime_types m)
     [HS_MIME_TYPE_VIDEO_QUICKTIME, HS_MIME_TYPE_NONE, HS_MIME_TYPE_IMAGE_APNG, HS_MIME_TYPE_IMAGE_AVIF,
      HS_MIME_TYPE_AUDIO_WEBM, HS_MIME_TYPE_APPLICATION_OGG]"
  by code_simp

lemma file_mime_in_types:
  assumes "stringfn_ok L"
  shows "hs_constants_file_extension_to_mime_type L path \<in> set mime_types"
proof -
  have m: "m \<in> set mime_types" if "map_of mime_table k = Some m" for k m
    using map_of_SomeD [OF that] by (force simp: mime_types_def)
  have "HS_MIME_TYPE_APPLICATION_OCTET_STREAM \<in> set mime_types" by (simp add: mime_types_def)
  with m show ?thesis
    unfolding mime_chain_lookup [OF assms] by (auto split: option.splits)
qed

section \<open>Properties\<close>

text \<open>
  The type of a file is looked up by its lower-cased extension: the chain of comparisons
  equals the lookup in \<open>mime_table\<close>, and a path without an extension, or with an unknown one, is
  \<open>application/octet-stream\<close>.
\<close>

theorem mime_chain_is_table:
  assumes "stringfn_ok L"
  shows "hs_constants_file_extension_to_mime_type L path =
    (case Option.bind path (fsio_file_extension L) of
       None \<Rightarrow> HS_MIME_TYPE_APPLICATION_OCTET_STREAM
     | Some x \<Rightarrow> (case map_of mime_table (map c_tolower x) of
                   None \<Rightarrow> HS_MIME_TYPE_APPLICATION_OCTET_STREAM | Some m \<Rightarrow> m))"
  using assms by (rule mime_chain_lookup)

theorem mime_chain_is_table_witness:
  "hs_constants_file_extension_to_mime_type reference_libs (Some ''a/Clip.MOV'') = HS_MIME_TYPE_VIDEO_X_FLV"
  by (rule trans [OF mime_chain_is_table [OF reference_ok(1)]]) code_simp

text \<open>
  C31. The type found for a file can always be written as a \<open>Content-Type\<close> value: its name exists,
  is a type and a subtype separated by one slash and holds no white space (which type an extension
  gets is the table of \<open>mime_chain_is_table\<close>). Six types of the
  enumeration are never found, \<open>video/quicktime\<close> among them, whose test repeats the one of
  \<open>video/mpeg\<close>.
\<close>

theorem file_mime_type_writable:
  assumes "stringfn_ok L"
  shows "(\<exists>s. hs_constants_mime_type_to_string (hs_constants_file_extension_to_mime_type L path) = Some s
           \<and> mime_name_wf s)
    \<and> hs_constants_file_extension_to_mime_type L path \<notin>
        {HS_MIME_TYPE_VIDEO_QUICKTIME, HS_MIME_TYPE_NONE, HS_MIME_TYPE_IMAGE_APNG, HS_MIME_TYPE_IMAGE_AVIF,
         HS_MIME_TYPE_AUDIO_WEBM, HS_MIME_TYPE_APPLICATION_OGG}"
  using file_mime_in_types [OF assms, of path] mime_types_named mime_types_missing
  by (force simp: list_all_iff split: option.splits)

theorem file_mime_type_writable_witness:
  "stringfn_ok reference_libs \<and>
   hs_constants_file_extension_to_mime_type reference_libs (Some ''clip.mov'') \<noteq> HS_MIME_TYPE_VIDEO_QUICKTIME"
  using file_mime_type_writable [OF reference_ok(1), of "Some ''clip.mov''"] reference_ok(1) by blast

end
