(* ===== verification/Sockets.thy ===== *)
theory Sockets
  imports External_Libs
begin

text \<open>
  The socket layer of \<open>src/hs_socket.c\<close>. \<open>struct HSSocket\<close> is private to that file and its fields
  are written by its two constructors only: the operation pointers are the plain or the TLS set,
  never NULL, and the struct never changes, so a pointer to it is modelled by an optional value.
  All that changes is the descriptor table of the world. The TLS operations call OpenSSL, a
  parameter of the model.
\<close>

datatype socket_ops = PlainOps | SslOps

record HSSocket =
  socket_ops :: socket_ops
  raw_socket :: int
  socket_internal :: "nat option"

section \<open>Descriptors\<close>

definition hs_socket_get_socket :: "HSSocket option \<Rightarrow> int" where
  "hs_socket_get_socket hssocket =
     (case hssocket of
        None \<Rightarrow> 0
      | Some s \<Rightarrow> if raw_socket s \<le> 0 then 0 else raw_socket s)"

definition hs_socket_is_closed :: "HSSocket option \<Rightarrow> bool" where
  "hs_socket_is_closed hssocket \<longleftrightarrow> hs_socket_get_socket hssocket = 0"

definition hs_socket_is_open :: "HSSocket option \<Rightarrow> bool" where
  "hs_socket_is_open socket = (case socket of None \<Rightarrow> False | Some s \<Rightarrow> \<not> hs_socket_is_closed (Some s))"

definition hs_socket_recv_timeout :: "HSSocket option \<Rightarrow> int \<Rightarrow> world \<Rightarrow> bool \<times> world" where
  "hs_socket_recv_timeout hssocket recv_timeout_seconds w =
     (let socket = hs_socket_get_socket hssocket
      in if socket = 0 then (False, w)
         else if recv_timeout_seconds \<le> 0 then (True, w)
         else (case posix_set_rcvtimeo socket recv_timeout_seconds w of (r, w') \<Rightarrow> (r = 0, w')))"

definition hs_socket_set_recv_timeout_in_seconds :: "HSSocket option \<Rightarrow> int \<Rightarrow> world \<Rightarrow> bool \<times> world" where
  "hs_socket_set_recv_timeout_in_seconds socket recv_timeout_seconds w =
     (case socket of None \<Rightarrow> (False, w) | Some s \<Rightarrow> hs_socket_recv_timeout (Some s) recv_timeout_seconds w)"

section \<open>The plain operations\<close>

definition hs_socket_plain_read :: "HSSocket option \<Rightarrow> nat \<Rightarrow> world \<Rightarrow> (int \<times> string \<times> world) run" where
  "hs_socket_plain_read hssocket count w =
     (let socket = hs_socket_get_socket hssocket
      in if socket = 0 then ret (-1, [], w) else posix_read socket count w)"

definition hs_socket_plain_write :: "HSSocket option \<Rightarrow> string \<Rightarrow> world \<Rightarrow> int \<times> world" where
  "hs_socket_plain_write hssocket buffer w =
     (let socket = hs_socket_get_socket hssocket
      in if socket = 0 then (-1, w) else posix_write socket buffer w)"

definition hs_socket_plain_close :: "HSSocket option \<Rightarrow> world \<Rightarrow> world" where
  "hs_socket_plain_close hssocket w =
     (let socket = hs_socket_get_socket hssocket
      in if socket = 0 then w else snd (posix_close socket w))"

definition hs_socket_plain_new :: "int \<Rightarrow> HSSocket option" where
  "hs_socket_plain_new socket =
     (if socket = 0 then None
      else Some \<lparr>socket_ops = PlainOps, raw_socket = socket, socket_internal = None\<rparr>)"

definition hs_socket_server_accept :: "HSSocket option \<Rightarrow> world \<Rightarrow> int \<times> world" where
  "hs_socket_server_accept server_socket w =
     (let socket_fd = hs_socket_get_socket server_socket
      in if socket_fd = 0 then (0, w)
         else (case posix_accept socket_fd w of
                 (client_socket, w') \<Rightarrow> (if client_socket \<le> 0 then 0 else client_socket, w')))"

definition hs_socket_plain_accept :: "HSSocket option \<Rightarrow> world \<Rightarrow> HSSocket option \<times> world" where
  "hs_socket_plain_accept server_socket w =
     (case hs_socket_server_accept server_socket w of
        (client_socket, w') \<Rightarrow> (if client_socket = 0 then None else hs_socket_plain_new client_socket, w'))"

section \<open>The TLS operations\<close>

definition hs_socket_get_ssl :: "HSSocket option \<Rightarrow> nat option" where
  "hs_socket_get_ssl hssocket =
     (if hs_socket_get_socket hssocket = 0 then None
      else (case hssocket of None \<Rightarrow> None | Some s \<Rightarrow> socket_internal s))"

definition to_c_int :: "nat \<Rightarrow> int" where
  \<comment> \<open>the cast \<open>(int)count\<close> of a \<open>size_t\<close>\<close>
  "to_c_int count = signed_take_bit 31 (int count)"

definition hs_socket_ssl_read ::
  "('sb, 'pv, 'cv, 'dt, 'sh) libs \<Rightarrow> HSSocket option \<Rightarrow> nat \<Rightarrow> world \<Rightarrow> (int \<times> string \<times> world) run" where
  "hs_socket_ssl_read L hssocket count w =
     (case hs_socket_get_ssl hssocket of
        None \<Rightarrow> ret (-1, [], w)
      | Some ssl \<Rightarrow>
          bindR (SSL_read L ssl (to_c_int count) w)
            (\<lambda>(r, bytes, w'). ret (if r \<le> 0 then -1 else r, bytes, w')))"

definition hs_socket_ssl_write ::
  "('sb, 'pv, 'cv, 'dt, 'sh) libs \<Rightarrow> HSSocket option \<Rightarrow> string \<Rightarrow> world \<Rightarrow> int \<times> world" where
  "hs_socket_ssl_write L hssocket buffer w =
     (case hs_socket_get_ssl hssocket of
        None \<Rightarrow> (-1, w)
      | Some ssl \<Rightarrow> (case SSL_write L ssl buffer (to_c_int (length buffer)) w of (r, w') \<Rightarrow> if r \<le> 0 then (-1, w') else (r, w')))"

definition hs_socket_ssl_close ::
  "('sb, 'pv, 'cv, 'dt, 'sh) libs \<Rightarrow> HSSocket option \<Rightarrow> world \<Rightarrow> world" where
  "hs_socket_ssl_close L hssocket w =
     (let socket = hs_socket_get_socket hssocket
      in if socket = 0 then w
         else (let w' = (case hs_socket_get_ssl hssocket of None \<Rightarrow> w | Some ssl \<Rightarrow> SSL_shutdown L ssl w)
               in snd (posix_close socket w')))"

definition hs_socket_ssl_release ::
  "('sb, 'pv, 'cv, 'dt, 'sh) libs \<Rightarrow> HSSocket option \<Rightarrow> world \<Rightarrow> world" where
  "hs_socket_ssl_release L hssocket w =
     (case hssocket of
        None \<Rightarrow> w
      | Some s \<Rightarrow> (case hs_socket_get_ssl hssocket of None \<Rightarrow> w | Some ssl \<Rightarrow> SSL_free L ssl w))"

section \<open>Dispatch\<close>

definition hs_socket_read ::
  "('sb, 'pv, 'cv, 'dt, 'sh) libs \<Rightarrow> HSSocket option \<Rightarrow> nat \<Rightarrow> world \<Rightarrow> (int \<times> string \<times> world) run" where
  "hs_socket_read L socket count w =
     (case socket of
        None \<Rightarrow> ret (-1, [], w)
      | Some s \<Rightarrow> (case socket_ops s of
                     PlainOps \<Rightarrow> hs_socket_plain_read socket count w
                   | SslOps \<Rightarrow> hs_socket_ssl_read L socket count w))"

definition hs_socket_write ::
  "('sb, 'pv, 'cv, 'dt, 'sh) libs \<Rightarrow> HSSocket option \<Rightarrow> string \<Rightarrow> world \<Rightarrow> int \<times> world" where
  "hs_socket_write L socket buffer w =
     (case socket of
        None \<Rightarrow> (-1, w)
      | Some s \<Rightarrow> (case socket_ops s of
                     PlainOps \<Rightarrow> hs_socket_plain_write socket buffer w
                   | SslOps \<Rightarrow> hs_socket_ssl_write L socket buffer w))"

definition hs_socket_close ::
  "('sb, 'pv, 'cv, 'dt, 'sh) libs \<Rightarrow> HSSocket option \<Rightarrow> world \<Rightarrow> world" where
  "hs_socket_close L socket w =
     (case socket of
        None \<Rightarrow> w
      | Some s \<Rightarrow> (case socket_ops s of
                     PlainOps \<Rightarrow> hs_socket_plain_close socket w
                   | SslOps \<Rightarrow> hs_socket_ssl_close L socket w))"

definition hs_socket_close_and_release ::
  "('sb, 'pv, 'cv, 'dt, 'sh) libs \<Rightarrow> HSSocket option \<Rightarrow> world \<Rightarrow> world" where
  "hs_socket_close_and_release L socket w =
     (case socket of
        None \<Rightarrow> w
      | Some s \<Rightarrow>
          (let w' = hs_socket_close L socket w
           in case socket_ops s of
                PlainOps \<Rightarrow> w'   \<comment> \<open>only releases memory\<close>
              | SslOps \<Rightarrow> hs_socket_ssl_release L socket w'))"

definition hs_socket_ssl_new ::
  "('sb, 'pv, 'cv, 'dt, 'sh) libs \<Rightarrow> int \<Rightarrow> nat option \<Rightarrow> world \<Rightarrow> HSSocket option \<times> world" where
  "hs_socket_ssl_new L socket ssl_context w =
     (if socket = 0 then (None, w)
      else (case ssl_context of
              None \<Rightarrow> (None, w)
            | Some ctx \<Rightarrow>
                (case SSL_new L ctx w of
                   (None, w') \<Rightarrow> (None, w')
                 | (Some ssl, w') \<Rightarrow>
                     (Some \<lparr>socket_ops = SslOps, raw_socket = socket, socket_internal = Some ssl\<rparr>,
                      SSL_set_fd L ssl socket w'))))"

definition hs_socket_ssl_accept ::
  "('sb, 'pv, 'cv, 'dt, 'sh) libs \<Rightarrow> HSSocket option \<Rightarrow> nat option \<Rightarrow> world \<Rightarrow> HSSocket option \<times> world" where
  "hs_socket_ssl_accept L server_socket ssl_context w =
     (case hs_socket_server_accept server_socket w of
        (client_socket, w1) \<Rightarrow>
          if client_socket = 0 then (None, w1)
          else (case hs_socket_ssl_new L client_socket ssl_context w1 of
                  (None, w2) \<Rightarrow> (None, w2)
                | (Some hssocket, w2) \<Rightarrow>
                    (case socket_internal hssocket of
                       None \<Rightarrow> (Some hssocket, w2)
                     | Some ssl \<Rightarrow>
                         (case SSL_accept L ssl w2 of
                            (r, w3) \<Rightarrow>
                              if r \<le> 0 then (None, hs_socket_close_and_release L (Some hssocket) w3)
                              else (Some hssocket, w3)))))"

section \<open>A plain open socket\<close>

definition plain_socket :: "HSSocket option \<Rightarrow> int \<Rightarrow> bool" where
  "plain_socket socket fd \<longleftrightarrow>
     (\<exists>s. socket = Some s \<and> socket_ops s = PlainOps \<and> raw_socket s = fd \<and> 0 < fd)"

lemma plain_socket_simps:
  assumes "plain_socket socket fd"
  shows "hs_socket_get_socket socket = fd" "hs_socket_is_open socket" "socket \<noteq> None" "0 < fd" "fd \<noteq> 0"
    "hs_socket_read L socket count w = posix_read fd count w"
    "hs_socket_write L socket buffer w = posix_write fd buffer w"
    "hs_socket_close L socket w = snd (posix_close fd w)"
    "hs_socket_close_and_release L socket w = snd (posix_close fd w)"
  using assms
  by (auto simp: plain_socket_def hs_socket_get_socket_def hs_socket_is_open_def hs_socket_is_closed_def
      hs_socket_read_def hs_socket_plain_read_def hs_socket_write_def hs_socket_plain_write_def
      hs_socket_close_def hs_socket_plain_close_def hs_socket_close_and_release_def)

lemma plain_accept_cases:
  assumes "plain_socket server sfd" and "fds w sfd = Some sst" and "backlog w = Some st # rest"
    and "free_fds w = n # ns" and "0 < n"
  shows "hs_socket_plain_accept server w =
    (Some \<lparr>socket_ops = PlainOps, raw_socket = n, socket_internal = None\<rparr>,
     w\<lparr>fds := (fds w)(n \<mapsto> st), free_fds := ns, backlog := rest\<rparr>)"
  using assms plain_socket_simps(5) [OF assms(1)]
  by (simp add: hs_socket_plain_accept_def hs_socket_server_accept_def plain_socket_simps posix_accept_def
      hs_socket_plain_new_def)

section \<open>Properties\<close>

text \<open>
  C36. A connection is closed twice, and the second close can hit another connection. The router
  closes the socket of a finished connection (\<open>hs_socket_close\<close>) and the connection handler then
  calls \<open>hs_socket_close_and_release\<close> on the same socket. When the accept loop takes the next
  connection in between, the kernel gives it the number just freed (if it is the lowest free
  one), and the second close closes the new connection.
\<close>

theorem double_close_hits_next_connection:
  assumes "plain_socket client n" and "fds w n = Some st" and "list_all (\<lambda>m. n < m) (free_fds w)"
    and "plain_socket server sfd" and "fds w sfd = Some sst" and "sfd \<noteq> n" and "backlog w = Some new # rest"
  shows "\<exists>other w2. hs_socket_plain_accept server (hs_socket_close L client w) = (Some other, w2)
      \<and> fds w2 (raw_socket other) = Some new
      \<and> fds (hs_socket_close_and_release L client w2) (raw_socket other) = None"
proof -
  have n: "0 < n" using assms(1) by (simp add: plain_socket_simps)
  have free: "insort n (free_fds w) = n # free_fds w"
    using assms(3) by (cases "free_fds w") auto
  let ?w1 = "hs_socket_close L client w"
  have w1: "?w1 = w\<lparr>fds := (fds w)(n := None), free_fds := n # free_fds w\<rparr>"
    using assms(1,2) by (simp add: plain_socket_simps posix_close_def free)
  let ?w2 = "?w1\<lparr>fds := (fds ?w1)(n \<mapsto> new), free_fds := free_fds w, backlog := rest\<rparr>"
  have "hs_socket_plain_accept server ?w1 =
      (Some \<lparr>socket_ops = PlainOps, raw_socket = n, socket_internal = None\<rparr>, ?w2)"
    using assms(4-7) n by (intro plain_accept_cases [where sst = sst and sfd = sfd]) (simp_all add: w1)
  moreover have "fds ?w2 n = Some new" by simp
  moreover have "fds (hs_socket_close_and_release L client ?w2) n = None"
    using assms(1) by (simp add: plain_socket_simps posix_close_def)
  ultimately show ?thesis
    by (intro exI [of _ "\<lparr>socket_ops = PlainOps, raw_socket = n, socket_internal = None\<rparr>"] exI [of _ ?w2])
      (simp only: HSSocket.simps simp_thms)
qed

definition two_connections :: world where
  "two_connections =
     (let st = \<lparr>incoming = [], wscript = [], sent = [], rcvtimeo = 0\<rparr>
      in \<lparr>fds = [3 \<mapsto> st, 4 \<mapsto> st], free_fds = [5, 6], backlog = [Some st], files = Map.empty, dirs = Map.empty,
          unwritable = [], disk_free = 0, file_buffers = (\<lambda>_. []), bufsiz = 4096, clock = 0, rands = []\<rparr>)"

theorem double_close_hits_next_connection_witness:
  "\<exists>other w2. hs_socket_plain_accept (hs_socket_plain_new 3)
      (hs_socket_close reference_libs (hs_socket_plain_new 4) two_connections) = (Some other, w2)
      \<and> fds (hs_socket_close_and_release reference_libs (hs_socket_plain_new 4) w2) (raw_socket other) = None"
proof -
  let ?st = "\<lparr>incoming = [], wscript = [], sent = [], rcvtimeo = 0\<rparr>"
  have "\<exists>other w2. hs_socket_plain_accept (hs_socket_plain_new 3)
      (hs_socket_close reference_libs (hs_socket_plain_new 4) two_connections) = (Some other, w2)
      \<and> fds w2 (raw_socket other) = Some ?st
      \<and> fds (hs_socket_close_and_release reference_libs (hs_socket_plain_new 4) w2) (raw_socket other) = None"
    by (rule double_close_hits_next_connection [where n = 4 and sfd = 3 and st = ?st and sst = ?st and rest = "[]"])
      (auto simp: two_connections_def plain_socket_def hs_socket_plain_new_def Let_def)
  then show ?thesis by blast
qed

text \<open>
  A TLS connection whose session cannot be created is dropped with its descriptor left open:
  \<open>hs_socket_ssl_accept\<close> returns NULL and nobody holds the descriptor that was accepted.
\<close>

theorem ssl_accept_leaks_descriptor:
  assumes "plain_socket server sfd" and "fds w sfd = Some sst" and "backlog w = Some new # rest"
    and "free_fds w = n # ns" and "0 < n" and "\<And>w'. SSL_new L ctx w' = (None, w')"
  shows "\<exists>w'. hs_socket_ssl_accept L server (Some ctx) w = (None, w') \<and> fds w' n = Some new"
  using assms plain_socket_simps(5) [OF assms(1)]
  by (simp add: hs_socket_ssl_accept_def hs_socket_server_accept_def plain_socket_simps posix_accept_def
      hs_socket_ssl_new_def)

theorem ssl_accept_leaks_descriptor_witness:
  "\<exists>w'. hs_socket_ssl_accept reference_libs (hs_socket_plain_new 3) (Some 0) two_connections = (None, w')
     \<and> fds w' 5 \<noteq> None"
proof -
  let ?st = "\<lparr>incoming = [], wscript = [], sent = [], rcvtimeo = 0\<rparr>"
  have "\<exists>w'. hs_socket_ssl_accept reference_libs (hs_socket_plain_new 3) (Some 0) two_connections = (None, w')
     \<and> fds w' 5 = Some ?st"
    by (rule ssl_accept_leaks_descriptor [where sfd = 3 and sst = ?st and ns = "[6]" and rest = "[]"])
      (auto simp: two_connections_def plain_socket_def hs_socket_plain_new_def reference_libs_def Let_def)
  then show ?thesis by fastforce
qed

end
