(* ===== verification/IO.thy ===== *)
theory IO
  imports Sockets
begin

text \<open>
  The reader and writer loops of \<open>src/hs_io.c\<close>. The local arrays are lists of
  \<open>HS_IO_READ_BUFFER_SIZE\<close> characters and every store outside of them is a fault, as is a read
  past the end of the bytes to write. A loop over a socket may run forever when the peer or the
  TLS library never stops answering, so it is a partial function; for plain sockets it returns.
\<close>

definition HS_IO_READ_BUFFER_SIZE :: nat where
  "HS_IO_READ_BUFFER_SIZE = 256"

definition fill_buffer :: "char list \<Rightarrow> string \<Rightarrow> char list" where
  \<comment> \<open>a read puts its bytes at the start of the buffer\<close>
  "fill_buffer buffer bytes = bytes @ drop (length bytes) buffer"

definition store_nul :: "char list \<Rightarrow> int \<Rightarrow> char list run" where
  \<comment> \<open>\<open>buffer[size] = 0\<close>\<close>
  "store_nul buffer i =
     (if 0 \<le> i \<and> i < int (length buffer) then ret (buffer[nat i := NUL]) else ub OutOfBounds)"

section \<open>Lines\<close>

definition hs_io_read_line_from_buffer ::
  "('sb, 'pv, 'cv, 'dt, 'sh) libs \<Rightarrow> 'sb \<Rightarrow> cstr \<times> bool \<times> 'sb" where
  \<comment> \<open>the line, whether \<open>*eof\<close> is set, the buffer; the substring call writes its terminator over
      the CR, so what follows the CRLF is still the content\<close>
  "hs_io_read_line_from_buffer L buffer =
     (let len = stringbuffer_get_content_size L buffer
      in if len < 2 then (None, False, buffer)
         else (let content = stringbuffer_to_string L buffer
               in case crlf_index (take len content) of
                    None \<Rightarrow> (None, False, buffer)
                  | Some index \<Rightarrow>
                      (let line = (if index \<noteq> 0 then snd (stringfn_mut_substring L content 0 index) else None);
                           cleared = stringbuffer_clear L buffer
                       in (line, index = 0,
                           if len > index + 1 then stringbuffer_append_string L cleared (drop (index + 2) content)
                           else cleared))))"

partial_function (option) hs_io_read_line_loop ::
  "('sb, 'pv, 'cv, 'dt, 'sh) libs \<Rightarrow> HSSocket option \<Rightarrow> 'sb \<Rightarrow> char list \<Rightarrow> world
    \<Rightarrow> (fault + (cstr \<times> 'sb \<times> world)) option" where
  "hs_io_read_line_loop L socket work_buffer buffer w =
     bindR (hs_socket_read L socket HS_IO_READ_BUFFER_SIZE w)
       (\<lambda>(sz, bytes, w1).
          if sz = 0 then ret (None, work_buffer, w1)
          else bindR (store_nul (fill_buffer buffer bytes) sz)
            (\<lambda>buffer1.
               case hs_io_read_line_from_buffer L (stringbuffer_append_string L work_buffer (c_string buffer1)) of
                 (line, eof, work_buffer1) \<Rightarrow>
                   if eof then ret (None, work_buffer1, w1)
                   else if line \<noteq> None then ret (line, work_buffer1, w1)
                   else if 0 < sz then hs_io_read_line_loop L socket work_buffer1 buffer1 w1
                   else ret (None, work_buffer1, w1)))"

declare hs_io_read_line_loop.simps [code]

definition hs_io_read_line ::
  "('sb, 'pv, 'cv, 'dt, 'sh) libs \<Rightarrow> HSSocket option \<Rightarrow> 'sb option \<Rightarrow> world \<Rightarrow> (cstr \<times> 'sb option \<times> world) run" where
  "hs_io_read_line L socket work_buffer w =
     (if \<not> hs_socket_is_open socket then ret (None, work_buffer, w)
      else (case work_buffer of
              None \<Rightarrow> ret (None, None, w)
            | Some buffer \<Rightarrow>
                (case hs_io_read_line_from_buffer L buffer of
                   (line, eof, buffer1) \<Rightarrow>
                     if eof then ret (None, Some buffer1, w)
                     else if line \<noteq> None then ret (line, Some buffer1, w)
                     else bindR (hs_io_read_line_loop L socket buffer1 (replicate HS_IO_READ_BUFFER_SIZE NUL) w)
                            (\<lambda>(l, b, w1). ret (l, Some b, w1)))))"

section \<open>Payloads\<close>

record 'sb HSIOHttpRequestPayload =
  io_partial :: "'sb option"
  io_socket :: "HSSocket option"

definition hs_io_new_http_request_payload ::
  "HSSocket option \<Rightarrow> 'sb option \<Rightarrow> 'sb HSIOHttpRequestPayload option" where
  "hs_io_new_http_request_payload socket buffer =
     (if \<not> hs_socket_is_open socket \<or> buffer = None then None
      else Some \<lparr>io_partial = buffer, io_socket = socket\<rparr>)"

partial_function (option) hs_io_read_fully_loop ::
  "('sb, 'pv, 'cv, 'dt, 'sh) libs \<Rightarrow> HSSocket option \<Rightarrow> 'sb \<Rightarrow> char list \<Rightarrow> nat \<Rightarrow> world
    \<Rightarrow> (fault + (bool \<times> 'sb \<times> world)) option" where
  "hs_io_read_fully_loop L socket buffer io_buffer left w =
     (let buffer_size = (if left < HS_IO_READ_BUFFER_SIZE then left else HS_IO_READ_BUFFER_SIZE)
      in bindR (hs_socket_read L socket buffer_size w)
           (\<lambda>(sz, bytes, w1).
             if 0 < sz
             then bindR (store_nul (fill_buffer io_buffer bytes) sz)
                    (\<lambda>io_buffer1.
                       let left1 = left - nat sz;
                           buffer1 = stringbuffer_append_string L buffer (c_string io_buffer1)
                       in if 0 < left1 then hs_io_read_fully_loop L socket buffer1 io_buffer1 left1 w1
                          else ret (left1 = 0, buffer1, w1))
             else ret (left = 0, buffer, w1)))"

declare hs_io_read_fully_loop.simps [code]

definition hs_io_read_fully ::
  "('sb, 'pv, 'cv, 'dt, 'sh) libs \<Rightarrow> HSSocket option \<Rightarrow> 'sb option \<Rightarrow> nat \<Rightarrow> world
    \<Rightarrow> (bool \<times> 'sb option \<times> world) run" where
  "hs_io_read_fully L socket buffer len w =
     (if \<not> hs_socket_is_open socket then ret (False, buffer, w)
      else (case buffer of
              None \<Rightarrow> ret (False, None, w)
            | Some b \<Rightarrow>
                if len = 0 then ret (True, Some b, w)
                else bindR (hs_io_read_fully_loop L socket b (replicate HS_IO_READ_BUFFER_SIZE NUL) len w)
                       (\<lambda>(done, b1, w1). ret (done, Some b1, w1))))"

partial_function (option) hs_io_read_and_write_loop ::
  "('sb, 'pv, 'cv, 'dt, 'sh) libs \<Rightarrow> HSSocket option \<Rightarrow> string \<Rightarrow> nat \<Rightarrow> world \<Rightarrow> (fault + (bool \<times> world)) option" where
  "hs_io_read_and_write_loop L socket fp left w =
     (let buffer_size = (if left < HS_IO_READ_BUFFER_SIZE then left else HS_IO_READ_BUFFER_SIZE)
      in bindR (hs_socket_read L socket buffer_size w)
           (\<lambda>(sz, bytes, w1).
             if 0 < sz
             then (case c_fwrite fp (take (nat sz) bytes) w1 of
                     (written, w2) \<Rightarrow>
                       if written < nat sz then ret (False, w2)
                       else if 0 < left - nat sz then hs_io_read_and_write_loop L socket fp (left - nat sz) w2
                       else ret (True, w2))
             else ret (left = 0, w1)))"

declare hs_io_read_and_write_loop.simps [code]

definition hs_io_read_and_write_to_file ::
  "('sb, 'pv, 'cv, 'dt, 'sh) libs \<Rightarrow> HSSocket option \<Rightarrow> string \<Rightarrow> nat \<Rightarrow> world \<Rightarrow> (bool \<times> world) run" where
  "hs_io_read_and_write_to_file L socket fp len w =
     (if \<not> hs_socket_is_open socket then ret (False, w)
      else if len = 0 then ret (True, w)
      else hs_io_read_and_write_loop L socket fp len w)"

section \<open>Writing\<close>

partial_function (option) hs_io_write_string_loop ::
  "('sb, 'pv, 'cv, 'dt, 'sh) libs \<Rightarrow> HSSocket option \<Rightarrow> string \<Rightarrow> nat \<Rightarrow> world \<Rightarrow> (fault + (bool \<times> world)) option" where
  \<comment> \<open>the pointer passed to the write is \<open>content\<close> in every round\<close>
  "hs_io_write_string_loop L socket content left w =
     (if length content < left then ub OutOfBounds
      else (case hs_socket_write L socket (take left content) w of
              (written, w1) \<Rightarrow>
                if written < 0 then ret (False, w1)
                else (let left1 = (if 0 < written then left - nat written else left)
                      in if 0 < left1 then hs_io_write_string_loop L socket content left1 w1
                         else ret (True, w1))))"

declare hs_io_write_string_loop.simps [code]

definition hs_io_write_string_to_socket ::
  "('sb, 'pv, 'cv, 'dt, 'sh) libs \<Rightarrow> HSSocket option \<Rightarrow> cstr \<Rightarrow> nat \<Rightarrow> world \<Rightarrow> (bool \<times> world) run" where
  "hs_io_write_string_to_socket L socket content len w =
     (if \<not> hs_socket_is_open socket then ret (False, w)
      else (case content of
              None \<Rightarrow> ret (False, w)
            | Some ptr \<Rightarrow>
                if len = 0 then ret (True, w) else hs_io_write_string_loop L socket ptr len w))"

partial_function (option) hs_io_write_file_loop ::
  "('sb, 'pv, 'cv, 'dt, 'sh) libs \<Rightarrow> HSSocket option \<Rightarrow> string \<Rightarrow> bool \<Rightarrow> world \<Rightarrow> (fault + (bool \<times> world)) option" where
  \<comment> \<open>the file is what is left to read of it and its end-of-file indicator, which a short
      \<open>fread\<close> sets; the result is \<open>done\<close> after the final test of the indicator\<close>
  "hs_io_write_file_loop L socket rest eof w =
     (if eof then ret (True, w)
      else (let buffer = take (HS_IO_READ_BUFFER_SIZE - 1) rest;
                rest1 = drop (HS_IO_READ_BUFFER_SIZE - 1) rest;
                eof1 = (length rest < HS_IO_READ_BUFFER_SIZE - 1)
            in if buffer = [] then ret (False, w)
               else bindR (hs_io_write_string_to_socket L socket (Some buffer) (length buffer) w)
                 (\<lambda>(done, w1). if done then hs_io_write_file_loop L socket rest1 eof1 w1 else ret (False, w1))))"

declare hs_io_write_file_loop.simps [code]

definition hs_io_write_file_to_socket ::
  "('sb, 'pv, 'cv, 'dt, 'sh) libs \<Rightarrow> HSSocket option \<Rightarrow> cstr \<Rightarrow> world \<Rightarrow> (bool \<times> world) run" where
  "hs_io_write_file_to_socket L socket filename w =
     (if \<not> hs_socket_is_open socket then ret (False, w)
      else (case filename of
              None \<Rightarrow> ret (False, w)
            | Some path \<Rightarrow>
                (case files w path of
                   None \<Rightarrow> ret (False, w)
                 | Some content \<Rightarrow> hs_io_write_file_loop L socket content False w)))"

section \<open>Lines of a byte stream\<close>

text \<open>What one call should deliver from the bytes still to come: the line before the first CRLF, or
  nothing when that line is empty or there is no CRLF; and the bytes after it.\<close>

definition next_line :: "string \<Rightarrow> cstr \<times> string" where
  "next_line s =
     (case crlf_index s of
        None \<Rightarrow> (None, s)
      | Some i \<Rightarrow> (if i = 0 then None else Some (take i s), drop (i + 2) s))"

lemma next_line_simps:
  "next_line (CR # LF # r) = (None, r)"
  "CR \<notin> set l \<Longrightarrow> l \<noteq> [] \<Longrightarrow> next_line (l @ CR # LF # r) = (Some l, r)"
  "crlf_index s = None \<Longrightarrow> next_line s = (None, s)"
  by (simp_all add: next_line_def crlf_index_line)

lemma next_line_append:
  assumes "crlf_index s = Some i"
  shows "next_line (s @ t) = (fst (next_line s), snd (next_line s) @ t)"
  using assms crlf_index_append [OF assms, of t] crlf_index_bound [OF assms] by (simp add: next_line_def)

lemma read_line_from_buffer_cases:
  assumes "stringbuffer_ok L" and "stringfn_ok L"
  obtains (none) "crlf_index (stringbuffer_to_string L b) = None"
      "hs_io_read_line_from_buffer L b = (None, False, b)"
    | (some) i b' where "crlf_index (stringbuffer_to_string L b) = Some i"
      "hs_io_read_line_from_buffer L b = (fst (next_line (stringbuffer_to_string L b)), i = 0, b')"
      "stringbuffer_to_string L b' = snd (next_line (stringbuffer_to_string L b))"
      "fst (next_line (stringbuffer_to_string L b)) = None \<longleftrightarrow> i = 0"
proof (cases "crlf_index (stringbuffer_to_string L b)")
  case None
  with assms show thesis
    by (intro none) (simp_all add: hs_io_read_line_from_buffer_def lib_simps Let_def)
next
  case (Some i)
  have len: "i + 1 < length (stringbuffer_to_string L b)" using crlf_index_bound [OF Some] .
  have sub: "snd (stringfn_mut_substring L (stringbuffer_to_string L b) 0 i) = Some (take i (stringbuffer_to_string L b))"
    if "i \<noteq> 0"
  proof -
    from len have "0 < length (stringbuffer_to_string L b)" by linarith
    then show ?thesis using that stringfn_laws(7) [OF assms(2)] by simp
  qed
  show thesis
    by (rule some [OF Some, of "stringbuffer_append_string L (stringbuffer_clear L b) (drop (i + 2) (stringbuffer_to_string L b))"])
      (use assms len sub Some in \<open>simp_all add: hs_io_read_line_from_buffer_def lib_simps Let_def next_line_def\<close>)
qed

lemma fill_then_store:
  assumes "length buffer = HS_IO_READ_BUFFER_SIZE" and "length bs < HS_IO_READ_BUFFER_SIZE" and "nul_free bs"
  obtains buffer1 where "store_nul (fill_buffer buffer bs) (int (length bs)) = ret buffer1"
    "length buffer1 = HS_IO_READ_BUFFER_SIZE" "c_string buffer1 = bs"
proof -
  obtain x r where x: "drop (length bs) buffer = x # r"
    using assms by (cases "drop (length bs) buffer") auto
  have "length (x # r) = length buffer - length bs" unfolding x [symmetric] by simp
  with x assms show thesis
    by (intro that [of "bs @ NUL # r"])
      (simp_all add: store_nul_def fill_buffer_def list_update_append c_string_terminated)
qed

lemma read_line_loop_spec:
  assumes "stringbuffer_ok L" and "stringfn_ok L" and "plain_socket socket fd"
    and "smooth HS_IO_READ_BUFFER_SIZE fd w" and "length buffer = HS_IO_READ_BUFFER_SIZE"
    and "crlf_index (stringbuffer_to_string L b) = None"
  shows "\<exists>b' w'. hs_io_read_line_loop L socket b buffer w
        = ret (fst (next_line (stringbuffer_to_string L b @ stream_bytes fd w)), b', w')
      \<and> stringbuffer_to_string L b' @ stream_bytes fd w' = snd (next_line (stringbuffer_to_string L b @ stream_bytes fd w))
      \<and> smooth HS_IO_READ_BUFFER_SIZE fd w' \<and> consumed fd w w'"
  using assms(4-6)
proof (induction "pending fd w" arbitrary: w b buffer rule: less_induct)
  case less
  note unfold = hs_io_read_line_loop.simps [of L socket b buffer w]
  have "HS_IO_READ_BUFFER_SIZE \<le> Suc HS_IO_READ_BUFFER_SIZE" by simp
  with less.prems(1) show ?case
  proof (cases rule: smooth_read)
    case eof
    with less.prems assms(3) show ?thesis
      by (simp add: unfold plain_socket_simps next_line_simps(3) smooth_refl)
  next
    case (more bs w')
    from fill_then_store [OF less.prems(2) more(3,4)] obtain buffer1 where
      b1: "store_nul (fill_buffer buffer bs) (int (length bs)) = ret buffer1"
        "length buffer1 = HS_IO_READ_BUFFER_SIZE" "c_string buffer1 = bs" .
    let ?b = "stringbuffer_append_string L b bs"
    have content: "stringbuffer_to_string L ?b = stringbuffer_to_string L b @ bs"
      using assms(1) by (simp add: lib_simps)
    note step = unfold plain_socket_simps(6) [OF assms(3)] more(1) b1
    from assms(1,2) show ?thesis
    proof (cases rule: read_line_from_buffer_cases [of L ?b])
      case none
      have "\<exists>b' w''. hs_io_read_line_loop L socket ?b buffer1 w'
          = ret (fst (next_line (stringbuffer_to_string L ?b @ stream_bytes fd w')), b', w'')
        \<and> stringbuffer_to_string L b' @ stream_bytes fd w'' = snd (next_line (stringbuffer_to_string L ?b @ stream_bytes fd w'))
        \<and> smooth HS_IO_READ_BUFFER_SIZE fd w'' \<and> consumed fd w' w''"
        using more(5,7) b1(2) none(1) by (intro less.hyps) simp_all
      then show ?thesis
        using none more(2,6) consumed_trans [OF more(8)] by (auto simp: step content)
    next
      case (some i b')
      then show ?thesis
        using more(2,5,6,8) next_line_append [OF some(1), of "stream_bytes fd w'"]
        by (cases "i = 0") (auto simp: step content)
    qed
  qed
qed

lemma read_line_spec:
  assumes "stringbuffer_ok L" and "stringfn_ok L" and "plain_socket socket fd"
    and "smooth HS_IO_READ_BUFFER_SIZE fd w"
  shows "\<exists>b' w'. hs_io_read_line L socket (Some b) w
        = ret (fst (next_line (stringbuffer_to_string L b @ stream_bytes fd w)), Some b', w')
      \<and> stringbuffer_to_string L b' @ stream_bytes fd w' = snd (next_line (stringbuffer_to_string L b @ stream_bytes fd w))
      \<and> smooth HS_IO_READ_BUFFER_SIZE fd w' \<and> consumed fd w w'"
  using assms(1,2)
proof (cases rule: read_line_from_buffer_cases [of L b])
  case none
  show ?thesis
    using read_line_loop_spec [OF assms, of "replicate HS_IO_READ_BUFFER_SIZE NUL" b] none
    by (auto simp: hs_io_read_line_def plain_socket_simps [OF assms(3)])
next
  case (some i b')
  then show ?thesis
    using next_line_append [OF some(1), of "stream_bytes fd w"] smooth_refl [OF assms(4)] assms(4)
    by (cases "i = 0") (auto simp: hs_io_read_line_def plain_socket_simps [OF assms(3)])
qed

section \<open>Payload readers\<close>

lemma fill_then_store_part:
  assumes "length buffer = HS_IO_READ_BUFFER_SIZE" and "length bs < HS_IO_READ_BUFFER_SIZE"
  obtains buffer1 where "store_nul (fill_buffer buffer bs) (int (length bs)) = ret buffer1"
    "length buffer1 = HS_IO_READ_BUFFER_SIZE" "c_string buffer1 = c_string bs"
proof -
  obtain x r where x: "drop (length bs) buffer = x # r"
    using assms by (cases "drop (length bs) buffer") auto
  have "length (x # r) = length buffer - length bs" unfolding x [symmetric] by simp
  with x assms show thesis
    by (intro that [of "bs @ NUL # r"])
      (simp_all add: store_nul_def fill_buffer_def list_update_append c_string_def takeWhile_tail)
qed

lemma read_fully_loop_spec:
  assumes "stringbuffer_ok L" and "plain_socket socket fd"
    and "smooth HS_IO_READ_BUFFER_SIZE fd w" and "length buffer = HS_IO_READ_BUFFER_SIZE" and "0 < n"
  shows "\<exists>b' w'. hs_io_read_fully_loop L socket b buffer n w = ret (n \<le> length (stream_bytes fd w), b', w')
      \<and> stringbuffer_to_string L b' = stringbuffer_to_string L b @ take n (stream_bytes fd w)
      \<and> stream_bytes fd w' = drop n (stream_bytes fd w) \<and> smooth HS_IO_READ_BUFFER_SIZE fd w' \<and> consumed fd w w'"
  using assms(3-5)
proof (induction "pending fd w" arbitrary: w b buffer n rule: less_induct)
  case less
  let ?k = "if n < HS_IO_READ_BUFFER_SIZE then n else HS_IO_READ_BUFFER_SIZE"
  note unfold = hs_io_read_fully_loop.simps [of L socket b buffer n w] plain_socket_simps(6) [OF assms(2)] Let_def
  have k: "0 < ?k" using less.prems(3) by (simp add: HS_IO_READ_BUFFER_SIZE_def)
  from smooth_steady [OF less.prems(1)] k show ?case
  proof (cases rule: steady_read [where n = HS_IO_READ_BUFFER_SIZE])
    case eof
    with less.prems show ?thesis by (simp add: unfold smooth_refl)
  next
    case (more bs w')
    note sm = more(8) [OF less.prems(1)] more(9) [OF less.prems(1)]
    from sm(2) fill_then_store_part [OF less.prems(2), of bs] obtain buffer1 where
      b1: "store_nul (fill_buffer buffer bs) (int (length bs)) = ret buffer1"
        "length buffer1 = HS_IO_READ_BUFFER_SIZE" "c_string buffer1 = bs"
      by (auto simp: c_string_id)
    have content: "stringbuffer_to_string L (stringbuffer_append_string L b bs) = stringbuffer_to_string L b @ bs"
      using assms(1) by (simp add: lib_simps)
    have bn: "length bs \<le> n" using more(3) by (simp split: if_splits)
    show ?thesis
    proof (cases "length bs < n")
      case True
      then obtain b' w'' where "hs_io_read_fully_loop L socket (stringbuffer_append_string L b bs) buffer1 (n - length bs) w'
            = ret (n - length bs \<le> length (stream_bytes fd w'), b', w'')"
          "stringbuffer_to_string L b' = stringbuffer_to_string L b @ bs @ take (n - length bs) (stream_bytes fd w')"
          "stream_bytes fd w'' = drop (n - length bs) (stream_bytes fd w')"
          "smooth HS_IO_READ_BUFFER_SIZE fd w''" "consumed fd w' w''"
        using less.hyps [OF more(6) sm(1) b1(2), of "n - length bs" "stringbuffer_append_string L b bs"]
        by (auto simp: content)
      then show ?thesis
        using True more(1,2) b1 by (auto simp: unfold more(5) intro: consumed_trans [OF more(7)])
    next
      case False
      with bn have "length bs = n" by simp
      then show ?thesis using more(1,2,7) b1 sm by (auto simp: unfold more(5) content)
    qed
  qed
qed

lemma read_fully_spec:
  assumes "stringbuffer_ok L" and "plain_socket socket fd" and "smooth HS_IO_READ_BUFFER_SIZE fd w"
  shows "\<exists>b' w'. hs_io_read_fully L socket (Some b) n w = ret (n \<le> length (stream_bytes fd w), Some b', w')
      \<and> stringbuffer_to_string L b' = stringbuffer_to_string L b @ take n (stream_bytes fd w)
      \<and> stream_bytes fd w' = drop n (stream_bytes fd w) \<and> smooth HS_IO_READ_BUFFER_SIZE fd w' \<and> consumed fd w w'"
proof (cases "n = 0")
  case True
  with assms show ?thesis by (simp add: hs_io_read_fully_def plain_socket_simps smooth_refl)
next
  case False
  then show ?thesis
    using read_fully_loop_spec [OF assms, of "replicate HS_IO_READ_BUFFER_SIZE NUL" n b]
    by (auto simp: hs_io_read_fully_def plain_socket_simps [OF assms(2)])
qed

text \<open>
  Copying to a file: when it reports success all the bytes have arrived and been written, on the
  disk or in the buffer of the stream; it does so when they arrive and the disk, or the buffer,
  has room for them.
\<close>

definition copied :: "int \<Rightarrow> string \<Rightarrow> nat \<Rightarrow> string \<Rightarrow> string \<Rightarrow> nat \<Rightarrow> world \<Rightarrow> bool \<times> world \<Rightarrow> bool" where
  "copied fd path n D B d w = (\<lambda>(ok, w2). \<exists>D' B' d' w1. w2 = file_state path D' B' d' w1
     \<and> consumed fd w w1 \<and> d' + length D' = d + length D
     \<and> (ok \<longrightarrow> n \<le> length (stream_bytes fd w) \<and> D' @ B' = D @ B @ take n (stream_bytes fd w)
          \<and> stream_bytes fd w1 = drop n (stream_bytes fd w))
     \<and> (n \<le> length (stream_bytes fd w) \<and> (length B + n \<le> d \<or> length B + n \<le> bufsiz w) \<longrightarrow> ok))"

lemma copiedI:
  assumes "consumed fd w w1" and "d' + length D' = d + length D"
    and "ok \<Longrightarrow> n \<le> length (stream_bytes fd w) \<and> D' @ B' = D @ B @ take n (stream_bytes fd w)
      \<and> stream_bytes fd w1 = drop n (stream_bytes fd w)"
    and "n \<le> length (stream_bytes fd w) \<Longrightarrow> length B + n \<le> d \<or> length B + n \<le> bufsiz w \<Longrightarrow> ok"
  shows "copied fd path n D B d w (ok, file_state path D' B' d' w1)"
  using assms unfolding copied_def by blast

lemma copiedE:
  assumes "copied fd path n D B d w r"
  obtains ok D' B' d' w1 where "r = (ok, file_state path D' B' d' w1)" and "consumed fd w w1"
    and "d' + length D' = d + length D"
    and "ok \<longrightarrow> n \<le> length (stream_bytes fd w) \<and> D' @ B' = D @ B @ take n (stream_bytes fd w)
      \<and> stream_bytes fd w1 = drop n (stream_bytes fd w)"
    and "n \<le> length (stream_bytes fd w) \<and> (length B + n \<le> d \<or> length B + n \<le> bufsiz w) \<longrightarrow> ok"
proof -
  obtain ok w2 where r: "r = (ok, w2)" by (cases r)
  from assms obtain D' B' d' w1 where w2: "w2 = file_state path D' B' d' w1"
    and parts: "consumed fd w w1"
    "d' + length D' = d + length D"
    "ok \<longrightarrow> n \<le> length (stream_bytes fd w) \<and> D' @ B' = D @ B @ take n (stream_bytes fd w)
      \<and> stream_bytes fd w1 = drop n (stream_bytes fd w)"
    "n \<le> length (stream_bytes fd w) \<and> (length B + n \<le> d \<or> length B + n \<le> bufsiz w) \<longrightarrow> ok"
    unfolding copied_def r prod.case by (elim exE conjE) (rule that)
  from parts show thesis by (rule that [OF r [unfolded w2]])
qed

lemma read_and_write_loop_spec:
  assumes "plain_socket socket fd" and "steady fd w" and "0 < n"
  shows "\<exists>r. hs_io_read_and_write_loop L socket path n (file_state path D B d w) = ret r \<and> copied fd path n D B d w r"
  using assms(2-)
proof (induction "pending fd w" arbitrary: w n D B d rule: less_induct)
  case less
  let ?k = "if n < HS_IO_READ_BUFFER_SIZE then n else HS_IO_READ_BUFFER_SIZE"
  note unfold = hs_io_read_and_write_loop.simps [of L socket path n "file_state path D B d w"]
    plain_socket_simps(6) [OF assms(1)] Let_def
  have k: "0 < ?k" using less.prems(2) by (simp add: HS_IO_READ_BUFFER_SIZE_def)
  from less.prems(1) k show ?case
  proof (cases rule: steady_read [where n = 0])
    case eof
    then show ?thesis using less.prems steady_refl [OF less.prems(1)]
      by (auto simp: unfold posix_read_file_state intro!: copiedI)
  next
    case (more bs w')
    have bn: "length bs \<le> n" using more(3) by (simp split: if_splits)
    obtain m D1 B1 d1 where wr: "c_fwrite path bs (file_state path D B d w') = (m, file_state path D1 B1 d1 w')"
      and d1: "d1 \<le> d" "d1 + length D1 = d + length D" and m: "m \<le> length bs" "m = length bs \<Longrightarrow> D1 @ B1 = D @ B @ bs"
      and fits: "length (B @ bs) \<le> d \<or> length (B @ bs) \<le> bufsiz w' \<Longrightarrow> m = length bs"
      by (rule c_fwrite_state [of path bs D B d w']) (rule that)
    note step = unfold posix_read_file_state more(1) wr more(2)
    have same: "bufsiz w' = bufsiz w" using consumed_frame [OF more(7)] by simp
    show ?thesis
    proof (cases "m < length bs")
      case True
      then have "copied fd path n D B d w (False, file_state path D1 B1 d1 w')"
        using fits d1 more(5,7) bn by (intro copiedI) (auto simp: same)
      with True show ?thesis by (simp add: step)
    next
      case False
      with m have D1: "D1 @ B1 = D @ B @ bs" and mb: "m = length bs" by simp_all
      then have lens: "length D1 + length B1 = length D + length B + length bs"
        by (metis length_append add.assoc)
      show ?thesis
      proof (cases "length bs < n")
        case True
        then obtain r where r: "hs_io_read_and_write_loop L socket path (n - length bs) (file_state path D1 B1 d1 w') = ret r"
          "copied fd path (n - length bs) D1 B1 d1 w' r"
          using less.hyps [OF more(6,4), of "n - length bs" D1 B1 d1] by auto
        have "copied fd path n D B d w r"
        proof -
          obtain ok D2 B2 d2 w2 where r2: "r = (ok, file_state path D2 B2 d2 w2)" "consumed fd w' w2"
            "d2 + length D2 = d1 + length D1"
            and ok: "ok \<Longrightarrow> n - length bs \<le> length (stream_bytes fd w') \<and> D2 @ B2 = (D1 @ B1) @ take (n - length bs) (stream_bytes fd w')
              \<and> stream_bytes fd w2 = drop (n - length bs) (stream_bytes fd w')"
            and room: "n - length bs \<le> length (stream_bytes fd w') \<Longrightarrow>
              length B1 + (n - length bs) \<le> d1 \<or> length B1 + (n - length bs) \<le> bufsiz w' \<Longrightarrow> ok"
            using r(2) by (cases r) (auto simp: copied_def)
          have left: "length B + n \<le> x \<Longrightarrow> x = d \<or> x = bufsiz w
              \<Longrightarrow> length B1 + (n - length bs) \<le> d1 \<or> length B1 + (n - length bs) \<le> bufsiz w'" for x
            using d1 lens True same by auto
          show ?thesis unfolding r2(1)
          proof (rule copiedI)
            show "ok" if "n \<le> length (stream_bytes fd w)" "length B + n \<le> d \<or> length B + n \<le> bufsiz w"
              using that(2) that(1) left [of d] left [of "bufsiz w"] by (intro room) (auto simp: more(5))
          qed (use r2(2,3) d1 True ok consumed_trans [OF more(7)] in \<open>auto simp: more(5) D1\<close>)
        qed
        with r(1) True show ?thesis by (simp add: step mb)
      next
        case False
        then have "copied fd path n D B d w (True, file_state path D1 B1 d1 w')"
          using d1 D1 more(5,7) bn by (intro copiedI) auto
        with False show ?thesis by (simp add: step mb)
      qed
    qed
  qed
qed

lemma read_and_write_spec:
  assumes "plain_socket socket fd" and "steady fd w"
  shows "\<exists>r. hs_io_read_and_write_to_file L socket path n (file_state path D B d w) = ret r \<and> copied fd path n D B d w r"
proof (cases "n = 0")
  case True
  have "copied fd path 0 D B d w (True, file_state path D B d w)"
    using steady_refl [OF assms(2)] by (intro copiedI) simp_all
  with True assms(1) show ?thesis by (simp add: hs_io_read_and_write_to_file_def plain_socket_simps)
next
  case False
  with assms show ?thesis
    using read_and_write_loop_spec [OF assms, of n L path D B d]
    by (simp add: hs_io_read_and_write_to_file_def plain_socket_simps)
qed

section \<open>Writers\<close>

text \<open>A peer that takes whatever it is given in one call.\<close>

definition eager :: "int \<Rightarrow> world \<Rightarrow> bool" where
  "eager fd w \<longleftrightarrow> (case fds w fd of None \<Rightarrow> False | Some st \<Rightarrow> wscript st = [])"

definition after_write :: "int \<Rightarrow> string \<Rightarrow> world \<Rightarrow> world" where
  \<comment> \<open>the world in which \<open>bytes\<close> have been taken by \<open>fd\<close>\<close>
  "after_write fd bytes w =
     (case fds w fd of
        None \<Rightarrow> w
      | Some st \<Rightarrow> w\<lparr>fds := (fds w)(fd \<mapsto> st\<lparr>sent := sent st @ bytes\<rparr>)\<rparr>)"

lemma after_write_frame [simp]:
  "eager fd (after_write fd bytes w) = eager fd w"
  "fds w fd \<noteq> None \<Longrightarrow> sent_bytes fd (after_write fd bytes w) = sent_bytes fd w @ bytes"
  "files (after_write fd bytes w) = files w" "dirs (after_write fd bytes w) = dirs w"
  "clock (after_write fd bytes w) = clock w" "rands (after_write fd bytes w) = rands w"
  "after_write fd b2 (after_write fd b1 w) = after_write fd (b1 @ b2) w"
  "stream_bytes fd (after_write fd bytes w) = stream_bytes fd w"
  by (auto simp: after_write_def eager_def sent_bytes_def stream_bytes_def split: option.splits)

lemma after_write_empty [simp]: "after_write fd [] w = w"
  by (auto simp: after_write_def fun_upd_idem split: option.splits)

lemma smooth_after_write [simp]: "smooth n fd (after_write fd bytes w) = smooth n fd w"
  by (auto simp: after_write_def smooth_def split: option.splits)

lemma eager_open: "eager fd w \<Longrightarrow> fds w fd \<noteq> None"
  by (auto simp: eager_def split: option.splits)

lemma write_string_eager:
  assumes "plain_socket socket fd" and "eager fd w"
  shows "hs_io_write_string_to_socket L socket (Some content) (length content) w
    = ret (True, after_write fd content w)"
  using assms
  by (auto simp: hs_io_write_string_to_socket_def plain_socket_simps hs_io_write_string_loop.simps
      posix_write_def eager_def after_write_def fun_upd_idem split: option.splits)

text \<open>Every round of the loop takes an answer of the kernel, so the loop over a plain socket ends.\<close>

lemma write_string_loop_returns:
  assumes "plain_socket socket fd" and "n \<le> length content" and "0 < n"
  shows "\<exists>ok w'. hs_io_write_string_loop L socket content n w = ret (ok, w')
      \<and> (ok \<longrightarrow> length (sent_bytes fd w') = length (sent_bytes fd w) + n)"
proof (cases "fds w fd")
  case None
  then have "hs_io_write_string_loop L socket content n w = ret (False, w)" using assms
    by (simp add: hs_io_write_string_loop.simps plain_socket_simps posix_write_def)
  then show ?thesis by blast
next
  case (Some st)
  have "fds w fd = Some st \<Longrightarrow> wscript st = rs \<Longrightarrow> n \<le> length content \<Longrightarrow> 0 < n \<Longrightarrow>
      \<exists>ok w'. hs_io_write_string_loop L socket content n w = ret (ok, w')
      \<and> (ok \<longrightarrow> length (sent_bytes fd w') = length (sent_bytes fd w) + n)" for rs
  proof (induction rs arbitrary: w st n)
    case Nil
    then show ?case
      by (intro exI [of _ True])
        (simp add: hs_io_write_string_loop.simps plain_socket_simps [OF assms(1)] posix_write_def sent_bytes_def)
  next
    case (Cons r rs)
    note unfold = hs_io_write_string_loop.simps [of L socket content n w] plain_socket_simps(7) [OF assms(1)]
      posix_write_def Let_def
    show ?case
    proof (cases "0 \<le> r \<and> nat r < n")
      case False
      then show ?thesis using Cons.prems by (auto simp: unfold sent_bytes_def)
    next
      case True
      let ?w = "w\<lparr>fds := (fds w)(fd \<mapsto> st\<lparr>wscript := rs, sent := sent st @ take (nat r) (take n content)\<rparr>)\<rparr>"
      have "\<exists>ok w'. hs_io_write_string_loop L socket content (n - nat r) ?w = ret (ok, w')
          \<and> (ok \<longrightarrow> length (sent_bytes fd w') = length (sent_bytes fd ?w) + (n - nat r))"
        using Cons.prems True by (intro Cons.IH [of ?w]) auto
      moreover have "length (sent_bytes fd ?w) = length (sent_bytes fd w) + nat r"
        using True Cons.prems by (simp add: sent_bytes_def)
      ultimately show ?thesis using True Cons.prems
        by (cases "r = 0") (auto simp: unfold min_absorb1)
    qed
  qed
  then show ?thesis using Some assms by blast
qed

text \<open>A file goes out in chunks of 255 bytes; whether it succeeded depends on the last one.\<close>

lemma write_file_loop_spec:
  assumes "plain_socket socket fd" and "eager fd w"
  shows "hs_io_write_file_loop L socket rest False w
    = ret (length rest mod (HS_IO_READ_BUFFER_SIZE - 1) \<noteq> 0, after_write fd rest w)"
  using assms(2)
proof (induction "length rest" arbitrary: rest w rule: less_induct)
  case less
  let ?n = "HS_IO_READ_BUFFER_SIZE - 1"
  note unfold = hs_io_write_file_loop.simps [of L socket rest False w] Let_def
  have n: "0 < ?n" by (simp add: HS_IO_READ_BUFFER_SIZE_def)
  show ?case
  proof (cases "length rest < ?n")
    case True
    then show ?thesis
      using write_string_eager [OF assms(1) less.prems, of L rest]
        hs_io_write_file_loop.simps [of L socket "[]" True]
        hs_io_write_file_loop.simps [of L socket "[]" False w]
      by (cases "rest = []") (simp_all add: unfold)
  next
    case False
    with n have ne: "take ?n rest \<noteq> []" by auto
    have "hs_io_write_file_loop L socket (drop ?n rest) False (after_write fd (take ?n rest) w)
      = ret ((length rest - ?n) mod ?n \<noteq> 0, after_write fd rest w)"
      using False n less.prems less.hyps [of "drop ?n rest" "after_write fd (take ?n rest) w"] by simp
    moreover have "(length rest - ?n) mod ?n = length rest mod ?n"
      using False by (simp add: le_mod_geq not_less)
    ultimately show ?thesis
      using False ne write_string_eager [OF assms(1) less.prems, of L "take ?n rest"] by (simp add: unfold)
  qed
qed

section \<open>Properties\<close>

text \<open>A world with one connection, descriptor 3, for the examples.\<close>

definition connection :: "rd_event list \<Rightarrow> int list \<Rightarrow> world" where
  "connection events answers =
     \<lparr>fds = [3 \<mapsto> \<lparr>incoming = events, wscript = answers, sent = [], rcvtimeo = 0\<rparr>], free_fds = [], backlog = [],
      files = Map.empty, dirs = Map.empty, unwritable = [], disk_free = 1000,
      file_buffers = (\<lambda>_. []), bufsiz = 4096, clock = 0, rands = []\<rparr>"

definition connection_socket :: "HSSocket option" where
  "connection_socket = Some \<lparr>socket_ops = PlainOps, raw_socket = 3, socket_internal = None\<rparr>"

lemma connection_simps [simp]:
  "plain_socket connection_socket 3"
  "smooth n 3 (connection events answers) = list_all (smooth_event n) events"
  "stream_bytes 3 (connection events answers) = arriving events"
  "fds (connection events answers) 3 = Some \<lparr>incoming = events, wscript = answers, sent = [], rcvtimeo = 0\<rparr>"
  "eager 3 (connection events answers) = (answers = [])"
  by (simp_all add: connection_def connection_socket_def plain_socket_def smooth_def stream_bytes_def eager_def)

text \<open>
  C12. On a smooth stream (it ends, no read of it fails, and every segment is shorter than the read
  buffer of 256 bytes and free of NUL bytes), however the bytes are split into such segments, and
  whatever an earlier call left in the buffer, \<open>hs_io_read_line\<close> returns, and delivers the bytes before the first CRLF
  of the buffer followed by the stream; NULL when that line is empty (the end of the header) or
  there is none. The bytes after the CRLF, and no others, are left in the buffer and the stream.
\<close>

theorem hs_io_read_line_correct:
  assumes "stringbuffer_ok L" and "stringfn_ok L" and "plain_socket socket fd"
    and "smooth HS_IO_READ_BUFFER_SIZE fd w"
  shows "\<exists>b' w'. hs_io_read_line L socket (Some b) w
        = ret (fst (next_line (stringbuffer_to_string L b @ stream_bytes fd w)), Some b', w')
      \<and> stringbuffer_to_string L b' @ stream_bytes fd w' = snd (next_line (stringbuffer_to_string L b @ stream_bytes fd w))"
  using read_line_spec [OF assms] by blast

theorem hs_io_read_line_correct_witness:
  "\<exists>b' w'. hs_io_read_line reference_libs connection_socket (Some ''GE'')
       (connection [Arrive (''T /'' @ [CR]), Arrive (LF # ''Host: a'')] [])
     = ret (Some ''GET /'', Some b', w') \<and> stringbuffer_to_string reference_libs b' @ stream_bytes 3 w' = ''Host: a''"
  using hs_io_read_line_correct [OF reference_ok(2) reference_ok(1), of connection_socket 3
      "connection [Arrive (''T /'' @ [CR]), Arrive (LF # ''Host: a'')] []" "''GE''"]
  by (simp add: HS_IO_READ_BUFFER_SIZE_def next_line_def reference_libs_def)

text \<open>
  C32. A segment that fills the read buffer, or a failed read (a receive timeout, a reset), makes
  \<open>hs_io_read_line\<close> store the terminator outside of its local array: undefined behaviour, which
  any client causes by sending 256 bytes without a line, or by staying silent when the server has
  set a receive timeout.
\<close>

theorem hs_io_read_line_overflow:
  assumes "stringbuffer_ok L" and "plain_socket socket fd" and "fds w fd = Some st"
    and "crlf_index (stringbuffer_to_string L b) = None"
    and "incoming st = ReadFail # es \<or> incoming st = Silence # es \<and> 0 < rcvtimeo st
      \<or> (\<exists>seg. incoming st = Arrive seg # es \<and> HS_IO_READ_BUFFER_SIZE \<le> length seg)"
  shows "hs_io_read_line L socket (Some b) w = ub OutOfBounds"
proof -
  have none: "hs_io_read_line_from_buffer L b = (None, False, b)"
    using assms(1,4) by (simp add: hs_io_read_line_from_buffer_def lib_simps Let_def)
  obtain sz bs w' where read: "posix_read fd HS_IO_READ_BUFFER_SIZE w = ret (sz, bs, w')" "sz = -1 \<or> sz = int HS_IO_READ_BUFFER_SIZE \<and> length bs \<le> HS_IO_READ_BUFFER_SIZE"
    using assms(3,5) by (auto simp: posix_read_def min_absorb1 min_absorb2)
  have "hs_io_read_line_loop L socket b (replicate HS_IO_READ_BUFFER_SIZE NUL) w = ub OutOfBounds"
    using read by (auto simp: hs_io_read_line_loop.simps plain_socket_simps [OF assms(2)] store_nul_def
        fill_buffer_def HS_IO_READ_BUFFER_SIZE_def)
  with none show ?thesis
    by (simp add: hs_io_read_line_def plain_socket_simps [OF assms(2)])
qed

theorem hs_io_read_line_overflow_witness:
  "hs_io_read_line reference_libs connection_socket (Some []) (connection [Arrive (replicate 256 (CHR ''a''))] []) = ub OutOfBounds
   \<and> hs_io_read_line reference_libs connection_socket (Some ''GET'') (connection [ReadFail] []) = ub OutOfBounds"
  using hs_io_read_line_overflow [OF reference_ok(2), of connection_socket 3
        "connection [Arrive (replicate 256 (CHR ''a''))] []" _ "[]" "[]"]
      hs_io_read_line_overflow [OF reference_ok(2), of connection_socket 3 "connection [ReadFail] []" _ "''GET''" "[]"]
  by (simp add: HS_IO_READ_BUFFER_SIZE_def reference_libs_def)

text \<open>
  Without a receive timeout a peer that stays silent on an open connection is waited for without
  end: the read does not return, and neither does \<open>hs_io_read_line\<close>.
\<close>

theorem hs_io_read_line_blocks:
  assumes "stringbuffer_ok L" and "plain_socket socket fd" and "fds w fd = Some st"
    and "crlf_index (stringbuffer_to_string L b) = None" and "incoming st = Silence # es" and "rcvtimeo st \<le> 0"
  shows "hs_io_read_line L socket (Some b) w = None"
  using assms
  by (simp add: hs_io_read_line_def hs_io_read_line_from_buffer_def lib_simps Let_def plain_socket_simps
      hs_io_read_line_loop.simps [of L socket b _ w] posix_read_def)

theorem hs_io_read_line_blocks_witness:
  "hs_io_read_line reference_libs connection_socket (Some ''GET'') (connection [Silence] []) = None"
  by (rule hs_io_read_line_blocks [OF reference_ok(2) connection_simps(1,4)]) (simp_all add: reference_libs_def)

text \<open>
  \<open>hs_io_read_fully\<close> appends exactly the next \<open>n\<close> bytes of the stream to the buffer, whatever
  their segmentation, leaves the rest of the stream unread, and reports whether all of the \<open>n\<close>
  bytes arrived before the end of the stream.
\<close>

theorem hs_io_read_fully_correct:
  assumes "stringbuffer_ok L" and "plain_socket socket fd" and "smooth HS_IO_READ_BUFFER_SIZE fd w"
  shows "\<exists>b' w'. hs_io_read_fully L socket (Some b) n w = ret (n \<le> length (stream_bytes fd w), Some b', w')
      \<and> stringbuffer_to_string L b' = stringbuffer_to_string L b @ take n (stream_bytes fd w)
      \<and> stream_bytes fd w' = drop n (stream_bytes fd w)"
  using read_fully_spec [OF assms] by blast

theorem hs_io_read_fully_correct_witness:
  "\<exists>w'. hs_io_read_fully reference_libs connection_socket (Some ''a'') 3 (connection [Arrive ''bc'', Arrive ''de''] [])
     = ret (True, Some ''abcd'', w') \<and> stream_bytes 3 w' = ''e''"
  using hs_io_read_fully_correct [OF reference_ok(2), of connection_socket 3
      "connection [Arrive ''bc'', Arrive ''de''] []" "''a''" 3]
  by (simp add: HS_IO_READ_BUFFER_SIZE_def reference_libs_def)

text \<open>
  \<open>hs_io_read_and_write_to_file\<close> copies the next \<open>n\<close> bytes of the stream, of any value and in
  segments of any size, behind what has been written to the file, on the disk or in the buffer of
  the stream, if they arrive and the disk has room for them.
\<close>

theorem hs_io_read_and_write_to_file_correct:
  assumes "plain_socket socket fd" and "steady fd w" and "files w path = Some old"
    and "n \<le> length (stream_bytes fd w)" and "length (file_buffers w path) + n \<le> disk_free w"
  shows "\<exists>w'. hs_io_read_and_write_to_file L socket path n w = ret (True, w')
      \<and> the (files w' path) @ file_buffers w' path = old @ file_buffers w path @ take n (stream_bytes fd w)
      \<and> stream_bytes fd w' = drop n (stream_bytes fd w)"
  using read_and_write_spec [OF assms(1,2), of L path n old "file_buffers w path" "disk_free w"] assms(4,5)
  unfolding file_state_id [OF assms(3)] by (auto simp: copied_def)

theorem hs_io_read_and_write_to_file_correct_witness:
  "\<exists>w'. hs_io_read_and_write_to_file reference_libs connection_socket ''f'' 3
       (connection [Arrive [CHR ''b'', NUL], Arrive ''de''] [] \<lparr>files := [''f'' \<mapsto> ''a'']\<rparr>) = ret (True, w')
     \<and> the (files w' ''f'') @ file_buffers w' ''f'' = [CHR ''a'', CHR ''b'', NUL, CHR ''d'']"
proof -
  let ?w = "connection [Arrive [CHR ''b'', NUL], Arrive ''de''] [] \<lparr>files := [''f'' \<mapsto> ''a'']\<rparr>"
  have "stream_bytes 3 ?w = [CHR ''b'', NUL, CHR ''d'', CHR ''e'']" "steady 3 ?w" "3 \<le> disk_free ?w" "file_buffers ?w ''f'' = []"
    by (simp_all add: connection_def stream_bytes_def steady_def)
  with hs_io_read_and_write_to_file_correct [of connection_socket 3 ?w "''f''" "''a''" 3 reference_libs]
  show ?thesis by auto
qed

text \<open>
  \<open>hs_io_write_string_to_socket\<close> returns on every plain socket, whatever the kernel answers
  to its writes (partial writes, zero writes, failures), and when it reports success the kernel
  has taken exactly as many bytes as the content has.
\<close>

theorem hs_io_write_string_returns:
  assumes "plain_socket socket fd"
  shows "\<exists>ok w'. hs_io_write_string_to_socket L socket (Some content) (length content) w = ret (ok, w')
      \<and> (ok \<longrightarrow> length (sent_bytes fd w') = length (sent_bytes fd w) + length content)"
proof (cases "content = []")
  case True
  then show ?thesis using assms
    by (intro exI [of _ True] exI [of _ w]) (simp add: hs_io_write_string_to_socket_def plain_socket_simps)
next
  case False
  then show ?thesis
    using write_string_loop_returns [OF assms, of "length content" content L w] assms
    by (simp add: hs_io_write_string_to_socket_def plain_socket_simps)
qed

theorem hs_io_write_string_returns_witness:
  "\<exists>ok w'. hs_io_write_string_to_socket reference_libs connection_socket (Some ''abcd'') (length ''abcd'') (connection [] [0, 3, 0]) = ret (ok, w')"
  using hs_io_write_string_returns [of connection_socket 3 reference_libs "''abcd''" "connection [] [0, 3, 0]"]
  by (simp only: connection_simps) blast

text \<open>
  C37. The right number of bytes, but not the right bytes: the loop passes the start of the
  content again after a partial write of \<open>k\<close> bytes, so what goes out is the first \<open>k\<close> bytes followed
  by the first \<open>n - k\<close> bytes, and success is reported.
\<close>

theorem hs_io_write_string_resends_prefix:
  assumes "plain_socket socket fd" and "fds w fd = Some st" and "wscript st = [int k]"
    and "0 < k" and "k < length content"
  shows "\<exists>w'. hs_io_write_string_to_socket L socket (Some content) (length content) w = ret (True, w')
      \<and> sent_bytes fd w' = sent_bytes fd w @ take k content @ take (length content - k) content"
proof -
  let ?w = "w\<lparr>fds := (fds w)(fd \<mapsto> st\<lparr>wscript := [], sent := sent st @ take k content\<rparr>)\<rparr>"
  have "posix_write fd content w = (int k, ?w)"
    using assms by (simp add: posix_write_def min_absorb1)
  moreover have "content \<noteq> []" using assms(5) by auto
  ultimately show ?thesis
    using assms
    by (simp add: hs_io_write_string_to_socket_def plain_socket_simps Let_def sent_bytes_def
        hs_io_write_string_loop.simps [of L socket content "length content" w]
        hs_io_write_string_loop.simps [of L socket content "length content - k" ?w])
      (simp add: posix_write_def sent_bytes_def)
qed

theorem hs_io_write_string_resends_prefix_witness:
  "\<exists>w'. hs_io_write_string_to_socket reference_libs connection_socket (Some ''abcd'') (length ''abcd'') (connection [] [3]) = ret (True, w')
     \<and> sent_bytes 3 w' = ''abca''"
  using hs_io_write_string_resends_prefix [of connection_socket 3 "connection [] [3]" _ 3 "''abcd''" reference_libs]
  by (auto simp: sent_bytes_def)

text \<open>
  C29. To a peer that takes what it is given, \<open>hs_io_write_file_to_socket\<close> sends the whole file, byte
  for byte, but it reports a failure exactly when the length of the file is a multiple of the
  chunk of 255 bytes: the read that meets the end of file then finds nothing.
\<close>

theorem hs_io_write_file_sends_file:
  assumes "plain_socket socket fd" and "eager fd w" and "files w path = Some content"
  shows "\<exists>w'. hs_io_write_file_to_socket L socket (Some path) w
        = ret (length content mod (HS_IO_READ_BUFFER_SIZE - 1) \<noteq> 0, w')
      \<and> sent_bytes fd w' = sent_bytes fd w @ content"
  using assms write_file_loop_spec [OF assms(1,2), of L content] eager_open [OF assms(2)]
  by (simp add: hs_io_write_file_to_socket_def plain_socket_simps)

theorem hs_io_write_file_sends_file_witness:
  "\<exists>w'. hs_io_write_file_to_socket reference_libs connection_socket (Some ''f'')
       (connection [] [] \<lparr>files := [''f'' \<mapsto> replicate 255 (CHR ''a'')]\<rparr>) = ret (False, w')
     \<and> sent_bytes 3 w' = replicate 255 (CHR ''a'')"
proof -
  let ?w = "connection [] [] \<lparr>files := [''f'' \<mapsto> replicate 255 (CHR ''a'')]\<rparr>"
  have "eager 3 ?w" "sent_bytes 3 ?w = []" by (simp_all add: connection_def eager_def sent_bytes_def)
  with hs_io_write_file_sends_file [of connection_socket 3 ?w "''f''" "replicate 255 (CHR ''a'')" reference_libs]
  show ?thesis by (simp add: HS_IO_READ_BUFFER_SIZE_def)
qed

end
