(* ===== verification/Keyed_Store.thy ===== *)
theory Keyed_Store
  imports External_Libs
begin

text \<open>
  The interface the header, cookie and query-string containers share: entries are kept in the
  order of insertion, a key may occur more than once, a lookup finds the first entry and a
  removal drops every entry of the key. Its laws are stated here and proved for the containers
  of the model in \<open>Types_Array\<close> and \<open>Types_Cookie\<close>; what clients need follows once, in the locale.
\<close>

section \<open>The interface\<close>

text \<open>
  \<open>ok\<close>: the libraries behave as documented; \<open>inv\<close>: the container is well formed; \<open>fits\<close>: the entry
  may be stored under the key; \<open>res\<close>: what a lookup returns for an entry, if anything.
\<close>

locale keyed_store =
  fixes ok :: "'l \<Rightarrow> bool"
    and inv :: "'l \<Rightarrow> 's \<Rightarrow> bool"
    and contents :: "'l \<Rightarrow> 's \<Rightarrow> (string \<times> 'e) list"
    and fits :: "string \<Rightarrow> 'e \<Rightarrow> bool"
    and res :: "'e \<Rightarrow> 'r option"
    and put :: "'l \<Rightarrow> 's \<Rightarrow> string \<Rightarrow> 'e \<Rightarrow> 's"
    and lookup :: "'l \<Rightarrow> 's \<Rightarrow> string \<Rightarrow> 'r option"
    and del :: "'l \<Rightarrow> 's \<Rightarrow> string \<Rightarrow> 's"
  assumes inv_put: "ok L \<Longrightarrow> inv L s \<Longrightarrow> fits k e \<Longrightarrow> inv L (put L s k e)"
    and inv_del: "ok L \<Longrightarrow> inv L s \<Longrightarrow> inv L (del L s k)"
    and contents_put: "ok L \<Longrightarrow> inv L s \<Longrightarrow> fits k e \<Longrightarrow> contents L (put L s k e) = contents L s @ [(k, e)]"
    and contents_del: "ok L \<Longrightarrow> inv L s \<Longrightarrow> contents L (del L s k) = filter (\<lambda>p. fst p \<noteq> k) (contents L s)"
    and lookup_first: "ok L \<Longrightarrow> inv L s \<Longrightarrow> lookup L s k = Option.bind (map_of (contents L s) k) res"
begin

lemma lookup_put:
  assumes "ok L" "inv L s" "fits k e"
  shows "lookup L (put L s k e) k' =
    (if k' = k \<and> k \<notin> fst ` set (contents L s) then res e else lookup L s k')"
proof -
  have "lookup L (put L s k e) k' = Option.bind (map_of (contents L s @ [(k, e)]) k') res"
    using assms by (simp add: lookup_first inv_put contents_put)
  then show ?thesis
    using assms by (auto simp: lookup_first map_add_def map_of_eq_None_iff [symmetric] split: option.splits)
qed

lemma lookup_del:
  assumes "ok L" "inv L s"
  shows "lookup L (del L s k) k' = (if k' = k then None else lookup L s k')"
proof -
  have "map_of (filter (\<lambda>p. fst p \<noteq> k) xs) k' = (if k' = k then None else map_of xs k')"
    for xs :: "(string \<times> 'e) list"
    by (induction xs) auto
  then show ?thesis using assms by (simp add: lookup_first inv_del contents_del)
qed

lemma del_idempotent:
  assumes "ok L" "inv L s"
  shows "contents L (del L (del L s k) k) = contents L (del L s k)"
  using assms by (simp add: contents_del inv_del)

lemma del_commute:
  assumes "ok L" "inv L s"
  shows "contents L (del L (del L s k) k') = contents L (del L (del L s k') k)"
  using assms by (simp add: contents_del inv_del conj_commute)

lemma replace_key:
  \<comment> \<open>removing a key before storing it makes the new entry the one a lookup finds\<close>
  assumes "ok L" "inv L s" "fits k e"
  shows "lookup L (put L (del L s k) k e) k' = (if k' = k then res e else lookup L s k')"
  using assms by (simp add: lookup_put inv_del lookup_del contents_del) auto

end

section \<open>The interface with an empty container\<close>

locale keyed_store_new = keyed_store +
  fixes empty :: "'l \<Rightarrow> 's"
  assumes inv_empty: "ok L \<Longrightarrow> inv L (empty L)"
    and contents_empty: "ok L \<Longrightarrow> contents L (empty L) = []"
begin

lemma inv_puts:
  "ok L \<Longrightarrow> inv L s \<Longrightarrow> \<forall>(k, e) \<in> set xs. fits k e \<Longrightarrow>
   inv L (foldl (\<lambda>s (k, e). put L s k e) s xs)
   \<and> contents L (foldl (\<lambda>s (k, e). put L s k e) s xs) = contents L s @ xs"
  by (induction xs arbitrary: s) (auto simp: inv_put contents_put)

lemma contents_puts:
  assumes "ok L" and "\<forall>(k, e) \<in> set xs. fits k e"
  shows "contents L (foldl (\<lambda>s (k, e). put L s k e) (empty L) xs) = xs"
  using inv_puts [OF assms(1) inv_empty [OF assms(1)] assms(2)] assms(1) by (simp add: contents_empty)

lemma lookup_empty: "ok L \<Longrightarrow> lookup L (empty L) k = None"
  by (simp add: lookup_first inv_empty contents_empty)

end

end
