(* ===== verification/Types_Array.thy ===== *)
theory Types_Array
  imports Keyed_Store
begin

text \<open>
  \<open>struct HSArrayStringPair\<close> of \<open>src/hs_types_array.c\<close>: the container of headers, query
  parameters and route state. A pointer to the struct is an option; the struct has one field,
  set by its constructor and never again, so it is represented by its vector. The functions that
  only release memory are modelled in \<open>Memory\<close>.
\<close>

section \<open>Operations on the vector of pairs\<close>

definition hs_types_array_pair_add ::
  "('sb, 'pv, 'cv, 'dt, 'sh) libs \<Rightarrow> 'pv option \<Rightarrow> cstr \<Rightarrow> cstr \<Rightarrow> bool \<times> 'pv option" where
  "hs_types_array_pair_add L vector key value =
     (case vector of
        None \<Rightarrow> (False, vector)
      | Some v \<Rightarrow>
          (case key of
             None \<Rightarrow> (False, vector)
           | Some k \<Rightarrow> (True, Some (vector_push (pair_vec L) v \<lparr>pair_key = k, pair_value = value\<rparr>))))"

definition hs_types_array_pair_get_key ::
  "('sb, 'pv, 'cv, 'dt, 'sh) libs \<Rightarrow> 'pv option \<Rightarrow> nat \<Rightarrow> cstr" where
  "hs_types_array_pair_get_key L vector index =
     (case vector of
        None \<Rightarrow> None
      | Some v \<Rightarrow>
          (case vector_get (pair_vec L) v index of None \<Rightarrow> None | Some pair \<Rightarrow> Some (pair_key pair)))"

definition hs_types_array_pair_get_value ::
  "('sb, 'pv, 'cv, 'dt, 'sh) libs \<Rightarrow> 'pv option \<Rightarrow> nat \<Rightarrow> cstr" where
  "hs_types_array_pair_get_value L vector index =
     (case vector of
        None \<Rightarrow> None
      | Some v \<Rightarrow>
          (case vector_get (pair_vec L) v index of None \<Rightarrow> None | Some pair \<Rightarrow> pair_value pair))"

function array_get_by_key_loop ::
  "('sb, 'pv, 'cv, 'dt, 'sh) libs \<Rightarrow> 'pv \<Rightarrow> string \<Rightarrow> nat \<Rightarrow> nat \<Rightarrow> cstr" where
  "array_get_by_key_loop L v key index count =
     (if index < count
      then (case vector_get (pair_vec L) v index of
              None \<Rightarrow> array_get_by_key_loop L v key (Suc index) count
            | Some pair \<Rightarrow>
                if stringfn_equal L (Some (pair_key pair)) (Some key) then pair_value pair
                else array_get_by_key_loop L v key (Suc index) count)
      else None)"
  by pat_completeness auto
termination
  by (relation "measure (\<lambda>(L, v, key, index, count). count - index)") auto

definition hs_types_array_pair_get_by_key ::
  "('sb, 'pv, 'cv, 'dt, 'sh) libs \<Rightarrow> 'pv option \<Rightarrow> cstr \<Rightarrow> cstr" where
  "hs_types_array_pair_get_by_key L vector key =
     (case (vector, key) of
        (Some v, Some k) \<Rightarrow> array_get_by_key_loop L v k 0 (vector_size (pair_vec L) v)
      | _ \<Rightarrow> None)"

definition array_remove_step ::
  "('sb, 'pv, 'cv, 'dt, 'sh) libs \<Rightarrow> string \<Rightarrow> 'pv \<Rightarrow> nat \<Rightarrow> 'pv" where
  "array_remove_step L key v index =
     (case vector_get (pair_vec L) v index of
        None \<Rightarrow> v
      | Some pair \<Rightarrow>
          if stringfn_equal L (Some (pair_key pair)) (Some key) then vector_remove (pair_vec L) v index else v)"

primrec array_remove_loop ::
  "('sb, 'pv, 'cv, 'dt, 'sh) libs \<Rightarrow> string \<Rightarrow> nat \<Rightarrow> 'pv \<Rightarrow> 'pv" where
  \<comment> \<open>the index runs down to 0, which is handled too\<close>
  "array_remove_loop L key 0 v = array_remove_step L key v 0"
| "array_remove_loop L key (Suc index) v =
     array_remove_loop L key index (array_remove_step L key v (Suc index))"

definition hs_types_array_pair_remove_by_key ::
  "('sb, 'pv, 'cv, 'dt, 'sh) libs \<Rightarrow> 'pv option \<Rightarrow> cstr \<Rightarrow> 'pv option" where
  "hs_types_array_pair_remove_by_key L vector key =
     (case (vector, key) of
        (Some v, Some k) \<Rightarrow>
          (let count = vector_size (pair_vec L) v
           in if count = 0 then Some v else Some (array_remove_loop L k (count - 1) v))
      | _ \<Rightarrow> vector)"

section \<open>Operations on the struct\<close>

definition hs_types_array_string_pair_new :: "('sb, 'pv, 'cv, 'dt, 'sh) libs \<Rightarrow> 'pv" where
  "hs_types_array_string_pair_new L = vector_new (pair_vec L)"

definition hs_types_array_string_pair_count :: "('sb, 'pv, 'cv, 'dt, 'sh) libs \<Rightarrow> 'pv option \<Rightarrow> nat" where
  "hs_types_array_string_pair_count L array =
     (case array of None \<Rightarrow> 0 | Some v \<Rightarrow> vector_size (pair_vec L) v)"

definition hs_types_array_string_pair_add ::
  "('sb, 'pv, 'cv, 'dt, 'sh) libs \<Rightarrow> 'pv option \<Rightarrow> cstr \<Rightarrow> cstr \<Rightarrow> bool \<times> 'pv option" where
  "hs_types_array_string_pair_add L array key value =
     (case array of None \<Rightarrow> (False, None) | Some v \<Rightarrow> hs_types_array_pair_add L (Some v) key value)"

definition hs_types_array_string_pair_get_key ::
  "('sb, 'pv, 'cv, 'dt, 'sh) libs \<Rightarrow> 'pv option \<Rightarrow> nat \<Rightarrow> cstr" where
  "hs_types_array_string_pair_get_key L array index =
     (case array of None \<Rightarrow> None | Some v \<Rightarrow> hs_types_array_pair_get_key L (Some v) index)"

definition hs_types_array_string_pair_get_value ::
  "('sb, 'pv, 'cv, 'dt, 'sh) libs \<Rightarrow> 'pv option \<Rightarrow> nat \<Rightarrow> cstr" where
  "hs_types_array_string_pair_get_value L array index =
     (case array of None \<Rightarrow> None | Some v \<Rightarrow> hs_types_array_pair_get_value L (Some v) index)"

definition hs_types_array_string_pair_get_by_key ::
  "('sb, 'pv, 'cv, 'dt, 'sh) libs \<Rightarrow> 'pv option \<Rightarrow> cstr \<Rightarrow> cstr" where
  "hs_types_array_string_pair_get_by_key L array key =
     (case array of None \<Rightarrow> None | Some v \<Rightarrow> hs_types_array_pair_get_by_key L (Some v) key)"

definition hs_types_array_string_pair_remove_by_key ::
  "('sb, 'pv, 'cv, 'dt, 'sh) libs \<Rightarrow> 'pv option \<Rightarrow> cstr \<Rightarrow> 'pv option" where
  "hs_types_array_string_pair_remove_by_key L array key =
     (case array of None \<Rightarrow> None | Some v \<Rightarrow> hs_types_array_pair_remove_by_key L (Some v) key)"

section \<open>The pairs of an array\<close>

definition array_pairs :: "('sb, 'pv, 'cv, 'dt, 'sh) libs \<Rightarrow> 'pv \<Rightarrow> (string \<times> cstr) list" where
  "array_pairs L v = map (\<lambda>p. (pair_key p, pair_value p)) (vec_list (pair_vec L) v)"

definition array_put :: "('sb, 'pv, 'cv, 'dt, 'sh) libs \<Rightarrow> 'pv \<Rightarrow> string \<Rightarrow> cstr \<Rightarrow> 'pv" where
  "array_put L v k value = vector_push (pair_vec L) v \<lparr>pair_key = k, pair_value = value\<rparr>"

lemma array_add_simps [simp]:
  "hs_types_array_string_pair_add L (Some v) (Some k) value = (True, Some (array_put L v k value))"
  "hs_types_array_string_pair_add L (Some v) None value = (False, Some v)"
  "hs_types_array_string_pair_add L None key value = (False, None)"
  by (simp_all add: hs_types_array_string_pair_add_def hs_types_array_pair_add_def array_put_def)

lemma array_put_pairs:
  "libs_ok L \<Longrightarrow> array_pairs L (array_put L v k value) = array_pairs L v @ [(k, value)]"
  by (simp add: array_pairs_def array_put_def lib_simps)

lemma array_new_pairs: "libs_ok L \<Longrightarrow> array_pairs L (hs_types_array_string_pair_new L) = []"
  by (simp add: array_pairs_def hs_types_array_string_pair_new_def lib_simps)

lemma array_count: "libs_ok L \<Longrightarrow> hs_types_array_string_pair_count L (Some v) = length (array_pairs L v)"
  by (simp add: hs_types_array_string_pair_count_def array_pairs_def lib_simps)

lemma array_get:
  assumes "libs_ok L"
  shows "hs_types_array_string_pair_get_key L (Some v) i =
      (if i < length (array_pairs L v) then Some (fst (array_pairs L v ! i)) else None)"
    and "hs_types_array_string_pair_get_value L (Some v) i =
      (if i < length (array_pairs L v) then snd (array_pairs L v ! i) else None)"
  using assms
  by (simp_all add: hs_types_array_string_pair_get_key_def hs_types_array_pair_get_key_def
      hs_types_array_string_pair_get_value_def hs_types_array_pair_get_value_def array_pairs_def lib_simps)

declare array_get_by_key_loop.simps [simp del]

lemma array_get_by_key_loop_map_of:
  assumes "libs_ok L" and "count = length (array_pairs L v)"
  shows "array_get_by_key_loop L v key i count =
    (case map_of (drop i (array_pairs L v)) key of None \<Rightarrow> None | Some x \<Rightarrow> x)"
  using assms
proof (induction L v key i count rule: array_get_by_key_loop.induct)
  case (1 L v key i count)
  show ?case
  proof (cases "i < count")
    case True
    then have d: "drop i (array_pairs L v) = array_pairs L v ! i # drop (Suc i) (array_pairs L v)"
      using "1.prems"(2) by (simp add: Cons_nth_drop_Suc)
    let ?p = "vec_list (pair_vec L) v ! i"
    have g: "vector_get (pair_vec L) v i = Some ?p" and n: "array_pairs L v ! i = (pair_key ?p, pair_value ?p)"
      using True "1.prems" by (simp_all add: lib_simps array_pairs_def)
    have e: "stringfn_equal L (Some (pair_key ?p)) (Some key) = (pair_key ?p = key)"
      using "1.prems"(1) by (simp add: lib_simps)
    show ?thesis
    proof (cases "pair_key ?p = key")
      case eq: True
      with True g n d e show ?thesis by (subst array_get_by_key_loop.simps) simp
    next
      case False
      with e have "\<not> stringfn_equal L (Some (pair_key ?p)) (Some key)" by simp
      from "1.IH"(2) [OF True g this "1.prems"] False True g n d e show ?thesis
        by (subst array_get_by_key_loop.simps) simp
    qed
  next
    case False
    with "1.prems"(2) show ?thesis by (subst array_get_by_key_loop.simps) simp
  qed
qed

lemma array_get_by_key:
  assumes "libs_ok L"
  shows "hs_types_array_string_pair_get_by_key L (Some v) (Some k) =
    Option.bind (map_of (array_pairs L v) k) (\<lambda>x. x)"
proof -
  have "vector_size (pair_vec L) v = length (array_pairs L v)"
    using assms by (simp add: array_pairs_def lib_simps)
  from array_get_by_key_loop_map_of [OF assms this, of k 0] show ?thesis
    by (simp add: hs_types_array_string_pair_get_by_key_def hs_types_array_pair_get_by_key_def
        Option.bind_def split: option.splits)
qed

lemma array_remove_step_pairs:
  assumes "libs_ok L" and "i < length (array_pairs L v)"
  shows "array_pairs L (array_remove_step L k v i) =
    take i (array_pairs L v) @ filter (\<lambda>p. fst p \<noteq> k) [array_pairs L v ! i] @ drop (Suc i) (array_pairs L v)"
proof -
  let ?p = "vec_list (pair_vec L) v ! i"
  have i: "i < length (vec_list (pair_vec L) v)" using assms(2) by (simp add: array_pairs_def)
  have g: "vector_get (pair_vec L) v i = Some ?p" and n: "array_pairs L v ! i = (pair_key ?p, pair_value ?p)"
    using assms(1) i by (simp_all add: lib_simps array_pairs_def)
  have id: "array_pairs L v = take i (array_pairs L v) @ array_pairs L v ! i # drop (Suc i) (array_pairs L v)"
    using assms(2) by (simp add: id_take_nth_drop)
  show ?thesis
  proof (cases "pair_key ?p = k")
    case True
    with assms(1) g i show ?thesis
      by (simp add: array_remove_step_def lib_simps n) (simp add: array_pairs_def lib_simps take_map drop_map)
  next
    case False
    with assms(1) g n have "array_remove_step L k v i = v" by (simp add: array_remove_step_def lib_simps)
    with id n False show ?thesis by simp
  qed
qed

lemma array_remove_loop_pairs:
  assumes "libs_ok L" and "i < length (array_pairs L v)"
  shows "array_pairs L (array_remove_loop L k i v) =
    filter (\<lambda>p. fst p \<noteq> k) (take (Suc i) (array_pairs L v)) @ drop (Suc i) (array_pairs L v)"
  using assms(2)
proof (induction i arbitrary: v)
  case 0
  then show ?case using array_remove_step_pairs [OF assms(1), of 0 v k]
    by (simp add: take_Suc_conv_app_nth)
next
  case (Suc i)
  note step = array_remove_step_pairs [OF assms(1) Suc.prems, of k]
  have "i < length (array_pairs L (array_remove_step L k v (Suc i)))"
    using Suc.prems by (simp add: step)
  from Suc.IH [OF this] Suc.prems show ?case
    by (simp add: step take_Suc_conv_app_nth)
qed

lemma array_remove_by_key:
  assumes "libs_ok L"
  obtains v' where "hs_types_array_string_pair_remove_by_key L (Some v) (Some k) = Some v'"
    "array_pairs L v' = filter (\<lambda>p. fst p \<noteq> k) (array_pairs L v)"
proof (cases "array_pairs L v = []")
  case True
  then show ?thesis
    using assms that [of v]
    by (simp add: hs_types_array_string_pair_remove_by_key_def hs_types_array_pair_remove_by_key_def
        array_pairs_def lib_simps)
next
  case False
  have c: "vector_size (pair_vec L) v = length (array_pairs L v)"
    using assms by (simp add: array_pairs_def lib_simps)
  with False show ?thesis
    using that [of "array_remove_loop L k (length (array_pairs L v) - 1) v"]
      array_remove_loop_pairs [OF assms, of "length (array_pairs L v) - 1" v k]
    by (simp add: hs_types_array_string_pair_remove_by_key_def hs_types_array_pair_remove_by_key_def Let_def)
qed

definition array_del :: "('sb, 'pv, 'cv, 'dt, 'sh) libs \<Rightarrow> 'pv \<Rightarrow> string \<Rightarrow> 'pv" where
  "array_del L v k = (case hs_types_array_string_pair_remove_by_key L (Some v) (Some k) of None \<Rightarrow> v | Some v' \<Rightarrow> v')"

interpretation array: keyed_store_new libs_ok "\<lambda>_ _. True" array_pairs "\<lambda>_ _. True" "\<lambda>x. x"
  array_put "\<lambda>L v k. hs_types_array_string_pair_get_by_key L (Some v) (Some k)" array_del
  hs_types_array_string_pair_new
proof
  fix L :: "('sb, 'pv, 'cv, 'dt, 'sh) libs" and v :: 'pv and k :: string
  assume ok: "libs_ok L"
  show "array_pairs L (array_del L v k) = filter (\<lambda>p. fst p \<noteq> k) (array_pairs L v)"
    by (rule array_remove_by_key [OF ok, of v k]) (simp add: array_del_def)
qed (simp_all add: array_put_pairs array_get_by_key array_new_pairs)

section \<open>Properties\<close>

text \<open>
  Setting a header by removing its key and adding it again: the added value is the one a
  lookup finds afterwards, every other key keeps its value, and the removal has dropped every
  earlier entry of the key, whatever its position.
\<close>

theorem array_replace_key:
  assumes "libs_ok L"
  shows "\<exists>v1 v2. hs_types_array_string_pair_remove_by_key L (Some v) (Some k) = Some v1
    \<and> hs_types_array_string_pair_add L (Some v1) (Some k) (Some x) = (True, Some v2)
    \<and> hs_types_array_string_pair_count L (Some v1) = length (filter (\<lambda>p. fst p \<noteq> k) (array_pairs L v))
    \<and> (\<forall>k'. hs_types_array_string_pair_get_by_key L (Some v2) (Some k') =
         (if k' = k then Some x else hs_types_array_string_pair_get_by_key L (Some v) (Some k')))"
proof -
  obtain v1 where r: "hs_types_array_string_pair_remove_by_key L (Some v) (Some k) = Some v1"
    and p: "array_pairs L v1 = filter (\<lambda>p. fst p \<noteq> k) (array_pairs L v)"
    using assms by (rule array_remove_by_key)
  have "array_del L v k = v1" using r by (simp add: array_del_def)
  with array.replace_key [OF assms TrueI TrueI, of v k "Some x"] r p show ?thesis
    using assms by (simp add: array_count)
qed

theorem array_replace_key_witness:
  "\<exists>v1 v2. hs_types_array_string_pair_remove_by_key reference_libs
       (Some [\<lparr>pair_key = ''a'', pair_value = Some ''1''\<rparr>, \<lparr>pair_key = ''b'', pair_value = None\<rparr>,
              \<lparr>pair_key = ''a'', pair_value = Some ''2''\<rparr>]) (Some ''a'') = Some v1
    \<and> hs_types_array_string_pair_add reference_libs (Some v1) (Some ''a'') (Some ''3'') = (True, Some v2)"
  using array_replace_key [OF reference_libs_ok,
      of "[\<lparr>pair_key = ''a'', pair_value = Some ''1''\<rparr>, \<lparr>pair_key = ''b'', pair_value = None\<rparr>,
           \<lparr>pair_key = ''a'', pair_value = Some ''2''\<rparr>]" "''a''" "''3''"]
  by blast

end
