(* ===== verification/Types_Cookie.thy ===== *)
theory Types_Cookie
  imports Keyed_Store
begin

text \<open>
  \<open>struct HSCookies\<close> of \<open>src/hs_types_cookie.c\<close>, represented by its vector, and the default
  cookie. The loops of the source read \<open>cookie->name\<close> without a NULL test: a vector that returned
  NULL inside its bounds would be a fault, which the laws of the library exclude.
\<close>

section \<open>Operations\<close>

definition hs_types_cookie_new :: HSCookie where
  "hs_types_cookie_new =
     \<lparr>cookie_name = None, cookie_value = None, cookie_expires = None, cookie_max_age = -1,
      cookie_secure = False, cookie_http_only = False, cookie_domain = None, cookie_path = None,
      cookie_same_site = HS_COOKIE_SAME_SITE_LAX\<rparr>"

definition hs_types_cookies_new :: "('sb, 'pv, 'cv, 'dt, 'sh) libs \<Rightarrow> 'cv" where
  "hs_types_cookies_new L = vector_new (cookie_vec L)"

definition hs_types_cookies_count :: "('sb, 'pv, 'cv, 'dt, 'sh) libs \<Rightarrow> 'cv option \<Rightarrow> nat" where
  "hs_types_cookies_count L cookies =
     (case cookies of None \<Rightarrow> 0 | Some v \<Rightarrow> vector_size (cookie_vec L) v)"

definition hs_types_cookies_add ::
  "('sb, 'pv, 'cv, 'dt, 'sh) libs \<Rightarrow> 'cv option \<Rightarrow> HSCookie option \<Rightarrow> bool \<times> 'cv option" where
  "hs_types_cookies_add L cookies cookie =
     (case (cookies, cookie) of
        (Some v, Some c) \<Rightarrow>
          (if cookie_name c = None \<or> cookie_value c = None then (False, cookies)
           else (True, Some (vector_push (cookie_vec L) v c)))
      | _ \<Rightarrow> (False, cookies))"

definition hs_types_cookies_get ::
  "('sb, 'pv, 'cv, 'dt, 'sh) libs \<Rightarrow> 'cv option \<Rightarrow> nat \<Rightarrow> HSCookie option" where
  "hs_types_cookies_get L cookies index =
     (case cookies of None \<Rightarrow> None | Some v \<Rightarrow> vector_get (cookie_vec L) v index)"

function cookies_get_by_name_loop ::
  "('sb, 'pv, 'cv, 'dt, 'sh) libs \<Rightarrow> 'cv \<Rightarrow> string \<Rightarrow> nat \<Rightarrow> nat \<Rightarrow> HSCookie option run" where
  "cookies_get_by_name_loop L v name index count =
     (if index < count
      then (case vector_get (cookie_vec L) v index of
              None \<Rightarrow> ub NullDeref
            | Some cookie \<Rightarrow>
                if stringfn_equal L (cookie_name cookie) (Some name) then ret (Some cookie)
                else cookies_get_by_name_loop L v name (Suc index) count)
      else ret None)"
  by pat_completeness auto
termination
  by (relation "measure (\<lambda>(L, v, name, index, count). count - index)") auto

definition hs_types_cookies_get_by_name ::
  "('sb, 'pv, 'cv, 'dt, 'sh) libs \<Rightarrow> 'cv option \<Rightarrow> cstr \<Rightarrow> HSCookie option run" where
  "hs_types_cookies_get_by_name L cookies name =
     (case (cookies, name) of
        (Some v, Some n) \<Rightarrow> cookies_get_by_name_loop L v n 0 (vector_size (cookie_vec L) v)
      | _ \<Rightarrow> ret None)"

definition cookies_remove_step ::
  "('sb, 'pv, 'cv, 'dt, 'sh) libs \<Rightarrow> string \<Rightarrow> 'cv \<Rightarrow> nat \<Rightarrow> 'cv run" where
  "cookies_remove_step L name v index =
     (case vector_get (cookie_vec L) v index of
        None \<Rightarrow> ub NullDeref
      | Some cookie \<Rightarrow>
          if stringfn_equal L (cookie_name cookie) (Some name) then ret (vector_remove (cookie_vec L) v index)
          else ret v)"

primrec cookies_remove_loop ::
  "('sb, 'pv, 'cv, 'dt, 'sh) libs \<Rightarrow> string \<Rightarrow> nat \<Rightarrow> 'cv \<Rightarrow> 'cv run" where
  "cookies_remove_loop L name 0 v = cookies_remove_step L name v 0"
| "cookies_remove_loop L name (Suc index) v =
     bindR (cookies_remove_step L name v (Suc index)) (\<lambda>v'. cookies_remove_loop L name index v')"

definition hs_types_cookies_remove_by_name ::
  "('sb, 'pv, 'cv, 'dt, 'sh) libs \<Rightarrow> 'cv option \<Rightarrow> cstr \<Rightarrow> 'cv option run" where
  "hs_types_cookies_remove_by_name L cookies name =
     (case (cookies, name) of
        (Some v, Some n) \<Rightarrow>
          (let count = vector_size (cookie_vec L) v
           in if count = 0 then ret (Some v)
              else bindR (cookies_remove_loop L n (count - 1) v) (\<lambda>v'. ret (Some v')))
      | _ \<Rightarrow> ret cookies)"

section \<open>The cookies of a container\<close>

definition cookie_list :: "('sb, 'pv, 'cv, 'dt, 'sh) libs \<Rightarrow> 'cv \<Rightarrow> HSCookie list" where
  "cookie_list L v = vec_list (cookie_vec L) v"

definition cookies_wf :: "('sb, 'pv, 'cv, 'dt, 'sh) libs \<Rightarrow> 'cv \<Rightarrow> bool" where
  \<comment> \<open>the invariant of the container: \<open>hs_types_cookies_add\<close> rejects a NULL name or value\<close>
  "cookies_wf L v \<longleftrightarrow> list_all (\<lambda>c. cookie_name c \<noteq> None \<and> cookie_value c \<noteq> None) (cookie_list L v)"

definition cookie_pairs :: "('sb, 'pv, 'cv, 'dt, 'sh) libs \<Rightarrow> 'cv \<Rightarrow> (string \<times> HSCookie) list" where
  "cookie_pairs L v = map (\<lambda>c. (the (cookie_name c), c)) (cookie_list L v)"

definition cookie_fits :: "string \<Rightarrow> HSCookie \<Rightarrow> bool" where
  "cookie_fits n c \<longleftrightarrow> cookie_name c = Some n \<and> cookie_value c \<noteq> None"

definition cookies_put :: "('sb, 'pv, 'cv, 'dt, 'sh) libs \<Rightarrow> 'cv \<Rightarrow> string \<Rightarrow> HSCookie \<Rightarrow> 'cv" where
  "cookies_put L v n c = (case hs_types_cookies_add L (Some v) (Some c) of (_, Some v') \<Rightarrow> v' | _ \<Rightarrow> v)"

definition cookies_lookup :: "('sb, 'pv, 'cv, 'dt, 'sh) libs \<Rightarrow> 'cv \<Rightarrow> string \<Rightarrow> HSCookie option" where
  "cookies_lookup L v n = (case hs_types_cookies_get_by_name L (Some v) (Some n) of ret r \<Rightarrow> r | _ \<Rightarrow> None)"

definition cookies_del :: "('sb, 'pv, 'cv, 'dt, 'sh) libs \<Rightarrow> 'cv \<Rightarrow> string \<Rightarrow> 'cv" where
  "cookies_del L v n = (case hs_types_cookies_remove_by_name L (Some v) (Some n) of ret (Some v') \<Rightarrow> v' | _ \<Rightarrow> v)"

lemma cookies_add_simps [simp]:
  "hs_types_cookies_add L None c = (False, None)"
  "hs_types_cookies_add L cs None = (False, cs)"
  "cookie_name ck = Some n \<Longrightarrow> cookie_value ck = Some x \<Longrightarrow>
     hs_types_cookies_add L (Some v) (Some ck) = (True, Some (vector_push (cookie_vec L) v ck))"
  by (simp_all add: hs_types_cookies_add_def split: option.splits)

lemma cookies_add_list:
  "libs_ok L \<Longrightarrow> cookie_fits n c \<Longrightarrow> cookie_list L (cookies_put L v n c) = cookie_list L v @ [c]"
  by (auto simp: cookies_put_def cookie_fits_def cookie_list_def lib_simps)

lemma cookies_new_list: "libs_ok L \<Longrightarrow> cookie_list L (hs_types_cookies_new L) = []"
  by (simp add: hs_types_cookies_new_def cookie_list_def lib_simps)

lemma cookies_count: "libs_ok L \<Longrightarrow> hs_types_cookies_count L (Some v) = length (cookie_list L v)"
  by (simp add: hs_types_cookies_count_def cookie_list_def lib_simps)

lemma cookies_get:
  "libs_ok L \<Longrightarrow> hs_types_cookies_get L (Some v) i =
     (if i < length (cookie_list L v) then Some (cookie_list L v ! i) else None)"
  by (simp add: hs_types_cookies_get_def cookie_list_def lib_simps)

lemma cookies_wf_nth:
  assumes "cookies_wf L v" and "i < length (cookie_list L v)"
  obtains n x where "cookie_name (cookie_list L v ! i) = Some n" "cookie_value (cookie_list L v ! i) = Some x"
  using assms by (auto simp: cookies_wf_def list_all_length)

declare cookies_get_by_name_loop.simps [simp del]

lemma cookies_get_by_name_loop_map_of:
  assumes "libs_ok L" and "cookies_wf L v" and "count = length (cookie_list L v)"
  shows "cookies_get_by_name_loop L v n i count = ret (map_of (drop i (cookie_pairs L v)) n)"
  using assms
proof (induction L v n i count rule: cookies_get_by_name_loop.induct)
  case (1 L v n i count)
  show ?case
  proof (cases "i < count")
    case True
    let ?c = "cookie_list L v ! i"
    have i: "i < length (cookie_list L v)" using True "1.prems"(3) by simp
    obtain m x where m: "cookie_name ?c = Some m" using "1.prems"(2) i by (rule cookies_wf_nth)
    have g: "vector_get (cookie_vec L) v i = Some ?c"
      using i "1.prems"(1) by (simp add: lib_simps cookie_list_def)
    have d: "drop i (cookie_pairs L v) = (m, ?c) # drop (Suc i) (cookie_pairs L v)"
      using i m by (simp add: cookie_pairs_def flip: Cons_nth_drop_Suc)
    show ?thesis
    proof (cases "m = n")
      case eq: True
      with True g d m "1.prems"(1) show ?thesis
        by (subst cookies_get_by_name_loop.simps) (simp add: lib_simps)
    next
      case False
      with m "1.prems"(1) have "\<not> stringfn_equal L (cookie_name ?c) (Some n)" by (simp add: lib_simps)
      from "1.IH" [OF True g this "1.prems"] True this False g d show ?thesis
        by (subst cookies_get_by_name_loop.simps) simp
    qed
  next
    case False
    with "1.prems"(3) show ?thesis by (subst cookies_get_by_name_loop.simps) (simp add: cookie_pairs_def)
  qed
qed

lemma cookies_get_by_name:
  assumes "libs_ok L" and "cookies_wf L v"
  shows "hs_types_cookies_get_by_name L (Some v) (Some n) = ret (map_of (cookie_pairs L v) n)"
proof -
  have "vector_size (cookie_vec L) v = length (cookie_list L v)"
    using assms by (simp add: cookie_list_def lib_simps)
  from cookies_get_by_name_loop_map_of [OF assms this, of n 0] show ?thesis
    by (simp add: hs_types_cookies_get_by_name_def)
qed

lemma cookies_remove_step_list:
  assumes "libs_ok L" and "cookies_wf L v" and i: "i < length (cookie_list L v)"
  obtains v' where "cookies_remove_step L n v i = ret v'" "cookies_wf L v'"
    "cookie_list L v' = take i (cookie_list L v) @ filter (\<lambda>c. cookie_name c \<noteq> Some n) [cookie_list L v ! i]
       @ drop (Suc i) (cookie_list L v)"
proof -
  let ?c = "cookie_list L v ! i"
  obtain m x where m: "cookie_name ?c = Some m" using assms(2) i by (rule cookies_wf_nth)
  have g: "vector_get (cookie_vec L) v i = Some ?c"
    using i assms(1) by (simp add: lib_simps cookie_list_def)
  have id: "cookie_list L v = take i (cookie_list L v) @ ?c # drop (Suc i) (cookie_list L v)"
    using i by (simp add: id_take_nth_drop)
  show thesis
  proof (cases "m = n")
    case True
    have l: "cookie_list L (vector_remove (cookie_vec L) v i) = take i (cookie_list L v) @ drop (Suc i) (cookie_list L v)"
      using assms(1) i by (simp add: cookie_list_def lib_simps)
    have "cookies_wf L (vector_remove (cookie_vec L) v i)"
      using assms(2) unfolding cookies_wf_def l by (auto simp: list_all_iff dest: in_set_takeD in_set_dropD)
    with True g m assms(1) l show thesis
      by (intro that [of "vector_remove (cookie_vec L) v i"])
        (simp_all add: cookies_remove_step_def lib_simps)
  next
    case False
    with g m id assms show thesis
      by (intro that [of v]) (simp_all add: cookies_remove_step_def lib_simps)
  qed
qed

lemma cookies_remove_loop_list:
  assumes "libs_ok L" and "cookies_wf L v" and "i < length (cookie_list L v)"
  shows "\<exists>v'. cookies_remove_loop L n i v = ret v' \<and> cookies_wf L v' \<and> cookie_list L v' =
    filter (\<lambda>c. cookie_name c \<noteq> Some n) (take (Suc i) (cookie_list L v)) @ drop (Suc i) (cookie_list L v)"
  using assms(2,3)
proof (induction i arbitrary: v)
  case 0
  show ?case
    by (rule cookies_remove_step_list [OF assms(1) 0, of n])
      (use 0 in \<open>auto simp: take_Suc_conv_app_nth\<close>)
next
  case (Suc i)
  obtain v1 where v1: "cookies_remove_step L n v (Suc i) = ret v1" "cookies_wf L v1"
    and l: "cookie_list L v1 = take (Suc i) (cookie_list L v)
      @ filter (\<lambda>c. cookie_name c \<noteq> Some n) [cookie_list L v ! Suc i] @ drop (Suc (Suc i)) (cookie_list L v)"
    using assms(1) Suc.prems by (rule cookies_remove_step_list)
  have "i < length (cookie_list L v1)" using Suc.prems by (simp add: l)
  from Suc.IH [OF v1(2) this] v1(1) Suc.prems show ?case
    by (simp add: l take_Suc_conv_app_nth [of "Suc i"])
qed

lemma cookies_remove_by_name:
  assumes "libs_ok L" and "cookies_wf L v"
  obtains v' where "hs_types_cookies_remove_by_name L (Some v) (Some n) = ret (Some v')" "cookies_wf L v'"
    "cookie_list L v' = filter (\<lambda>c. cookie_name c \<noteq> Some n) (cookie_list L v)"
proof (cases "cookie_list L v = []")
  case True
  with assms show ?thesis using that [of v]
    by (simp add: hs_types_cookies_remove_by_name_def cookie_list_def lib_simps)
next
  case False
  have c: "vector_size (cookie_vec L) v = length (cookie_list L v)"
    using assms by (simp add: cookie_list_def lib_simps)
  from False obtain v' where "cookies_remove_loop L n (length (cookie_list L v) - 1) v = ret v'" "cookies_wf L v'"
    "cookie_list L v' = filter (\<lambda>c. cookie_name c \<noteq> Some n) (cookie_list L v)"
    using cookies_remove_loop_list [OF assms, of "length (cookie_list L v) - 1" n] by auto
  with False c show ?thesis
    by (intro that [of v']) (simp_all add: hs_types_cookies_remove_by_name_def)
qed

interpretation cookies: keyed_store_new libs_ok cookies_wf cookie_pairs cookie_fits Some
  cookies_put cookies_lookup cookies_del hs_types_cookies_new
proof
  fix L :: "('sb, 'pv, 'cv, 'dt, 'sh) libs" and v :: 'cv and n :: string and c :: HSCookie
  assume ok: "libs_ok L"
  show "cookies_wf L (hs_types_cookies_new L)" "cookie_pairs L (hs_types_cookies_new L) = []"
    by (simp_all add: cookies_wf_def cookie_pairs_def cookies_new_list ok)
  assume wf: "cookies_wf L v"
  show "cookies_lookup L v n = Option.bind (map_of (cookie_pairs L v) n) Some"
    by (simp add: cookies_lookup_def cookies_get_by_name [OF ok wf])
  obtain v' where v': "hs_types_cookies_remove_by_name L (Some v) (Some n) = ret (Some v')" "cookies_wf L v'"
    "cookie_list L v' = filter (\<lambda>c. cookie_name c \<noteq> Some n) (cookie_list L v)"
    using ok wf by (rule cookies_remove_by_name)
  show "cookies_wf L (cookies_del L v n)" using v' by (simp add: cookies_del_def)
  have "filter (\<lambda>c. the (cookie_name c) \<noteq> n) (cookie_list L v) = filter (\<lambda>c. cookie_name c \<noteq> Some n) (cookie_list L v)"
    using wf by (intro filter_cong) (auto simp: cookies_wf_def list_all_iff)
  then show "cookie_pairs L (cookies_del L v n) = filter (\<lambda>p. fst p \<noteq> n) (cookie_pairs L v)"
    using v' by (simp add: cookies_del_def cookie_pairs_def filter_map comp_def)
  assume fits: "cookie_fits n c"
  show "cookies_wf L (cookies_put L v n c)"
    using wf fits by (auto simp: cookies_wf_def cookies_add_list [OF ok fits] cookie_fits_def)
  show "cookie_pairs L (cookies_put L v n c) = cookie_pairs L v @ [(n, c)]"
    using fits by (simp add: cookie_pairs_def cookies_add_list [OF ok fits] cookie_fits_def)
qed

section \<open>Properties\<close>

text \<open>
  No operation on a well-formed cookie container faults and each keeps it well formed:
  adding rejects a cookie without name or value and otherwise appends it, a lookup by name
  returns the first cookie of that name, and a removal drops exactly the cookies of that name.
\<close>

theorem cookies_operations_safe:
  assumes "libs_ok L" and "cookies_wf L v"
  shows "(case hs_types_cookies_add L (Some v) (Some c) of
            (added, Some v') \<Rightarrow> added = (cookie_name c \<noteq> None \<and> cookie_value c \<noteq> None) \<and> cookies_wf L v'
              \<and> cookie_list L v' = (if added then cookie_list L v @ [c] else cookie_list L v)
          | _ \<Rightarrow> False)
    \<and> hs_types_cookies_get_by_name L (Some v) (Some n) =
          ret (find (\<lambda>c. cookie_name c = Some n) (cookie_list L v))
    \<and> (\<exists>v'. hs_types_cookies_remove_by_name L (Some v) (Some n) = ret (Some v') \<and> cookies_wf L v'
          \<and> cookie_list L v' = filter (\<lambda>c. cookie_name c \<noteq> Some n) (cookie_list L v))"
proof (intro conjI)
  show "case hs_types_cookies_add L (Some v) (Some c) of
            (added, Some v') \<Rightarrow> added = (cookie_name c \<noteq> None \<and> cookie_value c \<noteq> None) \<and> cookies_wf L v'
              \<and> cookie_list L v' = (if added then cookie_list L v @ [c] else cookie_list L v)
          | _ \<Rightarrow> False"
    using assms by (auto simp: hs_types_cookies_add_def cookies_wf_def cookie_list_def lib_simps)
  have "map_of (map (\<lambda>c. (the (cookie_name c), c)) cs) n = find (\<lambda>c. cookie_name c = Some n) cs"
    if "list_all (\<lambda>c. cookie_name c \<noteq> None \<and> cookie_value c \<noteq> None) cs" for cs
    using that by (induction cs) auto
  then show "hs_types_cookies_get_by_name L (Some v) (Some n) =
          ret (find (\<lambda>c. cookie_name c = Some n) (cookie_list L v))"
    using assms by (simp add: cookies_get_by_name cookie_pairs_def cookies_wf_def)
  show "\<exists>v'. hs_types_cookies_remove_by_name L (Some v) (Some n) = ret (Some v') \<and> cookies_wf L v'
          \<and> cookie_list L v' = filter (\<lambda>c. cookie_name c \<noteq> Some n) (cookie_list L v)"
    by (rule cookies_remove_by_name [OF assms, of n]) blast
qed

theorem cookies_operations_safe_witness:
  "hs_types_cookies_get_by_name reference_libs (Some [hs_types_cookie_new\<lparr>cookie_name := Some ''sc'', cookie_value := Some ''1''\<rparr>])
     (Some ''other'') = ret None"
proof -
  let ?v = "[hs_types_cookie_new\<lparr>cookie_name := Some ''sc'', cookie_value := Some ''1''\<rparr>]"
  have "cookies_wf reference_libs ?v" and f: "find (\<lambda>c. cookie_name c = Some ''other'') (cookie_list reference_libs ?v) = None"
    by code_simp+
  from cookies_operations_safe [OF reference_libs_ok this(1), of hs_types_cookie_new "''other''"] f show ?thesis by simp
qed

end
