(* ===== verification/Types.thy ===== *)
theory Types
  imports IO Types_Array Types_Cookie
begin

text \<open>
  The request, the response and the states of a request in flight (\<open>src/include/hs_types.h\<close>,
  \<open>src/hs_types.c\<close>), with the two ways a route loads the payload of a request. Struct pointers
  that may be NULL are optional values. A callback closes over its context; the environment its
  run function can reach is everything a request carries but the callbacks themselves.
\<close>

section \<open>Structs\<close>

record HSRouterFlowState =
  router_done :: bool
  closed_connection :: bool
  base_path :: cstr

record ('pv, 'dt) HSRouteFlowState =
  string_pairs :: "'pv option"
  route_data :: 'dt

record 'sb HSHttpRequestPayload =
  loaded :: bool
  io_payload :: "'sb HSIOHttpRequestPayload option"

record ('sb, 'pv, 'cv) HSHttpRequest =
  req_method :: HSHttpMethod
  req_domain :: cstr
  req_port :: int
  req_ssl :: bool
  req_resource :: cstr
  req_query_string :: cstr
  req_user_agent :: cstr
  req_authorization :: cstr
  req_content_length :: size_t
  req_connection :: HSConnectionType
  req_cookies :: "'cv option"
  req_headers :: "'pv option"
  req_payload :: "'sb HSHttpRequestPayload option"

record ('pv, 'cv) HSHttpResponse =
  resp_code :: HSHttpResponseCode
  resp_cookies :: "'cv option"
  resp_headers :: "'pv option"
  resp_mime_type :: HSMimeType
  resp_content_string :: cstr
  resp_content_file :: cstr

record HSServerConnectionState =
  conn_socket :: "HSSocket option"
  request_counter :: size_t
  creation_time :: int

record ('sb, 'pv, 'cv, 'dt) HSServeFlowEnv =
  request :: "('sb, 'pv, 'cv) HSHttpRequest option"
  response :: "('pv, 'cv) HSHttpResponse option"
  route_state :: "('pv, 'dt) HSRouteFlowState option"
  router_state :: "HSRouterFlowState option"
  connection_state :: "HSServerConnectionState option"

record 'e HSPostResponseCallback =
  callback_run :: "('e \<Rightarrow> world \<Rightarrow> ('e \<times> world) run) option"
  callback_release :: "(world \<Rightarrow> world run) option"

record 'e HSPostResponseCallbacks =
  callback_slots :: "'e HSPostResponseCallback option list"
  callback_count :: nat
  callback_capacity :: nat

type_synonym ('sb, 'pv, 'cv, 'dt) flow_callbacks =
  "('sb, 'pv, 'cv, 'dt) HSServeFlowEnv HSPostResponseCallbacks"

record ('sb, 'pv, 'cv, 'dt) HSServeFlowParams = "('sb, 'pv, 'cv, 'dt) HSServeFlowEnv" +
  callbacks :: "('sb, 'pv, 'cv, 'dt) flow_callbacks option"

datatype HSServeFlowResponse = HS_SERVE_FLOW_RESPONSE_CONTINUE | HS_SERVE_FLOW_RESPONSE_DONE

section \<open>Constructors\<close>

definition hs_types_http_request_new ::
  "('sb, 'pv, 'cv, 'dt, 'sh) libs \<Rightarrow> ('sb, 'pv, 'cv) HSHttpRequest" where
  "hs_types_http_request_new L =
     \<lparr>req_method = HS_HTTP_METHOD_GET, req_domain = None, req_port = -1, req_ssl = False,
      req_resource = None, req_query_string = None, req_user_agent = None, req_authorization = None,
      req_content_length = 0, req_connection = HS_CONNECTION_TYPE_UNKNOWN,
      req_cookies = Some (hs_types_cookies_new L), req_headers = Some (hs_types_array_string_pair_new L),
      req_payload = None\<rparr>"

definition hs_types_http_response_new ::
  "('sb, 'pv, 'cv, 'dt, 'sh) libs \<Rightarrow> ('pv, 'cv) HSHttpResponse" where
  "hs_types_http_response_new L =
     \<lparr>resp_code = HS_HTTP_RESPONSE_CODE_OK, resp_cookies = Some (hs_types_cookies_new L),
      resp_headers = Some (hs_types_array_string_pair_new L), resp_mime_type = HS_MIME_TYPE_NONE,
      resp_content_string = None, resp_content_file = None\<rparr>"

definition hs_types_post_response_callback_new :: "'e HSPostResponseCallback" where
  "hs_types_post_response_callback_new = \<lparr>callback_run = None, callback_release = None\<rparr>"

definition hs_types_post_response_callbacks_new :: "nat \<Rightarrow> 'e HSPostResponseCallbacks" where
  \<comment> \<open>slots of the allocated array that were never written are \<open>None\<close>\<close>
  "hs_types_post_response_callbacks_new capacity =
     \<lparr>callback_slots = replicate capacity None, callback_count = 0, callback_capacity = capacity\<rparr>"

definition hs_types_router_flow_state_new :: HSRouterFlowState where
  "hs_types_router_flow_state_new = \<lparr>router_done = False, closed_connection = False, base_path = None\<rparr>"

definition hs_types_route_flow_state_new ::
  "('sb, 'pv, 'cv, 'dt, 'sh) libs \<Rightarrow> ('pv, 'dt) HSRouteFlowState" where
  "hs_types_route_flow_state_new L =
     \<lparr>string_pairs = Some (hs_types_array_string_pair_new L), route_data = hashtable_new (state_table L)\<rparr>"

definition hs_types_server_connection_state_new :: "world \<Rightarrow> HSServerConnectionState" where
  "hs_types_server_connection_state_new w =
     \<lparr>conn_socket = None, request_counter = 0, creation_time = c_time w\<rparr>"

definition hs_types_serve_flow_params_new_pre_populated ::
  "('sb, 'pv, 'cv, 'dt, 'sh) libs \<Rightarrow> ('sb, 'pv, 'cv) HSHttpRequest option \<Rightarrow>
     ('sb, 'pv, 'cv, 'dt) HSServeFlowParams" where
  "hs_types_serve_flow_params_new_pre_populated L req =
     \<lparr>request = req, response = Some (hs_types_http_response_new L),
      route_state = Some (hs_types_route_flow_state_new L),
      router_state = Some hs_types_router_flow_state_new, connection_state = None,
      callbacks = Some (hs_types_post_response_callbacks_new 1)\<rparr>"

definition hs_types_serve_flow_params_new ::
  "('sb, 'pv, 'cv, 'dt, 'sh) libs \<Rightarrow> ('sb, 'pv, 'cv, 'dt) HSServeFlowParams" where
  "hs_types_serve_flow_params_new L =
     hs_types_serve_flow_params_new_pre_populated L (Some (hs_types_http_request_new L))"

definition hs_types_http_request_new_payload ::
  "'sb HSIOHttpRequestPayload option \<Rightarrow> 'sb HSHttpRequestPayload" where
  "hs_types_http_request_new_payload payload = \<lparr>loaded = False, io_payload = payload\<rparr>"

section \<open>Callbacks\<close>

definition hs_types_post_response_callback_release ::
  "'e HSPostResponseCallback option \<Rightarrow> world \<Rightarrow> world run" where
  "hs_types_post_response_callback_release callback w =
     (case callback of
        None \<Rightarrow> ret w
      | Some c \<Rightarrow> (case callback_release c of None \<Rightarrow> ret w | Some release \<Rightarrow> release w))"

primrec callbacks_release_loop :: "'e HSPostResponseCallback option list \<Rightarrow> world \<Rightarrow> world run" where
  "callbacks_release_loop [] w = ret w"
| "callbacks_release_loop (c # cs) w =
     bindR (hs_types_post_response_callback_release c w) (callbacks_release_loop cs)"

definition hs_types_post_response_callbacks_release ::
  "'e HSPostResponseCallbacks option \<Rightarrow> world \<Rightarrow> world run" where
  "hs_types_post_response_callbacks_release cbs w =
     (case cbs of
        None \<Rightarrow> ret w
      | Some c \<Rightarrow> callbacks_release_loop (take (callback_count c) (callback_slots c)) w)"

definition hs_types_serve_flow_params_release ::
  "('sb, 'pv, 'cv, 'dt) HSServeFlowParams option \<Rightarrow> world \<Rightarrow> world run" where
  \<comment> \<open>the other parts are memory only\<close>
  "hs_types_serve_flow_params_release params w =
     (case params of None \<Rightarrow> ret w | Some p \<Rightarrow> hs_types_post_response_callbacks_release (callbacks p) w)"

definition hs_types_post_response_callbacks_add ::
  "'e HSPostResponseCallbacks option \<Rightarrow> 'e HSPostResponseCallback option
    \<Rightarrow> (bool \<times> 'e HSPostResponseCallbacks option) run" where
  \<comment> \<open>a full array is replaced by one of twice its capacity, with the old slots copied; then the
      callback is stored at the count\<close>
  "hs_types_post_response_callbacks_add cbs callback =
     (case (cbs, callback) of
        (Some c, Some cb) \<Rightarrow>
          (let c1 = (if callback_capacity c \<le> callback_count c
                     then c\<lparr>callback_capacity := callback_capacity c * 2,
                            callback_slots := take (callback_count c) (callback_slots c)
                              @ replicate (callback_capacity c * 2 - callback_count c) None\<rparr>
                     else c)
           in if callback_count c1 < length (callback_slots c1)
              then ret (True, Some (c1\<lparr>callback_slots := (callback_slots c1)[callback_count c1 := Some cb],
                                       callback_count := callback_count c1 + 1\<rparr>))
              else ub OutOfBounds)
      | _ \<Rightarrow> ret (False, cbs))"

section \<open>Loading the payload\<close>

definition hs_types_http_request_payload_is_loaded :: "('sb, 'pv, 'cv) HSHttpRequest option \<Rightarrow> bool" where
  "hs_types_http_request_payload_is_loaded req =
     (case req of
        None \<Rightarrow> False
      | Some r \<Rightarrow> (case req_payload r of None \<Rightarrow> False | Some p \<Rightarrow> loaded p))"

definition payload_plan :: "nat \<Rightarrow> nat \<Rightarrow> nat \<times> nat" where
  \<comment> \<open>what is left to read of the socket, what the buffer is trimmed to (0: not at all)\<close>
  "payload_plan current_length len =
     (if len < current_length then (0, len)
      else if current_length = len then (0, 0)
      else (len - current_length, 0))"

definition hs_types_http_request_payload_to_string ::
  "('sb, 'pv, 'cv, 'dt, 'sh) libs \<Rightarrow> ('sb, 'pv, 'cv) HSHttpRequest option \<Rightarrow> world
    \<Rightarrow> (cstr \<times> ('sb, 'pv, 'cv) HSHttpRequest option \<times> world) run" where
  "hs_types_http_request_payload_to_string L req w =
     (case req of
        None \<Rightarrow> ret (None, None, w)
      | Some r \<Rightarrow>
          (case req_payload r of
             None \<Rightarrow> ret (None, req, w)
           | Some p \<Rightarrow>
               if loaded p then ret (None, req, w)
               else (case io_payload p of
                       None \<Rightarrow> ub NullDeref
                     | Some io \<Rightarrow>
                         (let content_length = unat (req_content_length r);
                              (buffer, left, trim) =
                                (case io_partial io of
                                   None \<Rightarrow> (stringbuffer_new L, content_length, 0)
                                 | Some b \<Rightarrow> (b, payload_plan (stringbuffer_get_content_size L b) content_length))
                          in bindR (if left \<noteq> 0 then hs_io_read_fully L (io_socket io) (Some buffer) left w
                                    else ret (True, Some buffer, w))
                               (\<lambda>(_, filled, w1).
                                  case filled of
                                    None \<Rightarrow> ub NullDeref
                                  | Some b1 \<Rightarrow>
                                      (let content = stringbuffer_to_string L b1;
                                           trimmed = (if 0 < trim then fst (stringfn_mut_substring L content 0 trim) else content)
                                       in ret (Some trimmed,
                                            Some (r\<lparr>req_payload := Some (p\<lparr>loaded := True,
                                              io_payload := Some (io\<lparr>io_partial := None\<rparr>)\<rparr>)\<rparr>),
                                            w1)))))))"

definition payload_rest_to_file ::
  "('sb, 'pv, 'cv, 'dt, 'sh) libs \<Rightarrow> HSSocket option \<Rightarrow> string \<Rightarrow> nat \<Rightarrow> world \<Rightarrow> (bool \<times> world) run" where
  \<comment> \<open>the end of the function, after the buffered part has been written\<close>
  "payload_rest_to_file L socket filename len w =
     bindR (hs_io_read_and_write_to_file L socket filename len w)
       (\<lambda>(done, w1).
          let w2 = snd (c_fflush filename w1); w3 = snd (c_fclose filename w2)   \<comment> \<open>their results are not looked at\<close>
          in ret (done, if done then w3 else c_remove filename w3))"

definition hs_types_http_request_payload_to_file ::
  "('sb, 'pv, 'cv, 'dt, 'sh) libs \<Rightarrow> ('sb, 'pv, 'cv) HSHttpRequest option \<Rightarrow> cstr \<Rightarrow> world
    \<Rightarrow> (bool \<times> ('sb, 'pv, 'cv) HSHttpRequest option \<times> world) run" where
  "hs_types_http_request_payload_to_file L req filename w =
     (case (req, filename) of
        (Some r, Some path) \<Rightarrow>
          (case req_payload r of
             None \<Rightarrow> ret (False, req, w)
           | Some p \<Rightarrow>
               if loaded p then ret (False, req, w)
               else (let p1 = p\<lparr>loaded := True\<rparr>; r1 = r\<lparr>req_payload := Some p1\<rparr>;
                         content_length = unat (req_content_length r)
                     in if content_length = 0 then ret (True, Some r1, w)
                        else (case c_fopen_w path w of
                                (opened, w1) \<Rightarrow>
                                  if \<not> opened then ret (False, Some r1, w1)
                                  else (case io_payload p of
                                          None \<Rightarrow> ub NullDeref
                                        | Some io \<Rightarrow>
                                            (case io_partial io of
                                               None \<Rightarrow> bindR (payload_rest_to_file L (io_socket io) path content_length w1)
                                                 (\<lambda>(done, w2). ret (done, Some r1, w2))
                                             | Some b \<Rightarrow>
                                                 (let current_length = stringbuffer_get_content_size L b;
                                                      (left, trim) = payload_plan current_length content_length
                                                  in if current_length = 0
                                                     then bindR (payload_rest_to_file L (io_socket io) path left w1)
                                                            (\<lambda>(done, w2). ret (done, Some r1, w2))
                                                     else (let content = stringbuffer_to_string L b;
                                                               text = (if 0 < trim then fst (stringfn_mut_substring L content 0 trim)
                                                                       else content);
                                                               r2 = r\<lparr>req_payload := Some (p1\<lparr>io_payload := Some (io\<lparr>io_partial := None\<rparr>)\<rparr>)\<rparr>
                                                           in (case c_fputs path text w1 of
                                                                 (put, w2) \<Rightarrow>
                                                                   if \<not> put then ret (False, Some r2, c_remove path (snd (c_fclose path w2)))
                                                                   else bindR (payload_rest_to_file L (io_socket io) path left w2)
                                                                          (\<lambda>(done, w3). ret (done, Some r2, w3))))))))))
      | _ \<Rightarrow> ret (False, req, w))"

section \<open>The callbacks as a list\<close>

definition callbacks_wf :: "'e HSPostResponseCallbacks \<Rightarrow> bool" where
  "callbacks_wf c \<longleftrightarrow> 0 < callback_capacity c \<and> length (callback_slots c) = callback_capacity c
     \<and> callback_count c \<le> callback_capacity c
     \<and> list_all (\<lambda>s. s \<noteq> None) (take (callback_count c) (callback_slots c))"

definition callback_list :: "'e HSPostResponseCallbacks \<Rightarrow> 'e HSPostResponseCallback list" where
  "callback_list c = map the (take (callback_count c) (callback_slots c))"

lemma callbacks_new_wf: "0 < n \<Longrightarrow> callbacks_wf (hs_types_post_response_callbacks_new n)"
  "callback_list (hs_types_post_response_callbacks_new n) = []"
  by (simp_all add: callbacks_wf_def callback_list_def hs_types_post_response_callbacks_new_def)

lemma callbacks_slot:
  "callbacks_wf c \<Longrightarrow> i < callback_count c \<Longrightarrow> callback_slots c ! i = Some (callback_list c ! i)"
  by (auto simp: callbacks_wf_def callback_list_def list_all_length)

lemma callbacks_length: "callbacks_wf c \<Longrightarrow> length (callback_list c) = callback_count c"
  by (simp add: callbacks_wf_def callback_list_def)

lemma callbacks_add_spec:
  assumes "callbacks_wf c"
  shows "\<exists>c'. hs_types_post_response_callbacks_add (Some c) (Some cb) = ret (True, Some c')
      \<and> callbacks_wf c' \<and> callback_list c' = callback_list c @ [cb]"
proof (cases "callback_capacity c \<le> callback_count c")
  case False
  with assms show ?thesis
    by (auto simp: hs_types_post_response_callbacks_add_def callbacks_wf_def callback_list_def take_Suc_conv_app_nth)
next
  case True
  with assms have full: "callback_capacity c = callback_count c" "length (callback_slots c) = callback_count c"
    "0 < callback_count c" by (simp_all add: callbacks_wf_def)
  have "list_all (\<lambda>s. s \<noteq> None) (callback_slots c)" using assms full by (simp add: callbacks_wf_def)
  with full show ?thesis
    by (auto simp: hs_types_post_response_callbacks_add_def callbacks_wf_def callback_list_def list_update_append
        take_Suc_conv_app_nth nth_append list_all_length split: nat.splits)
qed

section \<open>The bytes of a payload\<close>

definition buffered :: "('sb, 'pv, 'cv, 'dt, 'sh) libs \<Rightarrow> 'sb HSIOHttpRequestPayload \<Rightarrow> string" where
  \<comment> \<open>what the header reader has read beyond the header\<close>
  "buffered L io = (case io_partial io of None \<Rightarrow> [] | Some b \<Rightarrow> stringbuffer_to_string L b)"

definition has_payload ::
  "('sb, 'pv, 'cv) HSHttpRequest \<Rightarrow> 'sb HSIOHttpRequestPayload \<Rightarrow> bool" where
  \<comment> \<open>the payload of the request has not been loaded yet\<close>
  "has_payload r io \<longleftrightarrow>
     (case req_payload r of None \<Rightarrow> False | Some p \<Rightarrow> \<not> loaded p \<and> io_payload p = Some io)"

lemma has_payloadE:
  assumes "has_payload r io"
  obtains p where "req_payload r = Some p" "\<not> loaded p" "io_payload p = Some io"
  using assms by (auto simp: has_payload_def split: option.splits)

lemma is_loaded_update [simp]:
  "hs_types_http_request_payload_is_loaded (Some (r\<lparr>req_payload := Some p\<rparr>)) = loaded p"
  by (simp add: hs_types_http_request_payload_is_loaded_def)

lemma payload_plan_take:
  assumes "payload_plan (length b) n = (left, trim)" and "n \<noteq> 0"
  shows "0 < trim \<Longrightarrow> trim \<le> length b \<and> left = 0 \<and> take n (b @ s) = take trim b"
    and "trim = 0 \<Longrightarrow> take n (b @ s) = b @ take left s \<and> left = n - length b"
  using assms by (auto simp: payload_plan_def split: if_splits)

lemma payload_to_string_spec:
  assumes "stringbuffer_ok L" and "stringfn_ok L" and "plain_socket (io_socket io) fd"
    and "smooth HS_IO_READ_BUFFER_SIZE fd w" and "has_payload r io" and "unat (req_content_length r) = n"
  shows "\<exists>r' w'. hs_types_http_request_payload_to_string L (Some r) w
        = ret (Some (if n = 0 then buffered L io else take n (buffered L io @ stream_bytes fd w)), Some r', w')
      \<and> hs_types_http_request_payload_is_loaded (Some r')
      \<and> stream_bytes fd w' = drop (n - length (buffered L io)) (stream_bytes fd w) \<and> consumed fd w w'"
proof -
  from assms(5) obtain p where p: "req_payload r = Some p" "\<not> loaded p" "io_payload p = Some io"
    by (rule has_payloadE)
  define b where "b = (case io_partial io of None \<Rightarrow> stringbuffer_new L | Some b \<Rightarrow> b)"
  have b: "stringbuffer_to_string L b = buffered L io"
    using assms(1) by (simp add: b_def buffered_def lib_simps split: option.splits)
  obtain left trim where plan: "payload_plan (length (buffered L io)) n = (left, trim)" by fastforce
  have parts: "(case io_partial io of None \<Rightarrow> (stringbuffer_new L, n, 0)
      | Some b \<Rightarrow> (b, payload_plan (stringbuffer_get_content_size L b) n)) = (b, left, trim)"
    using plan assms(1) by (auto simp: b_def buffered_def payload_plan_def lib_simps split: option.splits if_splits)
  have "\<exists>b1 w1. (if left \<noteq> 0 then hs_io_read_fully L (io_socket io) (Some b) left w else ret (True, Some b, w))
        = ret (left \<le> length (stream_bytes fd w), Some b1, w1)
      \<and> stringbuffer_to_string L b1 = buffered L io @ take left (stream_bytes fd w)
      \<and> stream_bytes fd w1 = drop left (stream_bytes fd w) \<and> consumed fd w w1"
  proof (cases "left = 0")
    case True
    then show ?thesis using smooth_refl [OF assms(4)] b by simp
  next
    case False
    then show ?thesis using read_fully_spec [OF assms(1,3,4), of b left] unfolding b by simp blast
  qed
  then obtain b1 w1 where
    fill: "(if left \<noteq> 0 then hs_io_read_fully L (io_socket io) (Some b) left w else ret (True, Some b, w))
        = ret (left \<le> length (stream_bytes fd w), Some b1, w1)"
    and b1: "stringbuffer_to_string L b1 = buffered L io @ take left (stream_bytes fd w)"
    and w1: "stream_bytes fd w1 = drop left (stream_bytes fd w)" "consumed fd w w1"
    by blast
  have left: "left = n - length (buffered L io)"
    using plan by (auto simp: payload_plan_def split: if_splits)
  let ?r = "r\<lparr>req_payload := Some (p\<lparr>loaded := True, io_payload := Some (io\<lparr>io_partial := None\<rparr>)\<rparr>)\<rparr>"
  have "hs_types_http_request_payload_to_string L (Some r) w =
      ret (Some (if 0 < trim then fst (stringfn_mut_substring L (stringbuffer_to_string L b1) 0 trim)
                 else stringbuffer_to_string L b1), Some ?r, w1)"
    using p fill by (simp add: hs_types_http_request_payload_to_string_def Let_def assms(6) parts)
  moreover have "(if 0 < trim then fst (stringfn_mut_substring L (stringbuffer_to_string L b1) 0 trim)
                 else stringbuffer_to_string L b1)
      = (if n = 0 then buffered L io else take n (buffered L io @ stream_bytes fd w))"
  proof (cases "n = 0")
    case True
    with plan have "left = 0" "trim = 0" by (auto simp: payload_plan_def split: if_splits)
    with b1 True show ?thesis by simp
  next
    case False
    note t = payload_plan_take [OF plan False, of "stream_bytes fd w"]
    show ?thesis
    proof (cases "trim = 0")
      case True
      with t(2) b1 False show ?thesis by simp
    next
      case ne: False
      with t(1) b1 have "stringbuffer_to_string L b1 = buffered L io" "trim \<le> length (buffered L io)" by simp_all
      with ne have "fst (stringfn_mut_substring L (stringbuffer_to_string L b1) 0 trim) = take trim (buffered L io)"
        using stringfn_laws(8) [OF assms(2), of trim "buffered L io"] by simp
      with ne t(1) False show ?thesis by simp
    qed
  qed
  moreover have "hs_types_http_request_payload_is_loaded (Some ?r)"
    by simp
  ultimately show ?thesis using w1 left by auto
qed

lemma c_remove_state: "files (c_remove path (file_state path D B d w)) = (files w)(path := None)"
  by (simp add: c_remove_def)

lemma payload_rest_spec:
  assumes "plain_socket socket fd" and "steady fd w"
  shows "\<exists>ok w'. payload_rest_to_file L socket path left (file_state path D B d w) = ret (ok, w')
      \<and> (ok \<longrightarrow> left \<le> length (stream_bytes fd w))
      \<and> files w' = (files w)(path := (if ok then Some (take (d + length D) (D @ B @ take left (stream_bytes fd w))) else None))
      \<and> (left \<le> length (stream_bytes fd w) \<and> (length B + left \<le> d \<or> length B + left \<le> bufsiz w) \<longrightarrow> ok)"
proof -
  obtain r where
    run: "hs_io_read_and_write_to_file L socket path left (file_state path D B d w) = ret r" "copied fd path left D B d w r"
    using read_and_write_spec [OF assms] by blast
  from run(2) obtain ok D' B' d' w1 where
    r: "r = (ok, file_state path D' B' d' w1)"
    and "consumed fd w w1" and d': "d' + length D' = d + length D"
    and ok: "ok \<longrightarrow> left \<le> length (stream_bytes fd w) \<and> D' @ B' = D @ B @ take left (stream_bytes fd w)
      \<and> stream_bytes fd w1 = drop left (stream_bytes fd w)"
    and room: "left \<le> length (stream_bytes fd w) \<and> (length B + left \<le> d \<or> length B + left \<le> bufsiz w) \<longrightarrow> ok"
    by (rule copiedE)
  have files: "files w1 = files w" using consumed_frame(3) [OF \<open>consumed fd w w1\<close>] .
  have "D' @ take d' B' = take (d + length D) (D' @ B')" by (simp flip: d')
  with ok room show ?thesis
    by (cases ok) (simp_all add: payload_rest_to_file_def run(1) r c_fclose_state c_remove_state files Let_def)
qed

lemma payload_to_file_spec:
  assumes "stringbuffer_ok L" and "stringfn_ok L" and "plain_socket (io_socket io) fd" and "steady fd w"
    and "has_payload r io" and "unat (req_content_length r) = n" and "n \<noteq> 0"
    and "path \<notin> set (unwritable w)" and "body = buffered L io @ stream_bytes fd w"
  shows "\<exists>ok r' w'. hs_types_http_request_payload_to_file L (Some r) (Some path) w = ret (ok, Some r', w')
      \<and> hs_types_http_request_payload_is_loaded (Some r')
      \<and> (ok \<longrightarrow> n \<le> length body)
      \<and> files w' = (files w)(path := (if ok then Some (take (min n (disk_free w)) body) else None))
      \<and> (n \<le> length body \<and> (n \<le> disk_free w \<or> n \<le> bufsiz w) \<longrightarrow> ok)"
proof -
  from assms(5) obtain p where p: "req_payload r = Some p" "\<not> loaded p" "io_payload p = Some io"
    by (rule has_payloadE)
  let ?d = "disk_free w"
  note unfold = hs_types_http_request_payload_to_file_def Let_def assms(6) p c_fopen_state [OF assms(8)]
  show ?thesis
  proof (cases "buffered L io = []")
    case True
    have body: "stream_bytes fd w = body" using True assms(9) by simp
    obtain ok w' where rest: "payload_rest_to_file L (io_socket io) path n (file_state path [] [] ?d w) = ret (ok, w')"
      "ok \<longrightarrow> n \<le> length body" "files w' = (files w)(path := (if ok then Some (take (min ?d n) body) else None))"
      "n \<le> length body \<and> (n \<le> ?d \<or> n \<le> bufsiz w) \<longrightarrow> ok"
      using payload_rest_spec [OF assms(3,4), of L path n "[]" "[]" ?d] 
      unfolding body list.size append_Nil add_0_left add_0_right take_take by blast
    have "\<exists>r'. hs_types_http_request_payload_to_file L (Some r) (Some path) w = ret (ok, Some r', w')
        \<and> hs_types_http_request_payload_is_loaded (Some r')"
    proof (cases "io_partial io")
      case None
      with assms(7) rest(1) show ?thesis by (simp add: unfold)
    next
      case (Some b)
      with True assms(1) have "stringbuffer_get_content_size L b = 0" by (simp add: buffered_def lib_simps)
      with Some assms(7) rest(1) show ?thesis by (simp add: unfold payload_plan_def)
    qed
    with rest show ?thesis unfolding min.commute [of n] by blast
  next
    case False
    then obtain b where b: "io_partial io = Some b" "stringbuffer_to_string L b = buffered L io"
      by (auto simp: buffered_def split: option.splits)
    obtain left trim where plan: "payload_plan (length (buffered L io)) n = (left, trim)" by fastforce
    let ?text = "take n (buffered L io)"
    have trimmed: "(if 0 < trim then fst (stringfn_mut_substring L (buffered L io) 0 trim) else buffered L io) = ?text"
      using plan assms(7) stringfn_laws(8) [OF assms(2), of trim "buffered L io"]
      by (auto simp: payload_plan_def split: if_splits)
    have left: "left = n - length (buffered L io)" using plan by (auto simp: payload_plan_def split: if_splits)
    obtain m D1 B1 d1 where wr: "c_fwrite path ?text (file_state path [] [] ?d w) = (m, file_state path D1 B1 d1 w)"
      and "d1 \<le> ?d" and d0: "d1 + length D1 = ?d + length ([] :: string)"
      and "m \<le> length ?text" and m: "m = length ?text \<Longrightarrow> D1 @ B1 = [] @ [] @ ?text"
      and fits: "length ([] @ ?text) \<le> ?d \<or> length ([] @ ?text) \<le> bufsiz w \<Longrightarrow> m = length ?text"
      by (rule c_fwrite_state [of path ?text "[]" "[]" ?d w]) (rule that)
    from d0 have d1: "d1 + length D1 = ?d" by simp
    note step = unfold b plan trimmed c_fputs_def wr lib_simps
    show ?thesis
    proof (cases "m = length ?text")
      case False
      have "length ([] @ ?text) \<le> n" by simp
      with False have "\<not> n \<le> ?d" "\<not> n \<le> bufsiz w" using fits by (blast intro: order_trans)+
      with False \<open>buffered L io \<noteq> []\<close> assms(1) show ?thesis
        by (simp add: step c_fclose_state c_remove_state)
    next
      case True
      with m have put: "D1 @ B1 = ?text" by simp
      then have lens: "length D1 + length B1 = min n (length (buffered L io))"
        by (metis length_append length_take min.commute)
      have rest_room: "min (n - b) (d - min n b) = min n d - b" for b d :: nat by (auto simp: min_def)
      have whole: "take (d1 + length D1) (D1 @ B1 @ take left (stream_bytes fd w)) = take (min n ?d) body"
        unfolding append_assoc [symmetric] put d1 assms(9) left by (simp add: min.commute) (simp add: rest_room)
      have all: "n \<le> length body \<longleftrightarrow> left \<le> length (stream_bytes fd w)" using left assms(9) by auto
      have room: "n \<le> ?d \<Longrightarrow> length B1 + left \<le> d1" "n \<le> bufsiz w \<Longrightarrow> length B1 + left \<le> bufsiz w"
        using lens d1 left by auto
      obtain ok w' where rest: "payload_rest_to_file L (io_socket io) path left (file_state path D1 B1 d1 w) = ret (ok, w')"
        "ok \<longrightarrow> left \<le> length (stream_bytes fd w)"
        "files w' = (files w)(path := (if ok then Some (take (min n ?d) body) else None))"
        "left \<le> length (stream_bytes fd w) \<and> (length B1 + left \<le> d1 \<or> length B1 + left \<le> bufsiz w) \<longrightarrow> ok"
        using payload_rest_spec [OF assms(3,4), of L path left D1 B1 d1] unfolding whole by blast
      have "\<exists>r'. hs_types_http_request_payload_to_file L (Some r) (Some path) w = ret (ok, Some r', w')
          \<and> hs_types_http_request_payload_is_loaded (Some r')"
        using True \<open>buffered L io \<noteq> []\<close> assms(1,7) rest(1) by (simp add: step)
      with rest(2-4) room show ?thesis unfolding all by blast
    qed
  qed
qed

section \<open>Properties\<close>

text \<open>A POST whose header reader has already read the first bytes of the payload.\<close>

definition payload_request ::
  "size_t \<Rightarrow> string \<Rightarrow> (string, HSArrayPair list, HSCookie list) HSHttpRequest" where
  "payload_request n partial =
     (hs_types_http_request_new reference_libs)\<lparr>req_content_length := n,
        req_payload := Some (hs_types_http_request_new_payload
                               (Some \<lparr>io_partial = Some partial, io_socket = connection_socket\<rparr>))\<rparr>"

lemma payload_request_simps [simp]:
  "has_payload (payload_request n partial) \<lparr>io_partial = Some partial, io_socket = connection_socket\<rparr>"
  "req_content_length (payload_request n partial) = n"
  "buffered reference_libs \<lparr>io_partial = Some partial, io_socket = s\<rparr> = partial"
  by (simp_all add: has_payload_def payload_request_def hs_types_http_request_new_payload_def buffered_def
      reference_libs_def)

text \<open>
  C21. A payload is read into memory once. On a smooth stream (it ends, no read fails, and its
  segments are shorter than the read buffer and free of NUL bytes) and for a positive content
  length \<open>n\<close>, the result is the first \<open>n\<close> bytes of what the header reader left in its buffer followed
  by the stream (all of them when the connection ends earlier), and no further byte of the stream is
  taken. For a content length of zero the result is the whole of that buffer, which may hold bytes
  of the next request, instead of the empty string. In both cases the payload is then marked as
  loaded, and a second call delivers NULL and changes nothing.
\<close>

theorem payload_to_string_once:
  assumes "stringbuffer_ok L" and "stringfn_ok L" and "plain_socket (io_socket io) fd"
    and "smooth HS_IO_READ_BUFFER_SIZE fd w" and "has_payload r io" and "unat (req_content_length r) = n"
  shows "\<exists>r' w'. hs_types_http_request_payload_to_string L (Some r) w
        = ret (Some (if n = 0 then buffered L io else take n (buffered L io @ stream_bytes fd w)), Some r', w')
      \<and> stream_bytes fd w' = drop (n - length (buffered L io)) (stream_bytes fd w)
      \<and> hs_types_http_request_payload_to_string L (Some r') w' = ret (None, Some r', w')"
proof -
  have again: "hs_types_http_request_payload_to_string L (Some r') w' = ret (None, Some r', w')"
    if "hs_types_http_request_payload_is_loaded (Some r')" for r' w'
    using that by (auto simp: hs_types_http_request_payload_is_loaded_def
        hs_types_http_request_payload_to_string_def split: option.splits)
  from payload_to_string_spec [OF assms] again show ?thesis by blast
qed

theorem payload_to_string_once_witness:
  "(\<exists>r' w'. hs_types_http_request_payload_to_string reference_libs (Some (payload_request 4 ''ab''))
       (connection [Arrive ''cde''] []) = ret (Some ''abcd'', r', w'))
   \<and> (\<exists>r' w'. hs_types_http_request_payload_to_string reference_libs (Some (payload_request 0 ''GET /next''))
       (connection [] []) = ret (Some ''GET /next'', r', w'))"
  using payload_to_string_once [OF reference_ok(2) reference_ok(1), of
      "\<lparr>io_partial = Some ''ab'', io_socket = connection_socket\<rparr>" 3 "connection [Arrive ''cde''] []"
      "payload_request 4 ''ab''" 4]
    payload_to_string_once [OF reference_ok(2) reference_ok(1), of
      "\<lparr>io_partial = Some ''GET /next'', io_socket = connection_socket\<rparr>" 3 "connection [] []"
      "payload_request 0 ''GET /next''" 0]
  by (auto simp: HS_IO_READ_BUFFER_SIZE_def)

text \<open>
  C22. A payload of positive length that goes to a file (that can be created), from a connection
  that ends and does not fail: on failure no file is left. On success all of its \<open>content_length\<close>
  bytes have arrived (in the buffer of the header reader and then from the stream), and the file
  holds as much of them as the disk has room for. The call succeeds when they arrive and either the
  disk has room for them, or they fit the buffer of the file. In that last case a full disk is not
  noticed: it shows in \<open>fflush\<close> and \<open>fclose\<close>, whose results are not looked at, and a truncated
  file is reported as a success. (For a content length of 0 the code returns true and writes no file.)
\<close>

theorem payload_file_kept_or_removed:
  assumes "stringbuffer_ok L" and "stringfn_ok L" and "plain_socket (io_socket io) fd" and "steady fd w"
    and "has_payload r io" and "unat (req_content_length r) = n" and "n \<noteq> 0"
    and "path \<notin> set (unwritable w)" and "body = buffered L io @ stream_bytes fd w"
  shows "\<exists>ok r' w'. hs_types_http_request_payload_to_file L (Some r) (Some path) w = ret (ok, Some r', w')
      \<and> (ok \<longrightarrow> n \<le> length body)
      \<and> files w' = (files w)(path := (if ok then Some (take (min n (disk_free w)) body) else None))
      \<and> (n \<le> length body \<and> (n \<le> disk_free w \<or> n \<le> bufsiz w) \<longrightarrow> ok)"
  using payload_to_file_spec [OF assms] by blast

text \<open>The witness: a payload that is kept, one whose connection ends early, one truncated by a full disk.\<close>

theorem payload_file_kept_or_removed_witness:
  "(\<exists>r' w'. hs_types_http_request_payload_to_file reference_libs (Some (payload_request 4 ''ab'')) (Some ''f'')
       (connection [Arrive ''cde''] []) = ret (True, r', w') \<and> files w' ''f'' = Some ''abcd'')
   \<and> (\<exists>r' w'. hs_types_http_request_payload_to_file reference_libs (Some (payload_request 4 ''ab'')) (Some ''f'')
       (connection [Arrive ''c''] []) = ret (False, r', w') \<and> files w' ''f'' = None)
   \<and> (\<exists>r' w'. hs_types_http_request_payload_to_file reference_libs (Some (payload_request 4 ''ab'')) (Some ''f'')
       (connection [Arrive ''cde''] [] \<lparr>disk_free := 3\<rparr>) = ret (True, r', w') \<and> files w' ''f'' = Some ''abc'')"
proof -
  have room: "bufsiz (connection e a) = 4096" "disk_free (connection e a) = 1000" "unwritable (connection e a) = []" for e a
    by (simp_all add: connection_def)
  have st: "steady 3 (connection [Arrive s] [])" "steady 3 (connection [Arrive s] [] \<lparr>disk_free := d\<rparr>)"
    "stream_bytes 3 (connection [Arrive s] [] \<lparr>disk_free := d\<rparr>) = s" if "s \<noteq> []" for s d
    using that by (simp_all add: steady_def stream_bytes_def connection_def)
  have run: "\<exists>ok r' w'. hs_types_http_request_payload_to_file reference_libs (Some (payload_request 4 ''ab'')) (Some ''f'') w = ret (ok, Some r', w')
      \<and> (ok \<longrightarrow> 4 \<le> length (''ab'' @ s))
      \<and> files w' = (files w)(''f'' := (if ok then Some (take (min 4 (disk_free w)) (''ab'' @ s)) else None))
      \<and> (4 \<le> length (''ab'' @ s) \<and> (4 \<le> disk_free w \<or> 4 \<le> bufsiz w) \<longrightarrow> ok)"
    if "steady 3 w" "stream_bytes 3 w = s" "unwritable w = []" for w s
    using that by (intro payload_file_kept_or_removed [OF reference_ok(2) reference_ok(1), of
        "\<lparr>io_partial = Some ''ab'', io_socket = connection_socket\<rparr>" 3]) simp_all
  show ?thesis
  proof (intro conjI)
    show "\<exists>r' w'. hs_types_http_request_payload_to_file reference_libs (Some (payload_request 4 ''ab'')) (Some ''f'')
       (connection [Arrive ''cde''] []) = ret (True, r', w') \<and> files w' ''f'' = Some ''abcd''"
      using run [of "connection [Arrive ''cde''] []" "''cde''"] by (auto simp: st room)
    show "\<exists>r' w'. hs_types_http_request_payload_to_file reference_libs (Some (payload_request 4 ''ab'')) (Some ''f'')
       (connection [Arrive ''c''] []) = ret (False, r', w') \<and> files w' ''f'' = None"
      using run [of "connection [Arrive ''c''] []" "''c''"] by (auto simp: st room)
    show "\<exists>r' w'. hs_types_http_request_payload_to_file reference_libs (Some (payload_request 4 ''ab'')) (Some ''f'')
       (connection [Arrive ''cde''] [] \<lparr>disk_free := 3\<rparr>) = ret (True, r', w') \<and> files w' ''f'' = Some ''abc''"
      using run [of "connection [Arrive ''cde''] [] \<lparr>disk_free := 3\<rparr>" "''cde''"] by (auto simp: st room)
  qed
qed

text \<open>
  The array of callbacks behaves as a list that grows at its end: adding to a well-formed
  array succeeds, keeps it well formed and appends the callback, also when the array is full and
  has to be replaced by one of twice its capacity.
\<close>

theorem callbacks_add_appends:
  assumes "callbacks_wf c"
  shows "\<exists>c'. hs_types_post_response_callbacks_add (Some c) (Some cb) = ret (True, Some c')
      \<and> callbacks_wf c' \<and> callback_list c' = callback_list c @ [cb]"
  by (rule callbacks_add_spec [OF assms])

theorem callbacks_add_appends_witness:
  "\<exists>c1 c2 :: nat HSPostResponseCallbacks.
     hs_types_post_response_callbacks_add (Some (hs_types_post_response_callbacks_new 1))
       (Some hs_types_post_response_callback_new) = ret (True, Some c1)
   \<and> hs_types_post_response_callbacks_add (Some c1) (Some hs_types_post_response_callback_new) = ret (True, Some c2)
   \<and> callback_count c2 = 2 \<and> callback_capacity c2 = 2"
proof -
  have "callbacks_wf (hs_types_post_response_callbacks_new 1 :: nat HSPostResponseCallbacks)"
    by (simp add: callbacks_new_wf)
  from callbacks_add_appends [OF this, of hs_types_post_response_callback_new]
  obtain c1 :: "nat HSPostResponseCallbacks" where
    "hs_types_post_response_callbacks_add (Some (hs_types_post_response_callbacks_new 1))
       (Some hs_types_post_response_callback_new) = ret (True, Some c1)" by blast
  then show ?thesis
    by (auto simp: hs_types_post_response_callbacks_add_def hs_types_post_response_callbacks_new_def)
qed

end
