(* ===== verification/Route.thy ===== *)
theory Route
  imports Types
begin

text \<open>
  Routes (\<open>src/include/hs_route.h\<close>, \<open>src/hs_route.c\<close>): which methods and which resources a route
  serves, and the function that serves them. The function pointer \<open>serve\<close> is a function of the
  route's path and the flow parameters that closes over the route's \<open>extension\<close>, and so is
  \<open>release\<close>; a release function that only frees memory is \<open>Some ret\<close>.
\<close>

type_synonym 'st serve_function = "cstr \<Rightarrow> 'st \<Rightarrow> world \<Rightarrow> (HSServeFlowResponse \<times> 'st \<times> world) run"

record 'st HSRoute =
  route_path :: cstr
  is_parent_path :: bool
  is_get :: bool
  is_post :: bool
  is_put :: bool
  is_delete :: bool
  is_head :: bool
  is_connect :: bool
  is_options :: bool
  is_trace :: bool
  is_patch :: bool
  serve :: "'st serve_function option"
  release_route :: "(world \<Rightarrow> world run) option"

definition hs_route_set_all_methods :: "'st HSRoute option \<Rightarrow> bool \<Rightarrow> 'st HSRoute option" where
  "hs_route_set_all_methods route enable =
     map_option (\<lambda>r. r\<lparr>is_get := enable, is_post := enable, is_put := enable, is_delete := enable,
       is_head := enable, is_connect := enable, is_options := enable, is_trace := enable, is_patch := enable\<rparr>) route"

definition hs_route_new :: "'st HSRoute" where
  "hs_route_new =
     \<lparr>route_path = None, is_parent_path = False, is_get = False, is_post = False, is_put = False,
      is_delete = False, is_head = False, is_connect = False, is_options = False, is_trace = False,
      is_patch = False, serve = None, release_route = None\<rparr>"

definition hs_route_release_route :: "'st HSRoute option \<Rightarrow> world \<Rightarrow> world run" where
  "hs_route_release_route route w =
     (case route of None \<Rightarrow> ret w | Some r \<Rightarrow> (case release_route r of None \<Rightarrow> ret w | Some release \<Rightarrow> release w))"

definition hs_route_is_allowed_for_method ::
  "'st HSRoute option \<Rightarrow> ('sb, 'pv, 'cv) HSHttpRequest option \<Rightarrow> bool" where
  "hs_route_is_allowed_for_method route req =
     (case (route, req) of
        (Some rt, Some r) \<Rightarrow>
          if is_get rt \<and> req_method r = HS_HTTP_METHOD_GET then True
          else if is_post rt \<and> req_method r = HS_HTTP_METHOD_POST then True
          else if is_put rt \<and> req_method r = HS_HTTP_METHOD_PUT then True
          else if is_delete rt \<and> req_method r = HS_HTTP_METHOD_DELETE then True
          else if is_head rt \<and> req_method r = HS_HTTP_METHOD_HEAD then True
          else if is_connect rt \<and> req_method r = HS_HTTP_METHOD_CONNECT then True
          else if is_options rt \<and> req_method r = HS_HTTP_METHOD_OPTIONS then True
          else if is_trace rt \<and> req_method r = HS_HTTP_METHOD_TRACE then True
          else if is_patch rt \<and> req_method r = HS_HTTP_METHOD_PATCH then True
          else False
      | _ \<Rightarrow> False)"

definition hs_route_is_supported_path ::
  "('sb, 'pv, 'cv, 'dt, 'sh) libs \<Rightarrow> 'st HSRoute option \<Rightarrow> ('sb, 'pv, 'cv) HSHttpRequest option \<Rightarrow> bool" where
  "hs_route_is_supported_path L route req =
     (case (route, req) of
        (Some rt, Some r) \<Rightarrow>
          (case req_resource r of
             None \<Rightarrow> False
           | Some resource \<Rightarrow>
               (case route_path rt of
                  None \<Rightarrow> True
                | Some path \<Rightarrow>
                    let route_length = length path; request_length = length resource
                    in if route_length = 0 \<or> path ! 0 \<noteq> CHR ''/'' then False
                       else if request_length < route_length then False
                       else if request_length = route_length
                       then stringfn_equal L (Some path) (Some resource)
                       else if \<not> is_parent_path rt
                               \<or> (resource ! (route_length - 1) \<noteq> CHR ''/'' \<and> resource ! route_length \<noteq> CHR ''/'')
                       then False
                       else stringfn_starts_with L (Some resource) (Some path)))
      | _ \<Rightarrow> False)"

section \<open>What a path covers\<close>

text \<open>A route path covers a resource that is the path itself or lies below it as a directory.\<close>

definition covers :: "string \<Rightarrow> bool \<Rightarrow> string \<Rightarrow> bool" where
  "covers path parent resource \<longleftrightarrow>
     (\<exists>p. path = CHR ''/'' # p)
     \<and> (resource = path
        \<or> parent \<and> (\<exists>below. below \<noteq> [] \<and> resource = path @ below \<and> (last path = CHR ''/'' \<or> hd below = CHR ''/'')))"

lemma supported_path_covers:
  assumes "stringfn_ok L" and "req_resource r = Some resource"
  shows "hs_route_is_supported_path L (Some rt) (Some r)
    \<longleftrightarrow> (case route_path rt of None \<Rightarrow> True | Some path \<Rightarrow> covers path (is_parent_path rt) resource)"
proof (cases "route_path rt")
  case None
  with assms show ?thesis by (simp add: hs_route_is_supported_path_def)
next
  case (Some path)
  have start: "(length path = 0 \<or> path ! 0 \<noteq> CHR ''/'') = (\<nexists>p. path = CHR ''/'' # p)"
    by (cases path) auto
  show ?thesis
  proof (cases "prefix path resource")
    case False
    then have "\<not> covers path (is_parent_path rt) resource" by (auto simp: covers_def)
    moreover have "path \<noteq> resource" using False by auto
    ultimately show ?thesis using False Some assms
      by (simp add: hs_route_is_supported_path_def stringfn_laws Let_def)
  next
    case True
    then obtain below where below: "resource = path @ below" by (auto elim: prefixE)
    show ?thesis
    proof (cases "below = []")
      case True
      with Some assms below start show ?thesis
        by (auto simp: hs_route_is_supported_path_def stringfn_laws Let_def covers_def)
    next
      case ne: False
      have sep: "path \<noteq> [] \<Longrightarrow> resource ! (length path - 1) = last path" "resource ! length path = hd below"
        using ne below by (simp_all add: nth_append last_conv_nth hd_conv_nth)
      with Some assms below start ne show ?thesis
        by (cases "path = []") (auto simp: hs_route_is_supported_path_def stringfn_laws Let_def covers_def)
    qed
  qed
qed

section \<open>Properties\<close>

text \<open>
  Path matching: a route without a path takes every resource, and a route with one takes
  exactly the resources its path covers: the path itself, or, for a parent path, a longer resource
  divided from the path by a slash; a path that does not start with a slash takes nothing.
\<close>

theorem supported_path_is_covers:
  assumes "stringfn_ok L" and "req_resource r = Some resource"
  shows "hs_route_is_supported_path L (Some rt) (Some r)
    \<longleftrightarrow> (case route_path rt of None \<Rightarrow> True | Some path \<Rightarrow> covers path (is_parent_path rt) resource)"
  by (rule supported_path_covers [OF assms])

theorem supported_path_is_covers_witness:
  "let req = (\<lambda>s. Some ((hs_types_http_request_new reference_libs)\<lparr>req_resource := Some s\<rparr>));
       rt = Some (hs_route_new\<lparr>route_path := Some ''/a'', is_parent_path := True\<rparr> :: unit HSRoute)
   in hs_route_is_supported_path reference_libs rt (req ''/a'')
    \<and> hs_route_is_supported_path reference_libs rt (req ''/a/b'')
    \<and> \<not> hs_route_is_supported_path reference_libs rt (req ''/ab'')"
proof -
  let ?rt = "hs_route_new\<lparr>route_path := Some ''/a'', is_parent_path := True\<rparr> :: unit HSRoute"
  have "hs_route_is_supported_path reference_libs (Some ?rt)
      (Some ((hs_types_http_request_new reference_libs)\<lparr>req_resource := Some s\<rparr>)) = covers ''/a'' True s" for s
    using supported_path_is_covers [OF reference_ok(1),
        of "(hs_types_http_request_new reference_libs)\<lparr>req_resource := Some s\<rparr>" s ?rt] by simp
  then show ?thesis by (auto simp: covers_def Cons_eq_append_conv)
qed

end
