(* ===== verification/Parser.thy ===== *)
theory Parser
  imports Types
begin

text \<open>
  The request parser of \<open>src/hs_parser.c\<close>. A pointer into a string is the suffix it denotes or an
  index; writing a terminator at a pointer and restoring it later is taking the prefix before it.
  The character loops run over the list of characters left, with the local variables of the code
  as arguments or fields.
\<close>

section \<open>Method and protocol\<close>

definition hs_parser_parse_method :: "('sb, 'pv, 'cv, 'dt, 'sh) libs \<Rightarrow> cstr \<Rightarrow> HSHttpMethod" where
  "hs_parser_parse_method L method_string =
     (if method_string = None then HS_HTTP_METHOD_UNKNOWN
      else if stringfn_equal L method_string (Some ''GET'') then HS_HTTP_METHOD_GET
      else if stringfn_equal L method_string (Some ''POST'') then HS_HTTP_METHOD_POST
      else if stringfn_equal L method_string (Some ''PUT'') then HS_HTTP_METHOD_PUT
      else if stringfn_equal L method_string (Some ''DELETE'') then HS_HTTP_METHOD_DELETE
      else if stringfn_equal L method_string (Some ''HEAD'') then HS_HTTP_METHOD_HEAD
      else if stringfn_equal L method_string (Some ''CONNECT'') then HS_HTTP_METHOD_CONNECT
      else if stringfn_equal L method_string (Some ''OPTIONS'') then HS_HTTP_METHOD_OPTIONS
      else if stringfn_equal L method_string (Some ''TRACE'') then HS_HTTP_METHOD_TRACE
      else if stringfn_equal L method_string (Some ''PATCH'') then HS_HTTP_METHOD_PATCH
      else HS_HTTP_METHOD_UNKNOWN)"

definition hs_parser_parse_protocol_from_url ::
  "('sb, 'pv, 'cv, 'dt, 'sh) libs \<Rightarrow> cstr \<Rightarrow> HSHttpProtocol" where
  "hs_parser_parse_protocol_from_url L url =
     (case url of
        None \<Rightarrow> HS_HTTP_PROTOCOL_UNKNOWN
      | Some u \<Rightarrow>
          if length u < 7 then HS_HTTP_PROTOCOL_UNKNOWN
          else (let prefix_length = (if 8 \<le> length u then 8 else 7);
                    pre = map_option (stringfn_mut_to_lowercase L) (stringfn_substring L u 0 prefix_length)
                in if stringfn_starts_with L pre (Some ''http://'') then HS_HTTP_PROTOCOL_HTTP
                   else if stringfn_starts_with L pre (Some ''https://'') then HS_HTTP_PROTOCOL_HTTPS
                   else HS_HTTP_PROTOCOL_UNKNOWN))"

section \<open>URLs\<close>

definition path_or_root :: "string \<Rightarrow> string" where
  \<comment> \<open>\<open>strlen (found) > 1 ? found : "/"\<close>\<close>
  "path_or_root found = (if 1 < length found then found else ''/'')"

definition split_query :: "string \<Rightarrow> string \<times> cstr" where
  \<comment> \<open>the string before the question mark, the query string after it\<close>
  "split_query url_clone =
     (case strchr url_clone (CHR ''?'') of
        None \<Rightarrow> (url_clone, None)
      | Some i \<Rightarrow> (take i url_clone,
                   if 1 < length (drop i url_clone) then Some (drop (i + 1) url_clone) else None))"

definition split_authority :: "string \<Rightarrow> string \<times> int \<times> cstr" where
  \<comment> \<open>domain, port, resource; a colon after the first slash belongs to the path\<close>
  "split_authority url_clone =
     (let port_separator = strchr url_clone (CHR '':'');
          path_separator = strchr url_clone (CHR ''/'');
          found = (case (port_separator, path_separator) of
                     (Some a, Some b) \<Rightarrow> if a < b then Some a else None
                   | _ \<Rightarrow> port_separator)
      in case found of
           Some i \<Rightarrow>
             (take i url_clone,
              if 1 < length (drop i url_clone)
              then (let rest = drop (i + 1) url_clone
                    in case strchr rest (CHR ''/'') of
                         Some j \<Rightarrow> (atoi (take j rest), Some (path_or_root (drop j rest)))
                       | None \<Rightarrow> (atoi rest, Some ''/''))
              else (-1, None))
         | None \<Rightarrow>
             (case path_separator of
                Some j \<Rightarrow> (take j url_clone, -1, Some (path_or_root (drop j url_clone)))
              | None \<Rightarrow> (url_clone, -1, Some ''/'')))"

definition hs_parser_create_request_from_path ::
  "('sb, 'pv, 'cv, 'dt, 'sh) libs \<Rightarrow> cstr \<Rightarrow> bool \<Rightarrow> ('sb, 'pv, 'cv) HSHttpRequest option run" where
  "hs_parser_create_request_from_path L url_or_resource force_protocol =
     (case url_or_resource of
        None \<Rightarrow> ret None
      | Some url \<Rightarrow>
          (let protocol = hs_parser_parse_protocol_from_url L (Some url);
               is_ssl = (protocol = HS_HTTP_PROTOCOL_HTTPS)
           in if force_protocol \<and> protocol = HS_HTTP_PROTOCOL_UNKNOWN then ret None
              else (let offset = (case protocol of
                                    HS_HTTP_PROTOCOL_HTTP \<Rightarrow> 7
                                  | HS_HTTP_PROTOCOL_HTTPS \<Rightarrow> 8
                                  | HS_HTTP_PROTOCOL_UNKNOWN \<Rightarrow> 0)
                    in case (if offset \<noteq> 0 then stringfn_substring L url offset 0 else Some url) of
                         None \<Rightarrow> ub NullDeref
                       | Some url_clone \<Rightarrow>
                           (case split_query url_clone of
                              (address, query) \<Rightarrow>
                                (case split_authority address of
                                   (domain, port, resource) \<Rightarrow>
                                     ret (Some ((hs_types_http_request_new L)
                                       \<lparr>req_method := HS_HTTP_METHOD_UNKNOWN, req_domain := Some domain,
                                        req_port := port, req_ssl := is_ssl, req_resource := resource,
                                        req_query_string := query\<rparr>)))))))"

definition hs_parser_create_request_from_resource ::
  "('sb, 'pv, 'cv, 'dt, 'sh) libs \<Rightarrow> cstr \<Rightarrow> ('sb, 'pv, 'cv) HSHttpRequest option run" where
  "hs_parser_create_request_from_resource L resource = hs_parser_create_request_from_path L resource False"

definition hs_parser_create_request_from_url ::
  "('sb, 'pv, 'cv, 'dt, 'sh) libs \<Rightarrow> cstr \<Rightarrow> ('sb, 'pv, 'cv) HSHttpRequest option run" where
  "hs_parser_create_request_from_url L url = hs_parser_create_request_from_path L url True"

definition hs_parser_parse_request_line ::
  "('sb, 'pv, 'cv, 'dt, 'sh) libs \<Rightarrow> cstr \<Rightarrow> ('sb, 'pv, 'cv) HSHttpRequest option run" where
  "hs_parser_parse_request_line L line =
     (case line of
        None \<Rightarrow> ret None
      | Some l \<Rightarrow>
          (let words = stringfn_split_words L l
           in if length words = 3
              then bindR (hs_parser_create_request_from_resource L (Some (words ! 1)))
                     (\<lambda>req. ret (map_option (\<lambda>r. r\<lparr>req_method := hs_parser_parse_method L (Some (words ! 0))\<rparr>) req))
              else ret None))"

section \<open>Header lines\<close>

definition header_end_index :: "string \<Rightarrow> nat" where
  \<comment> \<open>the loop keeps the last index at which a colon and a space stand\<close>
  "header_end_index line =
     fold (\<lambda>index end_index. if line ! index = CHR '':'' \<and> line ! (index + 1) = CHR '' '' then index else end_index)
       [0..<length line - 1] 0"

definition hs_parser_parse_header ::
  "('sb, 'pv, 'cv, 'dt, 'sh) libs \<Rightarrow> cstr \<Rightarrow> (cstr \<times> cstr) option" where
  "hs_parser_parse_header L line =
     (case line of
        None \<Rightarrow> None
      | Some l \<Rightarrow>
          if length l < 3 then None
          else (let end_index = header_end_index l
                in if end_index = 0 then None
                   else Some (map_option (stringfn_mut_to_lowercase L) (stringfn_substring L l 0 end_index),
                              if end_index + 2 < length l then stringfn_substring L l (int (end_index + 2)) 0 else None)))"

section \<open>Cookies\<close>

record ('sb, 'cv) cookie_scan =
  scan_cookies :: "'cv option"
  scan_buffer :: 'sb
  scan_name :: cstr
  scan_looking_for_name :: bool
  scan_added :: bool

definition cookie_scan_add ::
  "('sb, 'pv, 'cv, 'dt, 'sh) libs \<Rightarrow> ('sb, 'cv) cookie_scan \<Rightarrow> ('sb, 'cv) cookie_scan" where
  \<comment> \<open>adds the cookie with the name found and the buffer as value\<close>
  "cookie_scan_add L s =
     (case hs_types_cookies_add L (scan_cookies s)
             (Some (hs_types_cookie_new\<lparr>cookie_name := scan_name s,
                                       cookie_value := Some (stringbuffer_to_string L (scan_buffer s))\<rparr>)) of
        (added, cookies) \<Rightarrow> s\<lparr>scan_cookies := cookies, scan_added := added\<rparr>)"

primrec cookie_scan_loop ::
  "('sb, 'pv, 'cv, 'dt, 'sh) libs \<Rightarrow> string \<Rightarrow> ('sb, 'cv) cookie_scan \<Rightarrow> ('sb, 'cv) cookie_scan" where
  "cookie_scan_loop L [] s = s"
| "cookie_scan_loop L (c # rest) s =
     cookie_scan_loop L rest
       (if scan_looking_for_name s
        then (if c = CHR ''=''
              then s\<lparr>scan_looking_for_name := False,
                     scan_name := Some (stringbuffer_to_string L (scan_buffer s)),
                     scan_buffer := stringbuffer_clear L (scan_buffer s)\<rparr>
              else if c \<noteq> CHR '' '' \<or> \<not> stringbuffer_is_empty L (scan_buffer s)
              then s\<lparr>scan_buffer := stringbuffer_append L (scan_buffer s) c\<rparr>
              else s)
        else if c = CHR '';'' \<and> (rest = [] \<or> hd rest = CHR '' '')
        then (cookie_scan_add L s)\<lparr>scan_looking_for_name := True,
               scan_buffer := stringbuffer_clear L (scan_buffer s), scan_name := None\<rparr>
        else s\<lparr>scan_buffer := stringbuffer_append L (scan_buffer s) c\<rparr>)"

definition cookie_scan_finish ::
  "('sb, 'pv, 'cv, 'dt, 'sh) libs \<Rightarrow> ('sb, 'cv) cookie_scan \<Rightarrow> ('sb, 'cv) cookie_scan" where
  \<comment> \<open>what follows the loop\<close>
  "cookie_scan_finish L s =
     (if \<not> scan_looking_for_name s \<and> \<not> stringbuffer_is_empty L (scan_buffer s) then cookie_scan_add L s else s)"

definition hs_parser_parse_cookie_header ::
  "('sb, 'pv, 'cv, 'dt, 'sh) libs \<Rightarrow> 'cv option \<Rightarrow> cstr \<Rightarrow> bool \<times> 'cv option" where
  "hs_parser_parse_cookie_header L cookies cookie_line =
     (case (cookies, cookie_line) of
        (Some cs, Some line) \<Rightarrow>
          if length line = 0 then (False, Some cs)
          else (let s = cookie_scan_finish L (cookie_scan_loop L line
                          \<lparr>scan_cookies = Some cs, scan_buffer = stringbuffer_new L, scan_name = None,
                           scan_looking_for_name = True, scan_added = False\<rparr>)
                in (scan_added s, scan_cookies s))
      | _ \<Rightarrow> (False, cookies))"

section \<open>Query strings\<close>

record ('sb, 'pv) query_scan =
  qs_array :: "'pv option"
  qs_buffer :: 'sb
  qs_key :: cstr
  qs_look_for_key :: bool

definition query_scan_value :: "('sb, 'pv, 'cv, 'dt, 'sh) libs \<Rightarrow> ('sb, 'pv) query_scan \<Rightarrow> cstr" where
  "query_scan_value L s =
     (if \<not> stringbuffer_is_empty L (qs_buffer s) then Some (stringbuffer_to_string L (qs_buffer s)) else None)"

primrec query_scan_loop ::
  "('sb, 'pv, 'cv, 'dt, 'sh) libs \<Rightarrow> string \<Rightarrow> ('sb, 'pv) query_scan \<Rightarrow> ('sb, 'pv) query_scan" where
  "query_scan_loop L [] s = s"
| "query_scan_loop L (c # rest) s =
     query_scan_loop L rest
       (if qs_look_for_key s
        then (if c = CHR ''&''
              then s\<lparr>qs_array := snd (hs_types_array_string_pair_add L (qs_array s)
                                         (Some (stringbuffer_to_string L (qs_buffer s))) None),
                     qs_buffer := stringbuffer_clear L (qs_buffer s), qs_key := None\<rparr>
              else if c = CHR ''=''
              then s\<lparr>qs_key := Some (stringbuffer_to_string L (qs_buffer s)),
                     qs_buffer := stringbuffer_clear L (qs_buffer s), qs_look_for_key := False\<rparr>
              else s\<lparr>qs_buffer := stringbuffer_append L (qs_buffer s) c\<rparr>)
        else if c = CHR ''&''
        then s\<lparr>qs_array := snd (hs_types_array_string_pair_add L (qs_array s) (qs_key s) (query_scan_value L s)),
               qs_buffer := (if stringbuffer_is_empty L (qs_buffer s) then qs_buffer s
                             else stringbuffer_clear L (qs_buffer s)),
               qs_key := None, qs_look_for_key := True\<rparr>
        else s\<lparr>qs_buffer := stringbuffer_append L (qs_buffer s) c\<rparr>)"

definition query_scan_finish ::
  "('sb, 'pv, 'cv, 'dt, 'sh) libs \<Rightarrow> ('sb, 'pv) query_scan \<Rightarrow> 'pv option" where
  \<comment> \<open>what follows the loop: the array\<close>
  "query_scan_finish L s =
     (if qs_look_for_key s
      then (if \<not> stringbuffer_is_empty L (qs_buffer s)
            then snd (hs_types_array_string_pair_add L (qs_array s)
                        (Some (stringbuffer_to_string L (qs_buffer s))) None)
            else qs_array s)
      else snd (hs_types_array_string_pair_add L (qs_array s) (qs_key s) (query_scan_value L s)))"

definition hs_parser_parse_query_string ::
  "('sb, 'pv, 'cv, 'dt, 'sh) libs \<Rightarrow> cstr \<Rightarrow> 'pv option" where
  "hs_parser_parse_query_string L query_string =
     (case query_string of
        None \<Rightarrow> None
      | Some q \<Rightarrow>
          if length q = 0 then None
          else query_scan_finish L (query_scan_loop L q
                  \<lparr>qs_array = Some (hs_types_array_string_pair_new L), qs_buffer = stringbuffer_new L,
                   qs_key = None, qs_look_for_key = True\<rparr>))"

section \<open>Requests\<close>

definition hs_parser_set_header ::
  "('sb, 'pv, 'cv, 'dt, 'sh) libs \<Rightarrow> ('sb, 'pv, 'cv) HSHttpRequest option \<Rightarrow> cstr \<Rightarrow> cstr
    \<Rightarrow> ('sb, 'pv, 'cv) HSHttpRequest option" where
  "hs_parser_set_header L req key value =
     (case (req, key, value) of
        (Some r, Some _, Some v) \<Rightarrow>
          Some (if stringfn_equal L key (Some ''cookie'')
                then r\<lparr>req_cookies := snd (hs_parser_parse_cookie_header L (req_cookies r) (Some v))\<rparr>
                else if stringfn_equal L key (Some ''content-length'')
                then r\<lparr>req_content_length := word_of_int (atoi v)\<rparr>
                else if stringfn_equal L key (Some ''connection'')
                then (if stringfn_equal L (Some v) (Some ''close'') then r\<lparr>req_connection := HS_CONNECTION_TYPE_CLOSE\<rparr>
                      else if stringfn_starts_with L (Some v) (Some ''keep-alive'')
                      then r\<lparr>req_connection := HS_CONNECTION_TYPE_KEEP_ALIVE\<rparr>
                      else r)
                else if stringfn_equal L key (Some ''user-agent'') then r\<lparr>req_user_agent := Some v\<rparr>
                else if stringfn_equal L key (Some ''authorization'') then r\<lparr>req_authorization := Some v\<rparr>
                else r)
      | _ \<Rightarrow> req)"

definition add_request_header ::
  "('sb, 'pv, 'cv, 'dt, 'sh) libs \<Rightarrow> ('sb, 'pv, 'cv) HSHttpRequest option \<Rightarrow> cstr \<Rightarrow> cstr
    \<Rightarrow> ('sb, 'pv, 'cv) HSHttpRequest option run" where
  \<comment> \<open>the two calls for a header line; \<open>request->headers\<close> is read through the pointer\<close>
  "add_request_header L req key value =
     (case req of
        None \<Rightarrow> ub NullDeref
      | Some r \<Rightarrow>
          ret (hs_parser_set_header L
                 (Some (r\<lparr>req_headers := snd (hs_types_array_string_pair_add L (req_headers r) key value)\<rparr>)) key value))"

partial_function (option) parse_headers_loop ::
  "('sb, 'pv, 'cv, 'dt, 'sh) libs \<Rightarrow> HSSocket option \<Rightarrow> ('sb, 'pv, 'cv) HSHttpRequest option \<Rightarrow> 'sb option \<Rightarrow> world
    \<Rightarrow> (fault + (('sb, 'pv, 'cv) HSHttpRequest option \<times> 'sb option \<times> world)) option" where
  "parse_headers_loop L socket req work_buffer w =
     bindR (hs_io_read_line L socket work_buffer w)
       (\<lambda>(line, work_buffer1, w1).
          if line = None then ret (req, work_buffer1, w1)
          else (case hs_parser_parse_header L line of
                  None \<Rightarrow> parse_headers_loop L socket req work_buffer1 w1
                | Some (key, value) \<Rightarrow>
                    bindR (add_request_header L req key value)
                      (\<lambda>req1. parse_headers_loop L socket req1 work_buffer1 w1)))"

declare parse_headers_loop.simps [code]

definition hs_parser_parse_request ::
  "('sb, 'pv, 'cv, 'dt, 'sh) libs \<Rightarrow> HSSocket option \<Rightarrow> world
    \<Rightarrow> (('sb, 'pv, 'cv) HSHttpRequest option \<times> world) run" where
  "hs_parser_parse_request L socket w =
     (case socket of
        None \<Rightarrow> ret (None, w)
      | Some _ \<Rightarrow>
          bindR (hs_io_read_line L socket (Some (stringbuffer_new L)) w)
            (\<lambda>(line, work_buffer, w1).
               if line = None then ret (None, w1)
               else bindR (hs_parser_parse_request_line L line)
                      (\<lambda>req0. bindR (parse_headers_loop L socket req0 work_buffer w1)
                         (\<lambda>(req, work_buffer1, w2).
                            case req of
                              None \<Rightarrow> ub NullDeref
                            | Some r \<Rightarrow>
                                ret (Some (r\<lparr>req_payload := Some (hs_types_http_request_new_payload
                                              (hs_io_new_http_request_payload socket work_buffer1))\<rparr>), w2)))))"

section \<open>Header lines: the last separator\<close>

lemma fold_last_index:
  assumes "P m" and "m < n" and "\<And>i. m < i \<Longrightarrow> i < n \<Longrightarrow> \<not> P i"
  shows "fold (\<lambda>i e. if P i then i else e) [0..<n] e0 = m"
  using assms by (induction n) (auto simp: less_Suc_eq)

lemma colon_space_at:
  assumes "v ! i = CHR '':''" and "v ! Suc i = CHR '' ''" and "Suc i < length v"
  shows "sublist '': '' v"
proof -
  have "drop i v = CHR '':'' # CHR '' '' # drop (i + 2) v"
    using assms by (simp add: Cons_nth_drop_Suc [symmetric] Suc_lessD)
  then have "v = take i v @ '': '' @ drop (i + 2) v" by (metis append_Cons append_Nil append_take_drop_id)
  then show ?thesis by (metis sublist_appendI)
qed

lemma header_end_index_eq:
  assumes "\<not> sublist '': '' v"
  shows "header_end_index (k @ CHR '':'' # CHR '' '' # v) = length k"
proof -
  let ?l = "k @ CHR '':'' # CHR '' '' # v"
  have "\<not> (?l ! i = CHR '':'' \<and> ?l ! (i + 1) = CHR '' '')" if i: "length k < i" "i < length ?l - 1" for i
  proof
    assume c: "?l ! i = CHR '':'' \<and> ?l ! (i + 1) = CHR '' ''"
    show False
    proof (cases "i = Suc (length k)")
      case True
      with c show False by (simp add: nth_append)
    next
      case False
      with i obtain j where j: "i = length k + 2 + j" by (metis Suc_leI add_2_eq_Suc' le_Suc_ex le_neq_implies_less add_Suc_shift add.commute)
      with c i have "v ! j = CHR '':''" "v ! Suc j = CHR '' ''" "Suc j < length v"
        by (simp_all add: nth_append)
      then show False using colon_space_at assms by blast
    qed
  qed
  then show ?thesis unfolding header_end_index_def by (intro fold_last_index) (auto simp: nth_append)
qed

lemma parse_header_eq:
  assumes "stringfn_ok L" and "k \<noteq> []" and "\<not> sublist '': '' v"
  shows "hs_parser_parse_header L (Some (k @ CHR '':'' # CHR '' '' # v))
    = Some (Some (map c_tolower k), if v = [] then None else Some v)"
proof -
  let ?l = "k @ CHR '':'' # CHR '' '' # v"
  obtain a k' where k: "k = a # k'" using assms(2) by (cases k) auto
  have sub: "stringfn_substring L ?l 0 (length k) = Some k"
    using stringfn_laws(5) [OF assms(1), of ?l "length k"] assms(2) by simp
  have "stringfn_substring L ?l (int (length k + 2)) 0 = Some v" if "v \<noteq> []"
    using stringfn_laws(4) [OF assms(1), of "length k + 2" ?l 0] that by simp
  then show ?thesis
    using assms sub header_end_index_eq [OF assms(3), of k]
    by (auto simp: hs_parser_parse_header_def Let_def stringfn_laws k)
qed

section \<open>Cookies: what a header says\<close>

fun print_cookies :: "(string \<times> string) list \<Rightarrow> string" where
  "print_cookies [] = []"
| "print_cookies [(n, v)] = n @ CHR ''='' # v"
| "print_cookies ((n, v) # r) = n @ CHR ''='' # v @ CHR '';'' # CHR '' '' # print_cookies r"

fun printable_cookie :: "string \<times> string \<Rightarrow> bool" where
  "printable_cookie (n, v) \<longleftrightarrow> CHR ''='' \<notin> set n \<and> (n \<noteq> [] \<longrightarrow> hd n \<noteq> CHR '' '') \<and> CHR '';'' \<notin> set v"

lemma append_all_string:
  "stringbuffer_ok L \<Longrightarrow>
     stringbuffer_to_string L (foldl (stringbuffer_append L) b s) = stringbuffer_to_string L b @ s"
  by (induction s arbitrary: b) (simp_all add: stringbuffer_laws)

lemma cookie_scan_name:
  assumes "stringbuffer_ok L" and "scan_looking_for_name s" and "CHR ''='' \<notin> set n"
    and "stringbuffer_to_string L (scan_buffer s) = [] \<Longrightarrow> n \<noteq> [] \<Longrightarrow> hd n \<noteq> CHR '' ''"
  shows "cookie_scan_loop L (n @ CHR ''='' # rest) s =
     cookie_scan_loop L rest (s\<lparr>scan_looking_for_name := False,
       scan_name := Some (stringbuffer_to_string L (scan_buffer s) @ n),
       scan_buffer := stringbuffer_clear L (foldl (stringbuffer_append L) (scan_buffer s) n)\<rparr>)"
  using assms(2-)
proof (induction n arbitrary: s)
  case Nil
  then show ?case by simp
next
  case (Cons c n)
  then have "cookie_scan_loop L ((c # n) @ CHR ''='' # rest) s =
      cookie_scan_loop L (n @ CHR ''='' # rest) (s\<lparr>scan_buffer := stringbuffer_append L (scan_buffer s) c\<rparr>)"
    using assms(1) by (auto simp: stringbuffer_laws)
  with Cons show ?case
    using assms(1) Cons.IH [of "s\<lparr>scan_buffer := stringbuffer_append L (scan_buffer s) c\<rparr>"]
    by (simp add: stringbuffer_laws)
qed

lemma cookie_scan_value:
  assumes "\<not> scan_looking_for_name s" and "CHR '';'' \<notin> set v"
  shows "cookie_scan_loop L (v @ rest) s =
     cookie_scan_loop L rest (s\<lparr>scan_buffer := foldl (stringbuffer_append L) (scan_buffer s) v\<rparr>)"
  using assms by (induction v arbitrary: s) auto

declare cookie_scan_loop.simps(2) [simp del]

fun parsed_cookie :: "string \<times> string \<Rightarrow> HSCookie" where
  "parsed_cookie (n, v) = hs_types_cookie_new\<lparr>cookie_name := Some n, cookie_value := Some v\<rparr>"

lemma cookie_scan_add_eq:
  assumes "libs_ok L" and "scan_cookies s = Some cs" and "scan_name s = Some n"
    and "stringbuffer_to_string L (scan_buffer s) = v"
  obtains cs' where "cookie_scan_add L s = s\<lparr>scan_cookies := Some cs', scan_added := True\<rparr>"
    "cookie_list L cs' = cookie_list L cs @ [parsed_cookie (n, v)]"
  using assms by (simp add: cookie_scan_add_def cookie_list_def lib_simps)

lemma cookie_scan_pair:
  assumes "libs_ok L" and "scan_looking_for_name s" and "stringbuffer_to_string L (scan_buffer s) = []"
    and "printable_cookie (n, v)"
  shows "\<exists>s'. cookie_scan_loop L (n @ CHR ''='' # v @ rest) s = cookie_scan_loop L rest s'
     \<and> \<not> scan_looking_for_name s' \<and> scan_name s' = Some n \<and> stringbuffer_to_string L (scan_buffer s') = v
     \<and> scan_cookies s' = scan_cookies s"
proof -
  note sb = libs_ok_parts(2) [OF assms(1)]
  let ?s = "s\<lparr>scan_looking_for_name := False, scan_name := Some n,
              scan_buffer := stringbuffer_clear L (foldl (stringbuffer_append L) (scan_buffer s) n)\<rparr>"
  have "cookie_scan_loop L (n @ CHR ''='' # v @ rest) s = cookie_scan_loop L (v @ rest) ?s"
    using cookie_scan_name [OF sb assms(2), of n "v @ rest"] assms(3,4) by simp
  also have "\<dots> = cookie_scan_loop L rest (?s\<lparr>scan_buffer := foldl (stringbuffer_append L) (scan_buffer ?s) v\<rparr>)"
    using assms(4) by (intro cookie_scan_value) simp_all
  finally show ?thesis
    by (intro exI conjI) (assumption, simp_all add: append_all_string sb stringbuffer_laws)
qed

lemma cookie_scan_print:
  assumes "libs_ok L"
  shows "ps \<noteq> [] \<Longrightarrow> list_all printable_cookie ps \<Longrightarrow> snd (last ps) \<noteq> [] \<Longrightarrow> scan_looking_for_name s \<Longrightarrow>
    stringbuffer_to_string L (scan_buffer s) = [] \<Longrightarrow> scan_cookies s = Some cs \<Longrightarrow>
    \<exists>cs'. scan_added (cookie_scan_finish L (cookie_scan_loop L (print_cookies ps) s))
      \<and> scan_cookies (cookie_scan_finish L (cookie_scan_loop L (print_cookies ps) s)) = Some cs'
      \<and> cookie_list L cs' = cookie_list L cs @ map parsed_cookie ps"
proof (induction ps arbitrary: s cs rule: print_cookies.induct)
  case 1
  then show ?case by simp
next
  case (2 n v)
  with cookie_scan_pair [OF assms 2(4,5), of n v "[]"] obtain s' where
    s': "cookie_scan_loop L (n @ CHR ''='' # v) s = s'" "\<not> scan_looking_for_name s'" "scan_name s' = Some n"
      "stringbuffer_to_string L (scan_buffer s') = v" "scan_cookies s' = Some cs" by auto
  from cookie_scan_add_eq [OF assms s'(5,3,4)] obtain cs' where
    "cookie_scan_add L s' = s'\<lparr>scan_cookies := Some cs', scan_added := True\<rparr>"
    "cookie_list L cs' = cookie_list L cs @ [parsed_cookie (n, v)]" .
  with s' 2(3) libs_ok_parts(2) [OF assms] show ?case
    by (simp add: cookie_scan_finish_def stringbuffer_laws)
next
  case (3 n v p r)
  let ?rest = "CHR '';'' # CHR '' '' # print_cookies (p # r)"
  from 3 cookie_scan_pair [OF assms 3(5,6), of n v ?rest] obtain s' where
    s': "cookie_scan_loop L (n @ CHR ''='' # v @ ?rest) s = cookie_scan_loop L ?rest s'" "\<not> scan_looking_for_name s'"
      "scan_name s' = Some n" "stringbuffer_to_string L (scan_buffer s') = v" "scan_cookies s' = Some cs" by auto
  from cookie_scan_add_eq [OF assms s'(5,3,4)] obtain cs1 where
    cs1: "cookie_scan_add L s' = s'\<lparr>scan_cookies := Some cs1, scan_added := True\<rparr>"
    "cookie_list L cs1 = cookie_list L cs @ [parsed_cookie (n, v)]" .
  let ?s = "s'\<lparr>scan_cookies := Some cs1, scan_added := True, scan_looking_for_name := True,
               scan_buffer := stringbuffer_clear L (scan_buffer s'), scan_name := None\<rparr>"
  have "cookie_scan_loop L ?rest s' = cookie_scan_loop L (print_cookies (p # r)) ?s"
    using s'(2) cs1(1) libs_ok_parts(2) [OF assms] by (simp add: cookie_scan_loop.simps stringbuffer_laws)
  moreover have "\<exists>cs'. scan_added (cookie_scan_finish L (cookie_scan_loop L (print_cookies (p # r)) ?s))
      \<and> scan_cookies (cookie_scan_finish L (cookie_scan_loop L (print_cookies (p # r)) ?s)) = Some cs'
      \<and> cookie_list L cs' = cookie_list L cs1 @ map parsed_cookie (p # r)"
    using "3.prems" libs_ok_parts(2) [OF assms] by (intro "3.IH") (auto simp: stringbuffer_laws)
  ultimately show ?case using s'(1) cs1(2) by simp
qed

section \<open>Query strings: the reference\<close>

primrec split_at :: "char \<Rightarrow> string \<Rightarrow> string list" where
  "split_at d [] = [[]]"
| "split_at d (c # s) =
     (if c = d then [] # split_at d s
      else (case split_at d s of [] \<Rightarrow> [[c]] | x # r \<Rightarrow> (c # x) # r))"

definition query_pair :: "string \<Rightarrow> string \<times> cstr" where
  \<comment> \<open>a segment is a key, or a key and a value divided by the first equals sign; an empty value
      is no value\<close>
  "query_pair seg =
     (case strchr seg (CHR ''='') of
        None \<Rightarrow> (seg, None)
      | Some i \<Rightarrow> (take i seg, if drop (i + 1) seg = [] then None else Some (drop (i + 1) seg)))"

definition query_pairs :: "string \<Rightarrow> (string \<times> cstr) list" where
  \<comment> \<open>the segments between ampersands; an empty last one is no pair\<close>
  "query_pairs q = (let segs = split_at (CHR ''&'') q
                    in map query_pair (if last segs = [] then butlast segs else segs))"

lemma split_at_nonempty [simp]: "split_at d s \<noteq> []"
  by (induction s) (auto split: list.splits)

lemma split_at_append: "d \<notin> set a \<Longrightarrow> split_at d (a @ d # s) = a # split_at d s"
  by (induction a) auto

lemma split_at_single: "d \<notin> set a \<Longrightarrow> split_at d a = [a]"
  by (induction a) auto

lemma query_pairs_cons:
  "CHR ''&'' \<notin> set a \<Longrightarrow> query_pairs (a @ CHR ''&'' # s) = query_pair a # query_pairs s"
  by (simp add: query_pairs_def split_at_append Let_def)

lemma query_pairs_single: "CHR ''&'' \<notin> set a \<Longrightarrow> query_pairs a = (if a = [] then [] else [query_pair a])"
  by (simp add: query_pairs_def split_at_single Let_def)

lemma query_pair_key: "CHR ''='' \<notin> set k \<Longrightarrow> query_pair k = (k, None)"
  by (simp add: query_pair_def strchr_None [THEN iffD2])

lemma query_pair_value:
  "CHR ''='' \<notin> set k \<Longrightarrow> query_pair (k @ CHR ''='' # v) = (k, if v = [] then None else Some v)"
  by (simp add: query_pair_def strchr_append)

definition scanned_query :: "('sb, 'pv, 'cv, 'dt, 'sh) libs \<Rightarrow> ('sb, 'pv) query_scan \<Rightarrow> string" where
  \<comment> \<open>the part of the current segment that has been read\<close>
  "scanned_query L s =
     (if qs_look_for_key s then stringbuffer_to_string L (qs_buffer s)
      else the (qs_key s) @ CHR ''='' # stringbuffer_to_string L (qs_buffer s))"

definition query_scan_wf :: "('sb, 'pv, 'cv, 'dt, 'sh) libs \<Rightarrow> ('sb, 'pv) query_scan \<Rightarrow> bool" where
  "query_scan_wf L s \<longleftrightarrow> CHR ''&'' \<notin> set (scanned_query L s)
     \<and> (if qs_look_for_key s then CHR ''='' \<notin> set (stringbuffer_to_string L (qs_buffer s))
        else (\<exists>k. qs_key s = Some k \<and> CHR ''='' \<notin> set k))"

lemma query_scan_still_looking:
  "qs_look_for_key s \<Longrightarrow> s\<lparr>qs_array := a, qs_buffer := b, qs_key := k, qs_look_for_key := True\<rparr>
     = s\<lparr>qs_array := a, qs_buffer := b, qs_key := k\<rparr>"
  by (cases s) simp

lemma query_scan_spec:
  assumes "libs_ok L"
  shows "query_scan_wf L s \<Longrightarrow> qs_array s = Some v \<Longrightarrow>
    \<exists>v'. query_scan_finish L (query_scan_loop L q s) = Some v'
      \<and> array_pairs L v' = array_pairs L v @ query_pairs (scanned_query L s @ q)"
proof (induction q arbitrary: s v)
  case Nil
  then show ?case
    by (auto simp: query_scan_finish_def query_scan_value_def scanned_query_def query_scan_wf_def
        query_pairs_single query_pair_key query_pair_value array_put_pairs [OF assms]
        stringbuffer_laws [OF libs_ok_parts(2) [OF assms]])
next
  case (Cons c q)
  note sb = stringbuffer_laws [OF libs_ok_parts(2) [OF assms]]
  let ?b = "stringbuffer_to_string L (qs_buffer s)"
  let ?step = "\<lambda>s'. query_scan_loop L (c # q) s = query_scan_loop L q s'"
  consider (amp) "c = CHR ''&''" | (eq) "c = CHR ''=''" "qs_look_for_key s"
    | (char) "c \<noteq> CHR ''&''" "c = CHR ''='' \<Longrightarrow> \<not> qs_look_for_key s" by blast
  then show ?case
  proof cases
    case amp
    define s' where "s' = s\<lparr>qs_array := Some (array_put L v (fst (query_pair (scanned_query L s)))
        (snd (query_pair (scanned_query L s)))),
        qs_buffer := (if \<not> qs_look_for_key s \<and> ?b = [] then qs_buffer s else stringbuffer_clear L (qs_buffer s)),
        qs_key := None, qs_look_for_key := True\<rparr>"
    have "?step s'" using amp Cons.prems
      by (auto simp: s'_def query_scan_wf_def scanned_query_def query_pair_key query_pair_value
          query_scan_value_def query_scan_still_looking sb)
    moreover have "query_scan_wf L s'" "scanned_query L s' = []"
      by (auto simp: s'_def query_scan_wf_def scanned_query_def sb)
    moreover have "qs_array s' = Some (array_put L v (fst (query_pair (scanned_query L s)))
        (snd (query_pair (scanned_query L s))))" by (simp add: s'_def)
    moreover have "query_pairs (scanned_query L s @ c # q) = query_pair (scanned_query L s) # query_pairs q"
      using amp Cons.prems(1) by (simp add: query_scan_wf_def query_pairs_cons)
    ultimately show ?thesis using Cons.IH [of s'] by (simp add: array_put_pairs [OF assms])
  next
    case eq
    define s' where "s' = s\<lparr>qs_key := Some ?b, qs_buffer := stringbuffer_clear L (qs_buffer s), qs_look_for_key := False\<rparr>"
    have "?step s'" using eq by (simp add: s'_def)
    moreover have "query_scan_wf L s'" "scanned_query L s' = scanned_query L s @ [c]" "qs_array s' = Some v"
      using eq Cons.prems by (auto simp: s'_def query_scan_wf_def scanned_query_def sb)
    ultimately show ?thesis using Cons.IH [of s' v] by simp
  next
    case char
    define s' where "s' = s\<lparr>qs_buffer := stringbuffer_append L (qs_buffer s) c\<rparr>"
    have "?step s'" using char by (auto simp: s'_def)
    moreover have "query_scan_wf L s'" "scanned_query L s' = scanned_query L s @ [c]" "qs_array s' = Some v"
      using char Cons.prems by (auto simp: s'_def query_scan_wf_def scanned_query_def sb split: if_splits)
    ultimately show ?thesis using Cons.IH [of s' v] by simp
  qed
qed

section \<open>URLs: printing\<close>

definition print_path :: "string \<Rightarrow> cstr \<Rightarrow> string" where
  \<comment> \<open>the path after its first slash, the query string\<close>
  "print_path p query = CHR ''/'' # p @ (case query of None \<Rightarrow> [] | Some q \<Rightarrow> CHR ''?'' # q)"

definition print_url :: "bool \<Rightarrow> string \<Rightarrow> nat option \<Rightarrow> string \<Rightarrow> cstr \<Rightarrow> string" where
  "print_url tls host port p query =
     (if tls then ''https://'' else ''http://'') @ host
       @ (case port of None \<Rightarrow> [] | Some n \<Rightarrow> CHR '':'' # show_nat n) @ print_path p query"

lemma split_query_eq:
  assumes "CHR ''?'' \<notin> set a" and "query \<noteq> Some []"
  shows "split_query (a @ (case query of None \<Rightarrow> [] | Some q \<Rightarrow> CHR ''?'' # q)) = (a, query)"
  using assms by (auto simp: split_query_def strchr_append strchr_None [THEN iffD2] split: option.splits)

lemma show_nat_no: "\<not> c_isdigit c \<Longrightarrow> c \<notin> set (show_nat n)"
  using show_nat_digits [of n] by (auto simp: list_all_iff)

lemma not_digits [simp]: "\<not> c_isdigit (CHR ''/'')" "\<not> c_isdigit (CHR ''?'')" "\<not> c_isdigit (CHR '':'')"
  by (simp_all add: c_isdigit_def)

lemma split_authority_eq:
  assumes "CHR '':'' \<notin> set host" and "CHR ''/'' \<notin> set host" and "pred_option (\<lambda>n. n < 2 ^ 31) port"
  shows "split_authority (host @ (case port of None \<Rightarrow> [] | Some n \<Rightarrow> CHR '':'' # show_nat n) @ CHR ''/'' # p)
    = (host, case port of None \<Rightarrow> -1 | Some n \<Rightarrow> int n, Some (CHR ''/'' # p))"
proof (cases port)
  case None
  then show ?thesis using assms
    by (cases "strchr p (CHR '':'')")
      (auto simp: split_authority_def strchr_append strchr_append2 Let_def path_or_root_def split: option.splits)
next
  case (Some n)
  have "strchr (show_nat n @ CHR ''/'' # p) (CHR ''/'') = Some (length (show_nat n))"
    by (simp add: strchr_append show_nat_no)
  with Some show ?thesis using assms
    by (simp add: split_authority_def strchr_append strchr_append2 Let_def path_or_root_def atoi_show_nat)
qed

lemma protocol_of_url:
  assumes "stringfn_ok L"
  shows "hs_parser_parse_protocol_from_url L (Some (print_url tls host port p query))
    = (if tls then HS_HTTP_PROTOCOL_HTTPS else HS_HTTP_PROTOCOL_HTTP)"
proof -
  let ?r = "host @ (case port of None \<Rightarrow> [] | Some n \<Rightarrow> CHR '':'' # show_nat n) @ print_path p query"
  obtain c r where r: "?r = c # r" by (cases ?r) (auto simp: print_path_def)
  have "stringfn_substring L (print_url tls host port p query) 0 8 = Some (take 8 (print_url tls host port p query))"
    using stringfn_laws(5) [OF assms, of "print_url tls host port p query" 8] by (simp add: print_url_def)
  then show ?thesis
    unfolding print_url_def r
    by (simp add: hs_parser_parse_protocol_from_url_def Let_def stringfn_laws [OF assms] c_tolower_def)
qed

lemma create_request_from_url_eq:
  assumes "stringfn_ok L" and "CHR ''?'' \<notin> set host" "CHR '':'' \<notin> set host" "CHR ''/'' \<notin> set host"
    and "CHR ''?'' \<notin> set p" and "query \<noteq> Some []" and "pred_option (\<lambda>n. n < 2 ^ 31) port"
  shows "hs_parser_create_request_from_path L (Some (print_url tls host port p query)) force
    = ret (Some ((hs_types_http_request_new L)
        \<lparr>req_method := HS_HTTP_METHOD_UNKNOWN, req_domain := Some host,
         req_port := (case port of None \<Rightarrow> -1 | Some n \<Rightarrow> int n), req_ssl := tls,
         req_resource := Some (CHR ''/'' # p), req_query_string := query\<rparr>))"
proof -
  let ?a = "host @ (case port of None \<Rightarrow> [] | Some n \<Rightarrow> CHR '':'' # show_nat n) @ CHR ''/'' # p"
  let ?q = "case query of None \<Rightarrow> [] | Some q \<Rightarrow> CHR ''?'' # q"
  have "CHR ''?'' \<notin> set ?a" using assms(2,5) by (auto simp: show_nat_no split: option.splits)
  then have "split_query (?a @ ?q) = (?a, query)" using assms(6) by (rule split_query_eq)
  moreover have "print_url tls host port p query = (if tls then ''https://'' else ''http://'') @ ?a @ ?q"
    by (simp add: print_url_def print_path_def)
  moreover have "stringfn_substring L (print_url tls host port p query) (if tls then 8 else 7) 0 = Some (?a @ ?q)"
    using stringfn_laws(4) [OF assms(1), of "if tls then 8 else 7" "print_url tls host port p query" 0]
    by (cases tls) (simp_all add: print_url_def print_path_def)
  ultimately show ?thesis
    using split_authority_eq [OF assms(3,4,7), of p] protocol_of_url [OF assms(1), of tls host port p query]
    by (simp add: hs_parser_create_request_from_path_def Let_def split: if_splits)
qed

lemma create_request_from_resource_eq:
  assumes "stringfn_ok L" and "CHR ''?'' \<notin> set p" and "query \<noteq> Some []"
  shows "hs_parser_create_request_from_resource L (Some (print_path p query))
    = ret (Some ((hs_types_http_request_new L)
        \<lparr>req_method := HS_HTTP_METHOD_UNKNOWN, req_domain := Some [], req_port := -1, req_ssl := False,
         req_resource := Some (CHR ''/'' # p), req_query_string := query\<rparr>))"
proof -
  have proto: "hs_parser_parse_protocol_from_url L (Some (print_path p query)) = HS_HTTP_PROTOCOL_UNKNOWN"
  proof (cases "length (print_path p query) < 7")
    case True
    then show ?thesis by (simp add: hs_parser_parse_protocol_from_url_def)
  next
    case False
    have "stringfn_substring L (print_path p query) 0 n = Some (take n (print_path p query))" if "n \<noteq> 0" for n
      using stringfn_laws(5) [OF assms(1), of "print_path p query" n] that by (simp add: print_path_def)
    then show ?thesis using False
      by (simp add: hs_parser_parse_protocol_from_url_def Let_def stringfn_laws [OF assms(1)])
        (simp add: print_path_def c_tolower_def)
  qed
  have "split_query (print_path p query) = (CHR ''/'' # p, query)"
    using split_query_eq [of "CHR ''/'' # p" query] assms(2,3) by (simp add: print_path_def)
  with proto show ?thesis
    using split_authority_eq [of "[]" None p]
    by (simp add: hs_parser_create_request_from_resource_def hs_parser_create_request_from_path_def Let_def)
qed

section \<open>Requests as functions of the bytes\<close>

lemma next_line_shorter: "next_line s = (Some l, r) \<Longrightarrow> length r < length s"
  using crlf_index_bound [of s] by (auto simp: next_line_def split: option.splits if_splits)

function stream_lines :: "string \<Rightarrow> string list \<times> string" where
  \<comment> \<open>the lines before the first empty one, and the bytes after it\<close>
  "stream_lines s =
     (case next_line s of
        (None, r) \<Rightarrow> ([], r)
      | (Some l, r) \<Rightarrow> (case stream_lines r of (ls, r') \<Rightarrow> (l # ls, r')))"
  by pat_completeness auto
termination by (relation "measure length") (auto dest: next_line_shorter [OF sym])

declare stream_lines.simps [simp del]

definition apply_header ::
  "('sb, 'pv, 'cv, 'dt, 'sh) libs \<Rightarrow> string \<Rightarrow> ('sb, 'pv, 'cv) HSHttpRequest \<Rightarrow> ('sb, 'pv, 'cv) HSHttpRequest" where
  \<comment> \<open>what one header line does to the request\<close>
  "apply_header L line r =
     (case hs_parser_parse_header L (Some line) of
        None \<Rightarrow> r
      | Some (key, value) \<Rightarrow>
          the (hs_parser_set_header L
                 (Some (r\<lparr>req_headers := snd (hs_types_array_string_pair_add L (req_headers r) key value)\<rparr>)) key value))"

lemma set_header_Some: "\<exists>r'. hs_parser_set_header L (Some r) key value = Some r'"
  by (auto simp: hs_parser_set_header_def split: option.splits)

lemma add_request_header_apply:
  "hs_parser_parse_header L (Some line) = Some (key, value) \<Longrightarrow>
     add_request_header L (Some r) key value = ret (Some (apply_header L line r))"
  using set_header_Some [of L "r\<lparr>req_headers := snd (hs_types_array_string_pair_add L (req_headers r) key value)\<rparr>" "key" "value"]
  by (auto simp: add_request_header_def apply_header_def)

lemma parse_headers_loop_spec:
  assumes "stringbuffer_ok L" and "stringfn_ok L" and "plain_socket socket fd"
    and "smooth HS_IO_READ_BUFFER_SIZE fd w"
  shows "\<exists>b' w'. parse_headers_loop L socket (Some r) (Some b) w
        = ret (Some (fold (apply_header L) (fst (stream_lines (stringbuffer_to_string L b @ stream_bytes fd w))) r), Some b', w')
      \<and> stringbuffer_to_string L b' @ stream_bytes fd w' = snd (stream_lines (stringbuffer_to_string L b @ stream_bytes fd w))
      \<and> smooth HS_IO_READ_BUFFER_SIZE fd w' \<and> consumed fd w w'"
  using assms(4)
proof (induction "length (stringbuffer_to_string L b @ stream_bytes fd w)" arbitrary: b w r rule: less_induct)
  case less
  let ?s = "stringbuffer_to_string L b @ stream_bytes fd w"
  from read_line_spec [OF assms(1-3) less.prems, of b] obtain b1 w1 where
    1: "hs_io_read_line L socket (Some b) w = ret (fst (next_line ?s), Some b1, w1)"
      "stringbuffer_to_string L b1 @ stream_bytes fd w1 = snd (next_line ?s)"
      "smooth HS_IO_READ_BUFFER_SIZE fd w1" "consumed fd w w1" by blast
  show ?case
  proof (cases "next_line ?s")
    case (Pair line rest)
    show ?thesis
    proof (cases line)
      case None
      with Pair 1 show ?thesis
        by (simp add: parse_headers_loop.simps [of L socket "Some r" "Some b" w] stream_lines.simps [of ?s])
    next
      case (Some l)
      have "length (stringbuffer_to_string L b1 @ stream_bytes fd w1) < length ?s"
        using Pair Some 1(2) next_line_shorter [of ?s l rest] by simp
      from less.hyps [OF this 1(3), of "apply_header L l r"] obtain b' w' where
        "parse_headers_loop L socket (Some (apply_header L l r)) (Some b1) w1
          = ret (Some (fold (apply_header L) (fst (stream_lines rest)) (apply_header L l r)), Some b', w')"
        "stringbuffer_to_string L b' @ stream_bytes fd w' = snd (stream_lines rest)"
        "smooth HS_IO_READ_BUFFER_SIZE fd w'" "consumed fd w1 w'"
        using Pair 1(2) by auto
      moreover have "parse_headers_loop L socket (Some r) (Some b) w
          = parse_headers_loop L socket (Some (apply_header L l r)) (Some b1) w1"
        using Pair Some 1(1) add_request_header_apply [of L l _ _ r]
        by (simp add: parse_headers_loop.simps [of L socket "Some r" "Some b" w] split: option.splits)
          (simp add: apply_header_def split: option.splits)
      ultimately show ?thesis
        using Pair Some consumed_trans [OF 1(4)]
        by (simp add: stream_lines.simps [of ?s] case_prod_beta)
    qed
  qed
qed

text \<open>The whole request as a function of the bytes of the connection: the request line, then every header line.\<close>

lemma parse_request_spec:
  assumes "libs_ok L" and "plain_socket socket fd" and "smooth HS_IO_READ_BUFFER_SIZE fd w"
    and "next_line (stream_bytes fd w) = (Some l, rest)"
    and "hs_parser_parse_request_line L (Some l) = ret (Some r0)"
  shows "\<exists>b w'. hs_parser_parse_request L socket w
        = ret (Some ((fold (apply_header L) (fst (stream_lines rest)) r0)
                \<lparr>req_payload := Some \<lparr>loaded = False, io_payload = Some \<lparr>io_partial = Some b, io_socket = socket\<rparr>\<rparr>\<rparr>), w')
      \<and> stringbuffer_to_string L b @ stream_bytes fd w' = snd (stream_lines rest)
      \<and> smooth HS_IO_READ_BUFFER_SIZE fd w' \<and> consumed fd w w'"
proof -
  note ok = libs_ok_parts(2) [OF assms(1)] libs_ok_parts(1) [OF assms(1)] assms(2)
  from read_line_spec [OF ok assms(3), of "stringbuffer_new L"] obtain b1 w1 where
    1: "hs_io_read_line L socket (Some (stringbuffer_new L)) w = ret (Some l, Some b1, w1)"
      "stringbuffer_to_string L b1 @ stream_bytes fd w1 = rest"
      "smooth HS_IO_READ_BUFFER_SIZE fd w1" "consumed fd w w1"
    using assms(4) stringbuffer_laws(1) [OF ok(1)] by auto
  from parse_headers_loop_spec [OF ok 1(3), of r0 b1] obtain b' w' where
    2: "parse_headers_loop L socket (Some r0) (Some b1) w1 = ret (Some (fold (apply_header L) (fst (stream_lines rest)) r0), Some b', w')"
      "stringbuffer_to_string L b' @ stream_bytes fd w' = snd (stream_lines rest)"
      "smooth HS_IO_READ_BUFFER_SIZE fd w'" "consumed fd w1 w'"
    unfolding 1(2) by blast
  obtain s where s: "socket = Some s" using plain_socket_simps(3) [OF assms(2)] by auto
  have "hs_socket_is_open (Some s)" using plain_socket_simps(2) [OF assms(2)] s by simp
  with s 1(1) 2(1) assms(5) have "hs_parser_parse_request L socket w
      = ret (Some ((fold (apply_header L) (fst (stream_lines rest)) r0)
                \<lparr>req_payload := Some \<lparr>loaded = False, io_payload = Some \<lparr>io_partial = Some b', io_socket = socket\<rparr>\<rparr>\<rparr>), w')"
    by (simp add: hs_parser_parse_request_def hs_types_http_request_new_payload_def hs_io_new_http_request_payload_def)
  then show ?thesis using 2(2,3) consumed_trans [OF 1(4) 2(4)] by blast
qed

text \<open>Without a request line in its form, the first header line, or else the payload, is stored through NULL.\<close>

lemma parse_headers_loop_null:
  assumes "stringbuffer_ok L" and "stringfn_ok L" and "plain_socket socket fd"
    and "smooth HS_IO_READ_BUFFER_SIZE fd w"
  shows "parse_headers_loop L socket None (Some b) w = ub NullDeref
      \<or> (\<exists>b' w'. parse_headers_loop L socket None (Some b) w = ret (None, Some b', w'))"
  using assms(4)
proof (induction "length (stringbuffer_to_string L b @ stream_bytes fd w)" arbitrary: b w rule: less_induct)
  case less
  let ?s = "stringbuffer_to_string L b @ stream_bytes fd w"
  from read_line_spec [OF assms(1-3) less.prems, of b] obtain b1 w1 where
    1: "hs_io_read_line L socket (Some b) w = ret (fst (next_line ?s), Some b1, w1)"
      "stringbuffer_to_string L b1 @ stream_bytes fd w1 = snd (next_line ?s)"
      "smooth HS_IO_READ_BUFFER_SIZE fd w1" by blast
  note unfold = parse_headers_loop.simps [of L socket None "Some b" w]
  show ?case
  proof (cases "next_line ?s")
    case (Pair line rest)
    show ?thesis
    proof (cases line)
      case None
      with Pair 1 show ?thesis by (simp add: unfold)
    next
      case (Some l)
      have "length (stringbuffer_to_string L b1 @ stream_bytes fd w1) < length ?s"
        using Pair Some 1(2) next_line_shorter [of ?s l rest] by simp
      from less.hyps [OF this 1(3)] Pair Some 1(1) show ?thesis
        by (auto simp: unfold add_request_header_def split: option.splits)
    qed
  qed
qed

lemma parse_request_null:
  assumes "libs_ok L" and "plain_socket socket fd" and "smooth HS_IO_READ_BUFFER_SIZE fd w"
    and "next_line (stream_bytes fd w) = (Some l, rest)" and "hs_parser_parse_request_line L (Some l) = ret None"
  shows "hs_parser_parse_request L socket w = ub NullDeref"
proof -
  note ok = libs_ok_parts(2) [OF assms(1)] libs_ok_parts(1) [OF assms(1)] assms(2)
  from read_line_spec [OF ok assms(3), of "stringbuffer_new L"] obtain b1 w1 where
    1: "hs_io_read_line L socket (Some (stringbuffer_new L)) w = ret (Some l, Some b1, w1)"
      "smooth HS_IO_READ_BUFFER_SIZE fd w1"
    using assms(4) stringbuffer_laws(1) [OF ok(1)] by auto
  obtain s where s: "socket = Some s" using plain_socket_simps(3) [OF assms(2)] by auto
  from parse_headers_loop_null [OF ok 1(2), of b1] 1(1) assms(5) s show ?thesis
    by (auto simp: hs_parser_parse_request_def)
qed

section \<open>Properties\<close>

text \<open>
  C1. On a smooth stream (it ends, no read of it fails, and every segment is shorter than the read
  buffer of 256 bytes and free of NUL bytes), parsing a request is a function of the bytes of the
  connection, however they are split into such segments:
  if the first line \<open>l\<close> is a request line, \<open>hs_parser_parse_request\<close> returns the request of that
  line, with every line before the first empty one applied to it in order, and with the payload
  not loaded; what the payload reader finds, in its buffer and then in the stream, are exactly
  the bytes after the empty line.
\<close>

theorem parse_request_of_bytes:
  assumes "libs_ok L" and "plain_socket socket fd" and "smooth HS_IO_READ_BUFFER_SIZE fd w"
    and "next_line (stream_bytes fd w) = (Some l, rest)"
    and "hs_parser_parse_request_line L (Some l) = ret (Some r0)"
  shows "\<exists>b w'. hs_parser_parse_request L socket w
        = ret (Some ((fold (apply_header L) (fst (stream_lines rest)) r0)
                \<lparr>req_payload := Some \<lparr>loaded = False, io_payload = Some \<lparr>io_partial = Some b, io_socket = socket\<rparr>\<rparr>\<rparr>), w')
      \<and> stringbuffer_to_string L b @ stream_bytes fd w' = snd (stream_lines rest)"
  using parse_request_spec [OF assms] by blast

theorem parse_request_of_bytes_witness:
  "\<exists>r b w'. hs_parser_parse_request reference_libs connection_socket
       (connection [Arrive (''POST /a?b HTTP/1.1'' @ [CR]), Arrive ([LF] @ ''Content-Length: 2'' @ [CR, LF]),
                    Arrive ([CR, LF] @ ''xy'')] []) = ret (Some r, w')
     \<and> req_method r = HS_HTTP_METHOD_POST \<and> req_resource r = Some ''/a'' \<and> req_query_string r = Some ''b''
     \<and> req_content_length r = 2"
proof -
  let ?w = "connection [Arrive (''POST /a?b HTTP/1.1'' @ [CR]), Arrive ([LF] @ ''Content-Length: 2'' @ [CR, LF]),
                    Arrive ([CR, LF] @ ''xy'')] []"
  let ?rest = "''Content-Length: 2'' @ [CR, LF, CR, LF] @ ''xy''"
  define r0 where "r0 = (hs_types_http_request_new reference_libs)\<lparr>req_method := HS_HTTP_METHOD_POST,
      req_domain := Some [], req_port := -1, req_ssl := False, req_resource := Some ''/a'', req_query_string := Some ''b''\<rparr>"
  have 1: "smooth HS_IO_READ_BUFFER_SIZE 3 ?w" by (simp add: HS_IO_READ_BUFFER_SIZE_def)
  have 2: "next_line (stream_bytes 3 ?w) = (Some ''POST /a?b HTTP/1.1'', ?rest)" by (simp add: next_line_def)
  have 3: "hs_parser_parse_request_line reference_libs (Some ''POST /a?b HTTP/1.1'') = ret (Some r0)"
    unfolding r0_def by code_simp
  have lines: "fst (stream_lines ?rest) = [''Content-Length: 2'']" by code_simp
  let ?r = "fold (apply_header reference_libs) (fst (stream_lines ?rest)) r0"
  have r: "req_method ?r = HS_HTTP_METHOD_POST" "req_resource ?r = Some ''/a''" "req_query_string ?r = Some ''b''"
    "req_content_length ?r = 2"
    unfolding lines r0_def by code_simp+
  from parse_request_of_bytes [OF reference_libs_ok connection_simps(1) 1 2 3] r show ?thesis by auto
qed

text \<open>
  C33. A first line that is not a request line (not three words) makes the server store the
  payload, or the first header, through a NULL request: \<open>hs_parser_parse_request\<close> does not check
  the result of \<open>hs_parser_parse_request_line\<close>, and any client can send such a line.
\<close>

theorem malformed_request_line_crashes:
  assumes "libs_ok L" and "plain_socket socket fd" and "smooth HS_IO_READ_BUFFER_SIZE fd w"
    and "next_line (stream_bytes fd w) = (Some l, rest)" and "length (stringfn_split_words L l) \<noteq> 3"
  shows "hs_parser_parse_request L socket w = ub NullDeref"
  using assms by (intro parse_request_null) (auto simp: hs_parser_parse_request_line_def)

theorem malformed_request_line_crashes_witness:
  "hs_parser_parse_request reference_libs connection_socket (connection [Arrive (''GET /'' @ [CR, LF, CR, LF])] []) = ub NullDeref"
proof -
  let ?w = "connection [Arrive (''GET /'' @ [CR, LF, CR, LF])] []"
  have "length (stringfn_split_words reference_libs ''GET /'') \<noteq> 3" by code_simp
  moreover have "next_line (stream_bytes 3 ?w) = (Some ''GET /'', [CR, LF])" by (simp add: next_line_def)
  moreover have "smooth HS_IO_READ_BUFFER_SIZE 3 ?w" by (simp add: HS_IO_READ_BUFFER_SIZE_def)
  ultimately show ?thesis
    by (intro malformed_request_line_crashes [OF reference_libs_ok connection_simps(1)])
qed

text \<open>
  C18. Round trip of URLs: parsing the printed form of a scheme, a host, an optional port, a path
  and an optional query string gives back each of them, a missing port as -1.
\<close>

theorem url_round_trip:
  assumes "stringfn_ok L" and "CHR ''?'' \<notin> set host" "CHR '':'' \<notin> set host" "CHR ''/'' \<notin> set host"
    and "CHR ''?'' \<notin> set p" and "query \<noteq> Some []" and "pred_option (\<lambda>n. n < 2 ^ 31) port"
  shows "hs_parser_create_request_from_url L (Some (print_url tls host port p query))
    = ret (Some ((hs_types_http_request_new L)
        \<lparr>req_method := HS_HTTP_METHOD_UNKNOWN, req_domain := Some host,
         req_port := (case port of None \<Rightarrow> -1 | Some n \<Rightarrow> int n), req_ssl := tls,
         req_resource := Some (CHR ''/'' # p), req_query_string := query\<rparr>))"
  unfolding hs_parser_create_request_from_url_def by (rule create_request_from_url_eq [OF assms])

theorem url_round_trip_witness:
  "hs_parser_create_request_from_url reference_libs (Some ''https://a.b:8080/c:d?e=f'')
    = ret (Some ((hs_types_http_request_new reference_libs)
        \<lparr>req_method := HS_HTTP_METHOD_UNKNOWN, req_domain := Some ''a.b'', req_port := 8080, req_ssl := True,
         req_resource := Some ''/c:d'', req_query_string := Some ''e=f''\<rparr>))"
proof -
  have "print_url True ''a.b'' (Some 8080) ''c:d'' (Some ''e=f'') = ''https://a.b:8080/c:d?e=f''"
    by (simp add: print_url_def print_path_def show_nat.simps) code_simp
  with url_round_trip [OF reference_ok(1), of "''a.b''" "''c:d''" "Some ''e=f''" "Some 8080" True]
  show ?thesis by simp
qed

text \<open>
  A header line is divided at its last colon followed by a space: for a value \<open>v\<close> without that
  separator, the line \<open>k: v\<close> gives the key \<open>k\<close> in lower case and the value \<open>v\<close>, also when \<open>k\<close> itself
  contains the separator. A value with a colon and a space in it thus ends up in the key.
\<close>

theorem header_splits_at_last_separator:
  assumes "stringfn_ok L" and "k \<noteq> []" and "\<not> sublist '': '' v"
  shows "hs_parser_parse_header L (Some (k @ '': '' @ v))
    = Some (Some (map c_tolower k), if v = [] then None else Some v)"
  using parse_header_eq [OF assms] by simp

theorem header_splits_at_last_separator_witness:
  "hs_parser_parse_header reference_libs (Some ''User-Agent: a: b'') = Some (Some ''user-agent: a'', Some ''b'')"
proof -
  have "\<not> sublist '': '' ''b''" "map c_tolower ''User-Agent: a'' = ''user-agent: a''" by code_simp+
  with header_splits_at_last_separator [OF reference_ok(1), of "''User-Agent: a''" "''b''"] show ?thesis by simp
qed

text \<open>
  C19. Round trip of cookie headers: parsing the printed form of a non-empty list of cookies adds
  a cookie for each pair, in order, with its name and value and no attributes, and reports true
  (names without an equals sign or a leading space, values without a semicolon, the last one
  not empty).
\<close>

theorem cookie_header_round_trip:
  assumes "libs_ok L" and "ps \<noteq> []" and "list_all printable_cookie ps" and "snd (last ps) \<noteq> []"
  shows "\<exists>cs'. hs_parser_parse_cookie_header L (Some cs) (Some (print_cookies ps)) = (True, Some cs')
      \<and> cookie_list L cs' = cookie_list L cs @ map parsed_cookie ps"
proof -
  let ?s = "\<lparr>scan_cookies = Some cs, scan_buffer = stringbuffer_new L, scan_name = None,
             scan_looking_for_name = True, scan_added = False\<rparr>"
  have "print_cookies ps \<noteq> []" using assms(2) by (cases ps rule: print_cookies.cases) auto
  moreover have "\<exists>cs'. scan_added (cookie_scan_finish L (cookie_scan_loop L (print_cookies ps) ?s))
      \<and> scan_cookies (cookie_scan_finish L (cookie_scan_loop L (print_cookies ps) ?s)) = Some cs'
      \<and> cookie_list L cs' = cookie_list L cs @ map parsed_cookie ps"
    using assms(2-) stringbuffer_laws(1) [OF libs_ok_parts(2) [OF assms(1)]]
    by (intro cookie_scan_print [OF assms(1)]) simp_all
  ultimately show ?thesis by (auto simp: hs_parser_parse_cookie_header_def Let_def)
qed

theorem cookie_header_round_trip_witness:
  "\<exists>cs'. hs_parser_parse_cookie_header reference_libs (Some []) (Some ''a=1; b=x=y'') = (True, Some cs')
     \<and> map cookie_name (cookie_list reference_libs cs') = [Some ''a'', Some ''b'']
     \<and> map cookie_value (cookie_list reference_libs cs') = [Some ''1'', Some ''x=y'']"
proof -
  have "cookie_list reference_libs [] = []" by (simp add: cookie_list_def reference_libs_def list_vector_def vec_list_def List.map_filter_simps)
  with cookie_header_round_trip [OF reference_libs_ok, of "[(''a'', ''1''), (''b'', ''x=y'')]" "[]"]
  show ?thesis by auto
qed

text \<open>
  C20. \<open>hs_parser_parse_query_string\<close> computes the reference: the pairs of the segments between
  ampersands, each divided at its first equals sign, in order, for every non-empty string.
\<close>

theorem query_string_is_reference:
  assumes "libs_ok L" and "q \<noteq> []"
  shows "\<exists>v. hs_parser_parse_query_string L (Some q) = Some v \<and> array_pairs L v = query_pairs q"
proof -
  let ?s = "\<lparr>qs_array = Some (hs_types_array_string_pair_new L), qs_buffer = stringbuffer_new L,
             qs_key = None, qs_look_for_key = True\<rparr>"
  note new = stringbuffer_laws(1) [OF libs_ok_parts(2) [OF assms(1)]]
  have "scanned_query L ?s = []" "query_scan_wf L ?s"
    by (simp_all add: scanned_query_def query_scan_wf_def new)
  with query_scan_spec [OF assms(1), of ?s "hs_types_array_string_pair_new L" q] assms(2) show ?thesis
    by (simp add: hs_parser_parse_query_string_def array_new_pairs [OF assms(1)])
qed

theorem query_string_is_reference_witness:
  "\<exists>v. hs_parser_parse_query_string reference_libs (Some ''a=1&b&&c=&d=x=y&'') = Some v
     \<and> array_pairs reference_libs v
         = [(''a'', Some ''1''), (''b'', None), ([], None), (''c'', None), (''d'', Some ''x=y'')]"
proof -
  have "query_pairs ''a=1&b&&c=&d=x=y&''
      = [(''a'', Some ''1''), (''b'', None), ([], None), (''c'', None), (''d'', Some ''x=y'')]" by code_simp
  with query_string_is_reference [OF reference_libs_ok, of "''a=1&b&&c=&d=x=y&''"] show ?thesis by simp
qed

text \<open>
  The content length of a request is the number in the header exactly when that number is
  below two to the 31: \<open>atoi\<close> computes an \<open>int\<close>, so larger numbers wrap, and the wrapped ones that
  are negative become huge when converted to \<open>size_t\<close>.
\<close>

theorem content_length_exact_iff_int:
  assumes "stringfn_ok L" and "n < 2 ^ 63"
  shows "map_option (\<lambda>r'. unat (req_content_length r')) (hs_parser_set_header L (Some r) (Some ''content-length'') (Some (show_nat n)))
      = Some n \<longleftrightarrow> n < 2 ^ 31"
proof -
  let ?i = "(int n + 2147483648) mod 4294967296 - 2147483648"
  have i: "atoi (show_nat n) = ?i" using assms(2) by (simp add: atoi_def strtol_show_nat)
  have lo: "- 2147483648 \<le> ?i" and hi: "?i < 2147483648" by simp_all
  have n63: "int n < 9223372036854775808" using assms(2) by simp
  have "unat (word_of_int ?i :: 64 word) = nat (?i mod 18446744073709551616)"
    by (simp only: unat_eq_nat_uint uint_word_of_int) simp
  also have "(Some \<dots> = Some n) = (n < 2 ^ 31)"
  proof (cases "n < 2 ^ 31")
    case True
    then show ?thesis by simp
  next
    case False
    then have n31: "2147483648 \<le> int n" by simp
    have "?i mod 18446744073709551616 \<noteq> int n"
    proof (cases "0 \<le> ?i")
      case True
      then have "?i mod 18446744073709551616 = ?i" using hi by (intro mod_pos_pos_trivial) linarith+
      with hi n31 show ?thesis by linarith
    next
      case neg: False
      then have "?i mod 18446744073709551616 = ?i + 18446744073709551616"
        using lo by (intro int_mod_pos_eq [where q = "-1"]) linarith+
      with lo n63 show ?thesis by linarith
    qed
    moreover have "0 \<le> ?i mod 18446744073709551616" by simp
    ultimately show ?thesis using False by (simp add: nat_eq_iff)
  qed
  finally show ?thesis
    using assms(1) by (simp add: hs_parser_set_header_def stringfn_laws i)
qed

theorem content_length_exact_iff_int_witness:
  "map_option (\<lambda>r'. unat (req_content_length r'))
     (hs_parser_set_header reference_libs (Some (hs_types_http_request_new reference_libs)) (Some ''content-length'') (Some (show_nat 2147483648)))
      \<noteq> Some 2147483648"
  using content_length_exact_iff_int [OF reference_ok(1), of 2147483648 "hs_types_http_request_new reference_libs"] by simp

end
