(* ===== verification/Router.thy ===== *)
theory Router
  imports Route Parser Constants
begin

text \<open>
  The router of \<open>src/hs_router.c\<close>: it finds the first route that serves a request, writes its
  response, closes or keeps the connection, runs the callbacks, and serves the requests of a
  connection one after the other. The vector of routes is a container of the external vector
  library, a parameter of its own (\<open>V\<close>); a router used as a route is a route whose serve function
  closes over the router.
\<close>

type_synonym ('sb, 'pv, 'cv, 'dt) flow = "('sb, 'pv, 'cv, 'dt) HSServeFlowParams"

type_synonym ('sb, 'pv, 'cv, 'dt) route = "('sb, 'pv, 'cv, 'dt) flow HSRoute"

record 'rv HSRouter =
  router_routes :: 'rv
  support_keep_alive :: bool

section \<open>Construction\<close>

definition hs_router_new :: "('rv, 'r) vector_lib \<Rightarrow> 'rv HSRouter" where
  "hs_router_new V = \<lparr>router_routes = vector_new V, support_keep_alive = True\<rparr>"

primrec release_routes_loop :: "'st HSRoute option list \<Rightarrow> world \<Rightarrow> world run" where
  "release_routes_loop [] w = ret w"
| "release_routes_loop (route # routes) w = bindR (hs_route_release_route route w) (release_routes_loop routes)"

definition hs_router_release :: "('rv, 'st HSRoute) vector_lib \<Rightarrow> 'rv HSRouter option \<Rightarrow> world \<Rightarrow> world run" where
  "hs_router_release V router w =
     (case router of
        None \<Rightarrow> ret w
      | Some r \<Rightarrow> release_routes_loop (map (vector_get V (router_routes r)) [0..<vector_size V (router_routes r)]) w)"

definition hs_router_set_keep_alive_support :: "'rv HSRouter option \<Rightarrow> bool \<Rightarrow> 'rv HSRouter option" where
  "hs_router_set_keep_alive_support router enable = map_option (\<lambda>r. r\<lparr>support_keep_alive := enable\<rparr>) router"

definition hs_router_add_route ::
  "('rv, 'r) vector_lib \<Rightarrow> 'rv HSRouter option \<Rightarrow> 'r option \<Rightarrow> 'rv HSRouter option run" where
  "hs_router_add_route V router route =
     (case route of
        None \<Rightarrow> ret router
      | Some r \<Rightarrow> (case router of
                     None \<Rightarrow> ub NullDeref
                   | Some rt \<Rightarrow> ret (Some (rt\<lparr>router_routes := vector_push V (router_routes rt) r\<rparr>))))"

section \<open>The header of a response\<close>

definition write_header_lines ::
  "('sb, 'pv, 'cv, 'dt, 'sh) libs \<Rightarrow> 'pv option \<Rightarrow> nat \<Rightarrow> 'sb \<Rightarrow> 'sb" where
  "write_header_lines L headers index buffer =
     (case (hs_types_array_string_pair_get_key L headers index, hs_types_array_string_pair_get_value L headers index) of
        (Some key, Some val) \<Rightarrow>
          stringbuffer_append_string L (stringbuffer_append_string L (stringbuffer_append_string L
            (stringbuffer_append_string L buffer key) '': '') val) [CR, LF]
      | _ \<Rightarrow> buffer)"

definition write_cookie_attributes :: "('sb, 'pv, 'cv, 'dt, 'sh) libs \<Rightarrow> HSCookie \<Rightarrow> 'sb \<Rightarrow> 'sb" where
  "write_cookie_attributes L cookie b0 =
     (let b1 = (case cookie_expires cookie of
                  None \<Rightarrow> b0
                | Some e \<Rightarrow> stringbuffer_append_string L (stringbuffer_append_string L b0 ''; Expires='') e);
          b2 = (if 0 \<le> cookie_max_age cookie
                then stringbuffer_append_int L (stringbuffer_append_string L b1 ''; Max-Age='') (cookie_max_age cookie)
                else b1);
          b3 = (if cookie_secure cookie then stringbuffer_append_string L b2 ''; Secure'' else b2);
          b4 = (if cookie_http_only cookie then stringbuffer_append_string L b3 ''; HttpOnly'' else b3);
          b5 = (case cookie_domain cookie of
                  None \<Rightarrow> b4
                | Some d \<Rightarrow> stringbuffer_append_string L (stringbuffer_append_string L b4 ''; Domain='') d);
          b6 = (case cookie_path cookie of
                  None \<Rightarrow> b5
                | Some p \<Rightarrow> stringbuffer_append_string L (stringbuffer_append_string L b5 ''; Path='') p);
          b7 = stringbuffer_append_string L b6 ''; SameSite=''
      in case cookie_same_site cookie of
           HS_COOKIE_SAME_SITE_NONE \<Rightarrow> stringbuffer_append_string L b7 ''None''
         | HS_COOKIE_SAME_SITE_LAX \<Rightarrow> stringbuffer_append_string L b7 ''Lax''
         | HS_COOKIE_SAME_SITE_STRICT \<Rightarrow> stringbuffer_append_string L b7 ''Strict'')"

definition write_set_cookie ::
  "('sb, 'pv, 'cv, 'dt, 'sh) libs \<Rightarrow> 'cv option \<Rightarrow> nat \<Rightarrow> 'sb \<Rightarrow> 'sb" where
  "write_set_cookie L cookies index buffer =
     (case hs_types_cookies_get L cookies index of
        None \<Rightarrow> buffer
      | Some cookie \<Rightarrow>
          (case (cookie_name cookie, cookie_value cookie) of
             (Some name, Some val) \<Rightarrow>
               stringbuffer_append_string L
                 (write_cookie_attributes L cookie
                   (stringbuffer_append_string L (stringbuffer_append_string L (stringbuffer_append_string L
                     (stringbuffer_append_string L buffer ''Set-Cookie: '') name) ''='') val)) [CR, LF]
           | _ \<Rightarrow> buffer))"

definition hs_router_write_common_response_header ::
  "('sb, 'pv, 'cv, 'dt, 'sh) libs \<Rightarrow> HSHttpResponseCode \<Rightarrow> 'pv option \<Rightarrow> 'cv option \<Rightarrow> bool \<Rightarrow> 'sb" where
  "hs_router_write_common_response_header L code headers cookies close_connection =
     (let b1 = stringbuffer_append_string L (stringbuffer_append_unsigned L (stringbuffer_append L
                 (stringbuffer_append_unsigned L (stringbuffer_append_string L (stringbuffer_new L) ''HTTP/1.1 '')
                   (response_code_value code)) (CHR '' '')) (response_code_value code)) [CR, LF];
          b2 = fold (write_header_lines L headers) [0..<hs_types_array_string_pair_count L headers] b1;
          b3 = fold (write_set_cookie L cookies) [0..<hs_types_cookies_count L cookies] b2
      in if close_connection then stringbuffer_append_string L b3 (''Connection: close'' @ [CR, LF])
         else stringbuffer_append_string L b3 (''Connection: keep-alive'' @ [CR, LF]))"

section \<open>Writing a response\<close>

definition write_content_type ::
  "('sb, 'pv, 'cv, 'dt, 'sh) libs \<Rightarrow> ('pv, 'cv) HSHttpResponse \<Rightarrow> 'sb \<Rightarrow> ('pv, 'cv) HSHttpResponse \<times> 'sb" where
  "write_content_type L resp header_buffer =
     (if hs_types_array_string_pair_get_by_key L (resp_headers resp) (Some ''Content-Type'') \<noteq> None
      then (resp, header_buffer)
      else (let resp1 = (if resp_mime_type resp = HS_MIME_TYPE_NONE \<and> resp_content_file resp \<noteq> None
                         then resp\<lparr>resp_mime_type := hs_constants_file_extension_to_mime_type L (resp_content_file resp)\<rparr>
                         else resp)
            in case hs_constants_mime_type_to_string (resp_mime_type resp1) of
                 None \<Rightarrow> (resp1, header_buffer)
               | Some mime_type \<Rightarrow>
                   (resp1, stringbuffer_append_string L (stringbuffer_append_string L
                      (stringbuffer_append_string L header_buffer ''Content-Type: '') mime_type) [CR, LF])))"

definition write_content_length ::
  "('sb, 'pv, 'cv, 'dt, 'sh) libs \<Rightarrow> ('pv, 'cv) HSHttpResponse \<Rightarrow> 'sb \<Rightarrow> world \<Rightarrow> bool \<times> 'sb" where
  \<comment> \<open>whether content follows, the buffer with the end of the header\<close>
  "write_content_length L resp header_buffer w =
     (case resp_content_string resp of
        Some s \<Rightarrow>
          (length s \<noteq> 0,
           stringbuffer_append_string L (stringbuffer_append_unsigned L
             (stringbuffer_append_string L header_buffer ''Content-Length: '') (length s)) [CR, LF, CR, LF])
      | None \<Rightarrow>
          (case resp_content_file resp of
             Some file \<Rightarrow>
               (let content_length = fsio_file_size L file w
                in if content_length \<noteq> 0
                   then (True, stringbuffer_append_string L (stringbuffer_append_int L
                          (stringbuffer_append_string L header_buffer ''Content-Length: '') content_length) [CR, LF, CR, LF])
                   else (False, stringbuffer_append_string L header_buffer (''Content-Length: 0'' @ [CR, LF, CR, LF])))
           | None \<Rightarrow> (False, stringbuffer_append_string L header_buffer (''Content-Length: 0'' @ [CR, LF, CR, LF]))))"

definition write_response ::
  "('sb, 'pv, 'cv, 'dt, 'sh) libs \<Rightarrow> 'rv HSRouter \<Rightarrow> ('sb, 'pv, 'cv, 'dt) flow \<Rightarrow> world
    \<Rightarrow> (bool \<times> ('sb, 'pv, 'cv, 'dt) flow \<times> world) run" where
  \<comment> \<open>the rest of \<open>_hs_router_serve\<close> once a route has delivered a response\<close>
  "write_response L router p w =
     (case (request p, response p, connection_state p, router_state p) of
        (Some req, Some resp, Some conn, Some rs) \<Rightarrow>
          (let close_connection = (\<not> support_keep_alive router \<or> req_connection req = HS_CONNECTION_TYPE_CLOSE
                                   \<or> req_connection req = HS_CONNECTION_TYPE_UNKNOWN);
               header_buffer = hs_router_write_common_response_header L (resp_code resp) (resp_headers resp)
                                 (resp_cookies resp) close_connection;
               (resp1, header_buffer1) = write_content_type L resp header_buffer;
               (has_content, header_buffer2) = write_content_length L resp1 header_buffer1 w;
               header_string = stringbuffer_to_string L header_buffer2;
               len = stringbuffer_get_content_size L header_buffer2
           in bindR (hs_io_write_string_to_socket L (conn_socket conn) (Some header_string) len w)
                (\<lambda>(_, w1).
                   bindR (if has_content
                          then (case resp_content_string resp1 of
                                  Some s \<Rightarrow> hs_io_write_string_to_socket L (conn_socket conn) (Some s) (length s) w1
                                | None \<Rightarrow> hs_io_write_file_to_socket L (conn_socket conn) (resp_content_file resp1) w1)
                          else ret (True, w1))
                     (\<lambda>(_, w2).
                        let close_connection1 = (close_connection \<or> req_content_length req \<noteq> 0
                              \<and> \<not> hs_types_http_request_payload_is_loaded (Some req));
                            p1 = p\<lparr>response := Some resp1\<rparr>
                        in if close_connection1
                           then ret (True, p1\<lparr>connection_state := Some (conn\<lparr>conn_socket := None\<rparr>),
                                              router_state := Some (rs\<lparr>closed_connection := True\<rparr>)\<rparr>,
                                     hs_socket_close L (conn_socket conn) w2)
                           else ret (True, p1, w2))))
      | _ \<Rightarrow> ub NullDeref)"

section \<open>Finding the route\<close>

definition flow_ready :: "('sb, 'pv, 'cv, 'dt, 'more) HSServeFlowEnv_scheme \<Rightarrow> bool" where
  \<comment> \<open>the NULL checks with which every serving function starts\<close>
  "flow_ready p \<longleftrightarrow>
     (case (request p, response p, connection_state p, router_state p) of
        (Some req, Some _, Some conn, Some _) \<Rightarrow> hs_socket_is_open (conn_socket conn) \<and> req_resource req \<noteq> None
      | _ \<Rightarrow> False)"

definition flow_closed :: "('sb, 'pv, 'cv, 'dt, 'more) HSServeFlowEnv_scheme \<Rightarrow> bool" where
  "flow_closed p \<longleftrightarrow> (case router_state p of None \<Rightarrow> False | Some rs \<Rightarrow> closed_connection rs)"

definition flow_done :: "('sb, 'pv, 'cv, 'dt, 'more) HSServeFlowEnv_scheme \<Rightarrow> bool" where
  "flow_done p \<longleftrightarrow> (case router_state p of None \<Rightarrow> False | Some rs \<Rightarrow> router_done rs)"

definition hs_router_serve_route ::
  "('sb, 'pv, 'cv, 'dt, 'sh) libs \<Rightarrow> 'rv HSRouter option \<Rightarrow> ('sb, 'pv, 'cv, 'dt) flow
    \<Rightarrow> ('sb, 'pv, 'cv, 'dt) route option \<Rightarrow> world \<Rightarrow> (bool \<times> ('sb, 'pv, 'cv, 'dt) flow \<times> world) run" where
  \<comment> \<open>\<open>_hs_router_serve\<close>\<close>
  "hs_router_serve_route L router p route w =
     (case router of
        None \<Rightarrow> ret (False, p, w)
      | Some rtr \<Rightarrow>
          if \<not> flow_ready p \<or> flow_closed p then ret (False, p, w)
          else if flow_done p then ret (True, p, w)
          else if \<not> hs_route_is_allowed_for_method route (request p) then ret (False, p, w)
          else if \<not> hs_route_is_supported_path L route (request p) then ret (False, p, w)
          else (case route of
                  None \<Rightarrow> ub NullDeref
                | Some rt \<Rightarrow>
                    (case serve rt of
                       None \<Rightarrow> ret (False, p, w)
                     | Some serve_fun \<Rightarrow>
                         bindR (serve_fun (route_path rt) p w)
                           (\<lambda>(serve_response, p1, w1).
                              case router_state p1 of
                                None \<Rightarrow> ub NullDeref
                              | Some rs \<Rightarrow>
                                  if serve_response = HS_SERVE_FLOW_RESPONSE_CONTINUE \<or> router_done rs
                                  then ret (router_done rs, p1, w1)
                                  else write_response L rtr p1 w1))))"

primrec find_route_loop ::
  "('sb, 'pv, 'cv, 'dt, 'sh) libs \<Rightarrow> 'rv HSRouter option \<Rightarrow> ('sb, 'pv, 'cv, 'dt) route option list
    \<Rightarrow> ('sb, 'pv, 'cv, 'dt) flow \<Rightarrow> world \<Rightarrow> (bool \<times> ('sb, 'pv, 'cv, 'dt) flow \<times> world) run" where
  "find_route_loop L router [] p w = ret (False, p, w)"
| "find_route_loop L router (route # routes) p w =
     bindR (hs_router_serve_route L router p route w)
       (\<lambda>(served, p1, w1). if served then ret (True, p1, w1) else find_route_loop L router routes p1 w1)"

definition hs_router_find_route_and_serve ::
  "('sb, 'pv, 'cv, 'dt, 'sh) libs \<Rightarrow> ('rv, ('sb, 'pv, 'cv, 'dt) route) vector_lib \<Rightarrow> 'rv HSRouter option
    \<Rightarrow> ('sb, 'pv, 'cv, 'dt) flow \<Rightarrow> world \<Rightarrow> (bool \<times> ('sb, 'pv, 'cv, 'dt) flow \<times> world) run" where
  \<comment> \<open>the loop reads the routes at the indices below the size; they do not change while it runs\<close>
  "hs_router_find_route_and_serve L V router p w =
     (case router of
        None \<Rightarrow> ret (False, p, w)
      | Some rtr \<Rightarrow>
          find_route_loop L router
            (map (vector_get V (router_routes rtr)) [0..<vector_size V (router_routes rtr)]) p w)"

section \<open>Routers as routes\<close>

definition hs_router_remove_path_prefix ::
  "cstr \<Rightarrow> ('sb, 'pv, 'cv) HSHttpRequest \<Rightarrow> (cstr \<times> ('sb, 'pv, 'cv) HSHttpRequest) run" where
  \<comment> \<open>the original resource to restore, the request with the pointer moved behind the prefix\<close>
  "hs_router_remove_path_prefix path req =
     (case path of
        None \<Rightarrow> ret (None, req)
      | Some pre \<Rightarrow>
          if length pre \<le> 1 then ret (req_resource req, req)
          else (case req_resource req of
                  None \<Rightarrow> ub NullDeref
                | Some resource \<Rightarrow>
                    if length resource = length pre
                    then ret (Some resource, req\<lparr>req_resource := Some ''/''\<rparr>)
                    else (let offset = (if pre ! (length pre - 1) = CHR ''/''
                                        then length pre - 1 else length pre)
                          in if offset \<le> length resource
                             then ret (Some resource, req\<lparr>req_resource := Some (drop offset resource)\<rparr>)
                             else ub OutOfBounds)))"

definition hs_router_as_route_serve ::
  "('sb, 'pv, 'cv, 'dt, 'sh) libs \<Rightarrow> ('rv, ('sb, 'pv, 'cv, 'dt) route) vector_lib \<Rightarrow> 'rv HSRouter option
    \<Rightarrow> ('sb, 'pv, 'cv, 'dt) flow serve_function" where
  "hs_router_as_route_serve L V router path p w =
     (if \<not> flow_ready p \<or> flow_closed p then ret (HS_SERVE_FLOW_RESPONSE_CONTINUE, p, w)
      else if flow_done p then ret (HS_SERVE_FLOW_RESPONSE_DONE, p, w)
      else (case (request p, router_state p) of
              (Some req, Some rs) \<Rightarrow>
                bindR (hs_router_remove_path_prefix path req)
                  (\<lambda>(original_path, req1).
                     bindR (hs_router_find_route_and_serve L V router
                              (p\<lparr>request := Some req1,
                                 router_state := Some (rs\<lparr>base_path := fsio_join_paths L (base_path rs) path\<rparr>)\<rparr>) w)
                       (\<lambda>(done, p1, w1).
                          case (request p1, router_state p1) of
                            (Some req2, Some rs1) \<Rightarrow>
                              ret (if done then HS_SERVE_FLOW_RESPONSE_DONE else HS_SERVE_FLOW_RESPONSE_CONTINUE,
                                   p1\<lparr>request := Some (req2\<lparr>req_resource := original_path\<rparr>),
                                      router_state := Some (rs1\<lparr>router_done := done, base_path := base_path rs\<rparr>)\<rparr>, w1)
                          | _ \<Rightarrow> ub NullDeref))
            | _ \<Rightarrow> ub NullDeref))"

definition hs_router_as_route ::
  "('sb, 'pv, 'cv, 'dt, 'sh) libs \<Rightarrow> ('rv, ('sb, 'pv, 'cv, 'dt) route) vector_lib \<Rightarrow> 'rv HSRouter option
    \<Rightarrow> ('sb, 'pv, 'cv, 'dt) route option" where
  "hs_router_as_route L V router =
     (case router of
        None \<Rightarrow> None
      | Some _ \<Rightarrow> map_option (\<lambda>r. r\<lparr>is_parent_path := True, serve := Some (hs_router_as_route_serve L V router),
                                          release_route := Some (hs_router_release V router)\<rparr>)
                    (hs_route_set_all_methods (Some hs_route_new) True))"

section \<open>Callbacks\<close>

definition put_env ::
  "('sb, 'pv, 'cv, 'dt) HSServeFlowEnv \<Rightarrow> ('sb, 'pv, 'cv, 'dt) flow \<Rightarrow> ('sb, 'pv, 'cv, 'dt) flow" where
  \<comment> \<open>the parameters with what a callback has changed in them\<close>
  "put_env e p = p\<lparr>request := request e, response := response e, route_state := route_state e,
                   router_state := router_state e, connection_state := connection_state e\<rparr>"

primrec run_callbacks_loop ::
  "('sb, 'pv, 'cv, 'dt) flow_callbacks \<Rightarrow> nat \<Rightarrow> ('sb, 'pv, 'cv, 'dt) HSServeFlowEnv \<Rightarrow> world
    \<Rightarrow> (('sb, 'pv, 'cv, 'dt) HSServeFlowEnv \<times> world) run" where
  "run_callbacks_loop cbs 0 e w = ret (e, w)"
| "run_callbacks_loop cbs (Suc index) e w =
     (if length (callback_slots cbs) \<le> index then ub OutOfBounds
      else bindR (case Option.bind (callback_slots cbs ! index) callback_run of
                    None \<Rightarrow> ret (e, w)
                  | Some run_fun \<Rightarrow> run_fun e w)
             (\<lambda>(e1, w1). run_callbacks_loop cbs index e1 w1))"

definition hs_router_run_callbacks ::
  "('sb, 'pv, 'cv, 'dt) flow \<Rightarrow> world \<Rightarrow> (('sb, 'pv, 'cv, 'dt) flow \<times> world) run" where
  "hs_router_run_callbacks p w =
     (case callbacks p of
        None \<Rightarrow> ret (p, w)
      | Some cbs \<Rightarrow> bindR (run_callbacks_loop cbs (callback_count cbs) (HSServeFlowEnv.truncate p) w)
                      (\<lambda>(e, w1). ret (put_env e p, w1)))"

section \<open>Serving\<close>

definition hs_router_serve ::
  "('sb, 'pv, 'cv, 'dt, 'sh) libs \<Rightarrow> ('rv, ('sb, 'pv, 'cv, 'dt) route) vector_lib \<Rightarrow> 'rv HSRouter option
    \<Rightarrow> ('sb, 'pv, 'cv, 'dt) flow \<Rightarrow> world \<Rightarrow> (bool \<times> ('sb, 'pv, 'cv, 'dt) flow \<times> world) run" where
  "hs_router_serve L V router p w =
     (if router = None \<or> \<not> flow_ready p then ret (False, p, w)
      else if flow_done p then ret (True, p, w)
      else (case Option.bind (request p) req_resource of
              None \<Rightarrow> ret (False, p, w)
            | Some resource \<Rightarrow>
                if length resource = 0 \<or> resource ! 0 \<noteq> CHR ''/'' then ret (False, p, w)
                else bindR (hs_router_find_route_and_serve L V router p w)
                       (\<lambda>(done, p1, w1). bindR (hs_router_run_callbacks p1 w1) (\<lambda>(p2, w2). ret (done, p2, w2)))))"

definition hs_router_serve_next ::
  "('sb, 'pv, 'cv, 'dt, 'sh) libs \<Rightarrow> ('rv, ('sb, 'pv, 'cv, 'dt) route) vector_lib \<Rightarrow> 'rv HSRouter option
    \<Rightarrow> HSServerConnectionState option \<Rightarrow> world \<Rightarrow> (bool \<times> HSServerConnectionState option \<times> world) run" where
  "hs_router_serve_next L V router conn w =
     (case conn of
        None \<Rightarrow> ret (False, None, w)
      | Some c \<Rightarrow>
          if router = None \<or> \<not> hs_socket_is_open (conn_socket c) then ret (False, conn, w)
          else bindR (hs_parser_parse_request L (conn_socket c) w)
                 (\<lambda>(req, w1).
                    if req = None then ret (False, conn, w1)
                    else bindR (hs_router_serve L V router
                           ((hs_types_serve_flow_params_new_pre_populated L req)\<lparr>connection_state := conn\<rparr>) w1)
                         (\<lambda>(done, p, w2).
                            case router_state p of
                              None \<Rightarrow> ub NullDeref
                            | Some rs \<Rightarrow>
                                bindR (hs_types_serve_flow_params_release (Some p) w2)
                                  (\<lambda>w3. ret (done \<and> \<not> closed_connection rs, connection_state p, w3)))))"

type_synonym stop_function = "HSSocket option \<Rightarrow> size_t \<Rightarrow> world \<Rightarrow> bool"

partial_function (option) serve_forever_loop ::
  "('sb, 'pv, 'cv, 'dt, 'sh) libs \<Rightarrow> ('rv, ('sb, 'pv, 'cv, 'dt) route) vector_lib \<Rightarrow> 'rv HSRouter option
    \<Rightarrow> HSSocket option \<Rightarrow> stop_function option \<Rightarrow> HSServerConnectionState option \<Rightarrow> world \<Rightarrow> (fault + world) option" where
  "serve_forever_loop L V router socket should_stop conn w =
     (case conn of
        None \<Rightarrow> ub NullDeref
      | Some c \<Rightarrow>
          bindR (hs_router_serve_next L V router (Some (c\<lparr>request_counter := request_counter c + 1\<rparr>)) w)
            (\<lambda>(can_continue, conn1, w1).
               if can_continue
               then (case conn1 of
                       None \<Rightarrow> ub NullDeref
                     | Some c1 \<Rightarrow>
                         if (case should_stop of None \<Rightarrow> False | Some stop \<Rightarrow> stop socket (request_counter c1) w1)
                         then ret w1
                         else serve_forever_loop L V router socket should_stop conn1 w1)
               else ret w1))"

declare serve_forever_loop.simps [code]

definition hs_router_serve_forever ::
  "('sb, 'pv, 'cv, 'dt, 'sh) libs \<Rightarrow> ('rv, ('sb, 'pv, 'cv, 'dt) route) vector_lib \<Rightarrow> 'rv HSRouter option
    \<Rightarrow> HSSocket option \<Rightarrow> stop_function option \<Rightarrow> world \<Rightarrow> (bool \<times> world) run" where
  "hs_router_serve_forever L V router socket should_stop w =
     (if router = None \<or> \<not> hs_socket_is_open socket then ret (False, w)
      else (let c = (hs_types_server_connection_state_new w)\<lparr>conn_socket := socket\<rparr>
            in if (case should_stop of None \<Rightarrow> False | Some stop \<Rightarrow> stop socket (request_counter c) w)
               then ret (True, w)
               else bindR (serve_forever_loop L V router socket should_stop (Some c) w) (\<lambda>w1. ret (True, w1))))"

section \<open>A response as text\<close>

definition header_pairs :: "('sb, 'pv, 'cv, 'dt, 'sh) libs \<Rightarrow> 'pv option \<Rightarrow> (string \<times> cstr) list" where
  "header_pairs L headers = (case headers of None \<Rightarrow> [] | Some v \<Rightarrow> array_pairs L v)"

definition cookies_of :: "('sb, 'pv, 'cv, 'dt, 'sh) libs \<Rightarrow> 'cv option \<Rightarrow> HSCookie list" where
  "cookies_of L cookies = (case cookies of None \<Rightarrow> [] | Some v \<Rightarrow> cookie_list L v)"

definition header_text :: "string \<times> cstr \<Rightarrow> string" where
  "header_text kv = (case snd kv of None \<Rightarrow> [] | Some x \<Rightarrow> fst kv @ '': '' @ x @ [CR, LF])"

definition same_site_text :: "HSCookieSameSite \<Rightarrow> string" where
  "same_site_text s = (case s of HS_COOKIE_SAME_SITE_NONE \<Rightarrow> ''None'' | HS_COOKIE_SAME_SITE_LAX \<Rightarrow> ''Lax''
     | HS_COOKIE_SAME_SITE_STRICT \<Rightarrow> ''Strict'')"

definition cookie_attributes_text :: "HSCookie \<Rightarrow> string" where
  "cookie_attributes_text c =
     (case cookie_expires c of None \<Rightarrow> [] | Some e \<Rightarrow> ''; Expires='' @ e)
     @ (if 0 \<le> cookie_max_age c then ''; Max-Age='' @ show_int (cookie_max_age c) else [])
     @ (if cookie_secure c then ''; Secure'' else []) @ (if cookie_http_only c then ''; HttpOnly'' else [])
     @ (case cookie_domain c of None \<Rightarrow> [] | Some d \<Rightarrow> ''; Domain='' @ d)
     @ (case cookie_path c of None \<Rightarrow> [] | Some p \<Rightarrow> ''; Path='' @ p)
     @ ''; SameSite='' @ same_site_text (cookie_same_site c)"

definition set_cookie_text :: "HSCookie \<Rightarrow> string" where
  "set_cookie_text c =
     (case (cookie_name c, cookie_value c) of
        (Some n, Some v) \<Rightarrow> ''Set-Cookie: '' @ n @ ''='' @ v @ cookie_attributes_text c @ [CR, LF]
      | _ \<Rightarrow> [])"

definition common_header_text ::
  "('sb, 'pv, 'cv, 'dt, 'sh) libs \<Rightarrow> HSHttpResponseCode \<Rightarrow> 'pv option \<Rightarrow> 'cv option \<Rightarrow> bool \<Rightarrow> string" where
  "common_header_text L code headers cookies close =
     ''HTTP/1.1 '' @ show_nat (response_code_value code) @ '' '' @ show_nat (response_code_value code) @ [CR, LF]
     @ concat (map header_text (header_pairs L headers)) @ concat (map set_cookie_text (cookies_of L cookies))
     @ (if close then ''Connection: close'' else ''Connection: keep-alive'') @ [CR, LF]"

lemma fold_appends:
  assumes "\<And>i b. i < length xs \<Longrightarrow> stringbuffer_to_string L (f i b) = stringbuffer_to_string L b @ g (xs ! i)"
  shows "stringbuffer_to_string L (fold f [0..<length xs] b) = stringbuffer_to_string L b @ concat (map g xs)"
proof -
  have "n \<le> length xs \<Longrightarrow> stringbuffer_to_string L (fold f [0..<n] b) = stringbuffer_to_string L b @ concat (map g (take n xs))" for n
    by (induction n) (simp_all add: assms take_Suc_conv_app_nth)
  from this [of "length xs"] show ?thesis by simp
qed

lemma write_header_lines_text:
  assumes "libs_ok L"
  shows "stringbuffer_to_string L (fold (write_header_lines L headers) [0..<hs_types_array_string_pair_count L headers] b)
    = stringbuffer_to_string L b @ concat (map header_text (header_pairs L headers))"
proof (cases headers)
  case None
  then show ?thesis by (simp add: hs_types_array_string_pair_count_def header_pairs_def)
next
  case (Some v)
  have "stringbuffer_to_string L (write_header_lines L headers i c) = stringbuffer_to_string L c @ header_text (array_pairs L v ! i)"
    if "i < length (array_pairs L v)" for i c
    using that Some array_get [OF assms, of v i] stringbuffer_laws [OF libs_ok_parts(2) [OF assms]]
    by (simp add: write_header_lines_def header_text_def split: option.splits)
  from fold_appends [where g = header_text and xs = "array_pairs L v", OF this] Some show ?thesis
    by (simp add: header_pairs_def array_count [OF assms])
qed

lemma write_cookie_attributes_text:
  assumes "stringbuffer_ok L"
  shows "stringbuffer_to_string L (write_cookie_attributes L c b) = stringbuffer_to_string L b @ cookie_attributes_text c"
proof -
  note sb = stringbuffer_laws [OF assms]
  define b1 where "b1 = (case cookie_expires c of None \<Rightarrow> b
      | Some e \<Rightarrow> stringbuffer_append_string L (stringbuffer_append_string L b ''; Expires='') e)"
  define b2 where "b2 = (if 0 \<le> cookie_max_age c
      then stringbuffer_append_int L (stringbuffer_append_string L b1 ''; Max-Age='') (cookie_max_age c) else b1)"
  define b3 where "b3 = (if cookie_secure c then stringbuffer_append_string L b2 ''; Secure'' else b2)"
  define b4 where "b4 = (if cookie_http_only c then stringbuffer_append_string L b3 ''; HttpOnly'' else b3)"
  define b5 where "b5 = (case cookie_domain c of None \<Rightarrow> b4
      | Some d \<Rightarrow> stringbuffer_append_string L (stringbuffer_append_string L b4 ''; Domain='') d)"
  define b6 where "b6 = (case cookie_path c of None \<Rightarrow> b5
      | Some p \<Rightarrow> stringbuffer_append_string L (stringbuffer_append_string L b5 ''; Path='') p)"
  have "write_cookie_attributes L c b = (let b7 = stringbuffer_append_string L b6 ''; SameSite=''
      in case cookie_same_site c of
           HS_COOKIE_SAME_SITE_NONE \<Rightarrow> stringbuffer_append_string L b7 ''None''
         | HS_COOKIE_SAME_SITE_LAX \<Rightarrow> stringbuffer_append_string L b7 ''Lax''
         | HS_COOKIE_SAME_SITE_STRICT \<Rightarrow> stringbuffer_append_string L b7 ''Strict'')"
    unfolding write_cookie_attributes_def Let_def b6_def b5_def b4_def b3_def b2_def b1_def by (rule refl)
  then have "stringbuffer_to_string L (write_cookie_attributes L c b)
      = stringbuffer_to_string L b6 @ ''; SameSite='' @ same_site_text (cookie_same_site c)"
    by (cases "cookie_same_site c") (simp_all add: same_site_text_def Let_def sb)
  moreover have "stringbuffer_to_string L b6
      = stringbuffer_to_string L b5 @ (case cookie_path c of None \<Rightarrow> [] | Some p \<Rightarrow> ''; Path='' @ p)"
    by (simp add: b6_def sb split: option.split)
  moreover have "stringbuffer_to_string L b5
      = stringbuffer_to_string L b4 @ (case cookie_domain c of None \<Rightarrow> [] | Some d \<Rightarrow> ''; Domain='' @ d)"
    by (simp add: b5_def sb split: option.split)
  moreover have "stringbuffer_to_string L b4 = stringbuffer_to_string L b2
      @ (if cookie_secure c then ''; Secure'' else []) @ (if cookie_http_only c then ''; HttpOnly'' else [])"
    by (simp add: b4_def b3_def sb)
  moreover have "stringbuffer_to_string L b2 = stringbuffer_to_string L b1
      @ (if 0 \<le> cookie_max_age c then ''; Max-Age='' @ show_int (cookie_max_age c) else [])"
    by (simp add: b2_def sb)
  moreover have "stringbuffer_to_string L b1
      = stringbuffer_to_string L b @ (case cookie_expires c of None \<Rightarrow> [] | Some e \<Rightarrow> ''; Expires='' @ e)"
    by (simp add: b1_def sb split: option.split)
  ultimately show ?thesis unfolding cookie_attributes_text_def by (simp only: append_assoc)
qed

lemma write_set_cookie_text:
  assumes "libs_ok L"
  shows "stringbuffer_to_string L (fold (write_set_cookie L cookies) [0..<hs_types_cookies_count L cookies] b)
    = stringbuffer_to_string L b @ concat (map set_cookie_text (cookies_of L cookies))"
proof (cases cookies)
  case None
  then show ?thesis by (simp add: hs_types_cookies_count_def cookies_of_def)
next
  case (Some v)
  note sb = libs_ok_parts(2) [OF assms]
  have "stringbuffer_to_string L (write_set_cookie L cookies i c) = stringbuffer_to_string L c @ set_cookie_text (cookie_list L v ! i)"
    if "i < length (cookie_list L v)" for i c
    using that Some
    by (simp add: write_set_cookie_def set_cookie_text_def cookies_get [OF assms] write_cookie_attributes_text [OF sb]
        stringbuffer_laws [OF sb] split: option.splits)
  from fold_appends [where g = set_cookie_text and xs = "cookie_list L v", OF this] Some show ?thesis
    by (simp add: cookies_of_def cookies_count [OF assms])
qed

lemma common_response_header_text:
  assumes "libs_ok L"
  shows "stringbuffer_to_string L (hs_router_write_common_response_header L code headers cookies close)
    = common_header_text L code headers cookies close"
  by (simp add: hs_router_write_common_response_header_def Let_def write_header_lines_text [OF assms]
      write_set_cookie_text [OF assms] stringbuffer_laws [OF libs_ok_parts(2) [OF assms]] common_header_text_def)

section \<open>A response on the wire\<close>

definition typed_response ::
  "('sb, 'pv, 'cv, 'dt, 'sh) libs \<Rightarrow> ('pv, 'cv) HSHttpResponse \<Rightarrow> ('pv, 'cv) HSHttpResponse" where
  \<comment> \<open>the response with the type of a file whose type the route left open\<close>
  "typed_response L resp =
     (if Option.bind (map_of (header_pairs L (resp_headers resp)) ''Content-Type'') (\<lambda>x. x) = None
         \<and> resp_mime_type resp = HS_MIME_TYPE_NONE \<and> resp_content_file resp \<noteq> None
      then resp\<lparr>resp_mime_type := hs_constants_file_extension_to_mime_type L (resp_content_file resp)\<rparr>
      else resp)"

definition content_type_text :: "('sb, 'pv, 'cv, 'dt, 'sh) libs \<Rightarrow> ('pv, 'cv) HSHttpResponse \<Rightarrow> string" where
  "content_type_text L resp =
     (if Option.bind (map_of (header_pairs L (resp_headers resp)) ''Content-Type'') (\<lambda>x. x) \<noteq> None then []
      else (case hs_constants_mime_type_to_string (resp_mime_type (typed_response L resp)) of
              None \<Rightarrow> [] | Some t \<Rightarrow> ''Content-Type: '' @ t @ [CR, LF]))"

definition content_length_text ::
  "('sb, 'pv, 'cv, 'dt, 'sh) libs \<Rightarrow> ('pv, 'cv) HSHttpResponse \<Rightarrow> world \<Rightarrow> string" where
  "content_length_text L resp w =
     ''Content-Length: ''
     @ (case resp_content_string resp of
          Some s \<Rightarrow> show_nat (length s)
        | None \<Rightarrow> (case resp_content_file resp of
                    None \<Rightarrow> ''0''
                  | Some f \<Rightarrow> if fsio_file_size L f w = 0 then ''0'' else show_int (fsio_file_size L f w)))
     @ [CR, LF, CR, LF]"

definition content_text ::
  "('sb, 'pv, 'cv, 'dt, 'sh) libs \<Rightarrow> ('pv, 'cv) HSHttpResponse \<Rightarrow> world \<Rightarrow> string" where
  "content_text L resp w =
     (case resp_content_string resp of
        Some s \<Rightarrow> s
      | None \<Rightarrow> (case resp_content_file resp of
                  None \<Rightarrow> []
                | Some f \<Rightarrow> if fsio_file_size L f w = 0 then []
                           else (case files w f of None \<Rightarrow> [] | Some s \<Rightarrow> s)))"

definition response_text ::
  "('sb, 'pv, 'cv, 'dt, 'sh) libs \<Rightarrow> ('pv, 'cv) HSHttpResponse \<Rightarrow> bool \<Rightarrow> world \<Rightarrow> string" where
  "response_text L resp close w =
     common_header_text L (resp_code resp) (resp_headers resp) (resp_cookies resp) close
     @ content_type_text L resp @ content_length_text L resp w @ content_text L resp w"

lemma array_get_by_key_option:
  assumes "libs_ok L"
  shows "hs_types_array_string_pair_get_by_key L headers (Some k)
    = Option.bind (map_of (header_pairs L headers) k) (\<lambda>x. x)"
proof (cases headers)
  case None
  then show ?thesis by (simp add: header_pairs_def hs_types_array_string_pair_get_by_key_def)
next
  case (Some v)
  then show ?thesis by (simp add: header_pairs_def array_get_by_key [OF assms])
qed

lemma write_content_type_text:
  assumes "libs_ok L"
  obtains b' where "write_content_type L resp b = (typed_response L resp, b')"
    "stringbuffer_to_string L b' = stringbuffer_to_string L b @ content_type_text L resp"
proof (cases "Option.bind (map_of (header_pairs L (resp_headers resp)) ''Content-Type'') (\<lambda>x. x)")
  case None
  note sb = stringbuffer_laws [OF libs_ok_parts(2) [OF assms]]
  show thesis
    by (cases "hs_constants_mime_type_to_string (resp_mime_type (typed_response L resp))";
        rule that [of "snd (write_content_type L resp b)"])
      (simp_all add: None write_content_type_def typed_response_def content_type_text_def Let_def
        array_get_by_key_option [OF assms] sb split: if_splits)
next
  case (Some x)
  show thesis
    by (rule that [of b]) (simp_all add: Some write_content_type_def typed_response_def content_type_text_def
        array_get_by_key_option [OF assms])
qed

lemma typed_response_simps [simp]:
  "resp_code (typed_response L resp) = resp_code resp" "resp_headers (typed_response L resp) = resp_headers resp"
  "resp_cookies (typed_response L resp) = resp_cookies resp"
  "resp_content_string (typed_response L resp) = resp_content_string resp"
  "resp_content_file (typed_response L resp) = resp_content_file resp"
  by (simp_all add: typed_response_def)

definition has_content ::
  "('sb, 'pv, 'cv, 'dt, 'sh) libs \<Rightarrow> ('pv, 'cv) HSHttpResponse \<Rightarrow> world \<Rightarrow> bool" where
  "has_content L resp w =
     (case resp_content_string resp of
        Some s \<Rightarrow> s \<noteq> []
      | None \<Rightarrow> (case resp_content_file resp of None \<Rightarrow> False | Some f \<Rightarrow> fsio_file_size L f w \<noteq> 0))"

lemma write_content_length_text:
  assumes "stringbuffer_ok L"
  shows "fst (write_content_length L resp b w) = has_content L resp w"
    and "stringbuffer_to_string L (snd (write_content_length L resp b w)) = stringbuffer_to_string L b @ content_length_text L resp w"
  by (cases "resp_content_string resp"; cases "resp_content_file resp";
      simp add: write_content_length_def has_content_def content_length_text_def Let_def stringbuffer_laws [OF assms])+

definition closes :: "bool \<Rightarrow> ('sb, 'pv, 'cv) HSHttpRequest \<Rightarrow> bool" where
  \<comment> \<open>whether the connection is closed after the response: asked for in the header, or payload left unread\<close>
  "closes close req \<longleftrightarrow> close \<or> req_content_length req \<noteq> 0 \<and> \<not> hs_types_http_request_payload_is_loaded (Some req)"

definition wants_close :: "'rv HSRouter \<Rightarrow> ('sb, 'pv, 'cv) HSHttpRequest \<Rightarrow> bool" where
  "wants_close router req \<longleftrightarrow> \<not> support_keep_alive router \<or> req_connection req \<noteq> HS_CONNECTION_TYPE_KEEP_ALIVE"

definition close_if :: "bool \<Rightarrow> int \<Rightarrow> world \<Rightarrow> world" where
  "close_if close fd w = (if close then snd (posix_close fd w) else w)"

definition after_response ::
  "bool \<Rightarrow> HSServerConnectionState \<Rightarrow> HSRouterFlowState \<Rightarrow> ('sb, 'pv, 'cv, 'dt) flow \<Rightarrow> ('sb, 'pv, 'cv, 'dt) flow" where
  "after_response close conn rs p =
     (if close then p\<lparr>connection_state := Some (conn\<lparr>conn_socket := None\<rparr>),
                      router_state := Some (rs\<lparr>closed_connection := True\<rparr>)\<rparr> else p)"

lemma write_file_eager:
  assumes "plain_socket socket fd" and "eager fd w"
  shows "\<exists>ok. hs_io_write_file_to_socket L socket (Some f) w
    = ret (ok, after_write fd (case files w f of None \<Rightarrow> [] | Some s \<Rightarrow> s) w)"
  using write_file_loop_spec [OF assms, of L]
  by (cases "files w f") (simp_all add: hs_io_write_file_to_socket_def plain_socket_simps [OF assms(1)])

lemma write_content_eager:
  assumes "plain_socket socket fd" and "eager fd w1" and "files w1 = files w"
  shows "\<exists>ok. (if has_content L resp w
               then (case resp_content_string resp of
                       Some s \<Rightarrow> hs_io_write_string_to_socket L socket (Some s) (length s) w1
                     | None \<Rightarrow> hs_io_write_file_to_socket L socket (resp_content_file resp) w1)
               else ret (True, w1)) = ret (ok, after_write fd (content_text L resp w) w1)"
proof (cases "resp_content_string resp")
  case (Some s)
  then show ?thesis
    by (cases "s = []") (simp_all add: has_content_def content_text_def write_string_eager [OF assms(1,2)])
next
  case None
  then show ?thesis
    using write_file_eager [OF assms(1,2), of L] assms(3)
    by (cases "resp_content_file resp") (simp_all add: has_content_def content_text_def)
qed

lemma write_response_spec:
  assumes "libs_ok L" and "request p = Some req" and "response p = Some resp" and "connection_state p = Some conn"
    and "router_state p = Some rs" and "plain_socket (conn_socket conn) fd" and "eager fd w"
  shows "write_response L rtr p w
    = ret (True, after_response (closes (wants_close rtr req) req) conn rs (p\<lparr>response := Some (typed_response L resp)\<rparr>),
           close_if (closes (wants_close rtr req) req) fd
             (after_write fd (response_text L resp (wants_close rtr req) w) w))"
proof -
  note sb = libs_ok_parts(2) [OF assms(1)]
  have close: "(\<not> support_keep_alive rtr \<or> req_connection req = HS_CONNECTION_TYPE_CLOSE
      \<or> req_connection req = HS_CONNECTION_TYPE_UNKNOWN) = wants_close rtr req"
    by (cases "req_connection req") (auto simp: wants_close_def)
  let ?c = "wants_close rtr req"
  let ?b = "hs_router_write_common_response_header L (resp_code resp) (resp_headers resp) (resp_cookies resp) ?c"
  obtain b1 where b1: "write_content_type L resp ?b = (typed_response L resp, b1)"
    "stringbuffer_to_string L b1 = stringbuffer_to_string L ?b @ content_type_text L resp"
    by (rule write_content_type_text [OF assms(1)])
  obtain b2 where b2: "write_content_length L (typed_response L resp) b1 w = (has_content L (typed_response L resp) w, b2)"
    "stringbuffer_to_string L b2 = stringbuffer_to_string L b1 @ content_length_text L (typed_response L resp) w"
    using write_content_length_text [OF sb, of "typed_response L resp" b1 w]
    by (cases "write_content_length L (typed_response L resp) b1 w") simp
  have same: "has_content L (typed_response L resp) w = has_content L resp w"
    "content_length_text L (typed_response L resp) w = content_length_text L resp w"
    by (simp_all add: has_content_def content_length_text_def cong: option.case_cong)
  let ?h = "stringbuffer_to_string L b2"
  have h: "?h @ content_text L resp w = response_text L resp ?c w"
    by (simp add: b1 b2 same response_text_def common_response_header_text [OF assms(1)])
  let ?w1 = "after_write fd ?h w"
  have head: "hs_io_write_string_to_socket L (conn_socket conn) (Some ?h) (length ?h) w = ret (True, ?w1)"
    by (rule write_string_eager [OF assms(6,7)])
  obtain ok where body: "(if has_content L resp w
      then (case resp_content_string resp of
              Some s \<Rightarrow> hs_io_write_string_to_socket L (conn_socket conn) (Some s) (length s) ?w1
            | None \<Rightarrow> hs_io_write_file_to_socket L (conn_socket conn) (resp_content_file resp) ?w1)
      else ret (True, ?w1)) = ret (ok, after_write fd (content_text L resp w) ?w1)"
    using write_content_eager [OF assms(6), of ?w1 w L resp] assms(7) by auto
  show ?thesis
    unfolding write_response_def assms(2-5) prod.case option.case Let_def close b1(1) b2(1) same(1)
      typed_response_simps stringbuffer_laws(6) [OF sb] head bindR_simps body
    by (simp add: h plain_socket_simps [OF assms(6)] after_response_def close_if_def closes_def)
qed

lemma write_response_true: "write_response L rtr p w = ret (served, p1, w1) \<Longrightarrow> served"
  by (auto simp: write_response_def Let_def bindR_eq_ret split: option.splits prod.splits if_splits)

section \<open>The contract of a serve function\<close>

text \<open>
  A serve function is called on a flow that has no answer yet. It either leaves the connection
  alone, whatever it does to the request and the response, or, as a router used as a route does,
  it has written one complete response, and then says so.
\<close>

definition route_entry :: "int \<Rightarrow> ('sb, 'pv, 'cv, 'dt) flow \<Rightarrow> world \<Rightarrow> bool" where
  "route_entry fd p w \<longleftrightarrow> \<not> flow_closed p \<and> \<not> flow_done p \<and> eager fd w
     \<and> (\<exists>conn. connection_state p = Some conn \<and> plain_socket (conn_socket conn) fd)"

definition quiet ::
  "int \<Rightarrow> ('sb, 'pv, 'cv, 'dt) flow \<Rightarrow> world \<Rightarrow> ('sb, 'pv, 'cv, 'dt) flow \<Rightarrow> world \<Rightarrow> bool" where
  "quiet fd p w p1 w1 \<longleftrightarrow> router_state p1 = router_state p \<and> connection_state p1 = connection_state p
     \<and> sent_bytes fd w1 = sent_bytes fd w \<and> eager fd w1"

definition answered ::
  "('sb, 'pv, 'cv, 'dt, 'sh) libs \<Rightarrow> int \<Rightarrow> world \<Rightarrow> world \<Rightarrow> bool" where
  \<comment> \<open>one response has been written, and the connection possibly closed after it\<close>
  "answered L fd w w1 \<longleftrightarrow>
     (\<exists>resp close closing w0. sent_bytes fd w0 = sent_bytes fd w \<and> eager fd w0
        \<and> w1 = close_if closing fd (after_write fd (response_text L resp close w0) w0))"

definition handler_outcome ::
  "('sb, 'pv, 'cv, 'dt, 'sh) libs \<Rightarrow> int \<Rightarrow> ('sb, 'pv, 'cv, 'dt) flow \<Rightarrow> world \<Rightarrow> HSServeFlowResponse
    \<Rightarrow> ('sb, 'pv, 'cv, 'dt) flow \<Rightarrow> world \<Rightarrow> bool" where
  "handler_outcome L fd p w r p1 w1 \<longleftrightarrow>
     quiet fd p w p1 w1 \<or> (r = HS_SERVE_FLOW_RESPONSE_DONE \<and> flow_done p1 \<and> answered L fd w w1)"

lemma quiet_refl: "route_entry fd p w \<Longrightarrow> quiet fd p w p w"
  by (simp add: quiet_def route_entry_def)

lemma quiet_entry: "route_entry fd p w \<Longrightarrow> quiet fd p w p1 w1 \<Longrightarrow> route_entry fd p1 w1"
  by (simp add: quiet_def route_entry_def flow_closed_def flow_done_def)

lemma quiet_trans: "quiet fd p w p1 w1 \<Longrightarrow> quiet fd p1 w1 p2 w2 \<Longrightarrow> quiet fd p w p2 w2"
  by (simp add: quiet_def)

lemma quiet_answered: "quiet fd p w p1 w1 \<Longrightarrow> answered L fd w1 w2 \<Longrightarrow> answered L fd w w2"
  by (auto simp: quiet_def answered_def)

locale route_handler =
  fixes L :: "('sb, 'pv, 'cv, 'dt, 'sh) libs"
    and handler :: "('sb, 'pv, 'cv, 'dt) flow serve_function"
  assumes outcome: "route_entry fd p w \<Longrightarrow> handler path p w = ret (r, p1, w1) \<Longrightarrow> handler_outcome L fd p w r p1 w1"
begin

lemma write_response_answers:
  assumes "libs_ok L" and "route_entry fd p w" and "write_response L rtr p w = ret (served, p1, w1)"
  shows "served \<and> answered L fd w w1"
proof -
  from assms(2) obtain conn where conn: "connection_state p = Some conn" "plain_socket (conn_socket conn) fd" "eager fd w"
    by (auto simp: route_entry_def)
  from assms(3) obtain req resp rs where parts: "request p = Some req" "response p = Some resp" "router_state p = Some rs"
    by (auto simp: write_response_def split: option.splits)
  show ?thesis
    using assms(3) conn(3)
    by (auto simp: write_response_spec [OF assms(1) parts(1,2) conn(1) parts(3) conn(2,3)] answered_def)
qed

lemma serve_route_outcome:
  assumes "libs_ok L" and "route_entry fd p w" and "serve rt = Some handler"
    and "hs_router_serve_route L (Some rtr) p (Some rt) w = ret (served, p1, w1)"
  shows "if served then answered L fd w w1 else quiet fd p w p1 w1"
proof (cases "flow_ready p \<and> hs_route_is_allowed_for_method (Some rt) (request p)
    \<and> hs_route_is_supported_path L (Some rt) (request p)")
  case False
  then show ?thesis
    using assms(2,4) quiet_refl [OF assms(2)]
    by (auto simp: hs_router_serve_route_def route_entry_def split: if_splits)
next
  case True
  with assms(2,3,4) obtain r p2 w2 rs where run: "handler (route_path rt) p w = ret (r, p2, w2)" "router_state p2 = Some rs"
    and result: "(if r = HS_SERVE_FLOW_RESPONSE_CONTINUE \<or> router_done rs then ret (router_done rs, p2, w2)
            else write_response L rtr p2 w2) = ret (served, p1, w1)"
    by (auto simp: hs_router_serve_route_def route_entry_def elim!: bindR_retE split: option.splits)
  have dn: "flow_done p2 = router_done rs" using run(2) by (simp add: flow_done_def)
  from outcome [OF assms(2) run(1)] show ?thesis
    unfolding handler_outcome_def
  proof
    assume q: "quiet fd p w p2 w2"
    then have "\<not> router_done rs" using assms(2) dn by (simp add: quiet_def route_entry_def flow_done_def)
    with result q write_response_answers [OF assms(1) quiet_entry [OF assms(2) q], of rtr served p1 w1] show ?thesis
      by (auto intro: quiet_answered [OF q] split: if_splits)
  next
    assume "r = HS_SERVE_FLOW_RESPONSE_DONE \<and> flow_done p2 \<and> answered L fd w w2"
    with result dn show ?thesis by auto
  qed
qed

end

definition handled_by :: "('sb, 'pv, 'cv, 'dt, 'sh) libs \<Rightarrow> ('sb, 'pv, 'cv, 'dt) route \<Rightarrow> bool" where
  \<comment> \<open>the route has no serve function, or one that meets the contract\<close>
  "handled_by L rt \<longleftrightarrow> (\<forall>h. serve rt = Some h \<longrightarrow> route_handler L h)"

lemma serve_route_outcome_any:
  assumes "libs_ok L" and "route_entry fd p w" and "handled_by L rt"
    and "hs_router_serve_route L (Some rtr) p (Some rt) w = ret (served, p1, w1)"
  shows "if served then answered L fd w w1 else quiet fd p w p1 w1"
proof (cases "serve rt")
  case None
  then show ?thesis
    using assms(2,4) quiet_refl [OF assms(2)]
    by (auto simp: hs_router_serve_route_def route_entry_def split: if_splits)
next
  case (Some h)
  with assms(3) have "route_handler L h" by (simp add: handled_by_def)
  from route_handler.serve_route_outcome [OF this assms(1,2) Some assms(4)] show ?thesis .
qed

lemma find_route_loop_outcome:
  assumes "libs_ok L" and "list_all (handled_by L) rts"
  shows "route_entry fd p w \<Longrightarrow> find_route_loop L (Some rtr) (map Some rts) p w = ret (served, p1, w1) \<Longrightarrow>
    if served then answered L fd w w1 else quiet fd p w p1 w1"
  using assms(2)
proof (induction rts arbitrary: p w)
  case Nil
  then show ?case by (auto simp: quiet_refl)
next
  case (Cons rt rts)
  from Cons.prems(2) obtain s p2 w2 where
    1: "hs_router_serve_route L (Some rtr) p (Some rt) w = ret (s, p2, w2)"
      "(if s then ret (True, p2, w2) else find_route_loop L (Some rtr) (map Some rts) p2 w2) = ret (served, p1, w1)"
    by (auto elim!: bindR_retE)
  have o: "if s then answered L fd w w2 else quiet fd p w p2 w2"
    using serve_route_outcome_any [OF assms(1) Cons.prems(1) _ 1(1)] Cons.prems(3) by simp
  show ?case
  proof (cases s)
    case True
    with o 1(2) show ?thesis by auto
  next
    case False
    with o have q: "quiet fd p w p2 w2" by simp
    have "if served then answered L fd w2 w1 else quiet fd p2 w2 p1 w1"
      using Cons.IH [OF quiet_entry [OF Cons.prems(1) q]] 1(2) False Cons.prems(3) by simp
    then show ?thesis by (auto intro: quiet_answered [OF q] quiet_trans [OF q])
  qed
qed

lemma routes_of_vector:
  assumes "vector_ok V"
  shows "map (vector_get V v) [0..<vector_size V v] = map Some (vec_list V v)"
  by (rule nth_equalityI) (simp_all add: vector_laws [OF assms])

lemma find_route_outcome:
  assumes "libs_ok L" and "vector_ok V" and "list_all (handled_by L) (vec_list V (router_routes rtr))"
    and "route_entry fd p w" and "hs_router_find_route_and_serve L V (Some rtr) p w = ret (served, p1, w1)"
  shows "if served then answered L fd w w1 else quiet fd p w p1 w1"
  using find_route_loop_outcome [OF assms(1,3,4), of rtr served p1 w1] assms(5)
  by (simp add: hs_router_find_route_and_serve_def routes_of_vector [OF assms(2)])

text \<open>A router of routes that meet the contract meets it as a route, so routers can be nested.\<close>

lemma router_is_handler:
  assumes "libs_ok L" and "vector_ok V" and "list_all (handled_by L) (vec_list V (router_routes rtr))"
  shows "route_handler L (hs_router_as_route_serve L V (Some rtr))"
proof
  fix fd p w path r p1 w1
  assume entry: "route_entry fd p w" and run: "hs_router_as_route_serve L V (Some rtr) path p w = ret (r, p1, w1)"
  show "handler_outcome L fd p w r p1 w1"
  proof (cases "flow_ready p")
    case False
    with run quiet_refl [OF entry] show ?thesis by (auto simp: hs_router_as_route_serve_def handler_outcome_def)
  next
    case True
    then obtain req rs where rs: "request p = Some req" "router_state p = Some rs"
      by (auto simp: flow_ready_def split: option.splits)
    let ?p = "\<lambda>req1. p\<lparr>request := Some req1, router_state := Some (rs\<lparr>base_path := fsio_join_paths L (base_path rs) path\<rparr>)\<rparr>"
    from run True entry rs obtain original req1 served p2 req2 rs2 where
      find: "hs_router_find_route_and_serve L V (Some rtr) (?p req1) w = ret (served, p2, w1)"
      and p2: "request p2 = Some req2" "router_state p2 = Some rs2"
      and r: "r = (if served then HS_SERVE_FLOW_RESPONSE_DONE else HS_SERVE_FLOW_RESPONSE_CONTINUE)"
      and p1: "p1 = p2\<lparr>request := Some (req2\<lparr>req_resource := original\<rparr>),
                       router_state := Some (rs2\<lparr>router_done := served, base_path := base_path rs\<rparr>)\<rparr>"
      by (auto simp: hs_router_as_route_serve_def route_entry_def elim!: bindR_retE split: option.splits)
    have entry1: "route_entry fd (?p req1) w"
      using entry rs by (simp add: route_entry_def flow_closed_def flow_done_def)
    have rs_done: "\<not> router_done rs" using entry rs by (simp add: route_entry_def flow_done_def)
    from find_route_outcome [OF assms entry1 find] show ?thesis
    proof (cases served)
      case True
      with find_route_outcome [OF assms entry1 find] r p1 show ?thesis
        by (simp add: handler_outcome_def flow_done_def)
    next
      case False
      with find_route_outcome [OF assms entry1 find] have q: "quiet fd (?p req1) w p2 w1" by simp
      then have "rs2 = rs\<lparr>base_path := fsio_join_paths L (base_path rs) path\<rparr>" using p2 by (simp add: quiet_def)
      then have "router_state p1 = router_state p" using False p1 rs rs_done by simp
      with q p1 have "quiet fd p w p1 w1" by (simp add: quiet_def)
      then show ?thesis by (simp add: handler_outcome_def)
    qed
  qed
qed

section \<open>The first route that serves\<close>

definition takes ::
  "('sb, 'pv, 'cv, 'dt, 'sh) libs \<Rightarrow> ('sb, 'pv, 'cv, 'dt) flow \<Rightarrow> ('sb, 'pv, 'cv, 'dt) route \<Rightarrow> bool" where
  \<comment> \<open>method, path and serve function let the route run for the request\<close>
  "takes L p rt \<longleftrightarrow> hs_route_is_allowed_for_method (Some rt) (request p)
     \<and> hs_route_is_supported_path L (Some rt) (request p) \<and> serve rt \<noteq> None"

lemma serve_route_not_taken:
  assumes "flow_ready p" and "\<not> flow_closed p" and "\<not> flow_done p" and "\<not> takes L p rt"
  shows "hs_router_serve_route L (Some rtr) p (Some rt) w = ret (False, p, w)"
  using assms by (auto simp: hs_router_serve_route_def takes_def)

lemma serve_route_taken:
  assumes "flow_ready p" and "\<not> flow_closed p" and "\<not> flow_done p" and "takes L p rt" and "serve rt = Some h"
    and "h (route_path rt) p w = ret (HS_SERVE_FLOW_RESPONSE_DONE, p1, w1)" and "\<not> flow_done p1" and "router_state p1 \<noteq> None"
  shows "hs_router_serve_route L (Some rtr) p (Some rt) w = write_response L rtr p1 w1"
  using assms by (auto simp: hs_router_serve_route_def takes_def flow_done_def)

lemma find_route_skips:
  assumes "flow_ready p" and "\<not> flow_closed p" and "\<not> flow_done p" and "list_all (\<lambda>rt. \<not> takes L p rt) pre"
  shows "find_route_loop L (Some rtr) (map Some pre @ rts) p w = find_route_loop L (Some rtr) rts p w"
  using assms(4) by (induction pre) (simp_all add: serve_route_not_taken [OF assms(1-3)])

primrec passed ::
  "('sb, 'pv, 'cv, 'dt, 'sh) libs \<Rightarrow> ('sb, 'pv, 'cv, 'dt) route list \<Rightarrow> ('sb, 'pv, 'cv, 'dt) flow \<Rightarrow> world
    \<Rightarrow> (('sb, 'pv, 'cv, 'dt) flow \<times> world) option" where
  \<comment> \<open>the state in which routes hand the request on that either do not take it, or take it and
      answer that the search continues; None when one of them ends the search\<close>
  "passed L [] p w = Some (p, w)"
| "passed L (rt # rts) p w =
     (if \<not> (flow_ready p \<and> takes L p rt) then passed L rts p w
      else (case Option.bind (serve rt) (\<lambda>h. h (route_path rt) p w) of
              Some (Inr (HS_SERVE_FLOW_RESPONSE_CONTINUE, p1, w1)) \<Rightarrow>
                if router_state p1 = None \<or> flow_closed p1 \<or> flow_done p1 then None else passed L rts p1 w1
            | _ \<Rightarrow> None))"

lemma find_route_passed:
  assumes "passed L pre p w = Some (p1, w1)" and "\<not> flow_closed p" and "\<not> flow_done p"
  shows "find_route_loop L (Some rtr) (map Some pre @ rts) p w = find_route_loop L (Some rtr) rts p1 w1"
    and "\<not> flow_closed p1" and "\<not> flow_done p1"
proof -
  have "find_route_loop L (Some rtr) (map Some pre @ rts) p w = find_route_loop L (Some rtr) rts p1 w1
      \<and> \<not> flow_closed p1 \<and> \<not> flow_done p1"
    using assms
  proof (induction pre arbitrary: p w)
    case Nil
    then show ?case by simp
  next
    case (Cons rt pre)
    show ?case
    proof (cases "flow_ready p \<and> takes L p rt")
      case False
      with Cons.prems have "hs_router_serve_route L (Some rtr) p (Some rt) w = ret (False, p, w)"
        by (auto simp: hs_router_serve_route_def takes_def)
      with Cons.IH [of p w] Cons.prems False show ?thesis by simp
    next
      case True
      with Cons.prems obtain h p2 w2 where h: "serve rt = Some h"
        "h (route_path rt) p w = ret (HS_SERVE_FLOW_RESPONSE_CONTINUE, p2, w2)"
        and p2: "router_state p2 \<noteq> None" "\<not> flow_closed p2" "\<not> flow_done p2" "passed L pre p2 w2 = Some (p1, w1)"
        by (auto split: Option.bind_splits option.splits sum.splits HSServeFlowResponse.splits if_splits)
      have "hs_router_serve_route L (Some rtr) p (Some rt) w = ret (False, p2, w2)"
        using Cons.prems(2,3) True h p2(1,3) by (auto simp: hs_router_serve_route_def takes_def flow_done_def)
      with Cons.IH [of p2 w2] p2(2-4) show ?thesis by simp
    qed
  qed
  then show "find_route_loop L (Some rtr) (map Some pre @ rts) p w = find_route_loop L (Some rtr) rts p1 w1"
    and "\<not> flow_closed p1" and "\<not> flow_done p1" by blast+
qed

section \<open>Callbacks in reverse\<close>

primrec run_in_order ::
  "('sb, 'pv, 'cv, 'dt) HSServeFlowEnv HSPostResponseCallback list \<Rightarrow> ('sb, 'pv, 'cv, 'dt) HSServeFlowEnv \<Rightarrow> world
    \<Rightarrow> (('sb, 'pv, 'cv, 'dt) HSServeFlowEnv \<times> world) run" where
  "run_in_order [] e w = ret (e, w)"
| "run_in_order (c # cs) e w =
     bindR (case callback_run c of None \<Rightarrow> ret (e, w) | Some f \<Rightarrow> f e w) (\<lambda>(e1, w1). run_in_order cs e1 w1)"

lemma run_callbacks_loop_rev:
  assumes "callbacks_wf cbs"
  shows "n \<le> callback_count cbs \<Longrightarrow> run_callbacks_loop cbs n e w = run_in_order (rev (take n (callback_list cbs))) e w"
proof (induction n arbitrary: e w)
  case 0
  then show ?case by simp
next
  case (Suc n)
  have "n < length (callback_slots cbs)" using assms Suc.prems by (simp add: callbacks_wf_def)
  moreover have "n < length (callback_list cbs)" using assms Suc.prems by (simp add: callbacks_length)
  moreover have "callback_slots cbs ! n = Some (callback_list cbs ! n)"
    using callbacks_slot [OF assms, of n] Suc.prems by simp
  moreover have "run_callbacks_loop cbs n = run_in_order (rev (take n (callback_list cbs)))"
    using Suc by (intro ext) simp
  ultimately show ?case by (simp add: take_Suc_conv_app_nth case_prod_unfold)
qed

section \<open>Properties\<close>

text \<open>
  C2. A response on the wire. To a peer that takes what it is given, the router writes the status
  line, every header, every cookie with its attributes, the connection header, the content type,
  the content length, the empty line and the content, in this order and nothing else; it closes
  the connection exactly when it has said so or when payload of the request was left unread.
\<close>

theorem response_on_the_wire:
  assumes "libs_ok L" and "request p = Some req" and "response p = Some resp" and "connection_state p = Some conn"
    and "router_state p = Some rs" and "plain_socket (conn_socket conn) fd" and "eager fd w"
  shows "write_response L rtr p w
    = ret (True, after_response (closes (wants_close rtr req) req) conn rs (p\<lparr>response := Some (typed_response L resp)\<rparr>),
           close_if (closes (wants_close rtr req) req) fd
             (after_write fd (response_text L resp (wants_close rtr req) w) w))"
  by (rule write_response_spec [OF assms])

definition demo_flow ::
  "(string, HSArrayPair list, HSCookie list, (string \<times> (string \<times> string) list route_value) list) flow" where
  \<comment> \<open>a GET of \<open>/a/b\<close> on the connection of the examples\<close>
  "demo_flow = (hs_types_serve_flow_params_new_pre_populated reference_libs
      (Some ((hs_types_http_request_new reference_libs)\<lparr>req_resource := Some ''/a/b'',
              req_connection := HS_CONNECTION_TYPE_KEEP_ALIVE\<rparr>)))
    \<lparr>connection_state := Some \<lparr>conn_socket = connection_socket, request_counter = 1, creation_time = 0\<rparr>\<rparr>"

lemma demo_flow_simps [simp]:
  "request demo_flow = Some ((hs_types_http_request_new reference_libs)\<lparr>req_resource := Some ''/a/b'',
      req_connection := HS_CONNECTION_TYPE_KEEP_ALIVE\<rparr>)"
  "response demo_flow = Some (hs_types_http_response_new reference_libs)"
  "connection_state demo_flow = Some \<lparr>conn_socket = connection_socket, request_counter = 1, creation_time = 0\<rparr>"
  "router_state demo_flow = Some hs_types_router_flow_state_new"
  "callbacks demo_flow = Some (hs_types_post_response_callbacks_new 1)"
  by (simp_all add: demo_flow_def hs_types_serve_flow_params_new_pre_populated_def)

lemma demo_flow_entry:
  "flow_ready demo_flow" "\<not> flow_closed demo_flow" "\<not> flow_done demo_flow" "eager 3 w \<Longrightarrow> route_entry 3 demo_flow w"
  using plain_socket_simps(2) [OF connection_simps(1)]
  by (simp_all add: flow_ready_def flow_closed_def flow_done_def route_entry_def hs_types_router_flow_state_new_def)

theorem response_on_the_wire_witness:
  "\<exists>p1 w1. write_response reference_libs (hs_router_new (list_vector :: (unit list, unit) vector_lib)) demo_flow (connection [] [])
      = ret (True, p1, w1)
    \<and> sent_bytes 3 w1 = ''HTTP/1.1 200 200'' @ [CR, LF] @ ''Connection: keep-alive'' @ [CR, LF] @ ''Content-Length: 0'' @ [CR, LF, CR, LF]"
proof -
  let ?r = "hs_router_new (list_vector :: (unit list, unit) vector_lib)"
  let ?q = "the (request demo_flow)" and ?s = "hs_types_http_response_new reference_libs"
  have "closes (wants_close ?r ?q) ?q = False" "wants_close ?r ?q = False"
    by (simp_all add: closes_def wants_close_def hs_router_new_def hs_types_http_request_new_def)
  moreover have "response_text reference_libs ?s False (connection [] [])
      = ''HTTP/1.1 200 200'' @ [CR, LF] @ ''Connection: keep-alive'' @ [CR, LF] @ ''Content-Length: 0'' @ [CR, LF, CR, LF]"
    by code_simp
  moreover have "sent_bytes 3 (after_write 3 t (connection [] [])) = t" for t
    by (simp add: sent_bytes_def connection_def after_write_def)
  ultimately show ?thesis
    using response_on_the_wire [OF reference_libs_ok, of demo_flow _ _ _ _ 3 "connection [] []" ?r]
    by (simp add: close_if_def)
qed

text \<open>
  C10. Dispatch: the routes are tried in the order in which they were added. The routes in front may
  leave the request alone (method, path, serve function) or take it, change the flow, and let the
  search continue, as middleware does (\<open>passed\<close>). The next route runs in the state they leave, and
  when it takes the request and answers anything but "continue", the search ends with it: its
  response is written (unless a nested router has already written one), and no route behind it runs.
  When all routes pass, nothing is written and the dispatch reports that nothing was served.
\<close>

theorem first_taking_route_answers:
  assumes "vector_ok V" and "\<not> flow_closed p" and "\<not> flow_done p" and "passed L pre p w = Some (p1, w1)"
  shows "(\<forall>rt post h r p2 w2 rs. vec_list V (router_routes rtr) = pre @ rt # post
        \<and> flow_ready p1 \<and> takes L p1 rt \<and> serve rt = Some h \<and> h (route_path rt) p1 w1 = ret (r, p2, w2)
        \<and> router_state p2 = Some rs \<and> (r \<noteq> HS_SERVE_FLOW_RESPONSE_CONTINUE \<or> router_done rs)
      \<longrightarrow> hs_router_find_route_and_serve L V (Some rtr) p w
          = (if router_done rs then ret (True, p2, w2) else write_response L rtr p2 w2))
    \<and> (vec_list V (router_routes rtr) = pre \<longrightarrow> hs_router_find_route_and_serve L V (Some rtr) p w = ret (False, p1, w1))"
proof (intro conjI allI impI, elim conjE)
  note pass = find_route_passed [OF assms(4,2,3)]
  note find = hs_router_find_route_and_serve_def routes_of_vector [OF assms(1)]
  fix rt post h r p2 w2 rs
  assume rtr: "vec_list V (router_routes rtr) = pre @ rt # post" and rt: "flow_ready p1" "takes L p1 rt" "serve rt = Some h"
    and h: "h (route_path rt) p1 w1 = ret (r, p2, w2)" "router_state p2 = Some rs"
      "r \<noteq> HS_SERVE_FLOW_RESPONSE_CONTINUE \<or> router_done rs"
  have "hs_router_serve_route L (Some rtr) p1 (Some rt) w1
      = (if router_done rs then ret (True, p2, w2) else write_response L rtr p2 w2)"
    using pass(2,3) rt h by (auto simp: hs_router_serve_route_def takes_def)
  moreover have "bindR (write_response L rtr p2 w2) (\<lambda>(served, p3, w3). if served then ret (True, p3, w3)
      else find_route_loop L (Some rtr) (map Some post) p3 w3) = write_response L rtr p2 w2"
    by (cases "write_response L rtr p2 w2"; cases "the (write_response L rtr p2 w2)")
      (auto dest!: write_response_true)
  ultimately show "hs_router_find_route_and_serve L V (Some rtr) p w
      = (if router_done rs then ret (True, p2, w2) else write_response L rtr p2 w2)"
    by (simp add: find rtr pass(1))
next
  assume "vec_list V (router_routes rtr) = pre"
  then show "hs_router_find_route_and_serve L V (Some rtr) p w = ret (False, p1, w1)"
    using find_route_passed(1) [OF assms(4,2,3), of rtr "[]"]
    by (simp add: hs_router_find_route_and_serve_def routes_of_vector [OF assms(1)])
qed

definition not_found_for_get ::
  "(string, HSArrayPair list, HSCookie list, (string \<times> (string \<times> string) list route_value) list) route list" where
  \<comment> \<open>a route that does not take a GET, one that sets the code 404 and continues, one that answers,
      and one that would crash\<close>
  "not_found_for_get =
     [hs_route_new\<lparr>is_post := True, serve := Some (\<lambda>path p w. ub NullDeref)\<rparr>,
      hs_route_new\<lparr>is_get := True, serve := Some (\<lambda>path p w. ret (HS_SERVE_FLOW_RESPONSE_CONTINUE,
         p\<lparr>response := map_option (\<lambda>r. r\<lparr>resp_code := HS_HTTP_RESPONSE_CODE_NOT_FOUND\<rparr>) (response p)\<rparr>, w))\<rparr>,
      hs_route_new\<lparr>is_get := True, serve := Some (\<lambda>path p w. ret (HS_SERVE_FLOW_RESPONSE_DONE, p, w))\<rparr>,
      hs_route_new\<lparr>is_get := True, serve := Some (\<lambda>path p w. ub NullDeref)\<rparr>]"

theorem first_taking_route_answers_witness:
  "\<exists>p1 w1. hs_router_find_route_and_serve reference_libs list_vector
        (Some \<lparr>router_routes = not_found_for_get, support_keep_alive = True\<rparr>) demo_flow (connection [] []) = ret (True, p1, w1)
     \<and> sent_bytes 3 w1 = ''HTTP/1.1 404 404'' @ [CR, LF] @ ''Connection: keep-alive'' @ [CR, LF] @ ''Content-Length: 0'' @ [CR, LF, CR, LF]"
proof -
  let ?r = "\<lparr>router_routes = not_found_for_get, support_keep_alive = True\<rparr>"
  let ?s = "(hs_types_http_response_new reference_libs)\<lparr>resp_code := HS_HTTP_RESPONSE_CODE_NOT_FOUND\<rparr>"
  let ?p = "demo_flow\<lparr>response := Some ?s\<rparr>" and ?w = "connection [] []" and ?q = "the (request demo_flow)"
  let ?h = "\<lambda>path p w. ret (HS_SERVE_FLOW_RESPONSE_DONE, p, w)"
  have rts: "vec_list list_vector (router_routes ?r) = take 2 not_found_for_get @ not_found_for_get ! 2 # drop 3 not_found_for_get"
    by (simp add: vec_list_def list_vector_def List.map_filter_simps not_found_for_get_def numeral_eq_Suc)
  have ready: "flow_ready ?p" "\<not> flow_closed ?p" "\<not> flow_done ?p"
    using demo_flow_entry by (simp_all add: flow_ready_def flow_closed_def flow_done_def)
  have pass: "passed reference_libs (take 2 not_found_for_get) demo_flow ?w = Some (?p, ?w)"
    using demo_flow_entry ready by (simp add: not_found_for_get_def takes_def hs_route_is_allowed_for_method_def
        hs_route_is_supported_path_def hs_route_new_def hs_types_http_request_new_def numeral_eq_Suc)
  have rt: "takes reference_libs ?p (not_found_for_get ! 2)" "serve (not_found_for_get ! 2) = Some ?h"
    by (simp_all add: not_found_for_get_def takes_def hs_route_is_allowed_for_method_def
        hs_route_is_supported_path_def hs_route_new_def hs_types_http_request_new_def numeral_eq_Suc)
  have find: "hs_router_find_route_and_serve reference_libs list_vector (Some ?r) demo_flow ?w = write_response reference_libs ?r ?p ?w"
    using first_taking_route_answers [OF list_vector_ok demo_flow_entry(2,3) pass, of ?r] rts rt ready
    by (simp add: hs_types_router_flow_state_new_def)
  have "closes (wants_close ?r ?q) ?q = False" "wants_close ?r ?q = False"
    by (simp_all add: closes_def wants_close_def hs_types_http_request_new_def)
  moreover have "response_text reference_libs ?s False ?w
      = ''HTTP/1.1 404 404'' @ [CR, LF] @ ''Connection: keep-alive'' @ [CR, LF] @ ''Content-Length: 0'' @ [CR, LF, CR, LF]"
    by code_simp
  moreover have "sent_bytes 3 (after_write 3 t ?w) = t" for t
    by (simp add: sent_bytes_def connection_def after_write_def)
  ultimately show ?thesis
    unfolding find using write_response_spec [OF reference_libs_ok, of ?p _ _ _ _ 3 ?w ?r]
    by (simp add: close_if_def)
qed

text \<open>
  C28. The callbacks run in the reverse of the order in which they were added, each on what the
  one before it left, and the first that faults ends the run.
\<close>

theorem callbacks_run_in_reverse:
  assumes "callbacks p = Some cbs" and "callbacks_wf cbs"
  shows "hs_router_run_callbacks p w
    = bindR (run_in_order (rev (callback_list cbs)) (HSServeFlowEnv.truncate p) w) (\<lambda>(e, w1). ret (put_env e p, w1))"
  using run_callbacks_loop_rev [OF assms(2) order_refl] callbacks_length [OF assms(2)] assms(1)
  by (simp add: hs_router_run_callbacks_def)

theorem callbacks_run_in_reverse_witness:
  "let cb = (\<lambda>n. \<lparr>callback_run = Some (\<lambda>e w. ret (e, w\<lparr>rands := n # rands w\<rparr>)), callback_release = None\<rparr>)
   in \<exists>p1 w1. hs_router_run_callbacks (demo_flow\<lparr>callbacks := Some \<lparr>callback_slots = [Some (cb 1), Some (cb 2)],
        callback_count = 2, callback_capacity = 2\<rparr>\<rparr>) (connection [] []) = ret (p1, w1) \<and> rands w1 = [1, 2]"
proof -
  define cb :: "int \<Rightarrow> (string, HSArrayPair list, HSCookie list, (string \<times> (string \<times> string) list route_value) list) HSServeFlowEnv HSPostResponseCallback"
    where "cb = (\<lambda>n. \<lparr>callback_run = Some (\<lambda>e w. ret (e, w\<lparr>rands := n # rands w\<rparr>)), callback_release = None\<rparr>)"
  let ?c = "\<lparr>callback_slots = [Some (cb 1), Some (cb 2)], callback_count = 2, callback_capacity = 2\<rparr>"
  have "callbacks_wf ?c" "callback_list ?c = [cb 1, cb 2]" by (simp_all add: callbacks_wf_def callback_list_def)
  with callbacks_run_in_reverse [of "demo_flow\<lparr>callbacks := Some ?c\<rparr>" ?c "connection [] []"] show ?thesis
    by (simp add: cb_def Let_def connection_def)
qed

text \<open>
  C24. A router used as a route sees the rest of the resource: when the path of the route covers
  the resource, the prefix is removed without leaving the string, the rest starts with a slash,
  the path (less its trailing slash) followed by the rest is the resource, or the rest is the
  root when the resource is the path itself; the original resource is kept for later.
\<close>

theorem path_prefix_removed:
  assumes "covers path parent resource" and "req_resource req = Some resource" and "1 < length path"
  shows "\<exists>rest. hs_router_remove_path_prefix (Some path) req = ret (Some resource, req\<lparr>req_resource := Some (CHR ''/'' # rest)\<rparr>)
    \<and> (if resource = path then rest = []
       else resource = (if last path = CHR ''/'' then butlast path else path) @ CHR ''/'' # rest)"
proof (cases "resource = path")
  case True
  with assms show ?thesis by (auto simp: hs_router_remove_path_prefix_def)
next
  case False
  with assms(1) obtain below where below: "below \<noteq> []" "resource = path @ below" "last path = CHR ''/'' \<or> hd below = CHR ''/''"
    by (auto simp: covers_def)
  have sep: "path ! (length path - Suc 0) = last path" using assms(3) by (subst last_conv_nth) auto
  show ?thesis
  proof (cases "last path = CHR ''/''")
    case True
    define q where "q = butlast path"
    have "path \<noteq> []" using assms(3) by auto
    then have q: "path = q @ [CHR ''/'']" using True append_butlast_last_id [of path] by (simp add: q_def)
    with assms(2,3) below(1,2) False show ?thesis by (simp add: hs_router_remove_path_prefix_def Let_def)
  next
    case slash: False
    then obtain rest where "below = CHR ''/'' # rest" using below by (cases below) auto
    with assms below sep slash False show ?thesis by (simp add: hs_router_remove_path_prefix_def Let_def)
  qed
qed

theorem path_prefix_removed_witness:
  "\<exists>req'. hs_router_remove_path_prefix (Some ''/a'') ((hs_types_http_request_new reference_libs)\<lparr>req_resource := Some ''/a/b''\<rparr>)
      = ret (Some ''/a/b'', req') \<and> req_resource req' = Some ''/b''"
proof -
  have "covers ''/a'' True ''/a/b''" by (simp add: covers_def)
  from path_prefix_removed [OF this, of "(hs_types_http_request_new reference_libs)\<lparr>req_resource := Some ''/a/b''\<rparr>"]
  show ?thesis by auto
qed

text \<open>
  A router used as a route without a path loses the resource: \<open>hs_router_remove_path_prefix\<close>
  returns NULL for it, which is stored back as the resource when no route of the sub-router has
  served the request, and the check with which every route behind it starts then fails.
\<close>

theorem pathless_router_loses_resource:
  assumes "flow_ready p" and "\<not> flow_closed p" and "\<not> flow_done p" and "router_state p = Some rs"
    and "hs_router_find_route_and_serve L V (Some rtr)
          (p\<lparr>router_state := Some (rs\<lparr>base_path := fsio_join_paths L (base_path rs) None\<rparr>)\<rparr>) w = ret (False, p1, w1)"
    and "request p1 = Some req1" and "router_state p1 = Some rs1"
  shows "\<exists>p2. hs_router_as_route_serve L V (Some rtr) None p w = ret (HS_SERVE_FLOW_RESPONSE_CONTINUE, p2, w1)
    \<and> map_option req_resource (request p2) = Some None \<and> \<not> flow_ready p2"
proof -
  obtain req where req: "request p = Some req" using assms(1) by (auto simp: flow_ready_def split: option.splits)
  have same: "p\<lparr>request := Some req, router_state := s\<rparr> = p\<lparr>router_state := s\<rparr>" for s
    using req by (cases p) simp
  let ?p2 = "p1\<lparr>request := Some (req1\<lparr>req_resource := None\<rparr>), router_state := Some (rs1\<lparr>router_done := False, base_path := base_path rs\<rparr>)\<rparr>"
  have "hs_router_as_route_serve L V (Some rtr) None p w = ret (HS_SERVE_FLOW_RESPONSE_CONTINUE, ?p2, w1)"
    using assms(1-4,6,7) req
    by (simp add: hs_router_as_route_serve_def hs_router_remove_path_prefix_def assms(5) [folded same])
  then show ?thesis by (intro exI [of _ ?p2]) (simp add: flow_ready_def split: option.splits)
qed

theorem pathless_router_loses_resource_witness:
  "\<exists>p2 w1. hs_router_as_route_serve reference_libs list_vector (Some \<lparr>router_routes = [], support_keep_alive = True\<rparr>) None
      demo_flow (connection [] []) = ret (HS_SERVE_FLOW_RESPONSE_CONTINUE, p2, w1) \<and> \<not> flow_ready p2"
proof -
  let ?r = "\<lparr>router_routes = [], support_keep_alive = True\<rparr>"
  let ?j = "fsio_join_paths reference_libs (base_path hs_types_router_flow_state_new) None"
  let ?p = "demo_flow\<lparr>router_state := Some (hs_types_router_flow_state_new\<lparr>base_path := ?j\<rparr>)\<rparr>"
  have "hs_router_find_route_and_serve reference_libs list_vector (Some ?r) ?p (connection [] []) = ret (False, ?p, connection [] [])"
    by (simp add: hs_router_find_route_and_serve_def list_vector_def)
  from pathless_router_loses_resource [OF demo_flow_entry(1-3) demo_flow_simps(4) this] show ?thesis by fastforce
qed

end
