(* ===== verification/Routes_Basic.thy ===== *)
theory Routes_Basic
  imports Router
begin

text \<open>
  The small routes: \<open>src/hs_routes_common.c\<close>, \<open>src/hs_routes_error.c\<close>, \<open>src/hs_routes_static.c\<close>,
  \<open>src/hs_routes_redirection.c\<close>, \<open>src/hs_routes_powered_by.c\<close>, \<open>src/hs_routes_payload_limit.c\<close>,
  \<open>src/hs_routes_ratelimit.c\<close> and \<open>src/hs_routes_favicon.c\<close>. A serve function takes the route's
  extension first, as an optional value where the code checks it for NULL; the route's serve
  function closes over it. Each meets the contract \<open>route_handler\<close>.
\<close>

section \<open>Common parts\<close>

definition hs_routes_common_serve_all_route_new :: "('sb, 'pv, 'cv, 'dt) route" where
  "hs_routes_common_serve_all_route_new =
     (the (hs_route_set_all_methods (Some hs_route_new) True))\<lparr>is_parent_path := True\<rparr>"

definition respond ::
  "(('pv, 'cv) HSHttpResponse \<Rightarrow> ('pv, 'cv) HSHttpResponse) \<Rightarrow> HSServeFlowResponse \<Rightarrow> ('sb, 'pv, 'cv, 'dt) flow \<Rightarrow> world
    \<Rightarrow> (HSServeFlowResponse \<times> ('sb, 'pv, 'cv, 'dt) flow \<times> world) run" where
  \<comment> \<open>writes to \<open>params->response\<close> through the pointer\<close>
  "respond change r p w =
     (case response p of None \<Rightarrow> ub NullDeref | Some resp \<Rightarrow> ret (r, p\<lparr>response := Some (change resp)\<rparr>, w))"

definition add_header ::
  "('sb, 'pv, 'cv, 'dt, 'sh) libs \<Rightarrow> string \<Rightarrow> string \<Rightarrow> ('pv, 'cv) HSHttpResponse \<Rightarrow> ('pv, 'cv) HSHttpResponse" where
  "add_header L key val resp =
     resp\<lparr>resp_headers := snd (hs_types_array_string_pair_add L (resp_headers resp) (Some key) (Some val))\<rparr>"

section \<open>Errors\<close>

definition hs_routes_404_not_found_serve :: "('sb, 'pv, 'cv, 'dt) flow serve_function" where
  "hs_routes_404_not_found_serve path p w =
     (if response p = None then ret (HS_SERVE_FLOW_RESPONSE_CONTINUE, p, w)
      else respond (\<lambda>r. r\<lparr>resp_code := HS_HTTP_RESPONSE_CODE_NOT_FOUND\<rparr>) HS_SERVE_FLOW_RESPONSE_DONE p w)"

definition hs_routes_error_404_not_found_route_new :: "('sb, 'pv, 'cv, 'dt) route" where
  "hs_routes_error_404_not_found_route_new =
     hs_routes_common_serve_all_route_new\<lparr>serve := Some hs_routes_404_not_found_serve\<rparr>"

definition hs_routes_411_length_required_serve ::
  "('sb, 'pv, 'cv, 'dt, 'sh) libs \<Rightarrow> ('sb, 'pv, 'cv, 'dt) flow serve_function" where
  "hs_routes_411_length_required_serve L path p w =
     (case (request p, response p) of
        (Some req, Some _) \<Rightarrow>
          if hs_types_array_string_pair_get_by_key L (req_headers req) (Some ''content-length'') \<noteq> None
          then ret (HS_SERVE_FLOW_RESPONSE_CONTINUE, p, w)
          else respond (\<lambda>r. r\<lparr>resp_code := HS_HTTP_RESPONSE_CODE_LENGTH_REQUIRED\<rparr>) HS_SERVE_FLOW_RESPONSE_DONE p w
      | _ \<Rightarrow> ret (HS_SERVE_FLOW_RESPONSE_CONTINUE, p, w))"

definition hs_routes_error_411_length_required_route_new ::
  "('sb, 'pv, 'cv, 'dt, 'sh) libs \<Rightarrow> ('sb, 'pv, 'cv, 'dt) route" where
  "hs_routes_error_411_length_required_route_new L =
     hs_route_new\<lparr>serve := Some (hs_routes_411_length_required_serve L), is_post := True, is_put := True,
                 is_parent_path := True\<rparr>"

section \<open>Static content\<close>

record HsRoutesStaticContext =
  static_content :: string
  static_mime_type :: HSMimeType

definition hs_routes_static_serve ::
  "HsRoutesStaticContext option \<Rightarrow> ('sb, 'pv, 'cv, 'dt) flow serve_function" where
  "hs_routes_static_serve extension path p w =
     (case extension of
        None \<Rightarrow> ret (HS_SERVE_FLOW_RESPONSE_CONTINUE, p, w)
      | Some context \<Rightarrow>
          respond (\<lambda>r. r\<lparr>resp_code := HS_HTTP_RESPONSE_CODE_OK, resp_content_string := Some (static_content context),
                         resp_mime_type := static_mime_type context\<rparr>) HS_SERVE_FLOW_RESPONSE_DONE p w)"

definition hs_routes_static_route_new :: "cstr \<Rightarrow> HSMimeType \<Rightarrow> ('sb, 'pv, 'cv, 'dt) route option" where
  "hs_routes_static_route_new content mime_type =
     map_option (\<lambda>c. hs_route_new\<lparr>is_get := True,
       serve := Some (hs_routes_static_serve (Some \<lparr>static_content = c, static_mime_type = mime_type\<rparr>)), release_route := Some ret\<rparr>) content"

definition hs_routes_static_text_route_new :: "cstr \<Rightarrow> ('sb, 'pv, 'cv, 'dt) route option" where
  "hs_routes_static_text_route_new t = hs_routes_static_route_new t HS_MIME_TYPE_TEXT_PLAIN"

definition hs_routes_static_html_route_new :: "cstr \<Rightarrow> ('sb, 'pv, 'cv, 'dt) route option" where
  "hs_routes_static_html_route_new html = hs_routes_static_route_new html HS_MIME_TYPE_TEXT_HTML"

definition hs_routes_static_css_route_new :: "cstr \<Rightarrow> ('sb, 'pv, 'cv, 'dt) route option" where
  "hs_routes_static_css_route_new css = hs_routes_static_route_new css HS_MIME_TYPE_TEXT_CSS"

definition hs_routes_static_js_route_new :: "cstr \<Rightarrow> ('sb, 'pv, 'cv, 'dt) route option" where
  "hs_routes_static_js_route_new js = hs_routes_static_route_new js HS_MIME_TYPE_TEXT_JAVASCRIPT"

section \<open>Redirection\<close>

record HsRoutesRedirectionContext =
  to_path :: cstr
  temporary_redirect :: bool

definition hs_routes_redirection_set_header_and_status_code ::
  "('sb, 'pv, 'cv, 'dt, 'sh) libs \<Rightarrow> ('sb, 'pv, 'cv, 'dt) flow \<Rightarrow> cstr \<Rightarrow> bool \<Rightarrow> bool \<times> ('sb, 'pv, 'cv, 'dt) flow" where
  "hs_routes_redirection_set_header_and_status_code L p path temporary =
     (case (response p, path) of
        (Some resp, Some target) \<Rightarrow>
          if resp_headers resp = None then (False, p)
          else (True, p\<lparr>response := Some (add_header L ''Location'' target
                 (resp\<lparr>resp_code := (if temporary then HS_HTTP_RESPONSE_CODE_TEMPORARY_REDIRECT
                                     else HS_HTTP_RESPONSE_CODE_PERMANENT_REDIRECT)\<rparr>))\<rparr>)
      | _ \<Rightarrow> (False, p))"

definition hs_routes_redirection_serve ::
  "('sb, 'pv, 'cv, 'dt, 'sh) libs \<Rightarrow> HsRoutesRedirectionContext option \<Rightarrow> ('sb, 'pv, 'cv, 'dt) flow serve_function" where
  "hs_routes_redirection_serve L extension path p w =
     (case extension of
        None \<Rightarrow> ret (HS_SERVE_FLOW_RESPONSE_CONTINUE, p, w)
      | Some context \<Rightarrow>
          (case hs_routes_redirection_set_header_and_status_code L p (to_path context) (temporary_redirect context) of
             (done, p1) \<Rightarrow> ret (if done then HS_SERVE_FLOW_RESPONSE_DONE else HS_SERVE_FLOW_RESPONSE_CONTINUE, p1, w)))"

definition hs_routes_redirection_route_new_with_options ::
  "('sb, 'pv, 'cv, 'dt, 'sh) libs \<Rightarrow> cstr \<Rightarrow> cstr \<Rightarrow> bool \<Rightarrow> ('sb, 'pv, 'cv, 'dt) route option" where
  "hs_routes_redirection_route_new_with_options L from_path target temporary =
     (if from_path = None \<or> target = None then None
      else Some (hs_route_new\<lparr>route_path := from_path, is_get := True,
             serve := Some (hs_routes_redirection_serve L (Some \<lparr>to_path = target, temporary_redirect = temporary\<rparr>)), release_route := Some ret\<rparr>))"

definition hs_routes_redirection_route_new ::
  "('sb, 'pv, 'cv, 'dt, 'sh) libs \<Rightarrow> cstr \<Rightarrow> cstr \<Rightarrow> ('sb, 'pv, 'cv, 'dt) route option" where
  "hs_routes_redirection_route_new L from_path target = hs_routes_redirection_route_new_with_options L from_path target True"

section \<open>Powered by\<close>

definition HS_ROUTES_POWERED_BY :: string where
  "HS_ROUTES_POWERED_BY = ''CHS''"

definition hs_routes_powered_by_serve ::
  "('sb, 'pv, 'cv, 'dt, 'sh) libs \<Rightarrow> string \<Rightarrow> ('sb, 'pv, 'cv, 'dt) flow serve_function" where
  "hs_routes_powered_by_serve L extension path p w =
     (case response p of
        None \<Rightarrow> ret (HS_SERVE_FLOW_RESPONSE_CONTINUE, p, w)
      | Some resp \<Rightarrow>
          if resp_headers resp = None then ret (HS_SERVE_FLOW_RESPONSE_CONTINUE, p, w)
          else respond (add_header L ''X-Powered-By'' extension) HS_SERVE_FLOW_RESPONSE_CONTINUE p w)"

definition hs_routes_powered_by_route_new ::
  "('sb, 'pv, 'cv, 'dt, 'sh) libs \<Rightarrow> cstr \<Rightarrow> ('sb, 'pv, 'cv, 'dt) route" where
  "hs_routes_powered_by_route_new L powered_by =
     hs_routes_common_serve_all_route_new\<lparr>serve := Some (hs_routes_powered_by_serve L
       (case powered_by of None \<Rightarrow> HS_ROUTES_POWERED_BY | Some s \<Rightarrow> s))\<rparr>"

section \<open>Payload limit\<close>

definition hs_routes_payload_limit_serve :: "size_t option \<Rightarrow> ('sb, 'pv, 'cv, 'dt) flow serve_function" where
  "hs_routes_payload_limit_serve extension path p w =
     (case (extension, request p) of
        (Some size_limit, Some req) \<Rightarrow>
          if req_content_length req \<le> size_limit then ret (HS_SERVE_FLOW_RESPONSE_CONTINUE, p, w)
          else respond (\<lambda>r. r\<lparr>resp_code := HS_HTTP_RESPONSE_CODE_PAYLOAD_TOO_LARGE\<rparr>) HS_SERVE_FLOW_RESPONSE_DONE p w
      | _ \<Rightarrow> ret (HS_SERVE_FLOW_RESPONSE_CONTINUE, p, w))"

definition hs_routes_payload_limit_route_new :: "size_t \<Rightarrow> ('sb, 'pv, 'cv, 'dt) route" where
  \<comment> \<open>a limit of zero is no limit: the route then has no serve function\<close>
  "hs_routes_payload_limit_route_new size_limit =
     (if size_limit \<noteq> 0
      then hs_routes_common_serve_all_route_new\<lparr>serve := Some (hs_routes_payload_limit_serve (Some size_limit)), release_route := Some ret\<rparr>
      else hs_routes_common_serve_all_route_new)"

section \<open>Rate limits\<close>

definition close_request :: "('sb, 'pv, 'cv) HSHttpRequest \<Rightarrow> ('sb, 'pv, 'cv, 'dt) flow \<Rightarrow> ('sb, 'pv, 'cv, 'dt) flow" where
  "close_request req p = p\<lparr>request := Some (req\<lparr>req_connection := HS_CONNECTION_TYPE_CLOSE\<rparr>)\<rparr>"

definition hs_routes_ratelimit_max_connection_requests_route_serve ::
  "size_t option \<Rightarrow> ('sb, 'pv, 'cv, 'dt) flow serve_function" where
  "hs_routes_ratelimit_max_connection_requests_route_serve extension path p w =
     (case (request p, connection_state p, extension) of
        (Some req, Some conn, Some limit) \<Rightarrow>
          ret (HS_SERVE_FLOW_RESPONSE_CONTINUE,
               if limit < 2 \<or> limit \<le> request_counter conn then close_request req p else p, w)
      | _ \<Rightarrow> ret (HS_SERVE_FLOW_RESPONSE_CONTINUE, p, w))"

definition hs_routes_ratelimit_max_connection_time_route_serve ::
  "size_t option \<Rightarrow> ('sb, 'pv, 'cv, 'dt) flow serve_function" where
  "hs_routes_ratelimit_max_connection_time_route_serve extension path p w =
     (case (request p, connection_state p, extension) of
        (Some req, Some conn, Some limit) \<Rightarrow>
          (let connection_time = c_time w - creation_time conn
           in ret (HS_SERVE_FLOW_RESPONSE_CONTINUE,
                   if limit < 1 \<or> connection_time < 0 \<or> limit \<le> word_of_int connection_time
                   then close_request req p else p, w))
      | _ \<Rightarrow> ret (HS_SERVE_FLOW_RESPONSE_CONTINUE, p, w))"

definition hs_routes_ratelimit_max_connection_requests_route_new :: "size_t \<Rightarrow> ('sb, 'pv, 'cv, 'dt) route" where
  "hs_routes_ratelimit_max_connection_requests_route_new max_requests =
     hs_routes_common_serve_all_route_new
       \<lparr>serve := Some (hs_routes_ratelimit_max_connection_requests_route_serve (Some max_requests)), release_route := Some ret\<rparr>"

definition hs_routes_ratelimit_max_connection_time_route_new :: "size_t \<Rightarrow> ('sb, 'pv, 'cv, 'dt) route" where
  "hs_routes_ratelimit_max_connection_time_route_new max_time_seconds =
     hs_routes_common_serve_all_route_new
       \<lparr>serve := Some (hs_routes_ratelimit_max_connection_time_route_serve (Some max_time_seconds)), release_route := Some ret\<rparr>"

section \<open>Favicon\<close>

record HSRouteFaviconContext =
  favicon_path :: string
  cache_control_header :: cstr

definition hs_routes_favicon_route_serve ::
  "('sb, 'pv, 'cv, 'dt, 'sh) libs \<Rightarrow> HSRouteFaviconContext option \<Rightarrow> ('sb, 'pv, 'cv, 'dt) flow serve_function" where
  "hs_routes_favicon_route_serve L extension path p w =
     (case (extension, response p) of
        (Some context, Some _) \<Rightarrow>
          if \<not> fsio_file_exists L (favicon_path context) w then ret (HS_SERVE_FLOW_RESPONSE_CONTINUE, p, w)
          else respond (\<lambda>r. let r1 = r\<lparr>resp_code := HS_HTTP_RESPONSE_CODE_OK,
                                        resp_content_file := Some (favicon_path context)\<rparr>
                            in case cache_control_header context of
                                 None \<Rightarrow> r1
                               | Some h \<Rightarrow> add_header L ''Cache-Control'' h r1) HS_SERVE_FLOW_RESPONSE_DONE p w
      | _ \<Rightarrow> ret (HS_SERVE_FLOW_RESPONSE_CONTINUE, p, w))"

definition hs_routes_favicon_route_new ::
  "('sb, 'pv, 'cv, 'dt, 'sh) libs \<Rightarrow> cstr \<Rightarrow> int \<Rightarrow> ('sb, 'pv, 'cv, 'dt) route option" where
  "hs_routes_favicon_route_new L path max_age_seconds =
     map_option (\<lambda>f. hs_route_new\<lparr>is_get := True, route_path := Some ''/favicon.ico'',
       serve := Some (hs_routes_favicon_route_serve L (Some
         \<lparr>favicon_path = f,
          cache_control_header =
            (if 0 < max_age_seconds
             then Some (stringbuffer_to_string L (stringbuffer_append_int L
                    (stringbuffer_append_string L (stringbuffer_new L) ''public, max-age='') max_age_seconds))
             else None)\<rparr>)), release_route := Some ret\<rparr>) path"

section \<open>The contract\<close>

lemma quiet_outcome:
  assumes "route_entry fd p w" and "router_state p1 = router_state p" and "connection_state p1 = connection_state p"
  shows "handler_outcome L fd p w r p1 w"
  using assms by (simp add: handler_outcome_def quiet_def route_entry_def)

lemma respond_quiet:
  "route_entry fd p w \<Longrightarrow> respond change d p w = ret (r, p1, w1) \<Longrightarrow> handler_outcome L fd p w r p1 w1"
  by (auto simp: respond_def intro: quiet_outcome split: option.splits)

lemmas quiet_rules = quiet_outcome respond_quiet

interpretation not_found: route_handler L hs_routes_404_not_found_serve for L
  by unfold_locales (auto simp: hs_routes_404_not_found_serve_def intro: quiet_rules split: if_splits)

interpretation length_required: route_handler L "hs_routes_411_length_required_serve L" for L
  by unfold_locales (auto simp: hs_routes_411_length_required_serve_def intro: quiet_rules split: option.splits if_splits)

interpretation static: route_handler L "hs_routes_static_serve ctx" for L ctx
  by unfold_locales (auto simp: hs_routes_static_serve_def intro: quiet_rules split: option.splits)

interpretation redirection: route_handler L "hs_routes_redirection_serve L ctx" for L ctx
  by unfold_locales (auto simp: hs_routes_redirection_serve_def hs_routes_redirection_set_header_and_status_code_def
      intro!: quiet_outcome split: option.splits if_splits)

interpretation powered_by: route_handler L "hs_routes_powered_by_serve L ext" for L ext
  by unfold_locales (auto simp: hs_routes_powered_by_serve_def intro: quiet_rules split: option.splits if_splits)

interpretation payload_limit: route_handler L "hs_routes_payload_limit_serve limit" for L limit
  by unfold_locales (auto simp: hs_routes_payload_limit_serve_def intro: quiet_rules split: option.splits if_splits)

interpretation request_limit: route_handler L "hs_routes_ratelimit_max_connection_requests_route_serve limit" for L limit
  by unfold_locales (auto simp: hs_routes_ratelimit_max_connection_requests_route_serve_def close_request_def
      intro!: quiet_outcome split: option.splits if_splits)

interpretation time_limit: route_handler L "hs_routes_ratelimit_max_connection_time_route_serve limit" for L limit
  by unfold_locales (auto simp: hs_routes_ratelimit_max_connection_time_route_serve_def close_request_def Let_def
      intro!: quiet_outcome split: option.splits if_splits)

interpretation favicon: route_handler L "hs_routes_favicon_route_serve L ctx" for L ctx
  by unfold_locales (auto simp: hs_routes_favicon_route_serve_def intro: quiet_rules split: option.splits if_splits)

section \<open>Properties\<close>

text \<open>
  The payload limit lets no larger request through: a route with a positive limit answers 413
  exactly when the content length of the request is above the limit, and otherwise leaves the
  request to the routes behind it unchanged.
\<close>

theorem payload_limit_stops_larger:
  assumes "serve (hs_routes_payload_limit_route_new limit) = Some h" and "request p = Some req" and "response p = Some resp"
  shows "h path p w =
      (if limit < req_content_length req
       then ret (HS_SERVE_FLOW_RESPONSE_DONE, p\<lparr>response := Some (resp\<lparr>resp_code := HS_HTTP_RESPONSE_CODE_PAYLOAD_TOO_LARGE\<rparr>)\<rparr>, w)
       else ret (HS_SERVE_FLOW_RESPONSE_CONTINUE, p, w))"
proof -
  have "h = hs_routes_payload_limit_serve (Some limit)"
    using assms(1) by (simp add: hs_routes_payload_limit_route_new_def hs_routes_common_serve_all_route_new_def
        hs_route_set_all_methods_def hs_route_new_def split: if_splits)
  with assms(2,3) show ?thesis by (auto simp: hs_routes_payload_limit_serve_def respond_def)
qed

theorem payload_limit_stops_larger_witness:
  "\<exists>h p1. serve (hs_routes_payload_limit_route_new 10) = Some h
    \<and> h None (demo_flow\<lparr>request := Some ((hs_types_http_request_new reference_libs)\<lparr>req_content_length := 11\<rparr>)\<rparr>) (connection [] [])
      = ret (HS_SERVE_FLOW_RESPONSE_DONE, p1, connection [] [])"
proof -
  let ?p = "demo_flow\<lparr>request := Some ((hs_types_http_request_new reference_libs)\<lparr>req_content_length := 11\<rparr>)\<rparr>"
  have h: "serve (hs_routes_payload_limit_route_new 10) = Some (hs_routes_payload_limit_serve (Some 10))"
    by (simp add: hs_routes_payload_limit_route_new_def)
  from payload_limit_stops_larger [OF h, of ?p _ _ None "connection [] []"] h show ?thesis by auto
qed

text \<open>
  The request limit ends a connection at the request whose number reaches the limit (at the
  first one for a limit below two): the request is then marked so that every router closes the
  connection with its response; before that the flow is unchanged.
\<close>

theorem request_limit_closes_connection:
  assumes "request p = Some req" and "connection_state p = Some conn"
    and "serve (hs_routes_ratelimit_max_connection_requests_route_new limit) = Some h"
  shows "\<exists>p1 req1. h path p w = ret (HS_SERVE_FLOW_RESPONSE_CONTINUE, p1, w) \<and> request p1 = Some req1
    \<and> (if limit < 2 \<or> limit \<le> request_counter conn then wants_close rtr req1 else p1 = p)"
proof -
  let ?late = "limit < 2 \<or> limit \<le> request_counter conn"
  have "h path p w = ret (HS_SERVE_FLOW_RESPONSE_CONTINUE, if ?late then close_request req p else p, w)"
    using assms by (auto simp: hs_routes_ratelimit_max_connection_requests_route_new_def
        hs_routes_ratelimit_max_connection_requests_route_serve_def)
  moreover have "request (close_request req p) = Some (req\<lparr>req_connection := HS_CONNECTION_TYPE_CLOSE\<rparr>)"
    "wants_close rtr (req\<lparr>req_connection := HS_CONNECTION_TYPE_CLOSE\<rparr>)"
    by (simp_all add: close_request_def wants_close_def)
  ultimately show ?thesis using assms(1) by (cases ?late) simp_all
qed

theorem request_limit_closes_connection_witness:
  "\<exists>h p1 req1. serve (hs_routes_ratelimit_max_connection_requests_route_new 1) = Some h
    \<and> h None demo_flow (connection [] []) = ret (HS_SERVE_FLOW_RESPONSE_CONTINUE, p1, connection [] [])
    \<and> request p1 = Some req1 \<and> wants_close \<lparr>router_routes = (), support_keep_alive = True\<rparr> req1"
proof -
  let ?h = "hs_routes_ratelimit_max_connection_requests_route_serve (Some 1)"
  have h: "serve (hs_routes_ratelimit_max_connection_requests_route_new 1) = Some ?h"
    by (simp add: hs_routes_ratelimit_max_connection_requests_route_new_def)
  from request_limit_closes_connection [OF demo_flow_simps(1,3) h, of None "connection [] []" "\<lparr>router_routes = (), support_keep_alive = True\<rparr>"] h
  show ?thesis by auto
qed

end
