(* ===== verification/Routes_Security.thy ===== *)
theory Routes_Security
  imports Routes_Basic
begin

text \<open>
  The security headers and the basic authentication of \<open>src/hs_routes_security.c\<close>. The user's
  authentication function is a parameter; it gets the text behind \<open>Basic\<close> and may read and change
  the world. Cutting that text out of the request works in place, so the request keeps what the
  string library leaves in the memory of its argument.
\<close>

section \<open>Security headers\<close>

record HSRoutesSecurityResponseHeaders =
  x_frame_options :: HSXFrameOptionsReponseHeader
  x_content_type_options :: HSXContentTypeOptionsResponseHeader
  referrer_policy :: HSReferrerPolicyResponseHeader
  content_security_policy :: cstr
  permissions_policy :: cstr

definition hs_routes_security_headers_response_headers_new :: HSRoutesSecurityResponseHeaders where
  "hs_routes_security_headers_response_headers_new =
     \<lparr>x_frame_options = HS_X_FRAME_OPTIONS_RESPONSE_HEADER_DENY,
      x_content_type_options = HS_X_CONTENT_TYPE_OPTIONS_RESPONSE_HEADER_NOSNIFF,
      referrer_policy = HS_REFERRER_POLICY_RESPONSE_HEADER_SAME_ORIGIN,
      content_security_policy = None, permissions_policy = None\<rparr>"

primrec referrer_policy_value :: "HSReferrerPolicyResponseHeader \<Rightarrow> cstr" where
  "referrer_policy_value HS_REFERRER_POLICY_RESPONSE_HEADER_NONE = None"
| "referrer_policy_value HS_REFERRER_POLICY_RESPONSE_HEADER_NO_REFERRER = Some ''no-referrer''"
| "referrer_policy_value HS_REFERRER_POLICY_RESPONSE_HEADER_NO_REFERRER_WHEN_DOWNGRADE = Some ''no-referrer-when-downgrade''"
| "referrer_policy_value HS_REFERRER_POLICY_RESPONSE_HEADER_ORIGIN = Some ''origin''"
| "referrer_policy_value HS_REFERRER_POLICY_RESPONSE_HEADER_ORIGIN_WHEN_CROSS_ORIGIN = Some ''origin-when-cross-origin''"
| "referrer_policy_value HS_REFERRER_POLICY_RESPONSE_HEADER_SAME_ORIGIN = Some ''same-origin''"
| "referrer_policy_value HS_REFERRER_POLICY_RESPONSE_HEADER_STRICT_ORIGIN = Some ''strict-origin''"
| "referrer_policy_value HS_REFERRER_POLICY_RESPONSE_HEADER_STRICT_ORIGIN_WHEN_CROSS_ORIGIN = Some ''strict-origin-when-cross-origin''"
| "referrer_policy_value HS_REFERRER_POLICY_RESPONSE_HEADER_UNSAFE_URL = Some ''unsafe-url''"

definition add_optional_header ::
  "('sb, 'pv, 'cv, 'dt, 'sh) libs \<Rightarrow> string \<Rightarrow> cstr \<Rightarrow> ('pv, 'cv) HSHttpResponse \<Rightarrow> ('pv, 'cv) HSHttpResponse" where
  "add_optional_header L key val resp = (case val of None \<Rightarrow> resp | Some v \<Rightarrow> add_header L key v resp)"

definition security_headers_response ::
  "('sb, 'pv, 'cv, 'dt, 'sh) libs \<Rightarrow> HSRoutesSecurityResponseHeaders \<Rightarrow> ('pv, 'cv) HSHttpResponse \<Rightarrow> ('pv, 'cv) HSHttpResponse" where
  \<comment> \<open>the three switches and the two optional values, in the order of the code\<close>
  "security_headers_response L headers resp =
     (let r1 = (case x_frame_options headers of
                  HS_X_FRAME_OPTIONS_RESPONSE_HEADER_NONE \<Rightarrow> resp
                | HS_X_FRAME_OPTIONS_RESPONSE_HEADER_DENY \<Rightarrow> add_header L ''X-Frame-Options'' ''DENY'' resp
                | HS_X_FRAME_OPTIONS_RESPONSE_HEADER_SAMEORIGIN \<Rightarrow> add_header L ''X-Frame-Options'' ''SAMEORIGIN'' resp);
          r2 = (case x_content_type_options headers of
                  HS_X_CONTENT_TYPE_OPTIONS_RESPONSE_HEADER_NONE \<Rightarrow> r1
                | HS_X_CONTENT_TYPE_OPTIONS_RESPONSE_HEADER_NOSNIFF \<Rightarrow> add_header L ''X-Content-Type-Options'' ''nosniff'' r1);
          r3 = add_optional_header L ''Referrer-Policy'' (referrer_policy_value (referrer_policy headers)) r2;
          r4 = add_optional_header L ''Content-Security-Policy'' (content_security_policy headers) r3
      in add_optional_header L ''Permissions-Policy'' (permissions_policy headers) r4)"

definition hs_routes_security_headers_route_serve ::
  "('sb, 'pv, 'cv, 'dt, 'sh) libs \<Rightarrow> HSRoutesSecurityResponseHeaders option \<Rightarrow> ('sb, 'pv, 'cv, 'dt) flow serve_function" where
  "hs_routes_security_headers_route_serve L extension path p w =
     (case extension of
        None \<Rightarrow> ret (HS_SERVE_FLOW_RESPONSE_CONTINUE, p, w)
      | Some headers \<Rightarrow> respond (security_headers_response L headers) HS_SERVE_FLOW_RESPONSE_CONTINUE p w)"

definition hs_routes_security_headers_route_new ::
  "('sb, 'pv, 'cv, 'dt, 'sh) libs \<Rightarrow> HSRoutesSecurityResponseHeaders option \<Rightarrow> ('sb, 'pv, 'cv, 'dt) route" where
  "hs_routes_security_headers_route_new L headers =
     hs_routes_common_serve_all_route_new\<lparr>serve := Some (hs_routes_security_headers_route_serve L
       (Some (case headers of None \<Rightarrow> hs_routes_security_headers_response_headers_new | Some h \<Rightarrow> h))), release_route := Some ret\<rparr>"

section \<open>Basic authentication\<close>

type_synonym auth_function = "cstr \<Rightarrow> world \<Rightarrow> bool \<times> world"

record HSRoutesBasicAuthContext =
  auth_realm :: string
  auth :: auth_function

definition basic_auth_check ::
  "('sb, 'pv, 'cv, 'dt, 'sh) libs \<Rightarrow> HSRoutesBasicAuthContext \<Rightarrow> ('sb, 'pv, 'cv) HSHttpRequest \<Rightarrow> world
    \<Rightarrow> bool \<times> ('sb, 'pv, 'cv) HSHttpRequest \<times> world" where
  \<comment> \<open>whether the credentials are accepted\<close>
  "basic_auth_check L context req w =
     (case req_authorization req of
        None \<Rightarrow> (False, req, w)
      | Some a \<Rightarrow>
          if stringfn_starts_with L (Some a) (Some ''Basic '') \<and> 6 < length a
          then (case stringfn_mut_substring L a 6 0 of
                  (left, authorization) \<Rightarrow>
                    (case auth context authorization w of
                       (valid, w1) \<Rightarrow> (valid, req\<lparr>req_authorization := Some left\<rparr>, w1)))
          else (False, req, w))"

definition hs_routes_security_basic_auth_route_serve ::
  "('sb, 'pv, 'cv, 'dt, 'sh) libs \<Rightarrow> HSRoutesBasicAuthContext option \<Rightarrow> ('sb, 'pv, 'cv, 'dt) flow serve_function" where
  "hs_routes_security_basic_auth_route_serve L extension path p w =
     (case (extension, request p, response p) of
        (Some context, Some req, Some _) \<Rightarrow>
          (case basic_auth_check L context req w of
             (valid, req1, w1) \<Rightarrow>
               if valid then ret (HS_SERVE_FLOW_RESPONSE_CONTINUE, p\<lparr>request := Some req1\<rparr>, w1)
               else (let realm = stringbuffer_to_string L (stringbuffer_append L (stringbuffer_append_string L
                           (stringbuffer_append_string L (stringbuffer_new L) (''Basic realm='' @ [CHR 0x22])) (auth_realm context)) (CHR 0x22))
                     in respond (\<lambda>r. (add_header L ''WWW-Authenticate'' realm (r\<lparr>resp_code := HS_HTTP_RESPONSE_CODE_UNAUTHORIZED\<rparr>))
                                        \<lparr>resp_content_string := Some ''Unauthenticated''\<rparr>)
                          HS_SERVE_FLOW_RESPONSE_DONE (p\<lparr>request := Some req1\<rparr>) w1))
      | _ \<Rightarrow> ret (HS_SERVE_FLOW_RESPONSE_CONTINUE, p, w))"

definition hs_routes_security_basic_auth_route_new ::
  "('sb, 'pv, 'cv, 'dt, 'sh) libs \<Rightarrow> cstr \<Rightarrow> auth_function option \<Rightarrow> ('sb, 'pv, 'cv, 'dt) route option" where
  "hs_routes_security_basic_auth_route_new L realm auth_fun =
     (case (realm, auth_fun) of
        (Some r, Some f) \<Rightarrow>
          Some (hs_routes_common_serve_all_route_new
            \<lparr>serve := Some (hs_routes_security_basic_auth_route_serve L (Some \<lparr>auth_realm = r, auth = f\<rparr>)), release_route := Some ret\<rparr>)
      | _ \<Rightarrow> None)"

section \<open>The contract\<close>

interpretation security_headers: route_handler L "hs_routes_security_headers_route_serve L headers" for L headers
  by unfold_locales (auto simp: hs_routes_security_headers_route_serve_def intro: quiet_rules split: option.splits)

text \<open>An authentication function that leaves the connection alone makes a route that does.\<close>

definition world_quiet :: "int \<Rightarrow> world \<Rightarrow> world \<Rightarrow> bool" where
  "world_quiet fd w w1 \<longleftrightarrow> sent_bytes fd w1 = sent_bytes fd w \<and> eager fd w1 = eager fd w"

lemma world_quiet_outcome:
  assumes "route_entry fd p w" and "router_state p1 = router_state p" and "connection_state p1 = connection_state p"
    and "world_quiet fd w w1"
  shows "handler_outcome L fd p w r p1 w1"
  using assms by (simp add: handler_outcome_def quiet_def route_entry_def world_quiet_def)

lemma basic_auth_is_handler:
  assumes "\<And>fd a w. world_quiet fd w (snd (auth context a w))"
  shows "route_handler L (hs_routes_security_basic_auth_route_serve L (Some context))"
proof
  fix fd p w path r p1 w1
  assume entry: "route_entry fd p w"
    and run: "hs_routes_security_basic_auth_route_serve L (Some context) path p w = ret (r, p1, w1)"
  have check: "world_quiet fd w (snd (snd (basic_auth_check L context req w)))" for req
    using assms by (auto simp: basic_auth_check_def world_quiet_def case_prod_beta split: option.splits)
  show "handler_outcome L fd p w r p1 w1"
  proof (cases "request p = None \<or> response p = None")
    case True
    with run entry show ?thesis
      by (auto simp: hs_routes_security_basic_auth_route_serve_def intro: quiet_outcome split: option.splits)
  next
    case False
    then obtain req resp where q: "request p = Some req" "response p = Some resp" by auto
    obtain valid req1 w2 where c: "basic_auth_check L context req w = (valid, req1, w2)" by (metis surj_pair)
    with check [of req] have "world_quiet fd w w2" by simp
    with q c run show ?thesis
      by (intro world_quiet_outcome [OF entry])
        (auto simp: hs_routes_security_basic_auth_route_serve_def respond_def Let_def split: if_splits)
  qed
qed

section \<open>Properties\<close>

lemma basic_auth_check_valid:
  assumes "stringfn_ok L"
  shows "fst (basic_auth_check L context req w) \<longleftrightarrow>
    (\<exists>credentials. req_authorization req = Some (''Basic '' @ credentials) \<and> credentials \<noteq> []
       \<and> fst (auth context (Some credentials) w))"
proof (cases "req_authorization req")
  case None
  then show ?thesis by (simp add: basic_auth_check_def)
next
  case (Some a)
  show ?thesis
  proof (cases "prefix ''Basic '' a \<and> 6 < length a")
    case True
    then obtain credentials where a: "a = ''Basic '' @ credentials" "credentials \<noteq> []" by (auto elim: prefixE)
    have "snd (stringfn_mut_substring L a 6 0) = Some credentials"
      using stringfn_laws(6) [OF assms, of 6 a 0] a by simp
    with Some True a show ?thesis
      by (auto simp: basic_auth_check_def stringfn_laws [OF assms] split: prod.splits)
  next
    case False
    with Some show ?thesis by (auto simp: basic_auth_check_def stringfn_laws [OF assms])
  qed
qed

text \<open>
  C17. Basic authentication lets exactly the authenticated requests through: the route continues to
  the routes behind it if and only if the request carries an authorization of the form \<open>Basic x\<close>
  with a non-empty \<open>x\<close> that the authentication function accepts; every other request is answered,
  with the status 401.
\<close>

theorem basic_auth_only_authenticated:
  assumes "stringfn_ok L" and "request p = Some req" and "response p = Some resp"
    and "hs_routes_security_basic_auth_route_serve L (Some context) path p w = ret (r, p1, w1)"
  shows "if \<exists>credentials. req_authorization req = Some (''Basic '' @ credentials) \<and> credentials \<noteq> []
              \<and> fst (auth context (Some credentials) w)
         then r = HS_SERVE_FLOW_RESPONSE_CONTINUE \<and> response p1 = Some resp
         else r = HS_SERVE_FLOW_RESPONSE_DONE \<and> map_option resp_code (response p1) = Some HS_HTTP_RESPONSE_CODE_UNAUTHORIZED"
proof -
  obtain valid req1 w2 where c: "basic_auth_check L context req w = (valid, req1, w2)" by (metis surj_pair)
  have "r = HS_SERVE_FLOW_RESPONSE_CONTINUE \<and> response p1 = Some resp" if valid
    using that assms(2-4) c by (auto simp: hs_routes_security_basic_auth_route_serve_def)
  moreover have "r = HS_SERVE_FLOW_RESPONSE_DONE \<and> map_option resp_code (response p1) = Some HS_HTTP_RESPONSE_CODE_UNAUTHORIZED"
    if "\<not> valid"
    using that assms(2-4) c by (auto simp: hs_routes_security_basic_auth_route_serve_def respond_def Let_def add_header_def)
  ultimately show ?thesis using basic_auth_check_valid [OF assms(1), of "context" req w] c by auto
qed

theorem basic_auth_only_authenticated_witness:
  "\<exists>r p1 w1. hs_routes_security_basic_auth_route_serve reference_libs
      (Some \<lparr>auth_realm = ''r'', auth = (\<lambda>a w. (a = Some ''secret'', w))\<rparr>) None demo_flow (connection [] []) = ret (r, p1, w1)
    \<and> r = HS_SERVE_FLOW_RESPONSE_DONE"
proof -
  let ?c = "\<lparr>auth_realm = ''r'', auth = (\<lambda>a w. (a = Some ''secret'', w))\<rparr>"
  obtain r p1 w1 where run: "hs_routes_security_basic_auth_route_serve reference_libs (Some ?c) None demo_flow (connection [] []) = ret (r, p1, w1)"
    by (simp add: hs_routes_security_basic_auth_route_serve_def basic_auth_check_def respond_def Let_def
        hs_types_http_request_new_def)
  from basic_auth_only_authenticated [OF reference_ok(1) demo_flow_simps(1,2) run]
  have "r = HS_SERVE_FLOW_RESPONSE_DONE" by (simp add: hs_types_http_request_new_def)
  with run show ?thesis by blast
qed

end
