(* ===== verification/Routes_Session.thy ===== *)
theory Routes_Session
  imports Routes_Basic Routes_Security
begin

text \<open>
  The session route of \<open>src/hs_routes_session.c\<close>: the route, the callback that stores the session
  after the response, and the default functions (random ids, ini text, one file per session). The
  user's functions are fields of the route's context. Releasing a session leaves its pointer in
  the data table behind.
\<close>

section \<open>State\<close>

record 'sh HSSessionRouteContext =
  route_cookie_name :: string
  route_session_name :: string
  generate_cookie_id :: "world \<Rightarrow> cstr \<times> world"
  modify_cookie :: "(HSCookie \<Rightarrow> HSCookie) option"
  to_string :: "'sh HSSession \<Rightarrow> cstr"
  from_string :: "'sh HSSession \<Rightarrow> string \<Rightarrow> 'sh HSSession"
  read_from_storage :: "cstr \<Rightarrow> world \<Rightarrow> cstr \<times> world"
  write_to_storage :: "cstr \<Rightarrow> cstr \<Rightarrow> world \<Rightarrow> bool \<times> world"
  release_context :: "(nat \<Rightarrow> world \<Rightarrow> world) option"
  user_context :: "nat option"

definition hs_routes_session_new_session ::
  "('sb, 'pv, 'cv, 'dt, 'sh) libs \<Rightarrow> 'sh HSSession" where
  "hs_routes_session_new_session L = \<lparr>session_id = None, session_data = hashtable_new (session_table L)\<rparr>"

definition hs_routes_session_new_cookie :: "cstr \<Rightarrow> cstr \<Rightarrow> HSCookie option" where
  "hs_routes_session_new_cookie name sid =
     (case (name, sid) of
        (Some n, Some i) \<Rightarrow>
          Some (hs_types_cookie_new\<lparr>cookie_name := Some n, cookie_value := Some i, cookie_secure := True,
            cookie_http_only := True, cookie_same_site := HS_COOKIE_SAME_SITE_STRICT,
            cookie_max_age := 2 * 365 * 24 * 60 * 60\<rparr>)
      | _ \<Rightarrow> None)"

section \<open>The default functions\<close>

definition hs_routes_session_route_generate_cookie_id ::
  "('sb, 'pv, 'cv, 'dt, 'sh) libs \<Rightarrow> world \<Rightarrow> cstr \<times> world" where
  "hs_routes_session_route_generate_cookie_id L w =
     (case c_rand w of
        (r1, w1) \<Rightarrow>
          (let b = stringbuffer_append_long L (stringbuffer_append_int L (stringbuffer_new L) r1) (c_time w1)
           in case c_rand w1 of
                (r2, w2) \<Rightarrow>
                  (Some (stringbuffer_to_string L (stringbuffer_append_string L (stringbuffer_append_int L b r2) ''SID'')), w2)))"

definition HS_ROUTES_SESSION_INI_SECTION_NAME :: string where
  "HS_ROUTES_SESSION_INI_SECTION_NAME = ''session''"

definition hs_routes_session_route_session_to_string ::
  "('sb, 'pv, 'cv, 'dt, 'sh) libs \<Rightarrow> 'sh HSSession option \<Rightarrow> cstr" where
  "hs_routes_session_route_session_to_string L session =
     (case session of
        None \<Rightarrow> None
      | Some s \<Rightarrow>
          (let count = hashtable_size (session_table L) (session_data s)
           in if count = 0 then Some []
              else (let entries = hashtable_entries (session_table L) (session_data s);
                        section = \<lparr>ini_section_name = Some HS_ROUTES_SESSION_INI_SECTION_NAME,
                          ini_key_value_pairs = map (\<lambda>(k, v). Some \<lparr>ini_key = Some k, ini_value = Some v\<rparr>) (take count entries)\<rparr>
                    in ini_to_string L \<lparr>ini_sections = [Some section]\<rparr>)))"

definition insert_ini_pair ::
  "('sb, 'pv, 'cv, 'dt, 'sh) libs \<Rightarrow> IniKeyValue option \<Rightarrow> 'sh \<Rightarrow> 'sh" where
  "insert_ini_pair L kv h =
     (case kv of
        None \<Rightarrow> h
      | Some p \<Rightarrow>
          (case (ini_key p, ini_value p) of
             (Some k, Some v) \<Rightarrow> hashtable_insert (session_table L) h k v
           | _ \<Rightarrow> h))"

primrec session_from_sections ::
  "('sb, 'pv, 'cv, 'dt, 'sh) libs \<Rightarrow> IniSection option list \<Rightarrow> 'sh \<Rightarrow> 'sh" where
  \<comment> \<open>the first section of the name, then \<open>break\<close>\<close>
  "session_from_sections L [] h = h"
| "session_from_sections L (sec # secs) h =
     (case sec of
        None \<Rightarrow> session_from_sections L secs h
      | Some s \<Rightarrow>
          if stringfn_equal L (ini_section_name s) (Some HS_ROUTES_SESSION_INI_SECTION_NAME)
          then fold (insert_ini_pair L) (ini_key_value_pairs s) h
          else session_from_sections L secs h)"

definition hs_routes_session_route_session_from_string ::
  "('sb, 'pv, 'cv, 'dt, 'sh) libs \<Rightarrow> 'sh HSSession option \<Rightarrow> cstr \<Rightarrow> 'sh HSSession option" where
  "hs_routes_session_route_session_from_string L session session_string =
     (case (session, session_string) of
        (Some s, Some text) \<Rightarrow>
          (case ini_parse_string L text of
             None \<Rightarrow> session
           | Some ini \<Rightarrow> Some (s\<lparr>session_data := session_from_sections L (ini_sections ini) (session_data s)\<rparr>))
      | _ \<Rightarrow> session)"

definition hs_routes_session_get_file_for_session_id ::
  "('sb, 'pv, 'cv, 'dt, 'sh) libs \<Rightarrow> cstr \<Rightarrow> cstr" where
  "hs_routes_session_get_file_for_session_id L sid =
     (case sid of
        None \<Rightarrow> None
      | Some i \<Rightarrow> Some (stringbuffer_to_string L (stringbuffer_append_string L
                     (stringbuffer_append_string L (stringbuffer_new L) ''./sessions/'') i)))"

definition hs_routes_session_route_session_read_from_file_based_storage ::
  "('sb, 'pv, 'cv, 'dt, 'sh) libs \<Rightarrow> cstr \<Rightarrow> world \<Rightarrow> cstr \<times> world" where
  "hs_routes_session_route_session_read_from_file_based_storage L sid w =
     (case hs_routes_session_get_file_for_session_id L sid of
        None \<Rightarrow> (None, w)
      | Some file \<Rightarrow> (fsio_read_text_file L file w, w))"

definition hs_routes_session_route_session_write_to_file_based_storage ::
  "('sb, 'pv, 'cv, 'dt, 'sh) libs \<Rightarrow> cstr \<Rightarrow> cstr \<Rightarrow> world \<Rightarrow> bool \<times> world" where
  "hs_routes_session_route_session_write_to_file_based_storage L sid session_string w =
     (case hs_routes_session_get_file_for_session_id L sid of
        None \<Rightarrow> (False, w)
      | Some file \<Rightarrow>
          if session_string = None \<and> fsio_file_exists L file w then (True, fsio_remove L file w)
          else fsio_write_text_file L file session_string w)"

definition HS_DEFAULT_SESSION_COOKIE_NAME :: string where
  "HS_DEFAULT_SESSION_COOKIE_NAME = ''sc''"

definition HS_DEFAULT_SESSION_STATE_NAME :: string where
  "HS_DEFAULT_SESSION_STATE_NAME = ''http-session''"

section \<open>The callback\<close>

definition hs_routes_session_callback_run ::
  "('sb, 'pv, 'cv, 'dt, 'sh) libs \<Rightarrow> 'sh HSSessionRouteContext \<Rightarrow> cstr
    \<Rightarrow> ('sb, 'pv, 'cv, 'dt) HSServeFlowEnv \<Rightarrow> world \<Rightarrow> (('sb, 'pv, 'cv, 'dt) HSServeFlowEnv \<times> world) run" where
  \<comment> \<open>the session is released, and the table keeps its pointer\<close>
  "hs_routes_session_callback_run L context sid env w =
     (case (sid, route_state env) of
        (Some _, Some rs) \<Rightarrow>
          (case hashtable_get (state_table L) (route_data rs) (route_session_name context) of
             None \<Rightarrow> ret (env, w)
           | Some ReleasedSession \<Rightarrow> ub UseAfterFree
           | Some (OtherValue _) \<Rightarrow> ub OutOfBounds
           | Some (SessionValue session) \<Rightarrow>
               (let session_string = to_string context session;
                    env1 = env\<lparr>route_state := Some (rs\<lparr>route_data :=
                      hashtable_insert (state_table L) (route_data rs) (route_session_name context) ReleasedSession\<rparr>)\<rparr>
                in if session_string = None then ret (env1, w)
                   else ret (env1, snd (write_to_storage context sid session_string w))))
      | _ \<Rightarrow> ret (env, w))"

section \<open>The route\<close>

definition session_open ::
  "('sb, 'pv, 'cv, 'dt, 'sh) libs \<Rightarrow> 'sh HSSessionRouteContext \<Rightarrow> HSCookie option \<Rightarrow> world
    \<Rightarrow> cstr \<times> 'sh HSSession \<times> world" where
  \<comment> \<open>the first part of the handler: the session id, the session loaded for it\<close>
  "session_open L context cookie w =
     (case (case (case cookie of None \<Rightarrow> None | Some c \<Rightarrow> cookie_value c) of
              Some v \<Rightarrow> (Some v, w)
            | None \<Rightarrow> generate_cookie_id context w) of
        (sid, w1) \<Rightarrow>
          (let session = hs_routes_session_new_session L
           in case read_from_storage context sid w1 of
                (Some text, w2) \<Rightarrow> (sid, from_string context session text, w2)
              | (None, w2) \<Rightarrow>
                  (case generate_cookie_id context w2 of (sid1, w3) \<Rightarrow> (sid1, session, w3))))"

definition hs_routes_session_route_serve ::
  "('sb, 'pv, 'cv, 'dt, 'sh) libs \<Rightarrow> 'sh HSSessionRouteContext option \<Rightarrow> ('sb, 'pv, 'cv, 'dt) flow serve_function" where
  "hs_routes_session_route_serve L extension path p w =
     (case extension of
        None \<Rightarrow> ret (HS_SERVE_FLOW_RESPONSE_CONTINUE, p, w)
      | Some context \<Rightarrow>
          (case request p of
             None \<Rightarrow> ub NullDeref
           | Some req \<Rightarrow>
               bindR (hs_types_cookies_get_by_name L (req_cookies req) (Some (route_cookie_name context)))
                 (\<lambda>cookie.
                    case session_open L context cookie w of
                      (None, _, _) \<Rightarrow> ub NullDeref
                    | (Some sid, session, w1) \<Rightarrow>
                        (case (response p, route_state p) of
                           (Some resp, Some rs) \<Rightarrow>
                             (let new_cookie = map_option (case modify_cookie context of None \<Rightarrow> id | Some f \<Rightarrow> f)
                                    (hs_routes_session_new_cookie (Some (route_cookie_name context)) (Some sid));
                                  resp1 = resp\<lparr>resp_cookies := snd (hs_types_cookies_add L (resp_cookies resp) new_cookie)\<rparr>;
                                  rs1 = rs\<lparr>route_data := hashtable_insert (state_table L) (route_data rs)
                                    (route_session_name context) (SessionValue (session\<lparr>session_id := Some sid\<rparr>))\<rparr>;
                                  callback = hs_types_post_response_callback_new
                                    \<lparr>callback_run := Some (hs_routes_session_callback_run L context (Some sid)),
                                     callback_release := Some ret\<rparr>
                              in bindR (hs_types_post_response_callbacks_add (callbacks p) (Some callback))
                                   (\<lambda>(_, cbs). ret (HS_SERVE_FLOW_RESPONSE_CONTINUE,
                                      p\<lparr>response := Some resp1, route_state := Some rs1, callbacks := cbs\<rparr>, w1)))
                         | _ \<Rightarrow> ub NullDeref))))"

definition hs_routes_session_route_release :: "'sh HSSessionRouteContext option \<Rightarrow> world \<Rightarrow> world run" where
  "hs_routes_session_route_release extension w =
     (case extension of
        None \<Rightarrow> ret w
      | Some context \<Rightarrow>
          (case (release_context context, user_context context) of
             (Some release, Some c) \<Rightarrow> ret (release c w)
           | _ \<Rightarrow> ret w))"

definition hs_routes_session_route_new ::
  "('sb, 'pv, 'cv, 'dt, 'sh) libs \<Rightarrow> cstr \<Rightarrow> cstr \<Rightarrow> (world \<Rightarrow> cstr \<times> world) option
    \<Rightarrow> (HSCookie \<Rightarrow> HSCookie) option \<Rightarrow> ('sh HSSession \<Rightarrow> cstr) option
    \<Rightarrow> ('sh HSSession \<Rightarrow> string \<Rightarrow> 'sh HSSession) option \<Rightarrow> (cstr \<Rightarrow> world \<Rightarrow> cstr \<times> world) option
    \<Rightarrow> (cstr \<Rightarrow> cstr \<Rightarrow> world \<Rightarrow> bool \<times> world) option \<Rightarrow> (nat \<Rightarrow> world \<Rightarrow> world) option \<Rightarrow> nat option
    \<Rightarrow> ('sb, 'pv, 'cv, 'dt) route option" where
  "hs_routes_session_route_new L cname sname gen modify to_s from_s read write release_ctx ctx =
     (case (cname, sname, gen, to_s, from_s, read, write) of
        (Some c, Some s, Some g, Some ts, Some fs, Some rd, Some wr) \<Rightarrow>
          (let context = \<lparr>route_cookie_name = c, route_session_name = s, generate_cookie_id = g, modify_cookie = modify,
                  to_string = ts, from_string = fs, read_from_storage = rd, write_to_storage = wr,
                  release_context = release_ctx, user_context = ctx\<rparr>
           in Some (hs_routes_common_serve_all_route_new\<lparr>serve := Some (hs_routes_session_route_serve L (Some context)),
                release_route := Some (hs_routes_session_route_release (Some context))\<rparr>))
      | _ \<Rightarrow> None)"

definition default_session_context ::
  "('sb, 'pv, 'cv, 'dt, 'sh) libs \<Rightarrow> 'sh HSSessionRouteContext" where
  "default_session_context L =
     \<lparr>route_cookie_name = HS_DEFAULT_SESSION_COOKIE_NAME, route_session_name = HS_DEFAULT_SESSION_STATE_NAME,
      generate_cookie_id = hs_routes_session_route_generate_cookie_id L, modify_cookie = None,
      to_string = (\<lambda>s. hs_routes_session_route_session_to_string L (Some s)),
      from_string = (\<lambda>s text. case hs_routes_session_route_session_from_string L (Some s) (Some text) of
                        None \<Rightarrow> s | Some s1 \<Rightarrow> s1),
      read_from_storage = hs_routes_session_route_session_read_from_file_based_storage L,
      write_to_storage = hs_routes_session_route_session_write_to_file_based_storage L,
      release_context = None, user_context = None\<rparr>"

definition hs_routes_session_route_new_default ::
  "('sb, 'pv, 'cv, 'dt, 'sh) libs \<Rightarrow> ('sb, 'pv, 'cv, 'dt) route option" where
  "hs_routes_session_route_new_default L =
     (let c = default_session_context L
      in hs_routes_session_route_new L (Some (route_cookie_name c)) (Some (route_session_name c))
           (Some (generate_cookie_id c)) (modify_cookie c) (Some (to_string c)) (Some (from_string c))
           (Some (read_from_storage c)) (Some (write_to_storage c)) (release_context c) (user_context c))"

section \<open>The contract of the handler\<close>

lemma world_quiet_refl [simp]: "world_quiet fd w w"
  by (simp add: world_quiet_def)

lemma world_quiet_trans: "world_quiet fd w w1 \<Longrightarrow> world_quiet fd w1 w2 \<Longrightarrow> world_quiet fd w w2"
  by (simp add: world_quiet_def)

lemma world_quiet_rand: "world_quiet fd w (snd (c_rand w))"
  by (auto simp: world_quiet_def c_rand_def sent_bytes_def eager_def split: list.splits option.splits)

lemma generate_cookie_id_quiet: "world_quiet fd w (snd (hs_routes_session_route_generate_cookie_id L w))"
  unfolding hs_routes_session_route_generate_cookie_id_def
  using world_quiet_trans [OF world_quiet_rand world_quiet_rand] by (simp add: case_prod_beta Let_def)

lemma file_read_unchanged: "snd (hs_routes_session_route_session_read_from_file_based_storage L sid w) = w"
  by (simp add: hs_routes_session_route_session_read_from_file_based_storage_def split: option.split)

lemma session_open_quiet:
  assumes "\<And>w. world_quiet fd w (snd (generate_cookie_id context w))"
    and "\<And>i w. world_quiet fd w (snd (read_from_storage context i w))"
  shows "world_quiet fd w (snd (snd (session_open L context cookie w)))"
proof -
  have g: "generate_cookie_id context w = (i, w1) \<Longrightarrow> world_quiet fd w w1" for w i w1
    using assms(1) [of w] by simp
  have rd: "read_from_storage context j w = (i, w1) \<Longrightarrow> world_quiet fd w w1" for w i w1 j
    using assms(2) [of w j] by simp
  show ?thesis
    by (auto simp: session_open_def Let_def split: option.splits prod.splits dest!: g rd intro: world_quiet_trans)
qed

definition session_callback ::
  "('sb, 'pv, 'cv, 'dt, 'sh) libs \<Rightarrow> 'sh HSSessionRouteContext \<Rightarrow> string
    \<Rightarrow> ('sb, 'pv, 'cv, 'dt) HSServeFlowEnv HSPostResponseCallback" where
  "session_callback L context sid =
     hs_types_post_response_callback_new
       \<lparr>callback_run := Some (hs_routes_session_callback_run L context (Some sid)), callback_release := Some ret\<rparr>"

definition session_cookie :: "'sh HSSessionRouteContext \<Rightarrow> string \<Rightarrow> HSCookie option" where
  "session_cookie context sid = map_option (case modify_cookie context of None \<Rightarrow> id | Some f \<Rightarrow> f)
     (hs_routes_session_new_cookie (Some (route_cookie_name context)) (Some sid))"

definition with_session ::
  "('sb, 'pv, 'cv, 'dt, 'sh) libs \<Rightarrow> 'sh HSSessionRouteContext \<Rightarrow> string \<Rightarrow> 'sh HSSession
    \<Rightarrow> ('pv, 'cv) HSHttpResponse \<Rightarrow> ('pv, 'dt) HSRouteFlowState \<Rightarrow> ('sb, 'pv, 'cv, 'dt) flow_callbacks option
    \<Rightarrow> ('sb, 'pv, 'cv, 'dt) flow \<Rightarrow> ('sb, 'pv, 'cv, 'dt) flow" where
  \<comment> \<open>what the handler leaves in the flow\<close>
  "with_session L context sid session resp rs cbs p =
     p\<lparr>response := Some (resp\<lparr>resp_cookies := snd (hs_types_cookies_add L (resp_cookies resp) (session_cookie context sid))\<rparr>),
       route_state := Some (rs\<lparr>route_data := hashtable_insert (state_table L) (route_data rs)
         (route_session_name context) (SessionValue (session\<lparr>session_id := Some sid\<rparr>))\<rparr>),
       callbacks := cbs\<rparr>"

lemma session_serveE:
  assumes "hs_routes_session_route_serve L (Some context) path p w = ret (r, p1, w1)"
  obtains req cookie sid session resp rs b cbs where "request p = Some req"
    "hs_types_cookies_get_by_name L (req_cookies req) (Some (route_cookie_name context)) = ret cookie"
    "session_open L context cookie w = (Some sid, session, w1)" "response p = Some resp" "route_state p = Some rs"
    "hs_types_post_response_callbacks_add (callbacks p) (Some (session_callback L context sid)) = ret (b, cbs)"
    "r = HS_SERVE_FLOW_RESPONSE_CONTINUE" "p1 = with_session L context sid session resp rs cbs p"
proof -
  from assms obtain req where req: "request p = Some req"
    by (cases "request p") (simp_all add: hs_routes_session_route_serve_def)
  from assms [unfolded hs_routes_session_route_serve_def option.case req] obtain cookie where
    cookie: "hs_types_cookies_get_by_name L (req_cookies req) (Some (route_cookie_name context)) = ret cookie"
    by (auto elim: bindR_retE)
  note run = assms [unfolded hs_routes_session_route_serve_def option.case req cookie bindR_simps]
  obtain sido session w0 where opened: "session_open L context cookie w = (sido, session, w0)" by (cases "session_open L context cookie w")
  from run opened obtain sid where sid: "sido = Some sid" by (cases sido) simp_all
  from run opened sid obtain resp rs where parts: "response p = Some resp" "route_state p = Some rs"
    by (cases "response p"; cases "route_state p") simp_all
  from run [unfolded opened sid prod.case option.case parts Let_def] obtain x where
    add: "hs_types_post_response_callbacks_add (callbacks p) (Some (session_callback L context sid)) = ret x"
    by (auto simp: session_callback_def elim: bindR_retE)
  from run [unfolded opened sid prod.case option.case parts Let_def, folded session_callback_def session_cookie_def] add
  have "r = HS_SERVE_FLOW_RESPONSE_CONTINUE" "p1 = with_session L context sid session resp rs (snd x) p" "w1 = w0"
    by (auto simp: with_session_def case_prod_beta)
  with req cookie opened sid parts add show thesis by (cases x) (auto intro: that)
qed

lemma session_serve_spec:
  assumes "request p = Some req" and "response p = Some resp" and "route_state p = Some rs"
    and "hs_types_cookies_get_by_name L (req_cookies req) (Some (route_cookie_name context)) = ret cookie"
    and "session_open L context cookie w = (Some sid, session, w1)" and "callbacks p = Some cbs" and "callbacks_wf cbs"
  shows "\<exists>cbs1. hs_routes_session_route_serve L (Some context) path p w
        = ret (HS_SERVE_FLOW_RESPONSE_CONTINUE, with_session L context sid session resp rs (Some cbs1) p, w1)
      \<and> callbacks_wf cbs1 \<and> callback_list cbs1 = callback_list cbs @ [session_callback L context sid]"
proof -
  from callbacks_add_spec [OF assms(7), of "session_callback L context sid"] obtain cbs1 where
    "hs_types_post_response_callbacks_add (Some cbs) (Some (session_callback L context sid)) = ret (True, Some cbs1)"
    "callbacks_wf cbs1" "callback_list cbs1 = callback_list cbs @ [session_callback L context sid]" by blast
  then show ?thesis
    by (intro exI [of _ cbs1]) (simp add: hs_routes_session_route_serve_def assms session_callback_def session_cookie_def with_session_def)
qed

lemma session_route_is_handler:
  assumes "\<And>fd w. world_quiet fd w (snd (generate_cookie_id context w))"
    and "\<And>fd i w. world_quiet fd w (snd (read_from_storage context i w))"
  shows "route_handler L (hs_routes_session_route_serve L (Some context))"
proof
  fix fd p w path r p1 w1
  assume entry: "route_entry fd p w"
    and run: "hs_routes_session_route_serve L (Some context) path p w = ret (r, p1, w1)"
  from run show "handler_outcome L fd p w r p1 w1"
  proof (rule session_serveE)
    fix cookie sid session resp rs cbs
    assume opened: "session_open L context cookie w = (Some sid, session, w1)"
      and p1: "p1 = with_session L context sid session resp rs cbs p"
    from opened session_open_quiet [where L = L and cookie = cookie and w = w and fd = fd, OF assms]
    have "world_quiet fd w w1" by simp
    with entry p1 show ?thesis by (intro world_quiet_outcome) (simp_all add: with_session_def)
  qed
qed

interpretation session: route_handler L "hs_routes_session_route_serve L (Some (default_session_context L))" for L
  by (rule session_route_is_handler)
    (simp_all add: default_session_context_def generate_cookie_id_quiet file_read_unchanged)

section \<open>Storing and loading\<close>

definition content_of :: "('sb, 'pv, 'cv, 'dt, 'sh) libs \<Rightarrow> 'sh HSSession \<Rightarrow> string \<rightharpoonup> string" where
  "content_of L s = hashtable_get (session_table L) (session_data s)"

definition storable :: "('sb, 'pv, 'cv, 'dt, 'sh) libs \<Rightarrow> 'sh HSSession \<Rightarrow> bool" where
  \<comment> \<open>keys and values the ini format keeps\<close>
  "storable L s \<longleftrightarrow> list_all (\<lambda>(k, v). plain_word k \<and> plain_word v) (hashtable_entries (session_table L) (session_data s))"

text \<open>
  What the session route relies on: the text written under an id is what is read under it, and the
  two text functions are inverse to each other up to the content of the session.
\<close>

locale session_store =
  fixes lawful :: bool
    and storable_session :: "'s \<Rightarrow> bool"
    and content :: "'s \<Rightarrow> string \<rightharpoonup> string"
    and encode :: "'s \<Rightarrow> cstr"
    and decode :: "string \<Rightarrow> 's"
    and read_session :: "cstr \<Rightarrow> world \<Rightarrow> cstr \<times> world"
    and write_session :: "cstr \<Rightarrow> cstr \<Rightarrow> world \<Rightarrow> bool \<times> world"
  assumes write_read: "lawful \<Longrightarrow> write_session (Some i) (Some t) w = (True, w1) \<Longrightarrow> read_session (Some i) w1 = (Some t, w1)"
    and write_frame: "lawful \<Longrightarrow> write_session (Some i) (Some t) w = (True, w1) \<Longrightarrow> j \<noteq> i
      \<Longrightarrow> fst (read_session (Some j) w1) = fst (read_session (Some j) w)"
    and encode_decode: "lawful \<Longrightarrow> storable_session s \<Longrightarrow> \<exists>t. encode s = Some t \<and> content (decode t) = content s"
begin

lemma survives:
  assumes "lawful" and "storable_session s" and "write_session (Some i) (encode s) w = (True, w1)"
  obtains t where "read_session (Some i) w1 = (Some t, w1)" "content (decode t) = content s"
proof -
  from encode_decode [OF assms(1,2)] obtain t where t: "encode s = Some t" "content (decode t) = content s" by blast
  with assms write_read show thesis by (auto intro: that)
qed

lemma isolated:
  assumes "lawful" and "storable_session s" and "write_session (Some i) (encode s) w = (True, w1)" and "j \<noteq> i"
  shows "fst (read_session (Some j) w1) = fst (read_session (Some j) w)"
  using encode_decode [OF assms(1,2)] write_frame [OF assms(1)] assms(3,4) by metis

end

lemma insert_pairs_get:
  assumes "hashtable_ok (session_table L)"
  shows "hashtable_get (session_table L)
      (fold (insert_ini_pair L) (map (\<lambda>(k, v). Some \<lparr>ini_key = Some k, ini_value = Some v\<rparr>) pairs) h) x
    = (case map_of (rev pairs) x of None \<Rightarrow> hashtable_get (session_table L) h x | Some v \<Rightarrow> Some v)"
  by (induction pairs arbitrary: h)
    (auto simp: insert_ini_pair_def hashtable_laws [OF assms] map_add_def split: option.split)

lemma session_text_round_trip:
  assumes "libs_ok L" and "ini_ok L" and "storable L s"
  shows "\<exists>t s1. hs_routes_session_route_session_to_string L (Some s) = Some t
    \<and> hs_routes_session_route_session_from_string L (Some (hs_routes_session_new_session L)) (Some t) = Some s1
    \<and> content_of L s1 = content_of L s"
proof -
  note ht = hashtable_laws [OF libs_ok_parts(6) [OF assms(1)]]
  let ?e = "hashtable_entries (session_table L) (session_data s)"
  show ?thesis
  proof (cases "?e = []")
    case True
    have "ini_sections ini = []" if "ini_parse_string L [] = Some ini" for ini
      using assms(2) that by (simp add: ini_ok_def)
    moreover have "content_of L s = Map.empty"
      using True ht(5) [of "session_data s"] by (auto simp: content_of_def)
    ultimately show ?thesis using True
      by (auto simp: hs_routes_session_route_session_to_string_def hs_routes_session_route_session_from_string_def ht
          hs_routes_session_new_session_def content_of_def split: option.splits)
  next
    case False
    let ?i = "one_section HS_ROUTES_SESSION_INI_SECTION_NAME ?e"
    have "plain_word HS_ROUTES_SESSION_INI_SECTION_NAME" by code_simp
    with assms(2,3) False ht(4) obtain t where t: "ini_to_string L ?i = Some t" "ini_parse_string L t = Some ?i"
      unfolding ini_ok_def storable_def by blast
    have rev: "map_of (rev ?e) = map_of ?e"
      using ht(4) [of "session_data s"] by (intro map_of_eqI) (auto simp: rev_map [symmetric] intro: map_of_eq_Some_iff [THEN iffD2] simp: distinct_map)
    define s1 where "s1 = (hs_routes_session_new_session L)\<lparr>session_data :=
      fold (insert_ini_pair L) (map (\<lambda>(k, v). Some \<lparr>ini_key = Some k, ini_value = Some v\<rparr>) ?e) (hashtable_new (session_table L))\<rparr>"
    have "hs_routes_session_route_session_to_string L (Some s) = Some t"
      using t(1) False by (simp add: hs_routes_session_route_session_to_string_def ht one_section_def Let_def)
    moreover have "hs_routes_session_route_session_from_string L (Some (hs_routes_session_new_session L)) (Some t) = Some s1"
      using t(2) stringfn_laws(1) [OF libs_ok_parts(1) [OF assms(1)]]
      by (simp add: hs_routes_session_route_session_from_string_def one_section_def s1_def hs_routes_session_new_session_def)
    moreover have "content_of L s1 = content_of L s"
      by (rule ext) (simp add: content_of_def s1_def insert_pairs_get [OF libs_ok_parts(6) [OF assms(1)]] rev ht option.case_eq_if)
    ultimately show ?thesis by blast
  qed
qed

lemma file_for_session_id:
  "libs_ok L \<Longrightarrow> hs_routes_session_get_file_for_session_id L (Some i) = Some (''./sessions/'' @ i)"
  by (simp add: hs_routes_session_get_file_for_session_id_def stringbuffer_laws [OF libs_ok_parts(2)])

lemma fsio_laws:
  assumes "fsio_ok L"
  shows "fsio_read_text_file L p w = files w p" "fsio_file_exists L p w = (files w p \<noteq> None)"
    "fst (fsio_write_text_file L p (Some s) w) \<Longrightarrow>
       snd (fsio_write_text_file L p (Some s) w) = w\<lparr>files := (files w)(p \<mapsto> s)\<rparr>"
  using assms unfolding fsio_ok_def by (elim conjE, blast)+

interpretation file_store: session_store "libs_ok L \<and> fsio_ok L \<and> ini_ok L" "storable L" "content_of L"
  "to_string (default_session_context L)" "from_string (default_session_context L) (hs_routes_session_new_session L)"
  "hs_routes_session_route_session_read_from_file_based_storage L"
  "hs_routes_session_route_session_write_to_file_based_storage L" for L
proof
  fix i t w w1
  assume ok: "libs_ok L \<and> fsio_ok L \<and> ini_ok L"
    and "hs_routes_session_route_session_write_to_file_based_storage L (Some i) (Some t) w = (True, w1)"
  then have w1: "w1 = w\<lparr>files := (files w)(''./sessions/'' @ i \<mapsto> t)\<rparr>"
    using fsio_laws(3) [of L "''./sessions/'' @ i" t w]
    by (simp add: hs_routes_session_route_session_write_to_file_based_storage_def file_for_session_id)
  with ok show "hs_routes_session_route_session_read_from_file_based_storage L (Some i) w1 = (Some t, w1)"
    by (simp add: hs_routes_session_route_session_read_from_file_based_storage_def file_for_session_id fsio_laws)
  from w1 ok show "j \<noteq> i \<Longrightarrow> fst (hs_routes_session_route_session_read_from_file_based_storage L (Some j) w1)
      = fst (hs_routes_session_route_session_read_from_file_based_storage L (Some j) w)" for j
    by (simp add: hs_routes_session_route_session_read_from_file_based_storage_def file_for_session_id fsio_laws)
next
  fix s
  assume "libs_ok L \<and> fsio_ok L \<and> ini_ok L" and "storable L s"
  then show "\<exists>t. to_string (default_session_context L) s = Some t
      \<and> content_of L (from_string (default_session_context L) (hs_routes_session_new_session L) t) = content_of L s"
    using session_text_round_trip [of L s] by (auto simp: default_session_context_def)
qed

section \<open>Sessions in a flow\<close>

definition session_in ::
  "('sb, 'pv, 'cv, 'dt, 'sh) libs \<Rightarrow> ('sb, 'pv, 'cv, 'dt, 'x) HSServeFlowEnv_scheme \<Rightarrow> string \<Rightarrow> 'sh HSSession option" where
  \<comment> \<open>the session a route finds under the name in the data of the route state\<close>
  "session_in L e name =
     (case route_state e of
        None \<Rightarrow> None
      | Some rs \<Rightarrow>
          (case hashtable_get (state_table L) (route_data rs) name of
             Some (SessionValue s) \<Rightarrow> Some s
           | _ \<Rightarrow> None))"

lemma session_in_with_session [simp]:
  assumes "libs_ok L"
  shows "session_in L (with_session L context sid session resp rs cbs p) (route_session_name context)
    = Some (session\<lparr>session_id := Some sid\<rparr>)"
  by (simp add: session_in_def with_session_def hashtable_laws [OF libs_ok_parts(5) [OF assms]])

lemma default_session_open:
  assumes "libs_ok L" and "fsio_ok L" and "cookie_value ck = Some v"
  shows "session_open L (default_session_context L) (Some ck) w =
    (case files w (''./sessions/'' @ v) of
       Some text \<Rightarrow> (Some v, from_string (default_session_context L) (hs_routes_session_new_session L) text, w)
     | None \<Rightarrow> (case hs_routes_session_route_generate_cookie_id L w of (i, w1) \<Rightarrow> (i, hs_routes_session_new_session L, w1)))"
  by (simp add: session_open_def assms(3) default_session_context_def file_for_session_id [OF assms(1)]
      hs_routes_session_route_session_read_from_file_based_storage_def fsio_laws [OF assms(2)] Let_def split: option.split)

lemma default_names [simp]:
  "route_cookie_name (default_session_context L) = ''sc''" "route_session_name (default_session_context L) = ''http-session''"
  "write_to_storage (default_session_context L) = hs_routes_session_route_session_write_to_file_based_storage L"
  by (simp_all add: default_session_context_def HS_DEFAULT_SESSION_COOKIE_NAME_def HS_DEFAULT_SESSION_STATE_NAME_def)

lemma session_callback_run_spec:
  assumes "libs_ok L" and "session_in L e (route_session_name context) = Some s"
  obtains e1 where "hs_routes_session_callback_run L context (Some i) e w
      = ret (e1, if to_string context s = None then w else snd (write_to_storage context (Some i) (to_string context s) w))"
    "\<exists>rs. route_state e1 = Some rs \<and> hashtable_get (state_table L) (route_data rs) (route_session_name context) = Some ReleasedSession"
proof -
  from assms(2) obtain rs where rs: "route_state e = Some rs"
    "hashtable_get (state_table L) (route_data rs) (route_session_name context) = Some (SessionValue s)"
    by (auto simp: session_in_def split: option.splits route_value.splits)
  let ?e1 = "e\<lparr>route_state := Some (rs\<lparr>route_data :=
    hashtable_insert (state_table L) (route_data rs) (route_session_name context) ReleasedSession\<rparr>)\<rparr>"
  show thesis
    by (rule that [of ?e1])
      (simp_all add: hs_routes_session_callback_run_def rs Let_def hashtable_laws [OF libs_ok_parts(5) [OF assms(1)]])
qed

lemma session_callback_run_released:
  assumes "route_state e = Some rs"
    and "hashtable_get (state_table L) (route_data rs) (route_session_name context) = Some ReleasedSession"
  shows "hs_routes_session_callback_run L context (Some i) e w = ub UseAfterFree"
  using assms by (simp add: hs_routes_session_callback_run_def)

lemma run_callbacks_list:
  assumes "callbacks p = Some cbs" and "callbacks_wf cbs"
  shows "hs_router_run_callbacks p w
    = bindR (run_in_order (rev (callback_list cbs)) (HSServeFlowEnv.truncate p) w) (\<lambda>(e, w1). ret (put_env e p, w1))"
  using run_callbacks_loop_rev [OF assms(2) order_refl] callbacks_length [OF assms(2)] assms(1)
  by (simp add: hs_router_run_callbacks_def)

lemma session_in_truncate [simp]: "session_in L (HSServeFlowEnv.truncate p) name = session_in L p name"
  by (simp add: session_in_def HSServeFlowEnv.truncate_def)

lemma session_serve_callbacks:
  assumes "hs_routes_session_route_serve L (Some context) path p w = ret (r, p1, w1)"
    and "callbacks p = Some cbs" and "callbacks_wf cbs"
  obtains cookie sid session resp rs cbs1 where "session_open L context cookie w = (Some sid, session, w1)"
    "p1 = with_session L context sid session resp rs (Some cbs1) p"
    "callbacks_wf cbs1" "callback_list cbs1 = callback_list cbs @ [session_callback L context sid]"
  using assms(1)
proof (rule session_serveE)
  fix cookie sid session resp rs b cbs2
  assume "hs_types_post_response_callbacks_add (callbacks p) (Some (session_callback L context sid)) = ret (b, cbs2)"
    and rest: "session_open L context cookie w = (Some sid, session, w1)" "p1 = with_session L context sid session resp rs cbs2 p"
  with callbacks_add_spec [OF assms(3), of "session_callback L context sid"] assms(2) obtain cbs1 where
    "cbs2 = Some cbs1" "callbacks_wf cbs1" "callback_list cbs1 = callback_list cbs @ [session_callback L context sid]" by auto
  with rest show thesis by (intro that) auto
qed

lemma run_session_callback [simp]:
  "callback_run (session_callback L context sid) = Some (hs_routes_session_callback_run L context (Some sid))"
  by (simp add: session_callback_def hs_types_post_response_callback_new_def)

section \<open>A flow with a session cookie\<close>

definition demo_session_flow ::
  "string \<Rightarrow> (string, HSArrayPair list, HSCookie list, (string \<times> (string \<times> string) list route_value) list) flow" where
  "demo_session_flow v = demo_flow\<lparr>request := Some ((hs_types_http_request_new reference_libs)
     \<lparr>req_cookies := Some [hs_types_cookie_new\<lparr>cookie_name := Some ''sc'', cookie_value := Some v\<rparr>]\<rparr>)\<rparr>"

lemma demo_session_flow_simps [simp]:
  "request (demo_session_flow v) = Some ((hs_types_http_request_new reference_libs)
     \<lparr>req_cookies := Some [hs_types_cookie_new\<lparr>cookie_name := Some ''sc'', cookie_value := Some v\<rparr>]\<rparr>)"
  "response (demo_session_flow v) = Some (hs_types_http_response_new reference_libs)"
  "route_state (demo_session_flow v) = Some (hs_types_route_flow_state_new reference_libs)"
  "callbacks (demo_session_flow v) = Some (hs_types_post_response_callbacks_new 1)"
  by (simp_all add: demo_session_flow_def demo_flow_def hs_types_serve_flow_params_new_pre_populated_def)

lemma demo_cookie:
  "hs_types_cookies_get_by_name reference_libs (Some [hs_types_cookie_new\<lparr>cookie_name := Some ''sc'', cookie_value := Some v\<rparr>]) (Some ''sc'')
    = ret (Some (hs_types_cookie_new\<lparr>cookie_name := Some ''sc'', cookie_value := Some v\<rparr>))"
  by (simp add: hs_types_cookies_get_by_name_def cookies_get_by_name_loop.simps reference_libs_def list_vector_def hs_types_cookie_new_def)

lemma demo_session_run:
  obtains r p1 w1 where "hs_routes_session_route_serve reference_libs (Some (default_session_context reference_libs)) None (demo_session_flow v) w
    = ret (r, p1, w1)"
proof -
  let ?ck = "hs_types_cookie_new\<lparr>cookie_name := Some ''sc'', cookie_value := Some v\<rparr>"
  have "\<exists>i s w1. session_open reference_libs (default_session_context reference_libs) (Some ?ck) w = (Some i, s, w1)"
    by (auto simp: default_session_open [OF reference_ok(5) reference_fsio_ok] hs_routes_session_route_generate_cookie_id_def Let_def
        split: option.split prod.split)
  then obtain i s w1 where o: "session_open reference_libs (default_session_context reference_libs) (Some ?ck) w = (Some i, s, w1)"
    by blast
  show thesis
    using session_serve_spec [OF demo_session_flow_simps(1-3) [of v] _ o demo_session_flow_simps(4) callbacks_new_wf(1)] demo_cookie [of v] that
    by auto
qed

section \<open>Properties\<close>

text \<open>
  C25. Session ids are not adopted from the client: the session a request gets carries the id of
  its cookie exactly when a session is stored under that id, which is when the file
  \<open>./sessions/<id>\<close> exists; otherwise it is a new session, empty and with a generated id.
\<close>

theorem unknown_session_id_not_adopted:
  assumes "libs_ok L" and "fsio_ok L" and "request p = Some req"
    and "hs_types_cookies_get_by_name L (req_cookies req) (Some ''sc'') = ret (Some ck)" and "cookie_value ck = Some v"
    and "hs_routes_session_route_serve L (Some (default_session_context L)) path p w = ret (r, p1, w1)"
  shows "\<exists>s. session_in L p1 ''http-session'' = Some s
    \<and> (if files w (''./sessions/'' @ v) \<noteq> None then session_id s = Some v
       else session_id s = fst (hs_routes_session_route_generate_cookie_id L w) \<and> content_of L s = Map.empty)"
  using assms(6)
proof (rule session_serveE)
  fix req' cookie sid session resp rs b cbs
  assume "request p = Some req'"
    and "hs_types_cookies_get_by_name L (req_cookies req') (Some (route_cookie_name (default_session_context L))) = ret cookie"
    and opened: "session_open L (default_session_context L) cookie w = (Some sid, session, w1)"
    and p1: "p1 = with_session L (default_session_context L) sid session resp rs cbs p"
  with assms(3,4) have "cookie = Some ck" by simp
  with opened have o: "(case files w (''./sessions/'' @ v) of
       Some text \<Rightarrow> (Some v, from_string (default_session_context L) (hs_routes_session_new_session L) text, w)
     | None \<Rightarrow> (case hs_routes_session_route_generate_cookie_id L w of (i, w1) \<Rightarrow> (i, hs_routes_session_new_session L, w1)))
       = (Some sid, session, w1)"
    by (simp add: default_session_open [OF assms(1,2,5)])
  have "session_in L p1 ''http-session'' = Some (session\<lparr>session_id := Some sid\<rparr>)"
    using session_in_with_session [OF assms(1), of "default_session_context L" sid session resp rs cbs p] p1 by simp
  moreover have "content_of L ((hs_routes_session_new_session L)\<lparr>session_id := i\<rparr>) = Map.empty" for i
    by (rule ext) (simp add: content_of_def hs_routes_session_new_session_def hashtable_laws [OF libs_ok_parts(6) [OF assms(1)]])
  ultimately show ?thesis using o by (auto split: option.splits prod.splits)
qed

theorem unknown_session_id_not_adopted_witness:
  "\<exists>r p1 w1 s. hs_routes_session_route_serve reference_libs (Some (default_session_context reference_libs)) None
      (demo_session_flow ''fixed'') (connection [] []) = ret (r, p1, w1)
    \<and> session_in reference_libs p1 ''http-session'' = Some s \<and> session_id s = Some ''000SID''"
proof -
  obtain r p1 w1 where run: "hs_routes_session_route_serve reference_libs (Some (default_session_context reference_libs)) None
      (demo_session_flow ''fixed'') (connection [] []) = ret (r, p1, w1)" by (rule demo_session_run)
  have "show_int 0 = ''0''" by code_simp
  then have "fst (hs_routes_session_route_generate_cookie_id reference_libs (connection [] [])) = Some ''000SID''"
    by (simp add: hs_routes_session_route_generate_cookie_id_def reference_libs_def c_rand_def c_time_def connection_def)
  with unknown_session_id_not_adopted [OF reference_ok(5) reference_fsio_ok demo_session_flow_simps(1) _ _ run] demo_cookie run
  show ?thesis by (force simp: connection_def)
qed

text \<open>
  C15. A session survives: when the file of the session can be written, what the callback of one
  request has stored is the content of the session of the next request that sends the id in its
  cookie, for sessions whose keys and values are plain words.
\<close>

theorem session_survives:
  assumes "libs_ok L" and "fsio_ok L" and "ini_ok L"
    and "session_in L e ''http-session'' = Some s" and "storable L s"
    and "\<And>t. fst (fsio_write_text_file L (''./sessions/'' @ v) (Some t) w)"
    and "hs_routes_session_callback_run L (default_session_context L) (Some v) e w = ret (e1, w1)"
    and "request p = Some req"
    and "hs_types_cookies_get_by_name L (req_cookies req) (Some ''sc'') = ret (Some ck)" and "cookie_value ck = Some v"
    and "hs_routes_session_route_serve L (Some (default_session_context L)) path p w1 = ret (r, p1, w2)"
  shows "\<exists>s1. session_in L p1 ''http-session'' = Some s1 \<and> session_id s1 = Some v \<and> content_of L s1 = content_of L s"
proof -
  let ?c = "default_session_context L"
  have ok: "libs_ok L \<and> fsio_ok L \<and> ini_ok L" using assms(1-3) by simp
  from file_store.encode_decode [OF ok assms(5)] obtain t where t: "to_string ?c s = Some t" by blast
  obtain e2 where "hs_routes_session_callback_run L ?c (Some v) e w
      = ret (e2, if to_string ?c s = None then w else snd (write_to_storage ?c (Some v) (to_string ?c s) w))"
    using session_callback_run_spec [OF assms(1), of e ?c s v w] assms(4) by auto
  with assms(7) t have "w1 = snd (hs_routes_session_route_session_write_to_file_based_storage L (Some v) (Some t) w)"
    by simp
  moreover have "fst (hs_routes_session_route_session_write_to_file_based_storage L (Some v) (Some t) w)"
    using assms(6) by (simp add: hs_routes_session_route_session_write_to_file_based_storage_def file_for_session_id [OF assms(1)])
  ultimately have "hs_routes_session_route_session_write_to_file_based_storage L (Some v) (to_string ?c s) w = (True, w1)"
    using t by (metis eq_fst_iff snd_conv prod.collapse)
  from file_store.survives [OF ok assms(5) this] obtain u where
    u: "files w1 (''./sessions/'' @ v) = Some u" "content_of L (from_string ?c (hs_routes_session_new_session L) u) = content_of L s"
    by (auto simp: hs_routes_session_route_session_read_from_file_based_storage_def file_for_session_id [OF assms(1)]
        fsio_laws [OF assms(2)])
  from assms(11) show ?thesis
  proof (rule session_serveE)
    fix req' cookie sid session resp rs b cbs
    assume a: "request p = Some req'"
      "hs_types_cookies_get_by_name L (req_cookies req') (Some (route_cookie_name ?c)) = ret cookie"
      "session_open L ?c cookie w1 = (Some sid, session, w2)" "p1 = with_session L ?c sid session resp rs cbs p"
    from a(1,2) assms(8,9) have "cookie = Some ck" by simp
    with a(3) u have "sid = v" "session = from_string ?c (hs_routes_session_new_session L) u"
      by (simp_all add: default_session_open [OF assms(1,2,10)])
    with u(2) a(4) session_in_with_session [OF assms(1), of ?c sid session resp rs cbs p] show ?thesis
      by (simp add: content_of_def)
  qed
qed

theorem session_survives_witness:
  "\<exists>e1 w1 r p1 w2 s1. hs_routes_session_callback_run reference_libs (default_session_context reference_libs) (Some ''7SID'')
      (HSServeFlowEnv.truncate (demo_flow\<lparr>route_state := Some \<lparr>string_pairs = None, route_data = [(''http-session'',
         SessionValue \<lparr>session_id = Some ''7SID'', session_data = [(''user'', ''bob'')]\<rparr>)]\<rparr>\<rparr>)) (connection [] []) = ret (e1, w1)
    \<and> hs_routes_session_route_serve reference_libs (Some (default_session_context reference_libs)) None
        (demo_session_flow ''7SID'') w1 = ret (r, p1, w2)
    \<and> session_in reference_libs p1 ''http-session'' = Some s1 \<and> content_of reference_libs s1 ''user'' = Some ''bob''"
proof -
  let ?L = "reference_libs" and ?s = "\<lparr>session_id = Some ''7SID'', session_data = [(''user'', ''bob'')]\<rparr>"
  let ?e = "HSServeFlowEnv.truncate (demo_flow\<lparr>route_state := Some \<lparr>string_pairs = None, route_data = [(''http-session'', SessionValue ?s)]\<rparr>\<rparr>)"
  have s: "session_in ?L ?e ''http-session'' = Some ?s"
    by (subst session_in_truncate) (simp add: session_in_def reference_libs_def alist_table_def)
  have st: "storable ?L ?s" by (simp add: storable_def reference_libs_def alist_table_def plain_word_def alphanumeric_def)
  have content: "content_of ?L ?s ''user'' = Some ''bob''" by (simp add: content_of_def reference_libs_def alist_table_def)
  have wr: "fst (fsio_write_text_file ?L q (Some t) w)" for q t w by (simp add: reference_libs_def)
  obtain e1 w1 where run1: "hs_routes_session_callback_run ?L (default_session_context ?L) (Some ''7SID'') ?e (connection [] []) = ret (e1, w1)"
    using session_callback_run_spec [OF reference_ok(5), of ?e "default_session_context ?L" ?s] s by (metis default_names(2))
  obtain r p1 w2 where run2: "hs_routes_session_route_serve ?L (Some (default_session_context ?L)) None (demo_session_flow ''7SID'') w1 = ret (r, p1, w2)"
    by (rule demo_session_run)
  from session_survives [OF reference_ok(5) reference_fsio_ok reference_ini_ok s st wr run1 demo_session_flow_simps(1) _ _ run2]
  have "\<exists>s1. session_in ?L p1 ''http-session'' = Some s1 \<and> content_of ?L s1 = content_of ?L ?s"
    using demo_cookie [of "''7SID''"] by auto
  with content run1 run2 show ?thesis by metis
qed

text \<open>
  C34. The session id is a path: it is appended to \<open>./sessions/\<close> as the client sent it, so a cookie
  with a value such as \<open>../key.pem\<close> names any file of the host. If such a file can be read and is not
  a session file, the request gets an empty session under that id, and the callback after the
  response replaces the content of the file by the empty text.
\<close>

theorem session_cookie_empties_any_file:
  assumes "libs_ok L" and "fsio_ok L" and "request p = Some req" and "callbacks p = Some cbs" and "callbacks_wf cbs"
    and "callback_list cbs = []"
    and "hs_types_cookies_get_by_name L (req_cookies req) (Some ''sc'') = ret (Some ck)" and "cookie_value ck = Some v"
    and "files w (''./sessions/'' @ v) = Some text"
    and "\<And>h. from_string (default_session_context L) h text = h"
    and "\<And>t w. fst (fsio_write_text_file L (''./sessions/'' @ v) (Some t) w)"
    and "hs_routes_session_route_serve L (Some (default_session_context L)) path p w = ret (r, p1, w1)"
  shows "\<exists>p2 w2. hs_router_run_callbacks p1 w1 = ret (p2, w2) \<and> files w2 (''./sessions/'' @ v) = Some []"
  using assms(12)
proof (rule session_serveE)
  let ?c = "default_session_context L"
  fix req' cookie sid session resp rs b cbs2
  assume a: "request p = Some req'"
    "hs_types_cookies_get_by_name L (req_cookies req') (Some (route_cookie_name ?c)) = ret cookie"
    "session_open L ?c cookie w = (Some sid, session, w1)" "p1 = with_session L ?c sid session resp rs cbs2 p"
    "hs_types_post_response_callbacks_add (callbacks p) (Some (session_callback L ?c sid)) = ret (b, cbs2)"
  from a(1,2) assms(3,7) have "cookie = Some ck" by simp
  with a(3) assms(9,10) have o: "sid = v" "session = hs_routes_session_new_session L"
    by (simp_all add: default_session_open [OF assms(1,2,8)])
  from callbacks_add_spec [OF assms(5), of "session_callback L ?c v"] a(5) assms(4,6) o(1) obtain cbs1 where
    cbs1: "cbs2 = Some cbs1" "callbacks_wf cbs1" "callback_list cbs1 = [session_callback L ?c v]" by auto
  let ?s = "session\<lparr>session_id := Some v\<rparr>"
  have "callbacks p1 = Some cbs1" using a(4) cbs1(1) by (simp add: with_session_def)
  note run = run_callbacks_list [OF this cbs1(2), of w1]
  have "session_in L (HSServeFlowEnv.truncate p1) (route_session_name ?c) = Some ?s"
    using session_in_with_session [OF assms(1), of ?c sid session resp rs cbs2 p] a(4) o by (simp del: default_names)
  then obtain e1 where e1: "hs_routes_session_callback_run L ?c (Some v) (HSServeFlowEnv.truncate p1) w1
      = ret (e1, if to_string ?c ?s = None then w1 else snd (write_to_storage ?c (Some v) (to_string ?c ?s) w1))"
    using session_callback_run_spec [OF assms(1)] by metis
  have empty: "hashtable_entries (session_table L) (hashtable_new (session_table L)) = []"
    using hashtable_laws(1,5) [OF libs_ok_parts(6) [OF assms(1)]] by (metis map_of_eq_empty_iff ext)
  have "to_string ?c ?s = Some []"
    by (simp add: default_session_context_def hs_routes_session_route_session_to_string_def o empty
        hashtable_laws [OF libs_ok_parts(6) [OF assms(1)]] hs_routes_session_new_session_def)
  moreover have "files (snd (hs_routes_session_route_session_write_to_file_based_storage L (Some v) (Some []) w1))
      (''./sessions/'' @ v) = Some []"
    using fsio_laws(3) [OF assms(2) assms(11), of "[]" w1]
    by (simp add: hs_routes_session_route_session_write_to_file_based_storage_def file_for_session_id [OF assms(1)])
  ultimately show ?thesis using run e1 cbs1(3) by simp
qed

theorem session_cookie_empties_any_file_witness:
  "\<exists>r p1 w1 p2 w2. hs_routes_session_route_serve reference_libs (Some (default_session_context reference_libs)) None
      (demo_session_flow ''../key.pem'') ((connection [] [])\<lparr>files := [''./sessions/../key.pem'' \<mapsto> ''secret'']\<rparr>) = ret (r, p1, w1)
    \<and> hs_router_run_callbacks p1 w1 = ret (p2, w2) \<and> files w2 ''./sessions/../key.pem'' = Some []"
proof -
  let ?L = "reference_libs" and ?w = "(connection [] [])\<lparr>files := [''./sessions/../key.pem'' \<mapsto> ''secret'']\<rparr>"
  obtain r p1 w1 where run: "hs_routes_session_route_serve ?L (Some (default_session_context ?L)) None (demo_session_flow ''../key.pem'') ?w
    = ret (r, p1, w1)" by (rule demo_session_run)
  have "from_string (default_session_context ?L) h ''secret'' = h" for h
    by (simp add: default_session_context_def hs_routes_session_route_session_from_string_def reference_libs_def list_ini_parse_def)
  moreover have "fst (fsio_write_text_file ?L q (Some t) w)" for q t w by (simp add: reference_libs_def)
  ultimately have "\<exists>p2 w2. hs_router_run_callbacks p1 w1 = ret (p2, w2) \<and> files w2 (''./sessions/'' @ ''../key.pem'') = Some []"
    using demo_cookie [of "''../key.pem''"] callbacks_new_wf [of 1]
    by (intro session_cookie_empties_any_file [OF reference_ok(5) reference_fsio_ok demo_session_flow_simps(1) demo_session_flow_simps(4) _ _ _ _ _ _ _ run])
      auto
  with run show ?thesis by auto
qed

text \<open>
  C35. Two session routes of the same session name do not work together: the second one replaces the
  session of the first in the table, both callbacks are registered, and after the response the one
  that runs second works on the session the other one has released.
\<close>

theorem two_session_routes_use_after_free:
  assumes "libs_ok L" and "callbacks p = Some cbs" and "callbacks_wf cbs" and "callback_list cbs = []"
    and "hs_routes_session_route_serve L (Some c1) path p w = ret (r, p1, w1)"
    and "hs_routes_session_route_serve L (Some c2) path p1 w1 = ret (r2, p2, w2)"
    and "route_session_name c1 = route_session_name c2"
  shows "hs_router_run_callbacks p2 w2 = ub UseAfterFree"
  using assms(5,2,3)
proof (rule session_serve_callbacks)
  fix sid1 s1 resp1 rs1 cbs1
  assume a: "p1 = with_session L c1 sid1 s1 resp1 rs1 (Some cbs1) p" "callbacks_wf cbs1"
    "callback_list cbs1 = callback_list cbs @ [session_callback L c1 sid1]"
  then have "callbacks p1 = Some cbs1" by (simp add: with_session_def)
  from assms(6) this a(2) show ?thesis
  proof (rule session_serve_callbacks)
    fix sid2 s2 resp2 rs2 cbs2
    assume b: "p2 = with_session L c2 sid2 s2 resp2 rs2 (Some cbs2) p1" "callbacks_wf cbs2"
      "callback_list cbs2 = callback_list cbs1 @ [session_callback L c2 sid2]"
    then have "callbacks p2 = Some cbs2" by (simp add: with_session_def)
    note run = run_callbacks_list [OF this b(2), of w2]
    have "session_in L (HSServeFlowEnv.truncate p2) (route_session_name c2) = Some (s2\<lparr>session_id := Some sid2\<rparr>)"
      using session_in_with_session [OF assms(1), of c2 sid2 s2 resp2 rs2 "Some cbs2" p1] b(1) by simp
    from session_callback_run_spec [OF assms(1) this] obtain e1 w3 rs where
      e1: "hs_routes_session_callback_run L c2 (Some sid2) (HSServeFlowEnv.truncate p2) w2 = ret (e1, w3)" "route_state e1 = Some rs"
        "hashtable_get (state_table L) (route_data rs) (route_session_name c1) = Some ReleasedSession"
      unfolding assms(7) by metis
    from session_callback_run_released [OF e1(2,3)] run e1(1) a(3) b(3) assms(4) show ?thesis by simp
  qed
qed

theorem two_session_routes_use_after_free_witness:
  "\<exists>r p1 w1 r2 p2 w2. hs_routes_session_route_serve reference_libs (Some (default_session_context reference_libs)) None
      (demo_session_flow ''x'') (connection [] []) = ret (r, p1, w1)
    \<and> hs_routes_session_route_serve reference_libs (Some ((default_session_context reference_libs)\<lparr>route_cookie_name := ''b''\<rparr>)) None p1 w1
        = ret (r2, p2, w2)
    \<and> hs_router_run_callbacks p2 w2 = ub UseAfterFree"
proof -
  let ?L = "reference_libs" and ?c = "default_session_context reference_libs" and ?d = "(default_session_context reference_libs)\<lparr>route_cookie_name := ''b''\<rparr>"
  obtain r p1 w1 where run: "hs_routes_session_route_serve ?L (Some ?c) None (demo_session_flow ''x'') (connection [] []) = ret (r, p1, w1)"
    by (rule demo_session_run)
  have cb: "callbacks_wf (hs_types_post_response_callbacks_new 1)" by (simp add: callbacks_new_wf)
  obtain cookie sid session resp rs cbs1 where
    p1: "p1 = with_session ?L ?c sid session resp rs (Some cbs1) (demo_session_flow ''x'')" and wf: "callbacks_wf cbs1"
    by (rule session_serve_callbacks [OF run demo_session_flow_simps(4) cb]) blast
  have none: "hs_types_cookies_get_by_name ?L (Some [hs_types_cookie_new\<lparr>cookie_name := Some ''sc'', cookie_value := Some ''x''\<rparr>]) (Some ''b'') = ret None"
    by (simp add: hs_types_cookies_get_by_name_def cookies_get_by_name_loop.simps reference_libs_def list_vector_def hs_types_cookie_new_def)
  have "\<exists>i s w2. session_open ?L ?d None w1 = (Some i, s, w2)"
    by (auto simp: session_open_def default_session_context_def hs_routes_session_route_generate_cookie_id_def Let_def
        split: option.split prod.split)
  then obtain i s w2 where o: "session_open ?L ?d None w1 = (Some i, s, w2)" by blast
  have parts: "request p1 = request (demo_session_flow ''x'')" "callbacks p1 = Some cbs1"
    "\<exists>x. response p1 = Some x" "\<exists>x. route_state p1 = Some x" by (simp_all add: p1 with_session_def)
  from session_serve_spec [OF _ _ _ _ o parts(2) wf, where path = None] parts(1,3,4) none
  obtain r2 p2 where run2: "hs_routes_session_route_serve ?L (Some ?d) None p1 w1 = ret (r2, p2, w2)"
    by fastforce
  have "hs_router_run_callbacks p2 w2 = ub UseAfterFree"
    using two_session_routes_use_after_free [OF reference_ok(5) demo_session_flow_simps(4) cb callbacks_new_wf(2) run run2] by simp
  with run run2 show ?thesis by blast
qed

end
