(* ===== verification/Routes_FS.thy ===== *)
theory Routes_FS
  imports Routes_Basic Constants
begin

text \<open>
  The routes for files and directories of \<open>src/hs_routes_fs.c\<close>. The user's functions (mime type,
  filter, renderers, links) are optional fields of the contexts; \<open>void *context\<close> is an optional
  address. \<open>scandir\<close> with \<open>alphasort\<close> delivers the entries of the world's directory in their
  order, the special ones included.
\<close>

section \<open>Parts of the C library\<close>

definition c_basename :: "string \<Rightarrow> string" where
  "c_basename path =
     (if path = [] then ''.''
      else (let stripped = rev (dropWhile (\<lambda>c. c = CHR ''/'') (rev path))
            in if stripped = [] then ''/'' else rev (takeWhile (\<lambda>c. c \<noteq> CHR ''/'') (rev stripped))))"

definition c_scandir :: "string \<Rightarrow> world \<Rightarrow> string list option" where
  \<comment> \<open>\<open>None\<close>: the call returns a negative count\<close>
  "c_scandir path w = dirs w path"

definition dq :: string where
  "dq = [CHR 0x22]"

definition nl :: string where
  "nl = [CHR 0x0A]"

definition appends :: "('sb, 'pv, 'cv, 'dt, 'sh) libs \<Rightarrow> 'sb \<Rightarrow> string list \<Rightarrow> 'sb" where
  \<comment> \<open>successive calls of \<open>stringbuffer_append_string\<close>\<close>
  "appends L = foldl (stringbuffer_append_string L)"

section \<open>The file route\<close>

record HSRoutesFileServeContext =
  file_base_directory :: cstr
  get_mime_type :: "(string \<Rightarrow> HSMimeType \<Rightarrow> HSMimeType) option"
  close_connection :: bool

definition hs_routes_file_route_serve ::
  "('sb, 'pv, 'cv, 'dt, 'sh) libs \<Rightarrow> HSRoutesFileServeContext option \<Rightarrow> ('sb, 'pv, 'cv, 'dt) flow serve_function" where
  "hs_routes_file_route_serve L extension path p w =
     (case (request p, response p, extension) of
        (Some req, Some resp, Some context) \<Rightarrow>
          (case req_resource req of
             None \<Rightarrow> ret (HS_SERVE_FLOW_RESPONSE_CONTINUE, p, w)
           | Some resource \<Rightarrow>
               if strstr resource ''..'' then ret (HS_SERVE_FLOW_RESPONSE_CONTINUE, p, w)
               else (case fsio_join_paths L (file_base_directory context) (Some resource) of
                       None \<Rightarrow> ret (HS_SERVE_FLOW_RESPONSE_CONTINUE, p, w)
                     | Some file \<Rightarrow>
                         if \<not> fsio_file_exists L file w then ret (HS_SERVE_FLOW_RESPONSE_CONTINUE, p, w)
                         else (let detected = hs_constants_file_extension_to_mime_type L (Some file);
                                   mime = (case get_mime_type context of None \<Rightarrow> detected | Some f \<Rightarrow> f file detected)
                               in ret (HS_SERVE_FLOW_RESPONSE_DONE,
                                    p\<lparr>response := Some (resp\<lparr>resp_code := HS_HTTP_RESPONSE_CODE_OK,
                                         resp_content_file := Some file, resp_mime_type := mime\<rparr>),
                                      request := Some (if close_connection context
                                         then req\<lparr>req_connection := HS_CONNECTION_TYPE_CLOSE\<rparr> else req)\<rparr>, w))))
      | _ \<Rightarrow> ret (HS_SERVE_FLOW_RESPONSE_CONTINUE, p, w))"

definition hs_routes_fs_file_route_new_with_options ::
  "('sb, 'pv, 'cv, 'dt, 'sh) libs \<Rightarrow> cstr \<Rightarrow> (string \<Rightarrow> HSMimeType \<Rightarrow> HSMimeType) option \<Rightarrow> bool
    \<Rightarrow> ('sb, 'pv, 'cv, 'dt) route" where
  "hs_routes_fs_file_route_new_with_options L base mime close =
     hs_route_new\<lparr>serve := Some (hs_routes_file_route_serve L
        (Some \<lparr>file_base_directory = base, get_mime_type = mime, close_connection = close\<rparr>)), release_route := Some ret, is_get := True\<rparr>"

definition hs_routes_fs_file_route_new ::
  "('sb, 'pv, 'cv, 'dt, 'sh) libs \<Rightarrow> cstr \<Rightarrow> ('sb, 'pv, 'cv, 'dt) route" where
  "hs_routes_fs_file_route_new L base = hs_routes_fs_file_route_new_with_options L base None True"

section \<open>Rendering\<close>

type_synonym renderer = "string \<Rightarrow> string \<Rightarrow> nat option \<Rightarrow> cstr"

definition hs_routes_directory_default_renderer ::
  "('sb, 'pv, 'cv, 'dt, 'sh) libs \<Rightarrow> 'sb \<Rightarrow> string \<Rightarrow> string \<Rightarrow> 'sb" where
  "hs_routes_directory_default_renderer L buffer name href =
     appends L buffer [''<a class='' @ dq @ ''entry'' @ dq @ '' href='' @ dq, href, dq @ ''>'', name, ''</a><br>'' @ nl]"

definition hs_routes_directory_render_entry ::
  "('sb, 'pv, 'cv, 'dt, 'sh) libs \<Rightarrow> 'sb \<Rightarrow> renderer option \<Rightarrow> string \<Rightarrow> string \<Rightarrow> nat option \<Rightarrow> 'sb" where
  "hs_routes_directory_render_entry L buffer render_entry name href context =
     (case (case render_entry of None \<Rightarrow> None | Some render \<Rightarrow> render name href context) of
        Some entry_html \<Rightarrow> stringbuffer_append_string L buffer entry_html
      | None \<Rightarrow> hs_routes_directory_default_renderer L buffer name href)"

definition image_types :: "HSMimeType list" where
  "image_types = [HS_MIME_TYPE_IMAGE_APNG, HS_MIME_TYPE_IMAGE_AVIF, HS_MIME_TYPE_IMAGE_GIF, HS_MIME_TYPE_IMAGE_JPEG,
     HS_MIME_TYPE_IMAGE_PNG, HS_MIME_TYPE_IMAGE_SVG, HS_MIME_TYPE_IMAGE_WEBP, HS_MIME_TYPE_IMAGE_X_ICON,
     HS_MIME_TYPE_IMAGE_TIFF, HS_MIME_TYPE_IMAGE_X_MS_BMP]"

definition video_types :: "HSMimeType list" where
  "video_types = [HS_MIME_TYPE_VIDEO_WEBM, HS_MIME_TYPE_VIDEO_3GPP, HS_MIME_TYPE_VIDEO_MP2T, HS_MIME_TYPE_VIDEO_MP4,
     HS_MIME_TYPE_VIDEO_MPEG, HS_MIME_TYPE_VIDEO_QUICKTIME, HS_MIME_TYPE_VIDEO_X_FLV]"

definition hs_routes_fs_directory_route_render_file_entry_with_media_support ::
  "('sb, 'pv, 'cv, 'dt, 'sh) libs \<Rightarrow> renderer" where
  "hs_routes_fs_directory_route_render_file_entry_with_media_support L name href context =
     (if context \<noteq> None then None
      else (let buffer = appends L (stringbuffer_new L) [''<a class='' @ dq @ ''entry'' @ dq @ '' href='' @ dq, href, dq @ ''>''];
                mime_type = hs_constants_file_extension_to_mime_type L (Some name);
                buffer1 = (if mime_type \<in> set image_types
                           then appends L buffer [''<img src='' @ dq, href, dq @ '' alt='' @ dq, name,
                                  dq @ '' class='' @ dq @ ''entry-image'' @ dq @ ''></img>'']
                           else if mime_type \<in> set video_types
                           then appends L buffer [''<video src='' @ dq, href, dq @ '' alt='' @ dq, name,
                                  dq @ '' class='' @ dq @ ''entry-video'' @ dq @ '' autoplay='' @ dq @ ''false'' @ dq @ '' controls loop='' @ dq
                                    @ ''false'' @ dq @ '' preload='' @ dq @ ''none'' @ dq @ ''></video>'']
                           else stringbuffer_append_string L buffer name)
            in Some (stringbuffer_to_string L (stringbuffer_append_string L buffer1 (''</a><br>'' @ nl)))))"

section \<open>The directory route\<close>

record ('sb, 'pv, 'cv, 'dt) HSRoutesDirectoryServeContext =
  dir_base_directory :: cstr
  additional_head_content :: cstr
  dir_filter :: "(string \<Rightarrow> bool \<Rightarrow> bool) option"
  render_directory_entry :: "renderer option"
  render_file_entry :: "renderer option"
  create_href :: "('sb, 'pv, 'cv, 'dt) flow \<Rightarrow> cstr \<Rightarrow> string \<Rightarrow> cstr run"
  dir_context :: "nat option"

definition hs_routes_fs_default_create_href ::
  "('sb, 'pv, 'cv, 'dt, 'sh) libs \<Rightarrow> ('sb, 'pv, 'cv, 'dt) flow \<Rightarrow> cstr \<Rightarrow> string \<Rightarrow> cstr run" where
  "hs_routes_fs_default_create_href L p base_directory entry =
     (case request p of
        None \<Rightarrow> ub NullDeref
      | Some req \<Rightarrow> ret (fsio_join_paths L (req_resource req) (Some entry)))"

definition relative_href :: "string \<Rightarrow> string" where
  "relative_href href =
     (case href of
        c # rest \<Rightarrow> if c = CHR ''/'' \<or> c = CHR 0x5C then rest else href
      | [] \<Rightarrow> href)"

definition path_holds :: "(string \<Rightarrow> world \<Rightarrow> bool) \<Rightarrow> cstr \<Rightarrow> world \<Rightarrow> bool" where
  \<comment> \<open>\<open>fsio_dir_exists\<close> and \<open>fsio_file_exists\<close> are false of a NULL path\<close>
  "path_holds test path w = (case path of None \<Rightarrow> False | Some s \<Rightarrow> test s w)"

definition directory_entry ::
  "('sb, 'pv, 'cv, 'dt, 'sh) libs \<Rightarrow> ('sb, 'pv, 'cv, 'dt) HSRoutesDirectoryServeContext \<Rightarrow> ('sb, 'pv, 'cv, 'dt) flow
    \<Rightarrow> string \<Rightarrow> world \<Rightarrow> string \<Rightarrow> 'sb \<times> 'sb \<Rightarrow> ('sb \<times> 'sb) run" where
  \<comment> \<open>the body of the loop: the buffer of the directories, the buffer of the files\<close>
  "directory_entry L context p dir_path w d_name buffers =
     (if d_name = ''.'' \<or> d_name = ''..'' then ret buffers
      else (let entry_path = fsio_join_paths L (Some dir_path) (Some d_name);
                is_directory = path_holds (fsio_dir_exists L) entry_path w;
                filter_out = (case dir_filter context of None \<Rightarrow> False | Some f \<Rightarrow> f d_name is_directory)
            in if filter_out then ret buffers
               else bindR (create_href context p (dir_base_directory context) d_name)
                      (\<lambda>href.
                         case (href, buffers) of
                           (None, _) \<Rightarrow> ub NullDeref
                         | (Some h, dir_buffer, files_buffer) \<Rightarrow>
                             if is_directory
                             then ret (hs_routes_directory_render_entry L dir_buffer (render_directory_entry context) d_name
                                         (relative_href h) (dir_context context), files_buffer)
                             else if path_holds (fsio_file_exists L) entry_path w
                             then ret (dir_buffer, hs_routes_directory_render_entry L files_buffer (render_file_entry context) d_name
                                         (relative_href h) (dir_context context))
                             else ret buffers)))"

primrec directory_loop ::
  "('sb, 'pv, 'cv, 'dt, 'sh) libs \<Rightarrow> ('sb, 'pv, 'cv, 'dt) HSRoutesDirectoryServeContext \<Rightarrow> ('sb, 'pv, 'cv, 'dt) flow
    \<Rightarrow> string \<Rightarrow> world \<Rightarrow> string list \<Rightarrow> 'sb \<times> 'sb \<Rightarrow> ('sb \<times> 'sb) run" where
  "directory_loop L context p dir_path w [] buffers = ret buffers"
| "directory_loop L context p dir_path w (d_name # names) buffers =
     bindR (directory_entry L context p dir_path w d_name buffers) (directory_loop L context p dir_path w names)"

definition directory_head ::
  "('sb, 'pv, 'cv, 'dt, 'sh) libs \<Rightarrow> cstr \<Rightarrow> string \<Rightarrow> cstr \<Rightarrow> 'sb" where
  \<comment> \<open>what is written before the entries\<close>
  "directory_head L head_content dir_name base =
     (let b1 = appends L (stringbuffer_new L)
            [''<!DOCTYPE html>'' @ nl @ ''<html>'' @ nl @ ''<head>'' @ nl @ ''<title>'', dir_name,
             ''</title>'' @ nl @ ''<meta name='' @ dq @ ''viewport'' @ dq @ '' content='' @ dq
               @ ''width=device-width, initial-scale=1, viewport-fit=cover'' @ dq @ ''>'' @ nl];
          b2 = (case base of None \<Rightarrow> b1 | Some b \<Rightarrow> appends L b1 [''<base href='' @ dq, b, ''<'' @ dq @ ''>'' @ nl]);
          b3 = (case head_content of None \<Rightarrow> b2 | Some h \<Rightarrow> stringbuffer_append_string L b2 h)
      in appends L b3 [''</head>'' @ nl @ ''<body>'' @ nl, ''<h1 class='' @ dq @ ''header'' @ dq @ ''>Directory: '', dir_name,
           ''</h1>'' @ nl])"

definition directory_html ::
  "('sb, 'pv, 'cv, 'dt, 'sh) libs \<Rightarrow> ('sb, 'pv, 'cv, 'dt) HSRoutesDirectoryServeContext \<Rightarrow> ('sb, 'pv, 'cv, 'dt) flow
    \<Rightarrow> string \<Rightarrow> cstr \<Rightarrow> world \<Rightarrow> string run" where
  "directory_html L context p dir_path base w =
     (let html_buffer = directory_head L (additional_head_content context) (c_basename dir_path) base;
          file_list = (case c_scandir dir_path w of None \<Rightarrow> [] | Some names \<Rightarrow> names)
      in bindR (if file_list = [] then ret html_buffer
                else bindR (directory_loop L context p dir_path w file_list (stringbuffer_new L, stringbuffer_new L))
                       (\<lambda>(dir_buffer, files_buffer).
                          ret (appends L html_buffer [stringbuffer_to_string L dir_buffer, stringbuffer_to_string L files_buffer])))
           (\<lambda>b. ret (stringbuffer_to_string L (stringbuffer_append_string L b (''</body>'' @ nl @ ''</html>'')))))"

definition hs_routes_directory_route_serve ::
  "('sb, 'pv, 'cv, 'dt, 'sh) libs \<Rightarrow> ('sb, 'pv, 'cv, 'dt) HSRoutesDirectoryServeContext option
    \<Rightarrow> ('sb, 'pv, 'cv, 'dt) flow serve_function" where
  "hs_routes_directory_route_serve L extension path p w =
     (case (request p, response p, extension) of
        (Some req, Some resp, Some context) \<Rightarrow>
          (case req_resource req of
             None \<Rightarrow> ret (HS_SERVE_FLOW_RESPONSE_CONTINUE, p, w)
           | Some resource \<Rightarrow>
               if strstr resource ''..'' then ret (HS_SERVE_FLOW_RESPONSE_CONTINUE, p, w)
               else (case fsio_join_paths L (dir_base_directory context) (Some resource) of
                       None \<Rightarrow> ret (HS_SERVE_FLOW_RESPONSE_CONTINUE, p, w)
                     | Some dir_path \<Rightarrow>
                         if \<not> fsio_dir_exists L dir_path w then ret (HS_SERVE_FLOW_RESPONSE_CONTINUE, p, w)
                         else (case router_state p of
                                 None \<Rightarrow> ub NullDeref
                               | Some rs \<Rightarrow>
                                   bindR (directory_html L context p dir_path (base_path rs) w)
                                     (\<lambda>html. ret (HS_SERVE_FLOW_RESPONSE_DONE,
                                        p\<lparr>response := Some (resp\<lparr>resp_code := HS_HTTP_RESPONSE_CODE_OK,
                                          resp_content_string := Some html, resp_mime_type := HS_MIME_TYPE_TEXT_HTML\<rparr>)\<rparr>, w)))))
      | _ \<Rightarrow> ret (HS_SERVE_FLOW_RESPONSE_CONTINUE, p, w))"

definition hs_routes_fs_directory_route_new_with_options ::
  "('sb, 'pv, 'cv, 'dt, 'sh) libs \<Rightarrow> cstr \<Rightarrow> cstr \<Rightarrow> (string \<Rightarrow> bool \<Rightarrow> bool) option \<Rightarrow> renderer option \<Rightarrow> renderer option
    \<Rightarrow> (('sb, 'pv, 'cv, 'dt) flow \<Rightarrow> cstr \<Rightarrow> string \<Rightarrow> cstr run) option \<Rightarrow> nat option \<Rightarrow> ('sb, 'pv, 'cv, 'dt) route" where
  "hs_routes_fs_directory_route_new_with_options L base head filter_fun render_dir render_file href context =
     hs_route_new\<lparr>serve := Some (hs_routes_directory_route_serve L
        (Some \<lparr>dir_base_directory = base, additional_head_content = head, dir_filter = filter_fun,
          render_directory_entry = render_dir, render_file_entry = render_file,
          create_href = (case href of None \<Rightarrow> hs_routes_fs_default_create_href L | Some f \<Rightarrow> f), dir_context = context\<rparr>)),
       release_route := Some ret, is_get := True\<rparr>"

definition hs_routes_fs_directory_route_new ::
  "('sb, 'pv, 'cv, 'dt, 'sh) libs \<Rightarrow> cstr \<Rightarrow> ('sb, 'pv, 'cv, 'dt) route" where
  "hs_routes_fs_directory_route_new L base =
     hs_routes_fs_directory_route_new_with_options L base None None None None None None"

definition hs_routes_fs_directory_route_new_with_media_support ::
  "('sb, 'pv, 'cv, 'dt, 'sh) libs \<Rightarrow> cstr \<Rightarrow> ('sb, 'pv, 'cv, 'dt) route" where
  "hs_routes_fs_directory_route_new_with_media_support L base =
     hs_routes_fs_directory_route_new_with_options L base None None None
       (Some (hs_routes_fs_directory_route_render_file_entry_with_media_support L)) None None"

section \<open>The contract\<close>

interpretation file_route: route_handler L "hs_routes_file_route_serve L ctx" for L ctx
  by unfold_locales
    (auto simp: hs_routes_file_route_serve_def Let_def intro!: quiet_outcome split: option.splits if_splits)

interpretation directory_route: route_handler L "hs_routes_directory_route_serve L ctx" for L ctx
  by unfold_locales
    (auto simp: hs_routes_directory_route_serve_def bindR_eq_ret intro!: quiet_outcome split: option.splits if_splits)

section \<open>Paths\<close>

text \<open>
  What a path means by its text alone: its components, resolved against a stack of directories.
  Symbolic links are not followed; the model of the file system has none.
\<close>

fun components :: "string \<Rightarrow> string list" where
  "components [] = [[]]"
| "components (c # s) =
     (if c = CHR ''/'' then [] # components s
      else (case components s of [] \<Rightarrow> [[c]] | x # xs \<Rightarrow> (c # x) # xs))"

fun resolve :: "string list \<Rightarrow> string list \<Rightarrow> string list" where
  "resolve dirs_above [] = dirs_above"
| "resolve dirs_above (c # cs) =
     (if c = [] \<or> c = ''.'' then resolve dirs_above cs
      else if c = ''..'' then resolve (butlast dirs_above) cs
      else resolve (dirs_above @ [c]) cs)"

lemma components_not_Nil: "components s \<noteq> []"
  by (induction s) (auto split: list.splits)

lemma components_append: "components (a @ CHR ''/'' # b) = components a @ components b"
  using components_not_Nil by (induction a) (auto split: list.splits)

lemma components_sublist: "\<forall>c \<in> set (components s). sublist c s"
proof (induction s)
  case Nil
  then show ?case by simp
next
  case (Cons x s)
  show ?case
  proof (cases "components s")
    case Nil
    with components_not_Nil show ?thesis by blast
  next
    case (Cons y ys)
    have "prefix y s"
    proof -
      have "prefix (hd (components t)) t" for t
        by (induction t) (auto split: list.splits)
      with Cons show ?thesis by (metis list.sel(1))
    qed
    with Cons Cons.IH show ?thesis by (auto simp: sublist_Cons_right)
  qed
qed

lemma resolve_append: "resolve st (a @ b) = resolve (resolve st a) b"
  by (induction st a rule: resolve.induct) auto

lemma resolve_without_parent: "''..'' \<notin> set cs \<Longrightarrow> prefix st (resolve st cs)"
proof (induction st cs rule: resolve.induct)
  case (1 st)
  then show ?case by simp
next
  case (2 st c cs)
  then show ?case by (auto intro: prefix_order.trans [of st "st @ [c]"])
qed

section \<open>The listing\<close>

definition entry_text :: "string \<Rightarrow> string \<Rightarrow> string" where
  "entry_text resource name =
     ''<a class='' @ dq @ ''entry'' @ dq @ '' href='' @ dq
       @ relative_href (if last resource = CHR ''/'' then resource @ name else resource @ CHR ''/'' # name)
       @ dq @ ''>'' @ name @ ''</a><br>'' @ nl"

definition head_text :: "cstr \<Rightarrow> string \<Rightarrow> cstr \<Rightarrow> string" where
  "head_text head_content dir_name base =
     ''<!DOCTYPE html>'' @ nl @ ''<html>'' @ nl @ ''<head>'' @ nl @ ''<title>'' @ dir_name
     @ ''</title>'' @ nl @ ''<meta name='' @ dq @ ''viewport'' @ dq @ '' content='' @ dq
     @ ''width=device-width, initial-scale=1, viewport-fit=cover'' @ dq @ ''>'' @ nl
     @ (case base of None \<Rightarrow> [] | Some b \<Rightarrow> ''<base href='' @ dq @ b @ ''<'' @ dq @ ''>'' @ nl)
     @ (case head_content of None \<Rightarrow> [] | Some h \<Rightarrow> h)
     @ ''</head>'' @ nl @ ''<body>'' @ nl @ ''<h1 class='' @ dq @ ''header'' @ dq @ ''>Directory: '' @ dir_name @ ''</h1>'' @ nl"

definition child :: "string \<Rightarrow> string \<Rightarrow> string" where
  "child dir_path name = (if last dir_path = CHR ''/'' then dir_path @ name else dir_path @ CHR ''/'' # name)"

definition listed_dirs :: "string \<Rightarrow> world \<Rightarrow> string list \<Rightarrow> string list" where
  "listed_dirs dir_path w names =
     filter (\<lambda>n. n \<noteq> ''.'' \<and> n \<noteq> ''..'' \<and> dirs w (child dir_path n) \<noteq> None) names"

definition listed_files :: "string \<Rightarrow> world \<Rightarrow> string list \<Rightarrow> string list" where
  "listed_files dir_path w names =
     filter (\<lambda>n. n \<noteq> ''.'' \<and> n \<noteq> ''..'' \<and> dirs w (child dir_path n) = None \<and> files w (child dir_path n) \<noteq> None) names"

lemma listed_Nil [simp]: "listed_dirs dir_path w [] = []" "listed_files dir_path w [] = []"
  by (simp_all add: listed_dirs_def listed_files_def)

definition listing_text :: "cstr \<Rightarrow> cstr \<Rightarrow> string \<Rightarrow> string \<Rightarrow> world \<Rightarrow> string list \<Rightarrow> string" where
  "listing_text head_content base resource dir_path w names =
     head_text head_content (c_basename dir_path) base
     @ concat (map (entry_text resource) (listed_dirs dir_path w names))
     @ concat (map (entry_text resource) (listed_files dir_path w names))
     @ ''</body>'' @ nl @ ''</html>''"

definition plain_listing ::
  "('sb, 'pv, 'cv, 'dt, 'sh) libs \<Rightarrow> string \<Rightarrow> cstr \<Rightarrow> ('sb, 'pv, 'cv, 'dt) HSRoutesDirectoryServeContext" where
  \<comment> \<open>the context of a route without user functions\<close>
  "plain_listing L base head_content =
     \<lparr>dir_base_directory = Some base, additional_head_content = head_content, dir_filter = None,
      render_directory_entry = None, render_file_entry = None, create_href = hs_routes_fs_default_create_href L,
      dir_context = None\<rparr>"

definition entry_name :: "string \<Rightarrow> bool" where
  "entry_name n \<longleftrightarrow> n \<noteq> [] \<and> CHR ''/'' \<notin> set n"

lemma appends_text:
  "stringbuffer_ok L \<Longrightarrow> stringbuffer_to_string L (appends L b ss) = stringbuffer_to_string L b @ concat ss"
  unfolding appends_def by (induction ss arbitrary: b) (simp_all add: stringbuffer_laws)

lemma fsio_paths:
  assumes "fsio_ok L"
  shows "a \<noteq> [] \<Longrightarrow> last a \<noteq> CHR ''/'' \<Longrightarrow> fsio_join_paths L (Some a) (Some (CHR ''/'' # b)) = Some (a @ CHR ''/'' # b)"
    and "a \<noteq> [] \<Longrightarrow> entry_name n \<Longrightarrow> fsio_join_paths L (Some a) (Some n) = Some (child a n)"
    and "fsio_dir_exists L q w = (dirs w q \<noteq> None)" and "fsio_file_exists L q w = (files w q \<noteq> None)"
proof -
  from assms have ok:
    "\<forall>a b. a \<noteq> [] \<and> last a \<noteq> CHR ''/'' \<longrightarrow>
        fsio_join_paths L (Some a) (Some (CHR ''/'' # b)) = Some (a @ CHR ''/'' # b)"
    "\<forall>a b. a \<noteq> [] \<and> b \<noteq> [] \<and> hd b \<noteq> CHR ''/'' \<longrightarrow>
        fsio_join_paths L (Some a) (Some b) = Some (if last a = CHR ''/'' then a @ b else a @ CHR ''/'' # b)"
    "\<forall>p w. fsio_dir_exists L p w = (dirs w p \<noteq> None)" "\<forall>p w. fsio_file_exists L p w = (files w p \<noteq> None)"
    unfolding fsio_ok_def by - (elim conjE, assumption)+
  show "a \<noteq> [] \<Longrightarrow> last a \<noteq> CHR ''/'' \<Longrightarrow> fsio_join_paths L (Some a) (Some (CHR ''/'' # b)) = Some (a @ CHR ''/'' # b)"
    using ok(1) [rule_format, of a b] by blast
  show "fsio_join_paths L (Some a) (Some n) = Some (child a n)" if "a \<noteq> []" "entry_name n"
  proof -
    have "n \<noteq> [] \<and> hd n \<noteq> CHR ''/''" using that(2) by (cases n) (auto simp: entry_name_def)
    with that(1) have "fsio_join_paths L (Some a) (Some n) = Some (if last a = CHR ''/'' then a @ n else a @ CHR ''/'' # n)"
      using ok(2) [rule_format, of a n] by blast
    then show ?thesis by (simp only: child_def)
  qed
  show "fsio_dir_exists L q w = (dirs w q \<noteq> None)" "fsio_file_exists L q w = (files w q \<noteq> None)"
    using ok(3,4) by blast+
qed

lemma default_entry_text:
  assumes "libs_ok L"
  shows "stringbuffer_to_string L (hs_routes_directory_render_entry L b None name href ctx)
    = stringbuffer_to_string L b @ ''<a class='' @ dq @ ''entry'' @ dq @ '' href='' @ dq @ href @ dq @ ''>'' @ name @ ''</a><br>'' @ nl"
  by (simp add: hs_routes_directory_render_entry_def hs_routes_directory_default_renderer_def
      appends_text [OF libs_ok_parts(2) [OF assms]])

lemma directory_loop_text:
  assumes "libs_ok L" and "fsio_ok L" and "request p = Some req" and "req_resource req = Some resource" and "resource \<noteq> []"
    and "dir_path \<noteq> []"
  shows "list_all entry_name names \<Longrightarrow> \<exists>d' f'. directory_loop L (plain_listing L base head) p dir_path w names (d, f) = ret (d', f')
    \<and> stringbuffer_to_string L d' = stringbuffer_to_string L d @ concat (map (entry_text resource) (listed_dirs dir_path w names))
    \<and> stringbuffer_to_string L f' = stringbuffer_to_string L f @ concat (map (entry_text resource) (listed_files dir_path w names))"
proof (induction names arbitrary: d f)
  case Nil
  then show ?case by (simp add: listed_dirs_def listed_files_def)
next
  case (Cons n ns)
  then have n: "entry_name n" and ns: "list_all entry_name ns" by simp_all
  have href: "create_href (plain_listing L base head) p (Some base) n = ret (Some (child resource n))"
    by (simp add: plain_listing_def hs_routes_fs_default_create_href_def assms(3,4) fsio_paths(2) [OF assms(2,5) n])
  let ?h = "relative_href (child resource n)"
  let ?r = "\<lambda>b. hs_routes_directory_render_entry L b None n ?h None"
  have r: "stringbuffer_to_string L (?r b) = stringbuffer_to_string L b @ entry_text resource n" for b
    by (simp add: default_entry_text [OF assms(1)] entry_text_def child_def)
  have step: "directory_entry L (plain_listing L base head) p dir_path w n (d, f) =
    ret (if n = ''.'' \<or> n = ''..'' then (d, f)
         else if dirs w (child dir_path n) \<noteq> None then (?r d, f)
         else if files w (child dir_path n) \<noteq> None then (d, ?r f) else (d, f))"
    using href by (simp add: directory_entry_def fsio_paths(2) [OF assms(2,6) n] fsio_paths(3,4) [OF assms(2)] path_holds_def
        plain_listing_def Let_def)
  show ?case
    using Cons.IH [OF ns, of d f] Cons.IH [OF ns, of "?r d" f] Cons.IH [OF ns, of d "?r f"]
    by (simp add: step r listed_dirs_def listed_files_def)
qed

lemma directory_head_text:
  assumes "libs_ok L"
  shows "stringbuffer_to_string L (directory_head L head_content dir_name base) = head_text head_content dir_name base"
  by (simp add: directory_head_def head_text_def appends_text [OF libs_ok_parts(2) [OF assms]] Let_def
      stringbuffer_laws [OF libs_ok_parts(2) [OF assms]] split: option.split)

section \<open>Properties\<close>

text \<open>
  The file route serves exactly the files below its directory: for a resource without two dots
  in a row it answers if and only if the file \<open>base @ resource\<close> exists, with that file and its mime
  type; for any other resource it passes the request on.
\<close>

theorem file_route_serves_existing_files:
  assumes "fsio_ok L" and "request p = Some req" and "response p = Some resp" and "req_resource req = Some (CHR ''/'' # rest)"
    and "base \<noteq> []" and "last base \<noteq> CHR ''/''"
  shows "hs_routes_file_route_serve L (Some \<lparr>file_base_directory = Some base, get_mime_type = None, close_connection = False\<rparr>) path p w
    = ret (if \<not> sublist ''..'' (CHR ''/'' # rest) \<and> files w (base @ CHR ''/'' # rest) \<noteq> None
           then (HS_SERVE_FLOW_RESPONSE_DONE,
                 p\<lparr>response := Some (resp\<lparr>resp_code := HS_HTTP_RESPONSE_CODE_OK, resp_content_file := Some (base @ CHR ''/'' # rest),
                     resp_mime_type := hs_constants_file_extension_to_mime_type L (Some (base @ CHR ''/'' # rest))\<rparr>)\<rparr>, w)
           else (HS_SERVE_FLOW_RESPONSE_CONTINUE, p, w))"
proof -
  have "p\<lparr>request := Some req\<rparr> = p" using assms(2) by simp
  then show ?thesis
    using assms(2-4)
    by (auto simp: hs_routes_file_route_serve_def strstr_sublist fsio_paths [OF assms(1)] assms(5,6) Let_def)
qed

theorem file_route_serves_existing_files_witness:
  "\<exists>p1. hs_routes_file_route_serve reference_libs (Some \<lparr>file_base_directory = Some ''www'', get_mime_type = None, close_connection = False\<rparr>)
      None demo_flow ((connection [] [])\<lparr>files := [''www/a/b'' \<mapsto> ''hello'']\<rparr>)
    = ret (HS_SERVE_FLOW_RESPONSE_DONE, p1, (connection [] [])\<lparr>files := [''www/a/b'' \<mapsto> ''hello'']\<rparr>)"
proof -
  have "\<not> sublist ''..'' ''/a/b''" by (simp add: strstr_sublist [symmetric])
  with file_route_serves_existing_files [OF reference_fsio_ok demo_flow_simps(1,2), of "''a/b''" "''www''" None
      "(connection [] [])\<lparr>files := [''www/a/b'' \<mapsto> ''hello'']\<rparr>"]
  show ?thesis by (simp add: hs_types_http_request_new_def)
qed

text \<open>
  C16. No request leaves the directory: whatever file the file route sends, the components of its
  path, with \<open>.\<close> and \<open>..\<close> resolved, go through the base directory of the route. (A symbolic link below
  the base directory may still lead out of it: the server does not look for links.)
\<close>

theorem file_route_stays_inside:
  assumes "fsio_ok L" and "base \<noteq> []" and "last base \<noteq> CHR ''/''" and "file_base_directory ctx = Some base"
    and "request p = Some req" and "req_resource req = Some (CHR ''/'' # rest)"
    and "hs_routes_file_route_serve L (Some ctx) path p w = ret (HS_SERVE_FLOW_RESPONSE_DONE, p1, w1)"
  shows "\<exists>resp file. response p1 = Some resp \<and> resp_content_file resp = Some file
    \<and> prefix (resolve st (components base)) (resolve st (components file))"
proof -
  have sub: "\<not> sublist ''..'' (CHR ''/'' # rest)"
    and served: "\<exists>resp. response p1 = Some resp \<and> resp_content_file resp = Some (base @ CHR ''/'' # rest)"
    using assms(5-7) fsio_paths(1) [OF assms(1-3), of rest]
    by (auto simp: hs_routes_file_route_serve_def strstr_sublist assms(4) Let_def split: option.splits if_splits)
  from sub have "''..'' \<notin> set (components rest)"
    using components_sublist [of rest] by (auto simp: sublist_Cons_right)
  then have "prefix (resolve st (components base)) (resolve st (components (base @ CHR ''/'' # rest)))"
    by (simp add: components_append resolve_append resolve_without_parent)
  with served show ?thesis by blast
qed

theorem file_route_stays_inside_witness:
  "\<exists>p1 resp file. hs_routes_file_route_serve reference_libs (Some \<lparr>file_base_directory = Some ''www'', get_mime_type = None, close_connection = True\<rparr>)
      None demo_flow ((connection [] [])\<lparr>files := [''www/a/b'' \<mapsto> ''hello'']\<rparr>)
      = ret (HS_SERVE_FLOW_RESPONSE_DONE, p1, (connection [] [])\<lparr>files := [''www/a/b'' \<mapsto> ''hello'']\<rparr>)
    \<and> response p1 = Some resp \<and> resp_content_file resp = Some file \<and> prefix [''www''] (resolve [] (components file))"
proof -
  let ?ctx = "\<lparr>file_base_directory = Some ''www'', get_mime_type = None, close_connection = True\<rparr>"
  let ?w = "(connection [] [])\<lparr>files := [''www/a/b'' \<mapsto> ''hello'']\<rparr>"
  have res: "req_resource ((hs_types_http_request_new reference_libs)\<lparr>req_resource := Some ''/a/b'',
      req_connection := HS_CONNECTION_TYPE_KEEP_ALIVE\<rparr>) = Some (CHR ''/'' # ''a/b'')" by simp
  obtain p1 where run: "hs_routes_file_route_serve reference_libs (Some ?ctx) None demo_flow ?w = ret (HS_SERVE_FLOW_RESPONSE_DONE, p1, ?w)"
    using fsio_paths(1) [OF reference_fsio_ok, of "''www''" "''a/b''"]
    by (simp add: hs_routes_file_route_serve_def res fsio_paths(4) [OF reference_fsio_ok] Let_def)
  have "\<exists>resp file. response p1 = Some resp \<and> resp_content_file resp = Some file
      \<and> prefix (resolve [] (components ''www'')) (resolve [] (components file))"
    by (rule file_route_stays_inside [OF reference_fsio_ok _ _ _ demo_flow_simps(1) res run]) simp_all
  with run show ?thesis by auto
qed

text \<open>
  C26. A directory route without user functions answers with the page that lists, after the head,
  first the subdirectories and then the files of the directory, each exactly once and in the
  order of the directory, without the special entries. The names are copied into the page as
  they are, and the base path is followed by a stray less-than sign.
\<close>

theorem directory_listing:
  assumes "libs_ok L" and "fsio_ok L" and "request p = Some req" and "response p = Some resp" and "router_state p = Some rs"
    and "req_resource req = Some (CHR ''/'' # rest)" and "\<not> sublist ''..'' (CHR ''/'' # rest)"
    and "base \<noteq> []" and "last base \<noteq> CHR ''/''" and "dirs w (base @ CHR ''/'' # rest) = Some names" and "list_all entry_name names"
  shows "hs_routes_directory_route_serve L (Some (plain_listing L base head)) path p w
    = ret (HS_SERVE_FLOW_RESPONSE_DONE,
           p\<lparr>response := Some (resp\<lparr>resp_code := HS_HTTP_RESPONSE_CODE_OK,
               resp_content_string := Some (listing_text head (base_path rs) (CHR ''/'' # rest) (base @ CHR ''/'' # rest) w names),
               resp_mime_type := HS_MIME_TYPE_TEXT_HTML\<rparr>)\<rparr>, w)"
proof -
  let ?dir = "base @ CHR ''/'' # rest"
  let ?new = "(stringbuffer_new L, stringbuffer_new L)"
  note sb = libs_ok_parts(2) [OF assms(1)]
  obtain d f where loop: "directory_loop L (plain_listing L base head) p ?dir w names ?new = ret (d, f)"
    "stringbuffer_to_string L d = concat (map (entry_text (CHR ''/'' # rest)) (listed_dirs ?dir w names))"
    "stringbuffer_to_string L f = concat (map (entry_text (CHR ''/'' # rest)) (listed_files ?dir w names))"
    using directory_loop_text [OF assms(1,2,3,6) _ _ assms(11), of ?dir base head w "stringbuffer_new L" "stringbuffer_new L"]
    by (auto simp: stringbuffer_laws [OF sb])
  have "additional_head_content (plain_listing L base head) = head" by (simp add: plain_listing_def)
  then have "directory_html L (plain_listing L base head) p ?dir (base_path rs) w
      = ret (listing_text head (base_path rs) (CHR ''/'' # rest) ?dir w names)"
    by (cases "names = []") (simp_all add: directory_html_def c_scandir_def assms(10) loop listing_text_def Let_def
        directory_head_text [OF assms(1)] appends_text [OF sb] stringbuffer_laws [OF sb])
  moreover have "dir_base_directory (plain_listing L base head) = Some base" by (simp add: plain_listing_def)
  ultimately show ?thesis
    using assms(3-7,10) by (simp add: hs_routes_directory_route_serve_def strstr_sublist fsio_paths [OF assms(2)] assms(8,9))
qed

theorem directory_listing_witness:
  "\<exists>p1 resp. hs_routes_directory_route_serve reference_libs (Some (plain_listing reference_libs ''www'' None)) None demo_flow
      ((connection [] [])\<lparr>dirs := [''www/a/b'' \<mapsto> [''.'', ''..'', ''x'', ''y''], ''www/a/b/y'' \<mapsto> []], files := [''www/a/b/x'' \<mapsto> []]\<rparr>)
      = ret (HS_SERVE_FLOW_RESPONSE_DONE, p1,
          (connection [] [])\<lparr>dirs := [''www/a/b'' \<mapsto> [''.'', ''..'', ''x'', ''y''], ''www/a/b/y'' \<mapsto> []], files := [''www/a/b/x'' \<mapsto> []]\<rparr>)
    \<and> response p1 = Some resp
    \<and> resp_content_string resp = Some (head_text None ''b'' None @ entry_text ''/a/b'' ''y'' @ entry_text ''/a/b'' ''x''
         @ ''</body>'' @ nl @ ''</html>'')"
proof -
  let ?w = "(connection [] [])\<lparr>dirs := [''www/a/b'' \<mapsto> [''.'', ''..'', ''x'', ''y''], ''www/a/b/y'' \<mapsto> []], files := [''www/a/b/x'' \<mapsto> []]\<rparr>"
  have res: "req_resource ((hs_types_http_request_new reference_libs)\<lparr>req_resource := Some ''/a/b'',
      req_connection := HS_CONNECTION_TYPE_KEEP_ALIVE\<rparr>) = Some (CHR ''/'' # ''a/b'')" by simp
  have sub: "\<not> sublist ''..'' (CHR ''/'' # ''a/b'')" by (simp add: strstr_sublist [symmetric])
  have "hs_routes_directory_route_serve reference_libs (Some (plain_listing reference_libs ''www'' None)) None demo_flow ?w
    = ret (HS_SERVE_FLOW_RESPONSE_DONE, demo_flow\<lparr>response := Some ((hs_types_http_response_new reference_libs)
        \<lparr>resp_code := HS_HTTP_RESPONSE_CODE_OK, resp_content_string := Some (listing_text None (base_path hs_types_router_flow_state_new)
           (CHR ''/'' # ''a/b'') (''www'' @ CHR ''/'' # ''a/b'') ?w [''.'', ''..'', ''x'', ''y'']),
         resp_mime_type := HS_MIME_TYPE_TEXT_HTML\<rparr>)\<rparr>, ?w)"
    by (rule directory_listing [OF reference_ok(5) reference_fsio_ok demo_flow_simps(1,2,4) res sub])
      (simp_all add: entry_name_def)
  moreover have "listing_text None (base_path hs_types_router_flow_state_new) (CHR ''/'' # ''a/b'') (''www'' @ CHR ''/'' # ''a/b'') ?w
      [''.'', ''..'', ''x'', ''y''] = head_text None ''b'' None @ entry_text ''/a/b'' ''y'' @ entry_text ''/a/b'' ''x''
         @ ''</body>'' @ nl @ ''</html>''"
    by (simp add: listing_text_def listed_dirs_def listed_files_def child_def c_basename_def hs_types_router_flow_state_new_def)
  ultimately show ?thesis by simp
qed

end
