(* ===== verification/OpenSSL.thy ===== *)
theory OpenSSL
  imports World
begin

text \<open>
  The use of OpenSSL's global state and of its contexts (\<open>src/hs_openssl.c\<close>, compiled with
  \<open>HS_SSL_SUPPORTED\<close>). The counter of the file is kept with the calls it has let through, in their
  order; what OpenSSL does in these calls is not part of the repository. The context functions are
  parameters.
\<close>

section \<open>The counter\<close>

datatype openssl_call =
    SSL_load_error_strings
  | SSL_library_init
  | OpenSSL_add_all_algorithms
  | ERR_free_strings
  | EVP_cleanup

record ssl_global =
  ssl_init_count :: int
  openssl_calls :: "openssl_call list"

definition hs_openssl_supported :: bool where
  "hs_openssl_supported = True"

definition hs_openssl_init :: "ssl_global \<Rightarrow> ssl_global" where
  "hs_openssl_init g =
     (let g1 = g\<lparr>ssl_init_count := ssl_init_count g + 1\<rparr>
      in if ssl_init_count g1 > 1 then g1
         else g1\<lparr>openssl_calls := openssl_calls g1 @ [SSL_load_error_strings, SSL_library_init, OpenSSL_add_all_algorithms]\<rparr>)"

definition hs_openssl_cleanup :: "ssl_global \<Rightarrow> ssl_global" where
  "hs_openssl_cleanup g =
     (let g1 = g\<lparr>ssl_init_count := ssl_init_count g - 1\<rparr>
      in if ssl_init_count g1 < 0
         then g1\<lparr>ssl_init_count := 0, openssl_calls := openssl_calls g1 @ [ERR_free_strings, EVP_cleanup]\<rparr>
         else if ssl_init_count g1 \<noteq> 0 then g1
         else g1\<lparr>openssl_calls := openssl_calls g1 @ [ERR_free_strings, EVP_cleanup]\<rparr>)"

section \<open>Contexts\<close>

record ssl_ctx_lib =
  SSL_CTX_new :: "world \<Rightarrow> nat option \<times> world"
  SSL_CTX_set_options :: "nat \<Rightarrow> world \<Rightarrow> world"
  SSL_CTX_use_certificate_file :: "nat \<Rightarrow> string \<Rightarrow> world \<Rightarrow> int \<times> world"
  SSL_CTX_use_PrivateKey_file :: "nat \<Rightarrow> string \<Rightarrow> world \<Rightarrow> int \<times> world"
  SSL_CTX_free :: "nat \<Rightarrow> world \<Rightarrow> world"

definition hs_openssl_context_release :: "ssl_ctx_lib \<Rightarrow> nat option \<Rightarrow> world \<Rightarrow> world" where
  "hs_openssl_context_release X ssl_context w = (case ssl_context of None \<Rightarrow> w | Some c \<Rightarrow> SSL_CTX_free X c w)"

definition hs_openssl_context_create :: "ssl_ctx_lib \<Rightarrow> cstr \<Rightarrow> cstr \<Rightarrow> world \<Rightarrow> nat option \<times> world" where
  \<comment> \<open>the two calls for options set \<open>SSL_OP_ALL\<close> and \<open>SSL_OP_SINGLE_DH_USE\<close>\<close>
  "hs_openssl_context_create X private_key_pem_file certificate_pem_file w =
     (case (private_key_pem_file, certificate_pem_file) of
        (Some key, Some certificate) \<Rightarrow>
          (case SSL_CTX_new X w of
             (None, w1) \<Rightarrow> (None, w1)
           | (Some ctx, w1) \<Rightarrow>
               (case SSL_CTX_use_certificate_file X ctx certificate (SSL_CTX_set_options X ctx (SSL_CTX_set_options X ctx w1)) of
                  (r, w2) \<Rightarrow>
                    if r \<le> 0 then (None, hs_openssl_context_release X (Some ctx) w2)
                    else (case SSL_CTX_use_PrivateKey_file X ctx key w2 of
                            (r1, w3) \<Rightarrow>
                              if r1 \<le> 0 then (None, hs_openssl_context_release X (Some ctx) w3)
                              else (Some ctx, w3))))
      | _ \<Rightarrow> (None, w))"

section \<open>Runs of the two functions\<close>

datatype ssl_use = Init | Cleanup

primrec ssl_use_step :: "ssl_use \<Rightarrow> ssl_global \<Rightarrow> ssl_global" where
  "ssl_use_step Init = hs_openssl_init"
| "ssl_use_step Cleanup = hs_openssl_cleanup"

definition ssl_start :: ssl_global where
  "ssl_start = \<lparr>ssl_init_count = 0, openssl_calls = []\<rparr>"

definition ssl_ready :: "ssl_global \<Rightarrow> bool" where
  \<comment> \<open>the last batch of calls was the one of an initialisation\<close>
  "ssl_ready g \<longleftrightarrow> (openssl_calls g \<noteq> [] \<and> last (openssl_calls g) = OpenSSL_add_all_algorithms)"

definition ssl_wf :: "ssl_global \<Rightarrow> bool" where
  "ssl_wf g \<longleftrightarrow> 0 \<le> ssl_init_count g \<and> (ssl_ready g \<longleftrightarrow> 0 < ssl_init_count g)"

lemma ssl_start_wf: "ssl_wf ssl_start"
  by (simp add: ssl_wf_def ssl_start_def ssl_ready_def)

lemma ssl_use_step_wf: "ssl_wf g \<Longrightarrow> ssl_wf (ssl_use_step u g)"
  by (cases u) (auto simp: ssl_wf_def ssl_ready_def hs_openssl_init_def hs_openssl_cleanup_def Let_def)

lemma ssl_init_cleanup:
  assumes "ssl_wf g"
  shows "ssl_init_count (hs_openssl_cleanup (hs_openssl_init g)) = ssl_init_count g"
    and "ssl_wf (hs_openssl_init g)" and "ssl_wf (hs_openssl_cleanup (hs_openssl_init g))"
    and "ssl_init_count (hs_openssl_init g) = ssl_init_count g + 1" and "ssl_ready (hs_openssl_init g)"
proof -
  show wf: "ssl_wf (hs_openssl_init g)" using ssl_use_step_wf [OF assms, of Init] by simp
  show "ssl_wf (hs_openssl_cleanup (hs_openssl_init g))" using ssl_use_step_wf [OF wf, of Cleanup] by simp
  show count: "ssl_init_count (hs_openssl_init g) = ssl_init_count g + 1"
    by (simp add: hs_openssl_init_def Let_def)
  with wf assms show "ssl_ready (hs_openssl_init g)" by (simp add: ssl_wf_def)
  from assms show "ssl_init_count (hs_openssl_cleanup (hs_openssl_init g)) = ssl_init_count g"
    by (simp add: hs_openssl_cleanup_def count Let_def ssl_wf_def)
qed

lemma cleanup_count: "ssl_wf g \<Longrightarrow> ssl_init_count (hs_openssl_cleanup g) = max 0 (ssl_init_count g - 1)"
  by (simp add: hs_openssl_cleanup_def Let_def ssl_wf_def)

section \<open>Properties\<close>

text \<open>
  C30. Whatever the order in which servers initialise OpenSSL and clean up after themselves, the
  library is ready exactly while the counter is positive, and the counter never is negative:
  surplus calls of the cleanup do not make a later initialisation ineffective.
\<close>

theorem openssl_ready_while_used:
  "0 \<le> ssl_init_count (fold ssl_use_step uses ssl_start)
   \<and> (ssl_ready (fold ssl_use_step uses ssl_start) \<longleftrightarrow> 0 < ssl_init_count (fold ssl_use_step uses ssl_start))"
proof -
  have "ssl_wf g \<Longrightarrow> ssl_wf (fold ssl_use_step uses g)" for g
    by (induction uses arbitrary: g) (simp_all add: ssl_use_step_wf)
  then show ?thesis using ssl_start_wf by (simp add: ssl_wf_def)
qed

end
