(* ===== verification/Server.thy ===== *)
theory Server
  imports Router OpenSSL
begin

text \<open>
  The server of \<open>src/hs_server.c\<close>, compiled with \<open>HS_SSL_SUPPORTED\<close> and \<open>HS_THREADS_ENABLED\<close>: its life
  cycle, the listen loop and the two connection handlers. The function pointers the library sets
  itself are tags; the hooks of a handler act on the world. The thread pool is a parameter that
  gets the job as a function of the shared state; the interleaving of the workers with the listen
  loop is the step relation of \<open>Server_Threads\<close>. The calls that create a listening socket are
  answered by the kernel, a parameter too.
\<close>

section \<open>Structs\<close>

datatype connection_fun = SingleThreadOnConnection | MultiThreadOnConnection

datatype accept_fun = PlainSocketAccept | SslSocketAccept

datatype listen_fun = CreateSocketAndListen

datatype loop_fun = SocketListenLoop

datatype release_fun = MultiThreadRelease

record HSServerConnectionHandler =
  handler_init :: "(world \<Rightarrow> world) option"
  on_connection :: "connection_fun option"
  stop_connections :: "(world \<Rightarrow> world) option"
  handler_release :: "release_fun option"
  handler_extension :: "nat option"

record HSServerSSLInfo =
  private_key_pem_file :: cstr
  certificate_pem_file :: cstr

record HSServerInternal =
  running :: bool
  stop_requested :: bool
  ssl_context :: "nat option"

record 'rv HSServer =
  server_router :: "'rv HSRouter option"
  accept_recv_timeout_seconds :: int
  request_recv_timeout_seconds :: int
  connection_handler :: "HSServerConnectionHandler option"
  ssl_info :: "HSServerSSLInfo option"
  create_socket_and_listen :: "listen_fun option"
  server_accept :: "accept_fun option"
  listen_loop :: "loop_fun option"
  internal :: "HSServerInternal option"

record sockaddr_in =
  sin_family :: nat
  sin_addr :: "32 word"
  sin_port :: "16 word"

text \<open>The environment of the server: the kernel's answers for new sockets, and the thread pool.\<close>

record net_lib =
  posix_socket :: "world \<Rightarrow> int \<times> world"
  posix_setsockopt_reuse :: "int \<Rightarrow> world \<Rightarrow> int \<times> world"
  posix_bind :: "int \<Rightarrow> sockaddr_in \<Rightarrow> world \<Rightarrow> int \<times> world"
  posix_listen :: "int \<Rightarrow> nat \<Rightarrow> world \<Rightarrow> int \<times> world"

type_synonym 'rv shared = "'rv HSServer \<times> world"

record 'rv pool_lib =
  threadpool_new_with_options :: "nat \<Rightarrow> nat option"
  threadpool_invoke :: "nat \<Rightarrow> ('rv shared \<Rightarrow> 'rv shared run) \<Rightarrow> 'rv shared \<Rightarrow> 'rv shared run"
  threadpool_release :: "nat \<Rightarrow> world \<Rightarrow> world"

type_synonym 'rv stop_server = "'rv HSServer \<Rightarrow> world \<Rightarrow> bool \<times> world"

section \<open>Creation and release\<close>

definition HS_SERVER_DEFAULT_THREAD_POOL_SIZE :: nat where
  "HS_SERVER_DEFAULT_THREAD_POOL_SIZE = 20"

definition hs_server_connection_handler_new :: HSServerConnectionHandler where
  \<comment> \<open>the code leaves the extension uninitialised, and reads it only where a constructor has set it\<close>
  "hs_server_connection_handler_new =
     \<lparr>handler_init = None, on_connection = None, stop_connections = None, handler_release = None, handler_extension = None\<rparr>"

definition hs_server_new_with_handler ::
  "('rv, ('sb, 'pv, 'cv, 'dt) route) vector_lib \<Rightarrow> HSServerConnectionHandler option \<Rightarrow> 'rv HSServer" where
  \<comment> \<open>\<open>_hs_server_new\<close>; the field \<open>accept\<close> is set by \<open>hs_server_serve\<close> only\<close>
  "hs_server_new_with_handler V handler =
     \<lparr>server_router = Some (hs_router_new V), accept_recv_timeout_seconds = -1, request_recv_timeout_seconds = -1,
      connection_handler = handler, ssl_info = Some \<lparr>private_key_pem_file = None, certificate_pem_file = None\<rparr>,
      create_socket_and_listen = Some CreateSocketAndListen, server_accept = None, listen_loop = Some SocketListenLoop,
      internal = Some \<lparr>running = False, stop_requested = False, ssl_context = None\<rparr>\<rparr>"

definition hs_server_new_single_thread ::
  "('rv, ('sb, 'pv, 'cv, 'dt) route) vector_lib \<Rightarrow> 'rv HSServer option" where
  "hs_server_new_single_thread V =
     Some (hs_server_new_with_handler V (Some (hs_server_connection_handler_new\<lparr>on_connection := Some SingleThreadOnConnection\<rparr>)))"

definition hs_server_new_multi_thread ::
  "('rv, ('sb, 'pv, 'cv, 'dt) route) vector_lib \<Rightarrow> 'rv pool_lib \<Rightarrow> nat \<Rightarrow> 'rv HSServer option" where
  "hs_server_new_multi_thread V T thread_pool_size =
     (if thread_pool_size = 0 then None
      else Some (hs_server_new_with_handler V (Some (hs_server_connection_handler_new
             \<lparr>handler_extension := threadpool_new_with_options T thread_pool_size,
              on_connection := Some MultiThreadOnConnection, handler_release := Some MultiThreadRelease\<rparr>))))"

definition hs_server_new ::
  "('rv, ('sb, 'pv, 'cv, 'dt) route) vector_lib \<Rightarrow> 'rv pool_lib \<Rightarrow> 'rv HSServer option" where
  "hs_server_new V T = hs_server_new_multi_thread V T HS_SERVER_DEFAULT_THREAD_POOL_SIZE"

definition hs_server_multi_thread_release :: "'rv pool_lib \<Rightarrow> HSServerConnectionHandler \<Rightarrow> world \<Rightarrow> world" where
  "hs_server_multi_thread_release T handler w =
     (case handler_extension handler of None \<Rightarrow> w | Some pool \<Rightarrow> threadpool_release T pool w)"

definition hs_server_connection_handler_release ::
  "'rv pool_lib \<Rightarrow> HSServerConnectionHandler option \<Rightarrow> world \<Rightarrow> world" where
  "hs_server_connection_handler_release T handler w =
     (case handler of
        None \<Rightarrow> w
      | Some h \<Rightarrow>
          (let w1 = (case stop_connections h of None \<Rightarrow> w | Some stop \<Rightarrow> stop w)
           in case handler_release h of None \<Rightarrow> w1 | Some MultiThreadRelease \<Rightarrow> hs_server_multi_thread_release T h w1))"

definition hs_server_release ::
  "('rv, ('sb, 'pv, 'cv, 'dt) route) vector_lib \<Rightarrow> ssl_ctx_lib \<Rightarrow> 'rv pool_lib \<Rightarrow> 'rv HSServer option \<Rightarrow> world \<Rightarrow> world run" where
  \<comment> \<open>the other parts are memory only\<close>
  "hs_server_release V X T server w =
     (case server of
        None \<Rightarrow> ret w
      | Some s \<Rightarrow>
          bindR (hs_router_release V (server_router s) w)
            (\<lambda>w1. let w2 = hs_server_connection_handler_release T (connection_handler s) w1
                  in ret (case internal s of None \<Rightarrow> w2 | Some i \<Rightarrow> hs_openssl_context_release X (ssl_context i) w2)))"

section \<open>The listening socket\<close>

definition htons :: "16 word \<Rightarrow> 16 word" where
  \<comment> \<open>on a little-endian host\<close>
  "htons p = or (push_bit 8 p) (drop_bit 8 p)"

definition hs_server_init_ipv4_address :: "16 word \<Rightarrow> sockaddr_in" where
  \<comment> \<open>\<open>AF_INET\<close> and \<open>INADDR_ANY\<close>\<close>
  "hs_server_init_ipv4_address port = \<lparr>sin_family = 2, sin_addr = 0, sin_port = htons port\<rparr>"

definition hs_server_create_socket_and_listen ::
  "('sb, 'pv, 'cv, 'dt, 'sh) libs \<Rightarrow> net_lib \<Rightarrow> 'rv HSServer option \<Rightarrow> sockaddr_in option \<Rightarrow> world
    \<Rightarrow> HSSocket option \<times> world" where
  "hs_server_create_socket_and_listen L N server address w =
     (case (server, address) of
        (Some s, Some a) \<Rightarrow>
          (case posix_socket N w of
             (socket_fd, w1) \<Rightarrow>
               if socket_fd = 0 \<or> socket_fd = -1 then (None, w1)
               else (case hs_socket_plain_new socket_fd of
                       None \<Rightarrow> (None, snd (posix_close socket_fd w1))
                     | Some hssocket \<Rightarrow>
                         (let give_up = (\<lambda>w. (None, hs_socket_close_and_release L (Some hssocket) w))
                          in case posix_setsockopt_reuse N socket_fd w1 of
                               (opt, w2) \<Rightarrow>
                                 if opt < 0 then give_up w2
                                 else (case hs_socket_set_recv_timeout_in_seconds (Some hssocket) (accept_recv_timeout_seconds s) w2 of
                                         (timeout_set, w3) \<Rightarrow>
                                           if \<not> timeout_set then give_up w3
                                           else (case posix_bind N socket_fd a w3 of
                                                   (bound, w4) \<Rightarrow>
                                                     if bound < 0 then give_up w4
                                                     else (case posix_listen N socket_fd 1 w4 of
                                                             (listening, w5) \<Rightarrow>
                                                               if listening < 0 then give_up w5
                                                               else (Some hssocket, w5)))))))
      | _ \<Rightarrow> (None, w))"

section \<open>Connections\<close>

definition hs_server_plain_socket_accept ::
  "'rv HSServer option \<Rightarrow> HSSocket option \<Rightarrow> world \<Rightarrow> HSSocket option \<times> world" where
  "hs_server_plain_socket_accept server server_socket w =
     (if server = None \<or> server_socket = None then (None, w) else hs_socket_plain_accept server_socket w)"

definition hs_server_ssl_socket_accept ::
  "('sb, 'pv, 'cv, 'dt, 'sh) libs \<Rightarrow> 'rv HSServer option \<Rightarrow> HSSocket option \<Rightarrow> world \<Rightarrow> (HSSocket option \<times> world) run" where
  "hs_server_ssl_socket_accept L server server_socket w =
     (case (server, server_socket) of
        (Some s, Some _) \<Rightarrow>
          (case internal s of
             None \<Rightarrow> ub NullDeref
           | Some i \<Rightarrow> if ssl_context i = None then ret (None, w)
                       else ret (hs_socket_ssl_accept L server_socket (ssl_context i) w))
      | _ \<Rightarrow> ret (None, w))"

definition check_stop_server :: "'rv stop_server option \<Rightarrow> 'rv shared \<Rightarrow> 'rv shared run" where
  \<comment> \<open>the last statement of the handlers and of the loop\<close>
  "check_stop_server should_stop_server st =
     (case st of
        (s, w) \<Rightarrow>
          (case should_stop_server of
             None \<Rightarrow> ret (s, w)
           | Some f \<Rightarrow>
               (case internal s of
                  None \<Rightarrow> ub NullDeref
                | Some i \<Rightarrow>
                    if stop_requested i then ret (s, w)
                    else (case f s w of (b, w1) \<Rightarrow> ret (s\<lparr>internal := Some (i\<lparr>stop_requested := b\<rparr>)\<rparr>, w1)))))"

definition hs_server_single_thread_on_connection ::
  "('sb, 'pv, 'cv, 'dt, 'sh) libs \<Rightarrow> ('rv, ('sb, 'pv, 'cv, 'dt) route) vector_lib \<Rightarrow> HSServerConnectionHandler option
    \<Rightarrow> HSSocket option \<Rightarrow> 'rv stop_server option \<Rightarrow> stop_function option \<Rightarrow> 'rv shared \<Rightarrow> 'rv shared run" where
  "hs_server_single_thread_on_connection L V handler socket should_stop_server should_stop_for_connection st =
     (case st of
        (s, w) \<Rightarrow>
          if handler = None \<or> server_router s = None \<or> socket = None then ret (s, w)
          else bindR (hs_router_serve_forever L V (server_router s) socket should_stop_for_connection w)
                 (\<lambda>(_, w1). check_stop_server should_stop_server (s, hs_socket_close_and_release L socket w1)))"

record 'rv HsServerOnConnectionParams =
  params_socket :: "HSSocket option"
  params_should_stop_server :: "'rv stop_server option"
  params_should_stop_for_connection :: "stop_function option"

definition hs_server_multi_thread_on_connection_in_background ::
  "('sb, 'pv, 'cv, 'dt, 'sh) libs \<Rightarrow> ('rv, ('sb, 'pv, 'cv, 'dt) route) vector_lib \<Rightarrow> 'rv HsServerOnConnectionParams option
    \<Rightarrow> 'rv shared \<Rightarrow> 'rv shared run" where
  "hs_server_multi_thread_on_connection_in_background L V args st =
     (case (args, st) of
        (None, _) \<Rightarrow> ret st
      | (Some params, s, w) \<Rightarrow>
          if server_router s = None \<or> params_socket params = None then ret (s, w)
          else bindR (hs_router_serve_forever L V (server_router s) (params_socket params)
                        (params_should_stop_for_connection params) w)
                 (\<lambda>(_, w1). check_stop_server (params_should_stop_server params)
                    (s, hs_socket_close_and_release L (params_socket params) w1)))"

definition hs_server_multi_thread_on_connection ::
  "('sb, 'pv, 'cv, 'dt, 'sh) libs \<Rightarrow> ('rv, ('sb, 'pv, 'cv, 'dt) route) vector_lib \<Rightarrow> 'rv pool_lib
    \<Rightarrow> HSServerConnectionHandler option \<Rightarrow> HSSocket option \<Rightarrow> 'rv stop_server option \<Rightarrow> stop_function option
    \<Rightarrow> 'rv shared \<Rightarrow> 'rv shared run" where
  "hs_server_multi_thread_on_connection L V T handler socket should_stop_server should_stop_for_connection st =
     (case (handler, st) of
        (None, _) \<Rightarrow> ret st
      | (Some h, s, w) \<Rightarrow>
          (case handler_extension h of
             None \<Rightarrow> ret (s, w)
           | Some pool \<Rightarrow>
               if server_router s = None \<or> socket = None then ret (s, w)
               else threadpool_invoke T pool
                      (hs_server_multi_thread_on_connection_in_background L V
                         (Some \<lparr>params_socket = socket, params_should_stop_server = should_stop_server,
                                params_should_stop_for_connection = should_stop_for_connection\<rparr>)) (s, w)))"

section \<open>The listen loop\<close>

definition server_do_accept ::
  "('sb, 'pv, 'cv, 'dt, 'sh) libs \<Rightarrow> 'rv HSServer \<Rightarrow> HSSocket option \<Rightarrow> world \<Rightarrow> (HSSocket option \<times> world) run" where
  \<comment> \<open>the call through \<open>server->accept\<close>\<close>
  "server_do_accept L s server_socket w =
     (case server_accept s of
        None \<Rightarrow> ub NullDeref
      | Some PlainSocketAccept \<Rightarrow> ret (hs_server_plain_socket_accept (Some s) server_socket w)
      | Some SslSocketAccept \<Rightarrow> hs_server_ssl_socket_accept L (Some s) server_socket w)"

definition server_on_connection ::
  "('sb, 'pv, 'cv, 'dt, 'sh) libs \<Rightarrow> ('rv, ('sb, 'pv, 'cv, 'dt) route) vector_lib \<Rightarrow> 'rv pool_lib
    \<Rightarrow> HSSocket option \<Rightarrow> 'rv stop_server option \<Rightarrow> stop_function option \<Rightarrow> 'rv shared \<Rightarrow> 'rv shared run" where
  \<comment> \<open>the call through \<open>server->connection_handler->on_connection\<close>\<close>
  "server_on_connection L V T socket should_stop_server should_stop_for_connection st =
     (case connection_handler (fst st) of
        None \<Rightarrow> ub NullDeref
      | Some h \<Rightarrow>
          (case on_connection h of
             None \<Rightarrow> ub NullDeref
           | Some SingleThreadOnConnection \<Rightarrow>
               hs_server_single_thread_on_connection L V (Some h) socket should_stop_server should_stop_for_connection st
           | Some MultiThreadOnConnection \<Rightarrow>
               hs_server_multi_thread_on_connection L V T (Some h) socket should_stop_server should_stop_for_connection st))"

definition listen_iteration ::
  "('sb, 'pv, 'cv, 'dt, 'sh) libs \<Rightarrow> ('rv, ('sb, 'pv, 'cv, 'dt) route) vector_lib \<Rightarrow> 'rv pool_lib
    \<Rightarrow> HSSocket option \<Rightarrow> 'rv stop_server option \<Rightarrow> stop_function option \<Rightarrow> 'rv shared \<Rightarrow> 'rv shared run" where
  "listen_iteration L V T server_socket should_stop_server should_stop_for_connection st =
     (case st of
        (s, w) \<Rightarrow>
          bindR (server_do_accept L s server_socket w)
            (\<lambda>(client_socket, w1).
               if client_socket = None then check_stop_server should_stop_server (s, w1)
               else (case hs_socket_set_recv_timeout_in_seconds client_socket (request_recv_timeout_seconds s) w1 of
                       (timeout_set, w2) \<Rightarrow>
                         if timeout_set
                         then server_on_connection L V T client_socket should_stop_server should_stop_for_connection (s, w2)
                         else check_stop_server should_stop_server (s, hs_socket_close_and_release L client_socket w2))))"

partial_function (option) hs_server_socket_listen_loop ::
  "('sb, 'pv, 'cv, 'dt, 'sh) libs \<Rightarrow> ('rv, ('sb, 'pv, 'cv, 'dt) route) vector_lib \<Rightarrow> 'rv pool_lib
    \<Rightarrow> HSSocket option \<Rightarrow> 'rv stop_server option \<Rightarrow> stop_function option \<Rightarrow> 'rv shared \<Rightarrow> (fault + 'rv shared) option" where
  "hs_server_socket_listen_loop L V T server_socket should_stop_server should_stop_for_connection st =
     bindR (listen_iteration L V T server_socket should_stop_server should_stop_for_connection st)
       (\<lambda>st1. case internal (fst st1) of
                 None \<Rightarrow> ub NullDeref
               | Some i \<Rightarrow> if stop_requested i then ret st1
                           else hs_server_socket_listen_loop L V T server_socket should_stop_server should_stop_for_connection st1)"

declare hs_server_socket_listen_loop.simps [code]

section \<open>Serving\<close>

definition set_internal :: "(HSServerInternal \<Rightarrow> HSServerInternal) \<Rightarrow> 'rv HSServer \<Rightarrow> 'rv HSServer" where
  "set_internal f s = s\<lparr>internal := map_option f (internal s)\<rparr>"

definition server_can_serve :: "'rv HSServer \<Rightarrow> bool" where
  \<comment> \<open>the guard of \<open>hs_server_serve\<close>\<close>
  "server_can_serve s \<longleftrightarrow> internal s \<noteq> None \<and> server_router s \<noteq> None \<and> create_socket_and_listen s \<noteq> None \<and> listen_loop s \<noteq> None
     \<and> (case connection_handler s of None \<Rightarrow> False | Some h \<Rightarrow> on_connection h \<noteq> None)
     \<and> \<not> running (the (internal s))"

definition release_ssl ::
  "ssl_ctx_lib \<Rightarrow> bool \<Rightarrow> 'rv HSServer \<times> ssl_global \<times> world \<Rightarrow> 'rv HSServer \<times> ssl_global \<times> world" where
  \<comment> \<open>the block that \<open>hs_server_serve\<close> has in its failing and in its normal end\<close>
  "release_ssl X use_ssl st =
     (case st of
        (s, g, w) \<Rightarrow>
          if use_ssl
          then (set_internal (\<lambda>i. i\<lparr>ssl_context := None\<rparr>) s, hs_openssl_cleanup g,
                hs_openssl_context_release X (Option.bind (internal s) ssl_context) w)
          else (s, g, w))"

definition serve_listening ::
  "('sb, 'pv, 'cv, 'dt, 'sh) libs \<Rightarrow> ('rv, ('sb, 'pv, 'cv, 'dt) route) vector_lib \<Rightarrow> net_lib \<Rightarrow> ssl_ctx_lib \<Rightarrow> 'rv pool_lib
    \<Rightarrow> bool \<Rightarrow> sockaddr_in \<Rightarrow> 'rv stop_server option \<Rightarrow> stop_function option \<Rightarrow> 'rv HSServer \<Rightarrow> ssl_global \<Rightarrow> world
    \<Rightarrow> (bool \<times> 'rv HSServer \<times> ssl_global \<times> world) run" where
  \<comment> \<open>from \<open>running = true\<close> to the end\<close>
  "serve_listening L V N X T use_ssl address should_stop_server should_stop_for_connection s g w =
     (let s1 = set_internal (\<lambda>i. i\<lparr>running := True, stop_requested := False\<rparr>) s
      in case hs_server_create_socket_and_listen L N (Some s1) (Some address) w of
           (None, w1) \<Rightarrow> ret (False, release_ssl X use_ssl (s1, g, w1))
         | (Some socket, w1) \<Rightarrow>
             (let w2 = (case Option.bind (connection_handler s1) handler_init of None \<Rightarrow> w1 | Some f \<Rightarrow> f w1)
              in bindR (hs_server_socket_listen_loop L V T (Some socket) should_stop_server should_stop_for_connection (s1, w2))
                   (\<lambda>(s2, w3).
                      let w4 = hs_socket_close_and_release L (Some socket) w3;
                          w5 = (case Option.bind (connection_handler s2) stop_connections of None \<Rightarrow> w4 | Some f \<Rightarrow> f w4)
                      in case release_ssl X use_ssl (s2, g, w5) of
                           (s3, g1, w6) \<Rightarrow> ret (True, set_internal (\<lambda>i. i\<lparr>running := False\<rparr>) s3, g1, w6))))"

definition ssl_files :: "'rv HSServer \<Rightarrow> (string \<times> string) option" where
  \<comment> \<open>the condition for \<open>use_ssl\<close>, with the names it tests\<close>
  "ssl_files s =
     (case ssl_info s of
        None \<Rightarrow> None
      | Some info \<Rightarrow>
          (case (private_key_pem_file info, certificate_pem_file info) of
             (Some key, Some certificate) \<Rightarrow> Some (key, certificate)
           | _ \<Rightarrow> None))"

definition hs_server_serve ::
  "('sb, 'pv, 'cv, 'dt, 'sh) libs \<Rightarrow> ('rv, ('sb, 'pv, 'cv, 'dt) route) vector_lib \<Rightarrow> net_lib \<Rightarrow> ssl_ctx_lib \<Rightarrow> 'rv pool_lib
    \<Rightarrow> 'rv HSServer \<Rightarrow> sockaddr_in \<Rightarrow> 'rv stop_server option \<Rightarrow> stop_function option \<Rightarrow> ssl_global \<Rightarrow> world
    \<Rightarrow> (bool \<times> 'rv HSServer \<times> ssl_global \<times> world) run" where
  "hs_server_serve L V N X T s address should_stop_server should_stop_for_connection g w =
     (if \<not> server_can_serve s then ret (False, s, g, w)
      else (case ssl_files s of
              Some (key, certificate) \<Rightarrow>
                (let g1 = hs_openssl_init g
                 in case hs_openssl_context_create X (Some key) (Some certificate) w of
                      (ctx, w1) \<Rightarrow>
                        (let s1 = set_internal (\<lambda>i. i\<lparr>ssl_context := ctx\<rparr>) (s\<lparr>server_accept := Some SslSocketAccept\<rparr>)
                         in if ctx = None then ret (False, s1, hs_openssl_cleanup g1, w1)
                            else serve_listening L V N X T True address should_stop_server should_stop_for_connection s1 g1 w1))
            | None \<Rightarrow> serve_listening L V N X T False address should_stop_server should_stop_for_connection
                     (s\<lparr>server_accept := Some PlainSocketAccept\<rparr>) g w))"

section \<open>What a run leaves of the server\<close>

definition same_server :: "'rv HSServer \<Rightarrow> 'rv HSServer \<Rightarrow> bool" where
  \<comment> \<open>equal but for the stop flag\<close>
  "same_server s s1 \<longleftrightarrow>
     set_internal (\<lambda>i. i\<lparr>stop_requested := False\<rparr>) s = set_internal (\<lambda>i. i\<lparr>stop_requested := False\<rparr>) s1"

lemma same_server_refl [simp]: "same_server s s"
  by (simp add: same_server_def)

lemma same_server_trans: "same_server s s1 \<Longrightarrow> same_server s1 s2 \<Longrightarrow> same_server s s2"
  by (simp add: same_server_def)

lemma same_server_internal:
  assumes "same_server s s1" and "internal s = Some i"
  obtains b where "internal s1 = Some (i\<lparr>stop_requested := b\<rparr>)"
proof -
  from assms(1) have "internal (set_internal (\<lambda>i. i\<lparr>stop_requested := False\<rparr>) s)
      = internal (set_internal (\<lambda>i. i\<lparr>stop_requested := False\<rparr>) s1)" by (simp add: same_server_def)
  with assms(2) obtain j where j: "internal s1 = Some j" "i\<lparr>stop_requested := False\<rparr> = j\<lparr>stop_requested := False\<rparr>"
    by (cases "internal s1") (auto simp: set_internal_def)
  then have "j = i\<lparr>stop_requested := stop_requested j\<rparr>" by (cases i; cases j) simp
  with j(1) that show thesis by metis
qed

definition pool_ok :: "'rv pool_lib \<Rightarrow> bool" where
  \<comment> \<open>a pool changes the shared state by running the job it was given, any number of times\<close>
  "pool_ok T \<longleftrightarrow> (\<forall>p job R. (\<forall>x. R x x) \<and> (\<forall>x y z. R x y \<longrightarrow> R y z \<longrightarrow> R x z) \<and> (\<forall>x y. job x = ret y \<longrightarrow> R x y)
     \<longrightarrow> (\<forall>x y. threadpool_invoke T p job x = ret y \<longrightarrow> R x y))"

lemma check_stop_same:
  "check_stop_server f st = ret st1 \<Longrightarrow> same_server (fst st) (fst st1)"
  by (cases st) (auto simp: check_stop_server_def same_server_def set_internal_def split: option.splits if_splits prod.splits)

lemma background_same:
  "hs_server_multi_thread_on_connection_in_background L V args st = ret st1 \<Longrightarrow> same_server (fst st) (fst st1)"
  by (cases st) (auto simp: hs_server_multi_thread_on_connection_in_background_def bindR_eq_ret dest: check_stop_same
      split: option.splits if_splits prod.splits)

lemma on_connection_same:
  assumes "pool_ok T" and "server_on_connection L V T socket f c st = ret st1"
  shows "same_server (fst st) (fst st1)"
proof -
  have pool: "same_server (fst x) (fst y)"
    if "threadpool_invoke T p (hs_server_multi_thread_on_connection_in_background L V args) x = ret y" for p args x y
    using assms(1) [unfolded pool_ok_def, rule_format, of "\<lambda>x y. same_server (fst x) (fst y)"] that
    by (blast intro: same_server_refl same_server_trans background_same)
  show ?thesis
    using assms(2)
    by (cases st) (auto simp: server_on_connection_def hs_server_single_thread_on_connection_def
        hs_server_multi_thread_on_connection_def bindR_eq_ret dest: check_stop_same pool
        split: option.splits if_splits prod.splits connection_fun.splits)
qed

lemma iteration_same:
  assumes "pool_ok T" and "listen_iteration L V T socket f c st = ret st1"
  shows "same_server (fst st) (fst st1)"
  using assms(2) on_connection_same [OF assms(1)]
  by (cases st) (auto simp: listen_iteration_def bindR_eq_ret dest!: check_stop_same on_connection_same [OF assms(1)]
      split: if_splits prod.splits)

lemma listen_loop_result:
  assumes "hs_server_socket_listen_loop L V T socket f c st = Some r" and "pool_ok T" and "r = Inr st2"
  shows "same_server (fst st) (fst st2) \<and> (\<exists>i. internal (fst st2) = Some i \<and> stop_requested i)"
  using assms
proof (induction rule: hs_server_socket_listen_loop.raw_induct [rotated, consumes 1, case_names step])
  case (step loop L V T socket f c st r)
  from step.prems(2) step.hyps obtain st1 where it: "listen_iteration L V T socket f c st = ret st1"
    and k: "(case internal (fst st1) of None \<Rightarrow> ub NullDeref
       | Some i \<Rightarrow> if stop_requested i then ret st1 else loop L V T socket f c st1) = ret st2"
    by (auto elim!: bindR_retE)
  from k obtain i where i: "internal (fst st1) = Some i" by (auto split: option.splits)
  note same = iteration_same [OF step.prems(1) it]
  show ?case
  proof (cases "stop_requested i")
    case True
    with i k same show ?thesis by simp
  next
    case False
    with i k have "loop L V T socket f c st1 = ret st2" by simp
    from step.IH [OF this step.prems(1) refl] same show ?thesis by (blast intro: same_server_trans)
  qed
qed

lemma create_depends_on_timeout:
  "accept_recv_timeout_seconds s = accept_recv_timeout_seconds s1 \<Longrightarrow>
   hs_server_create_socket_and_listen L N (Some s) address w = hs_server_create_socket_and_listen L N (Some s1) address w"
  by (cases address) (simp_all only: hs_server_create_socket_and_listen_def prod.case option.case)

definition idle :: "'rv HSServer \<Rightarrow> bool" where
  \<comment> \<open>not running, and without a TLS context\<close>
  "idle s \<longleftrightarrow> (\<exists>i. internal s = Some i \<and> \<not> running i \<and> ssl_context i = None)"

lemma serve_listening_result:
  assumes "serve_listening L V N X T use_ssl address f c s g w = ret (b, s1, g1, w1)" and "pool_ok T"
    and "internal s = Some i"
  shows "g1 = (if use_ssl then hs_openssl_cleanup g else g)
    \<and> (\<exists>j. internal s1 = Some j \<and> (running j \<longleftrightarrow> \<not> b) \<and> (b \<longrightarrow> stop_requested j)
         \<and> ssl_context j = (if use_ssl then None else ssl_context i))"
proof -
  let ?s1 = "set_internal (\<lambda>i. i\<lparr>running := True, stop_requested := False\<rparr>) s"
  have i1: "internal ?s1 = Some (i\<lparr>running := True, stop_requested := False\<rparr>)" by (simp add: set_internal_def assms(3))
  obtain sock w2 where create: "hs_server_create_socket_and_listen L N (Some ?s1) (Some address) w = (sock, w2)"
    by (cases "hs_server_create_socket_and_listen L N (Some ?s1) (Some address) w")
  show ?thesis
  proof (cases sock)
    case None
    with assms(1) create i1 show ?thesis
      by (auto simp: serve_listening_def release_ssl_def set_internal_def)
  next
    case (Some socket)
    note run = assms(1) [unfolded serve_listening_def Let_def create Some prod.case option.case]
    from run obtain s2 w3 where loop: "hs_server_socket_listen_loop L V T (Some socket) f c
        (?s1, case Option.bind (connection_handler ?s1) handler_init of None \<Rightarrow> w2 | Some h \<Rightarrow> h w2) = ret (s2, w3)"
      by (auto elim!: bindR_retE)
    from listen_loop_result [OF loop assms(2) refl] obtain j where j: "same_server ?s1 s2" "internal s2 = Some j" "stop_requested j"
      by auto
    obtain q where "internal s2 = Some (i\<lparr>running := True, stop_requested := False\<rparr>\<lparr>stop_requested := q\<rparr>)"
      by (rule same_server_internal [OF j(1) i1])
    with j(2) have "ssl_context j = ssl_context i" by auto
    moreover have "b \<and> g1 = (if use_ssl then hs_openssl_cleanup g else g) \<and> s1 = set_internal (\<lambda>i. i\<lparr>running := False\<rparr>)
        (if use_ssl then set_internal (\<lambda>i. i\<lparr>ssl_context := None\<rparr>) s2 else s2)"
      using run [unfolded loop bindR_simps prod.case release_ssl_def] by (cases use_ssl) simp_all
    ultimately show ?thesis using j(2,3) by (auto simp: set_internal_def)
  qed
qed

text \<open>With TLS the run is the run without the block for TLS, and then one release of the context.\<close>

lemma serve_listening_releases:
  assumes "serve_listening L V N X T True address f c s g w = ret (b, s1, g1, w1)" and "pool_ok T"
    and "internal s = Some i" and "ssl_context i = Some ctx"
  shows "\<exists>s2 w2. serve_listening L V N X T False address f c s g w = ret (b, s2, g, w2) \<and> w1 = SSL_CTX_free X ctx w2"
proof -
  let ?s1 = "set_internal (\<lambda>i. i\<lparr>running := True, stop_requested := False\<rparr>) s"
  have i1: "internal ?s1 = Some (i\<lparr>running := True, stop_requested := False\<rparr>)" by (simp add: set_internal_def assms(3))
  obtain sock w2 where create: "hs_server_create_socket_and_listen L N (Some ?s1) (Some address) w = (sock, w2)"
    by (cases "hs_server_create_socket_and_listen L N (Some ?s1) (Some address) w")
  note unfold = serve_listening_def Let_def create prod.case option.case
  show ?thesis
  proof (cases sock)
    case None
    with assms(1,4) i1 show ?thesis
      by (auto simp: unfold release_ssl_def hs_openssl_context_release_def)
  next
    case (Some socket)
    from assms(1) [unfolded unfold Some] obtain s2 w3 where loop: "hs_server_socket_listen_loop L V T (Some socket) f c
        (?s1, case Option.bind (connection_handler ?s1) handler_init of None \<Rightarrow> w2 | Some h \<Rightarrow> h w2) = ret (s2, w3)"
      by (auto elim!: bindR_retE)
    from listen_loop_result [OF loop assms(2) refl] have "same_server ?s1 s2" by simp
    then obtain q where "internal s2 = Some (i\<lparr>running := True, stop_requested := False\<rparr>\<lparr>stop_requested := q\<rparr>)"
      by (rule same_server_internal [OF _ i1])
    with assms(1,4) show ?thesis
      by (auto simp: unfold Some loop release_ssl_def hs_openssl_context_release_def)
  qed
qed

lemma create_closes_on_failure:
  assumes "hs_server_create_socket_and_listen L N (Some s) (Some a) w = (r, w1)"
    and "posix_socket N w = (fd, w0)" and "0 < fd"
  shows "case r of Some hssocket \<Rightarrow> plain_socket r fd | None \<Rightarrow> fds w1 fd = None"
proof -
  have plain: "plain_socket (Some \<lparr>socket_ops = PlainOps, raw_socket = fd, socket_internal = None\<rparr>) fd"
    using assms(3) by (simp add: plain_socket_def)
  have closed: "fds (snd (posix_close fd v)) fd = None" for v
    by (simp add: posix_close_def split: option.split)
  show ?thesis
    using assms plain
    by (auto simp: plain_socket_simps(9) [OF plain] closed hs_server_create_socket_and_listen_def hs_socket_plain_new_def Let_def split: prod.splits if_splits)
qed

section \<open>A server for the examples\<close>

definition demo_net :: net_lib where
  "demo_net = \<lparr>posix_socket = (\<lambda>w. (3, w)), posix_setsockopt_reuse = (\<lambda>_ w. (0, w)), posix_bind = (\<lambda>_ _ w. (0, w)),
     posix_listen = (\<lambda>_ _ w. (0, w))\<rparr>"

definition busy_net :: net_lib where
  \<comment> \<open>the port is in use\<close>
  "busy_net = demo_net\<lparr>posix_bind := (\<lambda>_ _ w. (-1, w))\<rparr>"

definition inline_pool :: "'rv pool_lib" where
  \<comment> \<open>a pool that runs each job at once\<close>
  "inline_pool = \<lparr>threadpool_new_with_options = (\<lambda>_. Some 1), threadpool_invoke = (\<lambda>_ job st. job st),
     threadpool_release = (\<lambda>_ w. w)\<rparr>"

definition demo_ctx :: ssl_ctx_lib where
  "demo_ctx = \<lparr>SSL_CTX_new = (\<lambda>w. (None, w)), SSL_CTX_set_options = (\<lambda>_ w. w), SSL_CTX_use_certificate_file = (\<lambda>_ _ w. (0, w)),
     SSL_CTX_use_PrivateKey_file = (\<lambda>_ _ w. (0, w)), SSL_CTX_free = (\<lambda>_ w. w)\<rparr>"

definition tls_ctx :: ssl_ctx_lib where
  \<comment> \<open>contexts can be made, and the clock counts how often one is released\<close>
  "tls_ctx = \<lparr>SSL_CTX_new = (\<lambda>w. (Some 7, w)), SSL_CTX_set_options = (\<lambda>_ w. w), SSL_CTX_use_certificate_file = (\<lambda>_ _ w. (1, w)),
     SSL_CTX_use_PrivateKey_file = (\<lambda>_ _ w. (1, w)), SSL_CTX_free = (\<lambda>_ w. w\<lparr>clock := clock w + 1\<rparr>)\<rparr>"

definition demo_routes ::
  "((string, HSArrayPair list, HSCookie list, (string \<times> (string \<times> string) list route_value) list) route list,
    (string, HSArrayPair list, HSCookie list, (string \<times> (string \<times> string) list route_value) list) route) vector_lib" where
  "demo_routes = list_vector"

definition demo_server ::
  "(string, HSArrayPair list, HSCookie list, (string \<times> (string \<times> string) list route_value) list) route list HSServer" where
  "demo_server = the (hs_server_new_single_thread demo_routes)"

definition tls_server ::
  "(string, HSArrayPair list, HSCookie list, (string \<times> (string \<times> string) list route_value) list) route list HSServer" where
  "tls_server = demo_server\<lparr>ssl_info := Some \<lparr>private_key_pem_file = Some ''k'', certificate_pem_file = Some ''c''\<rparr>\<rparr>"

lemma inline_pool_ok: "pool_ok inline_pool"
  by (simp add: pool_ok_def inline_pool_def)

lemma demo_server_simps:
  "server_can_serve demo_server" "idle demo_server" "ssl_files demo_server = None"
  by (simp_all add: demo_server_def hs_server_new_single_thread_def hs_server_new_with_handler_def server_can_serve_def idle_def
      ssl_files_def hs_server_connection_handler_new_def)

lemma tls_server_internal: "internal tls_server = Some \<lparr>running = False, stop_requested = False, ssl_context = None\<rparr>"
  by (simp add: tls_server_def demo_server_def hs_server_new_single_thread_def hs_server_new_with_handler_def)

lemma tls_server_simps:
  "server_can_serve tls_server" "idle tls_server" "ssl_files tls_server = Some (''k'', ''c'')"
  using demo_server_simps(1,2) by (simp_all add: tls_server_def server_can_serve_def idle_def ssl_files_def)

lemma demo_create:
  "hs_server_create_socket_and_listen reference_libs demo_net (Some demo_server) (Some a) (connection [] [])
    = (Some \<lparr>socket_ops = PlainOps, raw_socket = 3, socket_internal = None\<rparr>, connection [] [])"
  by (simp add: hs_server_create_socket_and_listen_def demo_net_def hs_socket_plain_new_def hs_socket_set_recv_timeout_in_seconds_def
      hs_socket_recv_timeout_def hs_socket_get_socket_def demo_server_def hs_server_new_single_thread_def hs_server_new_with_handler_def)

lemma busy_create:
  "hs_server_create_socket_and_listen reference_libs busy_net (Some demo_server) (Some a) (connection [] [])
    = (None, snd (posix_close 3 (connection [] [])))"
  by (simp add: hs_server_create_socket_and_listen_def demo_net_def busy_net_def hs_socket_plain_new_def hs_socket_set_recv_timeout_in_seconds_def
      hs_socket_recv_timeout_def hs_socket_get_socket_def demo_server_def hs_server_new_single_thread_def hs_server_new_with_handler_def
      hs_socket_close_and_release_def hs_socket_close_def hs_socket_plain_close_def)

section \<open>Properties\<close>

text \<open>
  C23. The life cycle of a server: a call of \<open>hs_server_serve\<close> on an idle server that returns has
  undone its initialisation of OpenSSL and holds no TLS context any more, on every path; when it has
  created a context, the world it leaves is the one in which the run itself (all connections closed,
  nothing done for TLS at its end) leaves off, followed by exactly one \<open>SSL_CTX_free\<close> of that
  context, also when the server could not listen; and if the call reports success, the server has
  been asked to stop and is idle again, so it can serve again.
\<close>

theorem serve_restores_server:
  assumes "hs_server_serve L V N X T s address f c g w = ret (b, s1, g1, w1)" and "pool_ok T" and "idle s" and "ssl_wf g"
  shows "ssl_init_count g1 = ssl_init_count g \<and> ssl_wf g1
    \<and> (\<exists>j. internal s1 = Some j \<and> ssl_context j = None \<and> (b \<longrightarrow> \<not> running j \<and> stop_requested j))
    \<and> (\<forall>key certificate ctx w0. server_can_serve s \<and> ssl_files s = Some (key, certificate)
        \<and> hs_openssl_context_create X (Some key) (Some certificate) w = (Some ctx, w0)
        \<longrightarrow> (\<exists>s2 w2. serve_listening L V N X T False address f c
              (set_internal (\<lambda>i. i\<lparr>ssl_context := Some ctx\<rparr>) (s\<lparr>server_accept := Some SslSocketAccept\<rparr>)) (hs_openssl_init g) w0
              = ret (b, s2, hs_openssl_init g, w2) \<and> w1 = SSL_CTX_free X ctx w2))"
proof -
  from assms(3) obtain i where i: "internal s = Some i" "\<not> running i" "ssl_context i = None" by (auto simp: idle_def)
  show ?thesis
  proof (cases "server_can_serve s")
    case False
    with assms(1,4) i show ?thesis by (simp add: hs_server_serve_def)
  next
    case True
    note run = assms(1) [unfolded hs_server_serve_def]
    show ?thesis
    proof (cases "ssl_files s")
      case None
      with run True have "serve_listening L V N X T False address f c (s\<lparr>server_accept := Some PlainSocketAccept\<rparr>) g w = ret (b, s1, g1, w1)"
        by simp
      from serve_listening_result [OF this assms(2), of i] i assms(4) None show ?thesis by auto
    next
      case (Some files)
      obtain key certificate where f: "files = (key, certificate)" by (cases files)
      obtain ctx w2 where ctx: "hs_openssl_context_create X (Some key) (Some certificate) w = (ctx, w2)"
        by (cases "hs_openssl_context_create X (Some key) (Some certificate) w")
      let ?s1 = "set_internal (\<lambda>i. i\<lparr>ssl_context := ctx\<rparr>) (s\<lparr>server_accept := Some SslSocketAccept\<rparr>)"
      have i1: "internal ?s1 = Some (i\<lparr>ssl_context := ctx\<rparr>)" by (simp add: set_internal_def i)
      show ?thesis
      proof (cases ctx)
        case None
        with run True Some f ctx i1 ssl_init_cleanup [OF assms(4)] show ?thesis using i by (auto simp: Let_def)
      next
        case (Some ssl)
        with run True \<open>ssl_files s = Some files\<close> f ctx
        have "serve_listening L V N X T True address f c ?s1 (hs_openssl_init g) w2 = ret (b, s1, g1, w1)" by (simp add: Let_def)
        from serve_listening_result [OF this assms(2) i1] serve_listening_releases [OF this assms(2) i1] ssl_init_cleanup [OF assms(4)]
        show ?thesis using \<open>ssl_files s = Some files\<close> Some f ctx by auto
      qed
    qed
  qed
qed

theorem serve_restores_server_witness:
  "(\<exists>s1 g1 w1 j. hs_server_serve reference_libs demo_routes demo_net demo_ctx inline_pool demo_server (hs_server_init_ipv4_address 8080)
      (Some (\<lambda>_ w. (True, w))) None ssl_start (connection [] []) = ret (True, s1, g1, w1)
    \<and> internal s1 = Some j \<and> \<not> running j)
   \<and> (\<exists>s1 g1 w1 w2. hs_server_serve reference_libs demo_routes busy_net tls_ctx inline_pool tls_server (hs_server_init_ipv4_address 8080)
      None None ssl_start (connection [] []) = ret (False, s1, g1, w1)
    \<and> w1 = SSL_CTX_free tls_ctx 7 w2 \<and> clock w1 = 1)"
proof (rule conjI)
  let ?s = "set_internal (\<lambda>i. i\<lparr>running := True, stop_requested := False\<rparr>) (demo_server\<lparr>server_accept := Some PlainSocketAccept\<rparr>)"
  have create: "hs_server_create_socket_and_listen reference_libs demo_net (Some ?s) (Some a) (connection [] [])
    = (Some \<lparr>socket_ops = PlainOps, raw_socket = 3, socket_internal = None\<rparr>, connection [] [])" for a
    by (subst create_depends_on_timeout [of ?s demo_server]) (simp_all add: set_internal_def demo_create)
  obtain s1 g1 w1 where run: "hs_server_serve reference_libs demo_routes demo_net demo_ctx inline_pool demo_server (hs_server_init_ipv4_address 8080)
      (Some (\<lambda>_ w. (True, w))) None ssl_start (connection [] []) = ret (True, s1, g1, w1)"
  proof -
    have "internal ?s = Some \<lparr>running = True, stop_requested = False, ssl_context = None\<rparr>" "server_accept ?s = Some PlainSocketAccept"
      "connection_handler ?s = Some (hs_server_connection_handler_new\<lparr>on_connection := Some SingleThreadOnConnection\<rparr>)"
      by (simp_all add: set_internal_def demo_server_def hs_server_new_single_thread_def hs_server_new_with_handler_def)
    moreover have "hs_socket_plain_accept (Some \<lparr>socket_ops = PlainOps, raw_socket = 3, socket_internal = None\<rparr>) (connection [] [])
        = (None, connection [] [])"
      by (simp add: hs_socket_plain_accept_def hs_socket_server_accept_def hs_socket_get_socket_def posix_accept_def connection_def)
    ultimately show thesis
      using that
      by (simp add: hs_server_serve_def demo_server_simps serve_listening_def create release_ssl_def hs_server_socket_listen_loop.simps
          listen_iteration_def server_do_accept_def hs_server_plain_socket_accept_def check_stop_server_def
          hs_server_connection_handler_new_def Let_def)
  qed
  from serve_restores_server [OF run inline_pool_ok demo_server_simps(2) ssl_start_wf] run
  show "\<exists>s1 g1 w1 j. hs_server_serve reference_libs demo_routes demo_net demo_ctx inline_pool demo_server (hs_server_init_ipv4_address 8080)
      (Some (\<lambda>_ w. (True, w))) None ssl_start (connection [] []) = ret (True, s1, g1, w1)
    \<and> internal s1 = Some j \<and> \<not> running j" by auto
  let ?t = "set_internal (\<lambda>i. i\<lparr>running := True, stop_requested := False\<rparr>)
      (set_internal (\<lambda>i. i\<lparr>ssl_context := Some 7\<rparr>) (tls_server\<lparr>server_accept := Some SslSocketAccept\<rparr>))"
  have busy: "hs_server_create_socket_and_listen reference_libs busy_net (Some ?t) (Some a) (connection [] [])
    = (None, snd (posix_close 3 (connection [] [])))" for a
    by (subst create_depends_on_timeout [of ?t demo_server]) (simp_all add: set_internal_def tls_server_def busy_create)
  have ctx: "hs_openssl_context_create tls_ctx (Some ''k'') (Some ''c'') (connection [] []) = (Some 7, connection [] [])"
    by (simp add: hs_openssl_context_create_def tls_ctx_def)
  obtain s1 g1 w1 where tls: "hs_server_serve reference_libs demo_routes busy_net tls_ctx inline_pool tls_server (hs_server_init_ipv4_address 8080)
      None None ssl_start (connection [] []) = ret (False, s1, g1, w1)" "clock w1 = 1"
    by (simp add: hs_server_serve_def tls_server_simps ctx serve_listening_def busy release_ssl_def Let_def)
      (simp add: set_internal_def tls_server_internal hs_openssl_context_release_def tls_ctx_def posix_close_def connection_def)
  have "\<exists>w2. w1 = SSL_CTX_free tls_ctx 7 w2"
    using serve_restores_server [OF tls(1) inline_pool_ok tls_server_simps(2) ssl_start_wf] ctx tls_server_simps(1,3) by blast
  with tls show "\<exists>s1 g1 w1 w2. hs_server_serve reference_libs demo_routes busy_net tls_ctx inline_pool tls_server (hs_server_init_ipv4_address 8080)
      None None ssl_start (connection [] []) = ret (False, s1, g1, w1)
    \<and> w1 = SSL_CTX_free tls_ctx 7 w2 \<and> clock w1 = 1" by blast
qed

text \<open>
  C39. A failure to listen ends the life of a server: when the listening socket cannot be created
  (the port may be in use for the moment), \<open>hs_server_serve\<close> returns false and leaves the server
  marked as running, so that every later call, on any address, returns false at once.
\<close>

theorem failed_listen_blocks_server:
  assumes "server_can_serve s" and "ssl_files s = None"
    and "hs_server_create_socket_and_listen L N (Some s) (Some address) w = (None, w1)"
  shows "\<exists>s1. hs_server_serve L V N X T s address f c g w = ret (False, s1, g, w1)
    \<and> (\<forall>L N address f c g w. hs_server_serve L V N X T s1 address f c g w = ret (False, s1, g, w))"
proof -
  let ?s1 = "set_internal (\<lambda>i. i\<lparr>running := True, stop_requested := False\<rparr>) (s\<lparr>server_accept := Some PlainSocketAccept\<rparr>)"
  from assms(1) obtain i where "internal s = Some i" by (auto simp: server_can_serve_def)
  then have "\<not> server_can_serve ?s1" by (simp add: server_can_serve_def set_internal_def)
  moreover have "hs_server_create_socket_and_listen L N (Some ?s1) (Some address) w = (None, w1)"
    using assms(3) create_depends_on_timeout [of ?s1 s L N "Some address" w] by (simp add: set_internal_def)
  then have "hs_server_serve L V N X T s address f c g w = ret (False, ?s1, g, w1)"
    using assms(1,2) by (simp add: hs_server_serve_def serve_listening_def release_ssl_def Let_def)
  ultimately show ?thesis by (intro exI [of _ ?s1]) (simp add: hs_server_serve_def)
qed

theorem failed_listen_blocks_server_witness:
  "\<exists>s1 w1. hs_server_serve reference_libs demo_routes busy_net demo_ctx inline_pool demo_server (hs_server_init_ipv4_address 8080)
      None None ssl_start (connection [] []) = ret (False, s1, ssl_start, w1)
    \<and> hs_server_serve reference_libs demo_routes demo_net demo_ctx inline_pool s1 (hs_server_init_ipv4_address 8081)
      None None ssl_start (connection [] []) = ret (False, s1, ssl_start, connection [] [])"
  using failed_listen_blocks_server [OF demo_server_simps(1,3) busy_create, of demo_routes demo_ctx inline_pool "hs_server_init_ipv4_address 8080"
      None None ssl_start] by blast

text \<open>
  A failed attempt to listen leaks no descriptor: for every descriptor the kernel hands out,
  \<open>hs_server_create_socket_and_listen\<close> either returns an open socket on it, after every call has
  succeeded, or has closed it.
\<close>

theorem failed_listen_closes_socket:
  assumes "hs_server_create_socket_and_listen L N (Some s) (Some a) w = (r, w1)"
    and "posix_socket N w = (fd, w0)" and "0 < fd"
  shows "if r = None then fds w1 fd = None else plain_socket r fd"
  using create_closes_on_failure [OF assms] by (simp split: option.splits)

theorem failed_listen_closes_socket_witness:
  "\<exists>w1. hs_server_create_socket_and_listen reference_libs busy_net (Some demo_server) (Some (hs_server_init_ipv4_address 80)) (connection [] [])
      = (None, w1) \<and> fds w1 3 = None"
proof -
  have "posix_socket busy_net (connection [] []) = (3, connection [] [])" by (simp add: busy_net_def demo_net_def)
  from failed_listen_closes_socket [OF busy_create this] show ?thesis using busy_create by simp
qed

text \<open>
  With a pool that runs each job at once, the handler of the multi-threaded server does on a
  connection exactly what the handler of the single-threaded one does.
\<close>

theorem inline_pool_is_single_thread:
  assumes "\<And>job x. threadpool_invoke T pool job x = job x" and "handler_extension h = Some pool"
  shows "hs_server_multi_thread_on_connection L V T (Some h) socket f c st
    = hs_server_single_thread_on_connection L V (Some h) socket f c st"
  using assms by (cases st) (simp add: hs_server_multi_thread_on_connection_def hs_server_single_thread_on_connection_def
      hs_server_multi_thread_on_connection_in_background_def)

theorem inline_pool_is_single_thread_witness:
  "hs_server_multi_thread_on_connection reference_libs demo_routes inline_pool
      (Some (hs_server_connection_handler_new\<lparr>handler_extension := Some 1\<rparr>)) connection_socket None None (demo_server, connection [] [])
    = hs_server_single_thread_on_connection reference_libs demo_routes
      (Some (hs_server_connection_handler_new\<lparr>handler_extension := Some 1\<rparr>)) connection_socket None None (demo_server, connection [] [])"
  by (rule inline_pool_is_single_thread [where pool = 1]) (simp_all add: inline_pool_def)

end
