(* ===== verification/Liveness.thy ===== *)
theory Liveness
  imports Routes_Security Routes_Session Routes_FS Server "HOL-Library.Extended_Nat"
begin

text \<open>
  When a connection ends. Against any peer, polite or not, whose events are finitely many and which
  is not silent without a receive timeout, the readers, the parser, the routes of the library and the
  loop over the requests of a connection return (possibly by a fault): what bounds them is the number
  of events the peer has left, which nothing but the peer raises and every request lowers. A silent
  peer without a receive timeout has infinitely much left in this measure.
\<close>

section \<open>Total correctness of runs\<close>

definition returns :: "'a run \<Rightarrow> ('a \<Rightarrow> bool) \<Rightarrow> bool" where
  \<comment> \<open>the run ends, and its result, unless it is a fault, satisfies the predicate\<close>
  "returns m P \<longleftrightarrow> (case m of None \<Rightarrow> False | Some (Inl f) \<Rightarrow> True | Some (Inr x) \<Rightarrow> P x)"

lemma returns_simps [simp]:
  "returns (ret x) P = P x" "returns (ub f) P" "\<not> returns None P"
  by (simp_all add: returns_def)

lemma returns_bind [intro]:
  "returns m P \<Longrightarrow> (\<And>x. P x \<Longrightarrow> returns (k x) Q) \<Longrightarrow> returns (bindR m k) Q"
  by (cases m; cases "the m") simp_all

lemma returns_mono: "returns m P \<Longrightarrow> (\<And>x. P x \<Longrightarrow> Q x) \<Longrightarrow> returns m Q"
  by (cases m; cases "the m") simp_all

lemma returns_some: "returns m P \<Longrightarrow> m \<noteq> None"
  by (cases m) simp_all

lemma returns_ret: "returns m P \<Longrightarrow> m = ret x \<Longrightarrow> P x"
  by simp

lemma returnsI: "m \<noteq> None \<Longrightarrow> (\<And>x. m = ret x \<Longrightarrow> P x) \<Longrightarrow> returns m P"
  by (auto simp: returns_def split: option.splits sum.splits)

section \<open>Reading\<close>

definition answering :: "int \<Rightarrow> world \<Rightarrow> bool" where
  \<comment> \<open>the server is not left waiting: the peer is not silent, or there is a receive timeout\<close>
  "answering fd w \<longleftrightarrow>
     (case fds w fd of None \<Rightarrow> True | Some st \<Rightarrow> Silence \<notin> set (incoming st) \<or> 0 < rcvtimeo st)"

definition to_read :: "int \<Rightarrow> world \<Rightarrow> enat" where
  "to_read fd w = (if answering fd w then enat (pending fd w) else \<infinity>)"

lemma to_read_answering: "to_read fd w1 \<le> to_read fd w \<Longrightarrow> answering fd w \<Longrightarrow> answering fd w1"
  by (simp add: to_read_def split: if_splits)

lemma to_read_fds: "fds w1 fd = fds w fd \<Longrightarrow> to_read fd w1 = to_read fd w"
  by (simp add: to_read_def answering_def pending_def)

lemma posix_read_pending:
  assumes "answering fd w"
  obtains sz bs w1 where "posix_read fd count w = ret (sz, bs, w1)" and "answering fd w1" and "pending fd w1 \<le> pending fd w"
    and "0 < sz \<Longrightarrow> pending fd w1 + nat sz \<le> pending fd w"
proof (cases "fds w fd")
  case None
  with assms show thesis by (intro that [of "-1" "[]" w]) (simp_all add: posix_read_def)
next
  case (Some st)
  show thesis
  proof (cases "incoming st")
    case Nil
    with Some assms show thesis by (intro that [of 0 "[]" w]) (simp_all add: posix_read_def)
  next
    case (Cons e es)
    let ?w = "\<lambda>es. w\<lparr>fds := (fds w)(fd \<mapsto> st\<lparr>incoming := es\<rparr>)\<rparr>"
    show thesis
    proof (cases e)
      case (Arrive seg)
      let ?es = "if length seg \<le> count then es else Arrive (drop count seg) # es"
      have r: "posix_read fd count w = ret (int (min count (length seg)), take count seg, ?w ?es)"
        using Some Cons Arrive by (simp add: posix_read_def)
      have a: "answering fd (?w ?es)" using assms Some Cons Arrive by (auto simp: answering_def)
      have p: "pending fd (?w ?es) + nat (int (min count (length seg))) \<le> pending fd w"
        using Some Cons Arrive by (simp add: pending_def)
      show thesis by (rule that [OF r a add_leD1 [OF p] p])
    qed (use assms Some Cons in \<open>auto intro!: that [of _ _ "?w es"] simp: posix_read_def answering_def pending_def\<close>)
  qed
qed

lemma stored_length:
  assumes "store_nul (fill_buffer buffer bytes) sz = ret buffer1"
  shows "length (c_string buffer1) \<le> nat sz"
proof -
  from assms have sz: "0 \<le> sz" "nat sz < length (fill_buffer buffer bytes)" "buffer1 = (fill_buffer buffer bytes)[nat sz := NUL]"
    by (auto simp: store_nul_def split: if_splits)
  then have nul: "buffer1 ! nat sz = NUL" by simp
  show ?thesis
  proof (rule ccontr)
    assume "\<not> length (c_string buffer1) \<le> nat sz"
    then have n: "nat sz < length (c_string buffer1)" by simp
    then have "c_string buffer1 ! nat sz \<noteq> NUL" using nth_mem [OF n] set_takeWhileD unfolding c_string_def by fast
    with n nul show False by (simp add: c_string_def takeWhile_nth)
  qed
qed

definition work :: "('sb, 'pv, 'cv, 'dt, 'sh) libs \<Rightarrow> int \<Rightarrow> 'sb \<Rightarrow> world \<Rightarrow> nat" where
  \<comment> \<open>the bytes in the buffer of the reader, and the bound on those still to come\<close>
  "work L fd b w = length (stringbuffer_to_string L b) + pending fd w"

definition line_read ::
  "('sb, 'pv, 'cv, 'dt, 'sh) libs \<Rightarrow> int \<Rightarrow> 'sb \<Rightarrow> world \<Rightarrow> cstr \<times> 'sb \<times> world \<Rightarrow> bool" where
  "line_read L fd b w = (\<lambda>(line, b1, w1). answering fd w1 \<and> pending fd w1 \<le> pending fd w \<and> work L fd b1 w1 \<le> work L fd b w
     \<and> (line \<noteq> None \<longrightarrow> work L fd b1 w1 < work L fd b w))"

lemma line_from_buffer_work:
  assumes "stringbuffer_ok L" and "stringfn_ok L" and "hs_io_read_line_from_buffer L b = (line, eof, b1)"
  shows "length (stringbuffer_to_string L b1) \<le> length (stringbuffer_to_string L b)"
    and "line \<noteq> None \<Longrightarrow> length (stringbuffer_to_string L b1) < length (stringbuffer_to_string L b)"
    and "stringbuffer_to_string L b = [] \<Longrightarrow> line = None \<and> \<not> eof \<and> b1 = b"
proof -
  have "length (stringbuffer_to_string L b1) \<le> length (stringbuffer_to_string L b)
    \<and> (line \<noteq> None \<longrightarrow> length (stringbuffer_to_string L b1) < length (stringbuffer_to_string L b))"
    using assms(1,2)
  proof (cases rule: read_line_from_buffer_cases [of L b])
    case (some i b')
    with assms(3) crlf_index_bound [OF some(1)] show ?thesis by (auto simp: next_line_def split: if_splits)
  qed (use assms(3) in simp)
  then show "length (stringbuffer_to_string L b1) \<le> length (stringbuffer_to_string L b)"
    and "line \<noteq> None \<Longrightarrow> length (stringbuffer_to_string L b1) < length (stringbuffer_to_string L b)" by simp_all
  show "stringbuffer_to_string L b = [] \<Longrightarrow> line = None \<and> \<not> eof \<and> b1 = b"
    using assms(3) by (simp add: hs_io_read_line_from_buffer_def Let_def stringbuffer_laws [OF assms(1)])
qed

lemma read_line_loop_returns:
  assumes "stringbuffer_ok L" and "stringfn_ok L" and "plain_socket socket fd" and "answering fd w"
  shows "returns (hs_io_read_line_loop L socket b buffer w)
    (\<lambda>x. line_read L fd b w x \<and> (fst x \<noteq> None \<longrightarrow> pending fd (snd (snd x)) < pending fd w))"
  using assms(4)
proof (induction "pending fd w" arbitrary: w b buffer rule: less_induct)
  case less
  note unfold = hs_io_read_line_loop.simps [of L socket b buffer w] plain_socket_simps(6) [OF assms(3)]
  obtain sz bytes w1 where rd: "posix_read fd HS_IO_READ_BUFFER_SIZE w = ret (sz, bytes, w1)" "answering fd w1"
    and p: "pending fd w1 \<le> pending fd w" "0 < sz \<Longrightarrow> pending fd w1 + nat sz \<le> pending fd w"
    by (rule posix_read_pending [OF less.prems, of HS_IO_READ_BUFFER_SIZE]) (rule that)
  show ?case
  proof (cases "sz = 0 \<or> sz < 0")
    case True
    then show ?thesis using p(1) rd by (auto simp: unfold line_read_def work_def store_nul_def)
  next
    case False
    then have sz: "0 < sz" by simp
    show ?thesis
    proof (cases "store_nul (fill_buffer buffer bytes) sz")
      case None
      then show ?thesis by (simp add: store_nul_def split: if_splits)
    next
      case (Some r)
      show ?thesis
      proof (cases r)
        case (Inl f)
        with Some rd sz show ?thesis by (simp add: unfold)
      next
        case (Inr buffer1)
        let ?b = "stringbuffer_append_string L b (c_string buffer1)"
        obtain line eof b1 where l: "hs_io_read_line_from_buffer L ?b = (line, eof, b1)"
          by (cases "hs_io_read_line_from_buffer L ?b")
        have less: "pending fd w1 < pending fd w" using p(2) sz by linarith
        have "work L fd ?b w1 \<le> work L fd b w"
          using stored_length [of buffer bytes sz buffer1] Some Inr p(2) [OF sz]
          by (simp add: work_def stringbuffer_laws [OF assms(1)])
        then have "line_read L fd b w (line, b1, w1)" "line_read L fd b w (None, b1, w1)"
          using line_from_buffer_work [OF assms(1,2) l] p(1) rd(2) by (auto simp: line_read_def work_def)
        moreover have "returns (hs_io_read_line_loop L socket b1 buffer1 w1)
            (\<lambda>x. line_read L fd b w x \<and> (fst x \<noteq> None \<longrightarrow> pending fd (snd (snd x)) < pending fd w))"
          using less.hyps [OF less rd(2), of b1 buffer1] calculation less
          by (elim returns_mono) (auto simp: line_read_def)
        ultimately show ?thesis using Some Inr rd sz l less by (simp add: unfold)
      qed
    qed
  qed
qed

lemma read_line_returns:
  assumes "stringbuffer_ok L" and "stringfn_ok L" and "plain_socket socket fd" and "answering fd w"
  shows "returns (hs_io_read_line L socket (Some b) w)
    (\<lambda>(line, b1, w1). \<exists>b2. b1 = Some b2 \<and> line_read L fd b w (line, b2, w1)
       \<and> (stringbuffer_to_string L b = [] \<longrightarrow> line \<noteq> None \<longrightarrow> pending fd w1 < pending fd w))"
proof -
  obtain line eof b1 where l: "hs_io_read_line_from_buffer L b = (line, eof, b1)"
    by (cases "hs_io_read_line_from_buffer L b")
  note lw = line_from_buffer_work [OF assms(1,2) l]
  show ?thesis
  proof (cases "eof \<or> line \<noteq> None")
    case True
    with l lw assms(4) show ?thesis
      by (auto simp: hs_io_read_line_def plain_socket_simps [OF assms(3)] line_read_def work_def)
  next
    case False
    with l show ?thesis
      using read_line_loop_returns [OF assms, of b1 "replicate HS_IO_READ_BUFFER_SIZE NUL"] lw(1)
      by (auto simp: hs_io_read_line_def plain_socket_simps [OF assms(3)] line_read_def work_def
          elim!: returns_bind)
  qed
qed

section \<open>Parsing\<close>

lemma request_line_returns: "returns (hs_parser_parse_request_line L line) (\<lambda>_. True)"
  by (auto simp: hs_parser_parse_request_line_def hs_parser_create_request_from_resource_def
      hs_parser_create_request_from_path_def Let_def split: option.splits prod.splits)

lemma parse_headers_loop_returns:
  assumes "stringbuffer_ok L" and "stringfn_ok L" and "plain_socket socket fd" and "answering fd w"
  shows "returns (parse_headers_loop L socket req (Some b) w) (\<lambda>(req1, b1, w1). answering fd w1 \<and> pending fd w1 \<le> pending fd w)"
  using assms(4)
proof (induction "work L fd b w" arbitrary: req b w rule: less_induct)
  case less
  have rest: "returns (parse_headers_loop L socket req1 (Some b1) w1) (\<lambda>(req1, b1, w2). answering fd w2 \<and> pending fd w2 \<le> pending fd w)"
    if "line_read L fd b w (Some line, b1, w1)" for req1 b1 w1 line
    using that less.hyps [of b1 w1 req1] by (auto simp: line_read_def elim!: returns_mono)
  have add: "returns (add_request_header L req key value) (\<lambda>_. True)" for key "value"
    by (simp add: add_request_header_def split: option.split)
  show ?case
    unfolding parse_headers_loop.simps [of L socket req "Some b" w]
    by (rule returns_bind [OF read_line_returns [OF assms(1-3) less.prems]])
      (auto simp: line_read_def split: option.splits intro!: returns_bind [OF add] rest)
qed

lemma parse_request_returns:
  assumes "libs_ok L" and "plain_socket socket fd" and "answering fd w"
  shows "returns (hs_parser_parse_request L socket w)
    (\<lambda>(req, w1). to_read fd w1 \<le> to_read fd w \<and> (req \<noteq> None \<longrightarrow> to_read fd w1 < to_read fd w))"
proof -
  have read: "answering fd w1 \<Longrightarrow> to_read fd w1 \<le> to_read fd w \<longleftrightarrow> pending fd w1 \<le> pending fd w"
    "answering fd w1 \<Longrightarrow> to_read fd w1 < to_read fd w \<longleftrightarrow> pending fd w1 < pending fd w" for w1
    using assms(3) by (simp_all add: to_read_def)
  obtain s where s: "socket = Some s" using plain_socket_simps(3) [OF assms(2)] by auto
  note ok = libs_ok_parts(2) [OF assms(1)] libs_ok_parts(1) [OF assms(1)] assms(2) [unfolded s]
  have new: "stringbuffer_to_string L (stringbuffer_new L) = []" by (simp add: stringbuffer_laws [OF ok(1)])
  have tail: "returns (parse_headers_loop L (Some s) req0 (Some b) w1)
      (\<lambda>(req, b1, w2). answering fd w2 \<and> pending fd w2 < pending fd w)" if "pending fd w1 < pending fd w" "answering fd w1" for req0 b w1
    using parse_headers_loop_returns [OF ok that(2), of req0 b] that by (auto elim!: returns_mono)
  show ?thesis
    unfolding hs_parser_parse_request_def s option.case
    by (rule returns_bind [OF read_line_returns [OF ok assms(3), of "stringbuffer_new L"]])
      (auto simp: new read line_read_def split: option.splits
        intro!: returns_bind [OF request_line_returns] returns_bind [OF tail])
qed

section \<open>Writing\<close>

definition socket_ok :: "int \<Rightarrow> HSSocket option \<Rightarrow> bool" where
  \<comment> \<open>the plain socket of the connection, or none once it has been closed\<close>
  "socket_ok fd s \<longleftrightarrow> s = None \<or> plain_socket s fd"

lemma socket_ok_simps [simp]: "socket_ok fd None" "plain_socket s fd \<Longrightarrow> socket_ok fd s"
  by (simp_all add: socket_ok_def)

lemma closed_socket [simp]: "\<not> hs_socket_is_open None"
  by (simp add: hs_socket_is_open_def)

lemma posix_write_to_read: "to_read fd' (snd (posix_write fd buffer w)) = to_read fd' w"
  by (auto simp: posix_write_def to_read_def answering_def pending_def split: option.splits list.splits)

lemma write_string_loop_to_read:
  assumes "hs_io_write_string_loop L socket content n w = Some r" and "plain_socket socket fd" and "r = Inr (ok, w1)"
  shows "to_read fd w1 = to_read fd w"
  using assms
proof (induction rule: hs_io_write_string_loop.raw_induct [rotated, consumes 1, case_names step])
  case (step loop L socket content n w r)
  obtain written w2 where wr: "posix_write fd (take n content) w = (written, w2)"
    by (cases "posix_write fd (take n content) w")
  with posix_write_to_read [of fd fd "take n content" w] have "to_read fd w2 = to_read fd w" by simp
  with step wr show ?case
    by (auto simp: plain_socket_simps(7) [OF step.prems(1)] Let_def split: if_splits)
qed

lemma write_string_returns:
  assumes "socket_ok fd socket" and "n \<le> length content"
  shows "returns (hs_io_write_string_to_socket L socket (Some content) n w) (\<lambda>(ok, w1). to_read fd w1 = to_read fd w)"
proof (cases "socket = None \<or> n = 0")
  case True
  then show ?thesis by (auto simp: hs_io_write_string_to_socket_def)
next
  case False
  with assms(1) have plain: "plain_socket socket fd" by (auto simp: socket_ok_def)
  from write_string_loop_returns [OF plain assms(2)] False obtain ok w1 where
    run: "hs_io_write_string_loop L socket content n w = ret (ok, w1)" by blast
  from write_string_loop_to_read [OF run plain refl] run False plain_socket_simps(2) [OF plain]
  show ?thesis by (simp add: hs_io_write_string_to_socket_def)
qed

lemma write_file_loop_returns:
  assumes "socket_ok fd socket"
  shows "returns (hs_io_write_file_loop L socket rest eof w) (\<lambda>(ok, w1). to_read fd w1 = to_read fd w)"
proof (induction "length rest" arbitrary: rest eof w rule: less_induct)
  case less
  let ?n = "HS_IO_READ_BUFFER_SIZE - 1"
  note unfold = hs_io_write_file_loop.simps [of L socket rest True w] hs_io_write_file_loop.simps [of L socket rest False w]
    hs_io_write_file_loop.simps [of L socket "[]" eof w] Let_def
  show ?case
  proof (cases "eof \<or> rest = []")
    case True
    then show ?thesis by (auto simp: unfold)
  next
    case False
    then have shorter: "length (drop ?n rest) < length rest" by (simp add: HS_IO_READ_BUFFER_SIZE_def)
    have "returns (hs_io_write_file_loop L socket (drop ?n rest) eof1 w1) (\<lambda>(ok, w2). to_read fd w2 = to_read fd w)"
      if "to_read fd w1 = to_read fd w" for eof1 w1
      using less.hyps [OF shorter, of eof1 w1] that by simp
    then show ?thesis
      using False write_string_returns [OF assms, of "length (take ?n rest)" "take ?n rest" L w]
      by (auto simp: unfold elim!: returns_bind)
  qed
qed

lemma write_file_returns:
  assumes "socket_ok fd socket"
  shows "returns (hs_io_write_file_to_socket L socket path w) (\<lambda>(ok, w1). to_read fd w1 = to_read fd w)"
  using write_file_loop_returns [OF assms]
  by (auto simp: hs_io_write_file_to_socket_def split: option.split)

lemma posix_close_to_read: "to_read fd (snd (posix_close fd' w)) \<le> to_read fd w"
  by (auto simp: posix_close_def to_read_def answering_def pending_def split: option.splits)

lemma close_to_read:
  assumes "socket_ok fd socket"
  shows "to_read fd (hs_socket_close L socket w) \<le> to_read fd w"
    and "to_read fd (hs_socket_close_and_release L socket w) \<le> to_read fd w"
proof -
  have "hs_socket_close L socket w = w \<and> hs_socket_close_and_release L socket w = w" if "socket = None"
    using that by (simp add: hs_socket_close_def hs_socket_close_and_release_def)
  then show "to_read fd (hs_socket_close L socket w) \<le> to_read fd w"
    and "to_read fd (hs_socket_close_and_release L socket w) \<le> to_read fd w"
    using assms posix_close_to_read [of fd fd w] plain_socket_simps(8,9) [of socket fd L w]
    by (auto simp: socket_ok_def)
qed

section \<open>The contract of what runs in a flow\<close>

definition env_ok :: "int \<Rightarrow> ('sb, 'pv, 'cv, 'dt, 'more) HSServeFlowEnv_scheme \<Rightarrow> bool" where
  "env_ok fd e \<longleftrightarrow> (\<forall>c. connection_state e = Some c \<longrightarrow> socket_ok fd (conn_socket c))"

definition callback_ok :: "int \<Rightarrow> ('sb, 'pv, 'cv, 'dt) HSServeFlowEnv HSPostResponseCallback \<Rightarrow> bool" where
  \<comment> \<open>both functions return, keep the socket, and give the connection nothing new to read\<close>
  "callback_ok fd cb \<longleftrightarrow>
     (\<forall>f e w. callback_run cb = Some f \<longrightarrow> env_ok fd e \<longrightarrow>
        returns (f e w) (\<lambda>(e1, w1). env_ok fd e1 \<and> to_read fd w1 \<le> to_read fd w))
     \<and> (\<forall>f w. callback_release cb = Some f \<longrightarrow> returns (f w) (\<lambda>w1. to_read fd w1 \<le> to_read fd w))"

definition callbacks_ok :: "int \<Rightarrow> ('sb, 'pv, 'cv, 'dt) flow_callbacks option \<Rightarrow> bool" where
  "callbacks_ok fd cbs \<longleftrightarrow> (\<forall>c. cbs = Some c \<longrightarrow> callbacks_wf c \<and> list_all (callback_ok fd) (callback_list c))"

definition flow_ok :: "int \<Rightarrow> ('sb, 'pv, 'cv, 'dt) flow \<Rightarrow> bool" where
  "flow_ok fd p \<longleftrightarrow> env_ok fd p \<and> callbacks_ok fd (callbacks p)"

definition progress :: "int \<Rightarrow> world \<Rightarrow> 'd \<times> ('sb, 'pv, 'cv, 'dt) flow \<times> world \<Rightarrow> bool" where
  "progress fd w = (\<lambda>(d, p1, w1). flow_ok fd p1 \<and> to_read fd w1 \<le> to_read fd w)"

lemma env_ok_update [simp]:
  "env_ok fd (e\<lparr>request := a\<rparr>) = env_ok fd e" "env_ok fd (e\<lparr>response := b\<rparr>) = env_ok fd e"
  "env_ok fd (e\<lparr>route_state := c\<rparr>) = env_ok fd e" "env_ok fd (e\<lparr>router_state := d\<rparr>) = env_ok fd e"
  by (simp_all add: env_ok_def)

lemma flow_ok_update [simp]:
  "flow_ok fd (p\<lparr>request := a\<rparr>) = flow_ok fd p" "flow_ok fd (p\<lparr>response := b\<rparr>) = flow_ok fd p"
  "flow_ok fd (p\<lparr>route_state := c\<rparr>) = flow_ok fd p" "flow_ok fd (p\<lparr>router_state := d\<rparr>) = flow_ok fd p"
  by (simp_all add: flow_ok_def)

lemma progress_simp [simp]: "progress fd w (d, p1, w1) \<longleftrightarrow> flow_ok fd p1 \<and> to_read fd w1 \<le> to_read fd w"
  by (simp add: progress_def)

lemma progress_later: "progress fd w1 x \<Longrightarrow> to_read fd w1 \<le> to_read fd w \<Longrightarrow> progress fd w x"
  by (auto simp: progress_def)

locale returning_handler =
  fixes fd :: int and handler :: "('sb, 'pv, 'cv, 'dt) flow serve_function"
  assumes ends: "flow_ok fd p \<Longrightarrow> returns (handler path p w) (progress fd w)"

lemma respond_returns: "flow_ok fd p \<Longrightarrow> to_read fd w1 \<le> to_read fd w \<Longrightarrow> returns (respond change d p w1) (progress fd w)"
  by (simp add: respond_def split: option.split)

section \<open>The router\<close>

lemma write_response_returns:
  assumes "libs_ok L" and "flow_ok fd p"
  shows "returns (write_response L rtr p w) (progress fd w)"
proof (cases "request p = None \<or> response p = None \<or> connection_state p = None \<or> router_state p = None")
  case True
  then show ?thesis by (auto simp: write_response_def split: option.splits)
next
  case False
  then obtain req resp conn rs where parts: "request p = Some req" "response p = Some resp"
    "connection_state p = Some conn" "router_state p = Some rs" by auto
  from assms(2) parts have sock: "socket_ok fd (conn_socket conn)" by (simp add: flow_ok_def env_ok_def)
  have ok: "flow_ok fd (p\<lparr>response := r, connection_state := Some (conn\<lparr>conn_socket := None\<rparr>)\<rparr>)" for r
    using assms(2) by (simp add: flow_ok_def env_ok_def)
  have closed: "to_read fd (hs_socket_close L (conn_socket conn) w1) \<le> to_read fd w" if "to_read fd w1 = to_read fd w" for w1
    using close_to_read(1) [OF sock, of L w1] that by simp
  note size = stringbuffer_laws(6) [OF libs_ok_parts(2) [OF assms(1)]]
  show ?thesis
    using assms(2)
    by (auto simp: ok closed write_response_def parts size Let_def split: prod.splits option.split
        intro!: returns_bind [OF write_string_returns [OF sock]] returns_bind [OF write_file_returns [OF sock]])
qed

definition ends_by :: "int \<Rightarrow> ('sb, 'pv, 'cv, 'dt) route \<Rightarrow> bool" where
  \<comment> \<open>the route has no serve function, or one that meets the contract\<close>
  "ends_by fd rt \<longleftrightarrow> (\<forall>h. serve rt = Some h \<longrightarrow> returning_handler fd h)"

lemma serve_route_returns:
  fixes router :: "'rv HSRouter option"
  assumes "libs_ok L" and "flow_ok fd p" and "ends_by fd rt"
  shows "returns (hs_router_serve_route L router p (Some rt) w) (progress fd w)"
proof (cases "serve rt")
  case None
  with assms(2) show ?thesis by (simp add: hs_router_serve_route_def split: option.split)
next
  case (Some h)
  with assms(3) have ends: "returning_handler fd h" by (simp add: ends_by_def)
  have "returns (write_response L rtr p1 w1) (progress fd w)" if "flow_ok fd p1" "to_read fd w1 \<le> to_read fd w"
    for rtr :: "'rv HSRouter" and p1 w1
    using that by (intro returns_mono [OF write_response_returns [OF assms(1)]]) (auto intro: progress_later)
  then have "returns (case router_state p1 of None \<Rightarrow> ub NullDeref
       | Some rs \<Rightarrow> if r = HS_SERVE_FLOW_RESPONSE_CONTINUE \<or> router_done rs then ret (router_done rs, p1, w1)
                   else write_response L rtr p1 w1) (progress fd w)"
    if "progress fd w (r, p1, w1)" for r p1 w1 and rtr :: "'rv HSRouter"
    using that by (auto split: option.split)
  then have "returns (bindR (h (route_path rt) p w) (\<lambda>(r, p1, w1). case router_state p1 of None \<Rightarrow> ub NullDeref
       | Some rs \<Rightarrow> if r = HS_SERVE_FLOW_RESPONSE_CONTINUE \<or> router_done rs then ret (router_done rs, p1, w1)
                   else write_response L rtr p1 w1)) (progress fd w)" for rtr :: "'rv HSRouter"
    by (intro returns_bind [OF returning_handler.ends [OF ends assms(2)]]) auto
  with Some assms(2) show ?thesis
    by (simp add: hs_router_serve_route_def split: option.split)
qed

lemma find_route_loop_returns:
  assumes "libs_ok L" and "list_all (ends_by fd) rts"
  shows "flow_ok fd p \<Longrightarrow> returns (find_route_loop L router (map Some rts) p w) (progress fd w)"
  using assms(2)
proof (induction rts arbitrary: p w)
  case Nil
  then show ?case by simp
next
  case (Cons rt rts)
  have "returns (find_route_loop L router (map Some rts) p1 w1) (progress fd w)" if "progress fd w (r, p1, w1)" for r p1 w1
    using that Cons.IH [of p1 w1] Cons.prems(2) by (auto intro: returns_mono progress_later)
  with serve_route_returns [OF assms(1) Cons.prems(1), of rt router w] Cons.prems(2) show ?case
    by (auto intro!: returns_bind)
qed

lemma find_route_returns:
  assumes "libs_ok L" and "vector_ok V" and "list_all (ends_by fd) (vec_list V (router_routes rtr))" and "flow_ok fd p"
  shows "returns (hs_router_find_route_and_serve L V (Some rtr) p w) (progress fd w)"
  using find_route_loop_returns [OF assms(1,3,4)]
  by (simp add: hs_router_find_route_and_serve_def routes_of_vector [OF assms(2)])

lemma router_returns:
  assumes "libs_ok L" and "vector_ok V" and "list_all (ends_by fd) (vec_list V (router_routes rtr))"
  shows "returning_handler fd (hs_router_as_route_serve L V (Some rtr))"
proof
  fix p :: "('a, 'b, 'c, 'd) flow" and path w
  assume ok: "flow_ok fd p"
  have prefix: "returns (hs_router_remove_path_prefix path req) (\<lambda>_. True)" for req :: "('a, 'b, 'c) HSHttpRequest"
    by (auto simp: hs_router_remove_path_prefix_def Let_def split: option.split)
  show "returns (hs_router_as_route_serve L V (Some rtr) path p w) (progress fd w)"
    using ok
    by (auto simp: hs_router_as_route_serve_def split: option.split
        intro!: returns_bind [OF prefix] returns_bind [OF find_route_returns [OF assms]])
qed

section \<open>One request\<close>

lemma run_in_order_returns:
  "list_all (callback_ok fd) cbs \<Longrightarrow> env_ok fd e \<Longrightarrow> to_read fd w1 \<le> to_read fd w \<Longrightarrow>
    returns (run_in_order cbs e w1) (\<lambda>(e2, w2). env_ok fd e2 \<and> to_read fd w2 \<le> to_read fd w)"
proof (induction cbs arbitrary: e w1)
  case Nil
  then show ?case by simp
next
  case (Cons c cs)
  have "returns (case callback_run c of None \<Rightarrow> ret (e, w1) | Some f \<Rightarrow> f e w1)
      (\<lambda>(e2, w2). env_ok fd e2 \<and> to_read fd w2 \<le> to_read fd w1)"
    using Cons.prems by (auto simp: callback_ok_def split: option.split)
  then show ?case unfolding run_in_order.simps
    by (rule returns_bind) (use Cons in auto)
qed

lemma env_ok_truncate: "env_ok fd (HSServeFlowEnv.truncate p) = env_ok fd p"
  by (simp add: env_ok_def HSServeFlowEnv.defs)

lemma flow_ok_put_env: "env_ok fd e \<Longrightarrow> callbacks_ok fd (callbacks p) \<Longrightarrow> flow_ok fd (put_env e p)"
  by (simp add: flow_ok_def put_env_def env_ok_def)

lemma run_callbacks_returns:
  assumes "flow_ok fd p"
  shows "returns (hs_router_run_callbacks p w) (\<lambda>(p1, w1). flow_ok fd p1 \<and> to_read fd w1 \<le> to_read fd w)"
proof (cases "callbacks p")
  case None
  with assms show ?thesis by (simp add: hs_router_run_callbacks_def)
next
  case (Some cbs)
  with assms have cbs: "callbacks_wf cbs" "list_all (callback_ok fd) (callback_list cbs)" "env_ok fd p"
    by (simp_all add: flow_ok_def callbacks_ok_def)
  have all: "take (callback_count cbs) (callback_list cbs) = callback_list cbs" using callbacks_length [OF cbs(1)] by simp
  have ok: "list_all (callback_ok fd) (rev (callback_list cbs))" using cbs(2) by (simp add: list_all_iff)
  have "returns (run_in_order (rev (callback_list cbs)) (HSServeFlowEnv.truncate p) w)
      (\<lambda>(e2, w2). env_ok fd e2 \<and> to_read fd w2 \<le> to_read fd w)"
    using run_in_order_returns [OF ok] cbs(3) by (simp add: env_ok_truncate)
  then show ?thesis
    using Some assms run_callbacks_loop_rev [OF cbs(1) order_refl] all
    by (auto simp: hs_router_run_callbacks_def flow_ok_def intro!: flow_ok_put_env [unfolded flow_ok_def] elim!: returns_bind)
qed

lemma release_loop_returns:
  "list_all (\<lambda>c. c \<noteq> None \<and> callback_ok fd (the c)) cs \<Longrightarrow> to_read fd w1 \<le> to_read fd w \<Longrightarrow>
    returns (callbacks_release_loop cs w1) (\<lambda>w2. to_read fd w2 \<le> to_read fd w)"
proof (induction cs arbitrary: w1)
  case (Cons c cs)
  have "returns (hs_types_post_response_callback_release c w1) (\<lambda>w2. to_read fd w2 \<le> to_read fd w1)"
    using Cons.prems by (auto simp: hs_types_post_response_callback_release_def callback_ok_def split: option.split)
  then show ?case unfolding callbacks_release_loop.simps
    by (rule returns_bind) (use Cons in auto)
qed simp

lemma release_returns:
  assumes "flow_ok fd p"
  shows "returns (hs_types_serve_flow_params_release (Some p) w) (\<lambda>w1. to_read fd w1 \<le> to_read fd w)"
proof (cases "callbacks p")
  case None
  then show ?thesis by (simp add: hs_types_serve_flow_params_release_def hs_types_post_response_callbacks_release_def)
next
  case (Some cbs)
  with assms have cbs: "callbacks_wf cbs" "list_all (callback_ok fd) (callback_list cbs)"
    by (simp_all add: flow_ok_def callbacks_ok_def)
  then have "list_all (\<lambda>c. c \<noteq> None \<and> callback_ok fd (the c)) (take (callback_count cbs) (callback_slots cbs))"
    by (simp add: callbacks_wf_def callback_list_def list_all_iff)
  with Some show ?thesis
    by (simp add: hs_types_serve_flow_params_release_def hs_types_post_response_callbacks_release_def release_loop_returns)
qed

lemma serve_returns:
  assumes "libs_ok L" and "vector_ok V" and "list_all (ends_by fd) (vec_list V (router_routes rtr))" and "flow_ok fd p"
  shows "returns (hs_router_serve L V (Some rtr) p w) (progress fd w)"
proof -
  have "returns (bindR (hs_router_run_callbacks p1 w1) (\<lambda>(p2, w2). ret (d, p2, w2))) (progress fd w)"
    if "flow_ok fd p1" "to_read fd w1 \<le> to_read fd w" for d :: bool and p1 w1
    using that by (intro returns_bind [OF run_callbacks_returns]) auto
  with assms(4) show ?thesis
    by (auto simp: hs_router_serve_def split: option.split intro!: returns_bind [OF find_route_returns [OF assms]])
qed

definition next_outcome :: "int \<Rightarrow> world \<Rightarrow> bool \<times> HSServerConnectionState option \<times> world \<Rightarrow> bool" where
  "next_outcome fd w = (\<lambda>(can_continue, conn, w1). to_read fd w1 \<le> to_read fd w
     \<and> (can_continue \<longrightarrow> to_read fd w1 < to_read fd w \<and> (\<forall>c. conn = Some c \<longrightarrow> socket_ok fd (conn_socket c))))"

lemma serve_next_returns:
  assumes "libs_ok L" and "vector_ok V" and "list_all (ends_by fd) (vec_list V (router_routes rtr))"
    and "socket_ok fd (conn_socket c)" and "answering fd w"
  shows "returns (hs_router_serve_next L V (Some rtr) (Some c) w) (next_outcome fd w)"
proof (cases "hs_socket_is_open (conn_socket c)")
  case False
  then show ?thesis by (simp add: hs_router_serve_next_def next_outcome_def)
next
  case True
  with assms(4) have plain: "plain_socket (conn_socket c) fd" by (auto simp: socket_ok_def)
  have open_router: "\<not> (Some rtr = None \<or> \<not> hs_socket_is_open (conn_socket c))" using True by simp
  have new: "flow_ok fd ((hs_types_serve_flow_params_new_pre_populated L req)\<lparr>connection_state := Some c\<rparr>)" for req
    using assms(4)
    by (simp add: callbacks_new_wf flow_ok_def env_ok_def callbacks_ok_def hs_types_serve_flow_params_new_pre_populated_def)
  have tail: "returns (bindR (hs_router_serve L V (Some rtr)
        ((hs_types_serve_flow_params_new_pre_populated L req)\<lparr>connection_state := Some c\<rparr>) w1)
      (\<lambda>(done, p, w2). case router_state p of
           None \<Rightarrow> ub NullDeref
         | Some rs \<Rightarrow> bindR (hs_types_serve_flow_params_release (Some p) w2)
             (\<lambda>w3. ret (done \<and> \<not> closed_connection rs, connection_state p, w3)))) (next_outcome fd w)"
    if less: "to_read fd w1 < to_read fd w" for req w1
  proof (rule returns_bind [OF serve_returns [OF assms(1-3) new]], clarify)
    fix d :: bool and p w2
    assume pr: "progress fd w1 (d, p, w2)"
    then have "returns (hs_types_serve_flow_params_release (Some p) w2) (\<lambda>w3. to_read fd w3 \<le> to_read fd w2)"
      by (simp add: release_returns)
    with pr less show "returns (case router_state p of
           None \<Rightarrow> ub NullDeref
         | Some rs \<Rightarrow> bindR (hs_types_serve_flow_params_release (Some p) w2)
             (\<lambda>w3. ret (d \<and> \<not> closed_connection rs, connection_state p, w3))) (next_outcome fd w)"
      by (auto simp: next_outcome_def flow_ok_def env_ok_def split: option.split intro!: returns_bind)
  qed
  show ?thesis
    unfolding hs_router_serve_next_def option.case if_not_P [OF open_router]
  proof (rule returns_bind [OF parse_request_returns [OF assms(1) plain assms(5)]], clarify)
    fix req :: "('a, 'b, 'c) HSHttpRequest option" and w1
    assume "to_read fd w1 \<le> to_read fd w" and "req \<noteq> None \<longrightarrow> to_read fd w1 < to_read fd w"
    then show "returns (if req = None then ret (False, Some c, w1)
        else bindR (hs_router_serve L V (Some rtr)
               ((hs_types_serve_flow_params_new_pre_populated L req)\<lparr>connection_state := Some c\<rparr>) w1)
          (\<lambda>(done, p, w2). case router_state p of
               None \<Rightarrow> ub NullDeref
             | Some rs \<Rightarrow> bindR (hs_types_serve_flow_params_release (Some p) w2)
                 (\<lambda>w3. ret (done \<and> \<not> closed_connection rs, connection_state p, w3)))) (next_outcome fd w)"
      using tail [of w1 req] by (cases "req = None") (simp_all add: next_outcome_def [of fd w])
  qed
qed

section \<open>One connection\<close>

lemma serve_forever_loop_returns:
  assumes "libs_ok L" and "vector_ok V" and "list_all (ends_by fd) (vec_list V (router_routes rtr))"
  shows "socket_ok fd (conn_socket c) \<Longrightarrow> answering fd w \<Longrightarrow>
    returns (serve_forever_loop L V (Some rtr) socket stop (Some c) w) (\<lambda>w1. to_read fd w1 \<le> to_read fd w)"
proof (induction "to_read fd w" arbitrary: c w rule: less_induct)
  case less
  let ?c = "c\<lparr>request_counter := request_counter c + 1\<rparr>"
  have rest: "returns (serve_forever_loop L V (Some rtr) socket stop (Some c1) w1) (\<lambda>w2. to_read fd w2 \<le> to_read fd w)"
    if "to_read fd w1 < to_read fd w" "socket_ok fd (conn_socket c1)" for c1 w1
    using less.hyps [OF that to_read_answering [OF less_imp_le [OF that(1)] less.prems(2)]] that(1)
    by (auto elim!: returns_mono)
  have "returns (hs_router_serve_next L V (Some rtr) (Some ?c) w) (next_outcome fd w)"
    using less.prems by (intro serve_next_returns [OF assms]) simp
  then show ?case
    unfolding serve_forever_loop.simps [of L V "Some rtr" socket stop "Some c" w] option.case
  proof (rule returns_bind, clarify)
    fix can_continue conn w1
    assume "next_outcome fd w (can_continue, conn, w1)"
    then show "returns (if can_continue
        then case conn of None \<Rightarrow> ub NullDeref
             | Some c1 \<Rightarrow> if case stop of None \<Rightarrow> False | Some stop \<Rightarrow> stop socket (request_counter c1) w1 then ret w1
                          else serve_forever_loop L V (Some rtr) socket stop conn w1
        else ret w1) (\<lambda>w1. to_read fd w1 \<le> to_read fd w)"
      by (cases conn) (auto simp: next_outcome_def intro!: rest)
  qed
qed

lemma serve_forever_returns:
  assumes "libs_ok L" and "vector_ok V" and "list_all (ends_by fd) (vec_list V (router_routes rtr))" and "plain_socket socket fd"
    and "answering fd w"
  shows "returns (hs_router_serve_forever L V (Some rtr) socket stop w) (\<lambda>(b, w1). to_read fd w1 \<le> to_read fd w)"
  using serve_forever_loop_returns [OF assms(1-3)] assms(4,5)
  by (auto simp: hs_router_serve_forever_def Let_def hs_types_server_connection_state_new_def intro!: returns_bind)

end
