(* ===== verification/Serving.thy ===== *)
theory Serving
  imports Routes_Basic
begin

text \<open>
  A request from the bytes that arrive to the bytes that are sent: lemmas that compose the parser,
  the router and a route in \<open>hs_router_serve_next\<close>, for the connection of one plain socket.
\<close>

section \<open>A request for a path\<close>

definition get_request_text :: "string \<Rightarrow> string" where
  "get_request_text path =
     ''GET /'' @ path @ '' HTTP/1.1'' @ [CR, LF] @ ''Connection: keep-alive'' @ [CR, LF, CR, LF]"

definition plain_path :: "string \<Rightarrow> bool" where
  "plain_path path \<longleftrightarrow> list_all (\<lambda>c. \<not> c_isspace c \<and> c \<noteq> CHR ''?'') path"

definition get_request ::
  "('sb, 'pv, 'cv, 'dt, 'sh) libs \<Rightarrow> string \<Rightarrow> ('sb, 'pv, 'cv) HSHttpRequest" where
  \<comment> \<open>the request the parser makes of it, without its payload\<close>
  "get_request L path =
     (let r = (hs_types_http_request_new L)
                \<lparr>req_method := HS_HTTP_METHOD_GET, req_domain := Some [], req_port := -1, req_ssl := False,
                 req_resource := Some (CHR ''/'' # path), req_query_string := None\<rparr>
      in r\<lparr>req_headers := snd (hs_types_array_string_pair_add L (req_headers r) (Some ''connection'') (Some ''keep-alive'')),
           req_connection := HS_CONNECTION_TYPE_KEEP_ALIVE\<rparr>)"

lemma get_request_simps [simp]:
  "req_method (get_request L path) = HS_HTTP_METHOD_GET"
  "req_resource (get_request L path) = Some (CHR ''/'' # path)"
  "req_connection (get_request L path) = HS_CONNECTION_TYPE_KEEP_ALIVE"
  "req_content_length (get_request L path) = 0"
  by (simp_all add: get_request_def hs_types_http_request_new_def Let_def)

lemma get_request_line:
  assumes "stringfn_ok L" and "plain_path path"
  shows "hs_parser_parse_request_line L (Some (''GET /'' @ path @ '' HTTP/1.1''))
    = ret (Some ((hs_types_http_request_new L)
        \<lparr>req_method := HS_HTTP_METHOD_GET, req_domain := Some [], req_port := -1, req_ssl := False,
         req_resource := Some (CHR ''/'' # path), req_query_string := None\<rparr>))"
proof -
  have "stringfn_split_words L (''GET'' @ CHR '' '' # (CHR ''/'' # path) @ CHR '' '' # ''HTTP/1.1'')
      = [''GET'', CHR ''/'' # path, ''HTTP/1.1'']"
    using assms(2) by (intro stringfn_split3 [OF assms(1)]) (simp add: plain_path_def c_isspace_def list_all_iff)
  moreover have "CHR ''?'' \<notin> set path" using assms(2) by (auto simp: plain_path_def list_all_iff)
  then have "hs_parser_create_request_from_resource L (Some (CHR ''/'' # path))
      = ret (Some ((hs_types_http_request_new L)
        \<lparr>req_method := HS_HTTP_METHOD_UNKNOWN, req_domain := Some [], req_port := -1, req_ssl := False,
         req_resource := Some (CHR ''/'' # path), req_query_string := None\<rparr>))"
    using create_request_from_resource_eq [OF assms(1), of path None] by (simp add: print_path_def)
  moreover have "hs_parser_parse_method L (Some ''GET'') = HS_HTTP_METHOD_GET"
    by (simp add: hs_parser_parse_method_def stringfn_laws [OF assms(1)])
  ultimately show ?thesis
    by (simp add: hs_parser_parse_request_line_def Let_def)
qed

lemma keep_alive_header:
  assumes "stringfn_ok L"
  shows "apply_header L ''Connection: keep-alive'' r
    = r\<lparr>req_headers := snd (hs_types_array_string_pair_add L (req_headers r) (Some ''connection'') (Some ''keep-alive'')),
        req_connection := HS_CONNECTION_TYPE_KEEP_ALIVE\<rparr>"
proof -
  have low: "map c_tolower ''Connection'' = ''connection''" and no: "\<not> sublist '': '' ''keep-alive''" by code_simp+
  have "hs_parser_parse_header L (Some (''Connection'' @ CHR '':'' # CHR '' '' # ''keep-alive''))
      = Some (Some (map c_tolower ''Connection''), Some ''keep-alive'')"
    using parse_header_eq [OF assms, of "''Connection''" "''keep-alive''"] no by simp
  then have "hs_parser_parse_header L (Some ''Connection: keep-alive'') = Some (Some ''connection'', Some ''keep-alive'')"
    unfolding low by simp
  then show ?thesis
    by (simp add: apply_header_def hs_parser_set_header_def stringfn_laws [OF assms])
qed

lemma get_request_lines:
  assumes "plain_path path"
  shows "next_line (get_request_text path @ behind)
      = (Some (''GET /'' @ path @ '' HTTP/1.1''), ''Connection: keep-alive'' @ [CR, LF, CR, LF] @ behind)"
    and "stream_lines (''Connection: keep-alive'' @ [CR, LF, CR, LF] @ behind) = ([''Connection: keep-alive''], behind)"
proof -
  have "CR \<notin> set path" using assms by (auto simp: plain_path_def list_all_iff c_isspace_def)
  then show "next_line (get_request_text path @ behind)
      = (Some (''GET /'' @ path @ '' HTTP/1.1''), ''Connection: keep-alive'' @ [CR, LF, CR, LF] @ behind)"
    using next_line_simps(2) [of "''GET /'' @ path @ '' HTTP/1.1''" "''Connection: keep-alive'' @ [CR, LF, CR, LF] @ behind"]
    by (simp add: get_request_text_def)
  have "next_line (''Connection: keep-alive'' @ [CR, LF, CR, LF] @ behind) = (Some ''Connection: keep-alive'', [CR, LF] @ behind)"
    using next_line_simps(2) [of "''Connection: keep-alive''" "[CR, LF] @ behind"] by simp
  moreover have "stream_lines ([CR, LF] @ behind) = ([], behind)"
    by (subst stream_lines.simps) (simp add: next_line_simps)
  ultimately show "stream_lines (''Connection: keep-alive'' @ [CR, LF, CR, LF] @ behind) = ([''Connection: keep-alive''], behind)"
    by (subst stream_lines.simps) simp
qed

lemma parse_get_request:
  assumes "libs_ok L" and "plain_socket socket fd" and "smooth HS_IO_READ_BUFFER_SIZE fd w"
    and "stream_bytes fd w = get_request_text path @ behind" and "plain_path path"
  shows "\<exists>pl w1. hs_parser_parse_request L socket w = ret (Some ((get_request L path)\<lparr>req_payload := Some pl\<rparr>), w1)
    \<and> smooth HS_IO_READ_BUFFER_SIZE fd w1 \<and> consumed fd w w1 \<and> (\<exists>early. early @ stream_bytes fd w1 = behind)"
proof -
  note sf = libs_ok_parts(1) [OF assms(1)]
  have "next_line (stream_bytes fd w)
      = (Some (''GET /'' @ path @ '' HTTP/1.1''), ''Connection: keep-alive'' @ [CR, LF, CR, LF] @ behind)"
    unfolding assms(4) by (rule get_request_lines(1) [OF assms(5)])
  from parse_request_spec [OF assms(1-3) this get_request_line [OF sf assms(5)]]
  show ?thesis
    unfolding get_request_lines(2) [OF assms(5)] fst_conv snd_conv fold_simps keep_alive_header [OF sf]
    by (fastforce simp: get_request_def Let_def)
qed

section \<open>Serving it\<close>

lemma consumed_eager:
  assumes "consumed fd w w1"
  shows "eager fd w1 = eager fd w"
  using assms by (auto simp: consumed_def eager_def)

lemma run_no_callbacks:
  assumes "callbacks p = Some (hs_types_post_response_callbacks_new n)"
  shows "hs_router_run_callbacks p w = ret (p, w)"
  using assms by (cases p) (simp add: hs_router_run_callbacks_def hs_types_post_response_callbacks_new_def put_env_def
      HSServeFlowEnv.defs)

lemma release_no_callbacks:
  assumes "callbacks p = Some (hs_types_post_response_callbacks_new n)"
  shows "hs_types_serve_flow_params_release (Some p) w = ret w"
  using assms by (simp add: hs_types_serve_flow_params_release_def hs_types_post_response_callbacks_release_def
      hs_types_post_response_callbacks_new_def)

definition new_flow ::
  "('sb, 'pv, 'cv, 'dt, 'sh) libs \<Rightarrow> ('sb, 'pv, 'cv) HSHttpRequest \<Rightarrow> HSServerConnectionState \<Rightarrow> ('sb, 'pv, 'cv, 'dt) flow" where
  "new_flow L req c = (hs_types_serve_flow_params_new_pre_populated L (Some req))\<lparr>connection_state := Some c\<rparr>"

lemma new_flow_simps [simp]:
  "request (new_flow L req c) = Some req" "response (new_flow L req c) = Some (hs_types_http_response_new L)"
  "connection_state (new_flow L req c) = Some c" "router_state (new_flow L req c) = Some hs_types_router_flow_state_new"
  "callbacks (new_flow L req c) = Some (hs_types_post_response_callbacks_new 1)"
  "\<not> flow_closed (new_flow L req c)" "\<not> flow_done (new_flow L req c)"
  by (simp_all add: new_flow_def hs_types_serve_flow_params_new_pre_populated_def flow_closed_def flow_done_def
      hs_types_router_flow_state_new_def)

lemma new_flow_ready:
  "flow_ready (new_flow L req c) \<longleftrightarrow> hs_socket_is_open (conn_socket c) \<and> req_resource req \<noteq> None"
  by (simp add: flow_ready_def)

lemma serve_next_answer:
  assumes "plain_socket (conn_socket c) fd"
    and "hs_parser_parse_request L (conn_socket c) w = ret (Some req, w1)" and "req_resource req = Some (CHR ''/'' # path)"
    and "hs_router_find_route_and_serve L V (Some rtr) (new_flow L req c) w1 = ret (True, p, w2)"
    and "callbacks p = Some (hs_types_post_response_callbacks_new n)" and "router_state p = Some rs"
  shows "hs_router_serve_next L V (Some rtr) (Some c) w = ret (\<not> closed_connection rs, connection_state p, w2)"
  using assms(2-4,6) new_flow_ready [of L req c] new_flow_simps(7) [of L req c] plain_socket_simps(2) [OF assms(1)]
  by (simp add: hs_router_serve_next_def hs_router_serve_def run_no_callbacks [OF assms(5)] release_no_callbacks [OF assms(5)]
      flip: new_flow_def)

definition serves_get :: "('sb, 'pv, 'cv, 'dt) route \<Rightarrow> string \<Rightarrow> bool" where
  \<comment> \<open>method, path and serve function of the route let it run for the request\<close>
  "serves_get rt path \<longleftrightarrow> is_get rt \<and> serve rt \<noteq> None
     \<and> (case route_path rt of None \<Rightarrow> True | Some q \<Rightarrow> covers q (is_parent_path rt) (CHR ''/'' # path))"

lemma takes_get:
  assumes "stringfn_ok L" and "request p = Some req" and "req_method req = HS_HTTP_METHOD_GET"
    and "req_resource req = Some (CHR ''/'' # path)"
  shows "takes L p rt \<longleftrightarrow> serves_get rt path"
  using assms(2,3) supported_path_covers [OF assms(1,4), of rt]
  by (auto simp: takes_def serves_get_def hs_route_is_allowed_for_method_def)

lemma response_text_frame:
  assumes "resp_content_file resp = None"
  shows "response_text L resp close w1 = response_text L resp close w"
  using assms by (cases "resp_content_string resp") (simp_all add: response_text_def content_length_text_def content_text_def)

definition asks :: "('sb, 'pv, 'cv) HSHttpRequest \<Rightarrow> string \<Rightarrow> bool" where
  \<comment> \<open>a GET for a path, without payload, on a connection to be kept\<close>
  "asks req path \<longleftrightarrow> req_method req = HS_HTTP_METHOD_GET \<and> req_resource req = Some (CHR ''/'' # path)
     \<and> req_connection req = HS_CONNECTION_TYPE_KEEP_ALIVE \<and> req_content_length req = 0"

lemma serve_next_parsed:
  assumes "libs_ok L" and "vector_ok V" and "plain_socket (conn_socket c) fd" and "eager fd w1"
    and "hs_parser_parse_request L (conn_socket c) w = ret (Some req, w1)"
    and "vec_list V (router_routes rtr) = pre @ rt # post" and "support_keep_alive rtr"
    and "list_all (\<lambda>r. \<not> serves_get r path) pre" and "serves_get rt path" and "serve rt = Some h"
    and "\<And>p w. response p = Some (hs_types_http_response_new L) \<Longrightarrow>
      h (route_path rt) p w = ret (HS_SERVE_FLOW_RESPONSE_DONE, p\<lparr>response := Some resp\<rparr>, w)"
    and "asks req path"
  shows "hs_router_serve_next L V (Some rtr) (Some c) w
    = ret (True, Some c, after_write fd (response_text L resp False w1) w1)"
proof -
  note req = assms(12) [unfolded asks_def]
  let ?p = "new_flow L req c" and ?w2 = "after_write fd (response_text L resp False w1) w1"
  let ?p1 = "?p\<lparr>response := Some resp\<rparr>"
  have keep: "\<not> closes (wants_close rtr req) req" "\<not> wants_close rtr req"
    using assms(7) req by (simp_all add: closes_def wants_close_def)
  have takes: "takes L ?p r \<longleftrightarrow> serves_get r path" for r
    by (rule takes_get [OF libs_ok_parts(1) [OF assms(1)], of _ req]) (simp_all add: req)
  have ready: "flow_ready ?p" using plain_socket_simps(2) [OF assms(3)] req by (simp add: new_flow_ready)
  have answer: "write_response L rtr ?p1 w1 = ret (True, ?p1\<lparr>response := Some (typed_response L resp)\<rparr>, ?w2)"
    using write_response_spec [OF assms(1), of ?p1 req resp c _ fd w1 rtr] assms(3,4) keep
    by (simp add: after_response_def close_if_def)
  have "find_route_loop L (Some rtr) (map Some (pre @ rt # post)) ?p w1
      = ret (True, ?p1\<lparr>response := Some (typed_response L resp)\<rparr>, ?w2)"
    using find_route_skips [OF ready new_flow_simps(6,7), of L pre rtr "map Some (rt # post)" w1]
      serve_route_taken [OF ready new_flow_simps(6,7), of L rt h w1 ?p1 w1 rtr] assms(8-10) assms(11) [of ?p w1] answer
    by (simp add: takes flow_done_def hs_types_router_flow_state_new_def)
  then have find: "hs_router_find_route_and_serve L V (Some rtr) ?p w1
      = ret (True, ?p1\<lparr>response := Some (typed_response L resp)\<rparr>, ?w2)"
    by (simp add: hs_router_find_route_and_serve_def routes_of_vector [OF assms(2)] assms(6))
  show ?thesis
    using serve_next_answer [OF assms(3,5) _ find] req by (simp add: hs_types_router_flow_state_new_def)
qed

lemma serve_next_get:
  assumes "libs_ok L" and "vector_ok V" and "plain_socket (conn_socket c) fd" and "smooth HS_IO_READ_BUFFER_SIZE fd w" and "eager fd w"
    and "stream_bytes fd w = get_request_text path @ behind" and "plain_path path"
    and "vec_list V (router_routes rtr) = pre @ rt # post" and "support_keep_alive rtr"
    and "list_all (\<lambda>r. \<not> serves_get r path) pre" and "serves_get rt path" and "serve rt = Some h"
    and "\<And>p w. response p = Some (hs_types_http_response_new L) \<Longrightarrow>
      h (route_path rt) p w = ret (HS_SERVE_FLOW_RESPONSE_DONE, p\<lparr>response := Some resp\<rparr>, w)"
    and "resp_content_file resp = None"
  shows "\<exists>w1. hs_router_serve_next L V (Some rtr) (Some c) w = ret (True, Some c, w1)
    \<and> sent_bytes fd w1 = sent_bytes fd w @ response_text L resp False w
    \<and> (\<exists>req w0. hs_parser_parse_request L (conn_socket c) w = ret (req, w0) \<and> stream_bytes fd w1 = stream_bytes fd w0)"
proof -
  from parse_get_request [OF assms(1,3,4,6,7)] obtain pl w1 where
    parse: "hs_parser_parse_request L (conn_socket c) w = ret (Some ((get_request L path)\<lparr>req_payload := Some pl\<rparr>), w1)"
    and w1: "consumed fd w w1" by blast
  have eager1: "eager fd w1" using assms(5) consumed_eager [OF w1] by simp
  show ?thesis
    using serve_next_parsed [OF assms(1-3) eager1 parse assms(8-12,13)] parse
      asks_def [of "(get_request L path)\<lparr>req_payload := Some pl\<rparr>" path]
      consumed_frame(1,6) [OF w1] response_text_frame [OF assms(14), of L False w1 w]
    by (intro exI [of _ "after_write fd (response_text L resp False w1) w1"]) simp
qed

section \<open>A request that arrives in segments of its own\<close>

text \<open>
  The readers take a segment only when the bytes they hold have no line left, so a request whose
  last segment carries nothing behind its header is parsed without touching what arrives after it.
\<close>

definition arrives :: "int \<Rightarrow> stream \<Rightarrow> world \<Rightarrow> rd_event list \<Rightarrow> world" where
  \<comment> \<open>the world in which these events are still to come on the stream\<close>
  "arrives fd st w es = w\<lparr>fds := (fds w)(fd \<mapsto> st\<lparr>incoming := es\<rparr>)\<rparr>"

definition small_segment :: "string \<Rightarrow> bool" where
  "small_segment seg \<longleftrightarrow> seg \<noteq> [] \<and> length seg < HS_IO_READ_BUFFER_SIZE \<and> nul_free seg"

lemma read_line_loop_within:
  assumes "stringbuffer_ok L" and "stringfn_ok L" and "plain_socket socket fd"
    and "list_all small_segment segs" and "length buffer = HS_IO_READ_BUFFER_SIZE"
    and "crlf_index (stringbuffer_to_string L b) = None" and "crlf_index (stringbuffer_to_string L b @ concat segs) \<noteq> None"
  shows "\<exists>b' segs'. hs_io_read_line_loop L socket b buffer (arrives fd st w (map Arrive segs @ es))
        = ret (fst (next_line (stringbuffer_to_string L b @ concat segs)), b', arrives fd st w (map Arrive segs' @ es))
      \<and> stringbuffer_to_string L b' @ concat segs' = snd (next_line (stringbuffer_to_string L b @ concat segs))
      \<and> list_all small_segment segs'"
  using assms(4-7)
proof (induction segs arbitrary: b buffer)
  case Nil
  then show ?case by simp
next
  case (Cons seg segs)
  then have seg: "seg \<noteq> []" "length seg < HS_IO_READ_BUFFER_SIZE" "nul_free seg" by (simp_all add: small_segment_def)
  have read: "posix_read fd HS_IO_READ_BUFFER_SIZE (arrives fd st w (Arrive seg # map Arrive segs @ es))
      = ret (int (length seg), seg, arrives fd st w (map Arrive segs @ es))"
    using seg by (simp add: posix_read_def arrives_def)
  from fill_then_store [OF Cons.prems(2) seg(2,3)] obtain buffer1 where
    b1: "store_nul (fill_buffer buffer seg) (int (length seg)) = ret buffer1"
      "length buffer1 = HS_IO_READ_BUFFER_SIZE" "c_string buffer1 = seg" .
  let ?b = "stringbuffer_append_string L b seg"
  have content: "stringbuffer_to_string L ?b = stringbuffer_to_string L b @ seg"
    using assms(1) by (simp add: lib_simps)
  note step = hs_io_read_line_loop.simps [of L socket b buffer] plain_socket_simps(6) [OF assms(3)] read b1
  from assms(1,2) show ?case
  proof (cases rule: read_line_from_buffer_cases [of L ?b])
    case none
    with Cons.IH [OF _ b1(2) none(1)] Cons.prems seg(1) show ?thesis by (simp add: step content)
  next
    case (some i b')
    then show ?thesis
      using seg(1) Cons.prems(1) next_line_append [OF some(1), of "concat segs"]
      by (intro exI [of _ b'] exI [of _ segs]) (cases "i = 0"; simp add: step content)
  qed
qed

lemma read_line_within:
  assumes "stringbuffer_ok L" and "stringfn_ok L" and "plain_socket socket fd"
    and "list_all small_segment segs" and "next_line (stringbuffer_to_string L b @ concat segs) = (l, rest)"
    and "crlf_index (stringbuffer_to_string L b @ concat segs) \<noteq> None"
  obtains b' segs' where "hs_io_read_line L socket (Some b) (arrives fd st w (map Arrive segs @ es))
      = ret (l, Some b', arrives fd st w (map Arrive segs' @ es))"
    "stringbuffer_to_string L b' @ concat segs' = rest" "list_all small_segment segs'"
  using assms(1,2)
proof (cases rule: read_line_from_buffer_cases [of L b])
  case none
  with read_line_loop_within [OF assms(1-4) _ none(1) assms(6), of "replicate HS_IO_READ_BUFFER_SIZE NUL" st w es] assms(5) that
  show ?thesis by (auto simp: hs_io_read_line_def plain_socket_simps [OF assms(3)])
next
  case (some i b')
  with next_line_append [OF some(1), of "concat segs"] assms(4,5) show ?thesis
    by (intro that [of b' segs]) (cases "i = 0"; auto simp: hs_io_read_line_def plain_socket_simps [OF assms(3)])+
qed

definition text_line :: "string \<Rightarrow> bool" where
  "text_line l \<longleftrightarrow> l \<noteq> [] \<and> CR \<notin> set l"

definition header_text_of :: "string list \<Rightarrow> string" where
  \<comment> \<open>header lines and the empty line\<close>
  "header_text_of headers = concat (map (\<lambda>h. h @ [CR, LF]) headers) @ [CR, LF]"

lemma next_header:
  "next_line (header_text_of []) = (None, [])" "crlf_index (header_text_of []) \<noteq> None"
  "text_line h \<Longrightarrow> next_line (h @ [CR, LF] @ rest) = (Some h, rest)"
  "text_line h \<Longrightarrow> crlf_index (h @ [CR, LF] @ rest) \<noteq> None"
  "header_text_of (h # headers) = h @ [CR, LF] @ header_text_of headers"
  using next_line_simps(2) [of h rest] crlf_index_line [of h rest]
  by (simp_all add: header_text_of_def text_line_def next_line_simps crlf_index.simps)

lemma parse_headers_within:
  assumes "stringbuffer_ok L" and "stringfn_ok L" and "plain_socket socket fd"
  shows "list_all text_line headers \<Longrightarrow> list_all small_segment segs
    \<Longrightarrow> stringbuffer_to_string L b @ concat segs = header_text_of headers
    \<Longrightarrow> \<exists>b'. parse_headers_loop L socket (Some r) (Some b) (arrives fd st w (map Arrive segs @ es))
        = ret (Some (fold (apply_header L) headers r), Some b', arrives fd st w es)"
proof (induction headers arbitrary: r b segs)
  case Nil
  then obtain b' segs' where "hs_io_read_line L socket (Some b) (arrives fd st w (map Arrive segs @ es))
      = ret (None, Some b', arrives fd st w (map Arrive segs' @ es))"
    "stringbuffer_to_string L b' @ concat segs' = []" "list_all small_segment segs'"
    using read_line_within [OF assms Nil.prems(2), of b None "[]" st w es] next_header(1,2) by auto
  moreover from this(2,3) have "segs' = []" by (cases segs') (auto simp: small_segment_def)
  ultimately show ?case by (simp add: parse_headers_loop.simps [of L socket "Some r" "Some b"])
next
  case (Cons h headers)
  from Cons.prems(1) have h: "text_line h" and hs: "list_all text_line headers" by simp_all
  note bytes = Cons.prems(3) [unfolded next_header(5)]
  obtain b1 segs1 where b1: "hs_io_read_line L socket (Some b) (arrives fd st w (map Arrive segs @ es))
      = ret (Some h, Some b1, arrives fd st w (map Arrive segs1 @ es))"
    "stringbuffer_to_string L b1 @ concat segs1 = header_text_of headers" "list_all small_segment segs1"
    using read_line_within [OF assms Cons.prems(2), of b "Some h" "header_text_of headers" st w es]
      next_header(3,4) [OF h] unfolding bytes by auto
  have "parse_headers_loop L socket (Some r) (Some b) (arrives fd st w (map Arrive segs @ es))
      = parse_headers_loop L socket (Some (apply_header L h r)) (Some b1) (arrives fd st w (map Arrive segs1 @ es))"
    using b1(1) add_request_header_apply [of L h _ _ r]
    by (simp add: parse_headers_loop.simps [of L socket "Some r" "Some b"] split: option.splits)
      (simp add: apply_header_def split: option.splits)
  with Cons.IH [OF hs b1(3,2)] show ?case by simp
qed

text \<open>
  A request as its request line, its header lines, and the segments in which its bytes arrive; it is
  one for a path when the parser makes a GET for it that keeps the connection and has no payload.
\<close>

type_synonym sent_request = "string \<times> string list \<times> string list"

definition requested ::
  "('sb, 'pv, 'cv, 'dt, 'sh) libs \<Rightarrow> string \<Rightarrow> sent_request \<Rightarrow> bool" where
  "requested L path q =
     (case q of (line, headers, segs) \<Rightarrow>
        text_line line \<and> list_all text_line headers \<and> list_all small_segment segs
        \<and> concat segs = line @ [CR, LF] @ header_text_of headers
        \<and> (case hs_parser_parse_request_line L (Some line) of
             Some (Inr (Some r0)) \<Rightarrow> asks (fold (apply_header L) headers r0) path
           | _ \<Rightarrow> False))"

definition segments_of :: "sent_request \<Rightarrow> rd_event list" where
  "segments_of q = map Arrive (snd (snd q))"

lemma parse_requested:
  fixes L :: "('sb, 'pv, 'cv, 'dt, 'sh) libs"
  assumes "libs_ok L" and "plain_socket socket fd" and "requested L path q"
  obtains req :: "('sb, 'pv, 'cv) HSHttpRequest"
    where "hs_parser_parse_request L socket (arrives fd st w (segments_of q @ es)) = ret (Some req, arrives fd st w es)"
    and "asks req path"
proof -
  obtain s where s: "socket = Some s" using plain_socket_simps(3) [OF assms(2)] by auto
  note ok = libs_ok_parts(2) [OF assms(1)] libs_ok_parts(1) [OF assms(1)] assms(2) [unfolded s]
  obtain line headers segs where q: "q = (line, headers, segs)" by (cases q)
  from assms(3) obtain r0 where line: "text_line line" and headers: "list_all text_line headers" and segs: "list_all small_segment segs"
    and bytes: "concat segs = line @ [CR, LF] @ header_text_of headers"
    and r0: "hs_parser_parse_request_line L (Some line) = ret (Some r0)" "asks (fold (apply_header L) headers r0) path"
    by (auto simp: requested_def q split: option.splits sum.splits)
  let ?b = "stringbuffer_new L"
  have new: "stringbuffer_to_string L ?b @ concat segs = line @ [CR, LF] @ header_text_of headers"
    by (simp add: stringbuffer_laws(1) [OF ok(1)] bytes)
  obtain b1 segs1 where b1: "hs_io_read_line L (Some s) (Some ?b) (arrives fd st w (map Arrive segs @ es))
      = ret (Some line, Some b1, arrives fd st w (map Arrive segs1 @ es))"
    "stringbuffer_to_string L b1 @ concat segs1 = header_text_of headers" "list_all small_segment segs1"
    using read_line_within [OF ok segs, of ?b "Some line" "header_text_of headers" st w es] next_header(3,4) [OF line]
    unfolding new by auto
  obtain b2 where b2: "parse_headers_loop L (Some s) (Some r0) (Some b1) (arrives fd st w (map Arrive segs1 @ es))
      = ret (Some (fold (apply_header L) headers r0), Some b2, arrives fd st w es)"
    using parse_headers_within [OF ok headers b1(3,2)] by blast
  show thesis
    by (rule that [of "(fold (apply_header L) headers r0)\<lparr>req_payload := Some (hs_types_http_request_new_payload
          (hs_io_new_http_request_payload (Some s) (Some b2)))\<rparr>"])
      (use b1(1) b2 r0 in \<open>simp_all add: hs_parser_parse_request_def s q segments_of_def asks_def\<close>)
qed

lemma parse_end_of_stream:
  assumes "libs_ok L" and "plain_socket socket fd" and "fds w fd = Some st" and "incoming st = []"
  shows "hs_parser_parse_request L socket w = ret (None, w)"
proof -
  obtain s where s: "socket = Some s" using plain_socket_simps(3) [OF assms(2)] by auto
  have "hs_io_read_line L socket (Some (stringbuffer_new L)) w = ret (None, Some (stringbuffer_new L), w)"
    using assms(3,4) stringbuffer_laws(1,6) [OF libs_ok_parts(2) [OF assms(1)]]
    by (simp add: hs_io_read_line_def hs_io_read_line_from_buffer_def plain_socket_simps [OF assms(2)] posix_read_def Let_def
        hs_io_read_line_loop.simps [of L socket "stringbuffer_new L" _ w])
  with s show ?thesis by (simp add: hs_parser_parse_request_def)
qed

end
