(* ===== verification/Library_Routes.thy ===== *)
theory Library_Routes
  imports Liveness Serving
begin

text \<open>
  The routes of the library together: every serve function of \<open>src/hs_routes_*.c\<close>, and the router as
  a route, meets both contracts of a serve function, \<open>route_handler\<close> (it answers at most once) and
  \<open>returning_handler\<close> (it returns). What a user supplies (the authentication function, the functions
  of the session route, the links of the directory route) is asked to leave descriptors alone and
  to return.
\<close>

section \<open>They return\<close>

interpretation not_found_ends: returning_handler fd hs_routes_404_not_found_serve for fd
  by unfold_locales (simp add: hs_routes_404_not_found_serve_def respond_returns)

interpretation length_required_ends: returning_handler fd "hs_routes_411_length_required_serve L" for fd L
  by unfold_locales (auto simp: hs_routes_411_length_required_serve_def respond_returns split: option.split)

interpretation static_ends: returning_handler fd "hs_routes_static_serve ctx" for fd ctx
  by unfold_locales (auto simp: hs_routes_static_serve_def respond_returns split: option.split)

interpretation redirection_ends: returning_handler fd "hs_routes_redirection_serve L ctx" for fd L ctx
  by unfold_locales (auto simp: hs_routes_redirection_serve_def hs_routes_redirection_set_header_and_status_code_def
      split: option.split)

interpretation powered_by_ends: returning_handler fd "hs_routes_powered_by_serve L ext" for fd L ext
  by unfold_locales (auto simp: hs_routes_powered_by_serve_def respond_returns split: option.split)

interpretation payload_limit_ends: returning_handler fd "hs_routes_payload_limit_serve limit" for fd limit
  by unfold_locales (auto simp: hs_routes_payload_limit_serve_def respond_returns split: option.split)

interpretation request_limit_ends: returning_handler fd "hs_routes_ratelimit_max_connection_requests_route_serve limit" for fd limit
  by unfold_locales (auto simp: hs_routes_ratelimit_max_connection_requests_route_serve_def close_request_def split: option.split)

interpretation time_limit_ends: returning_handler fd "hs_routes_ratelimit_max_connection_time_route_serve limit" for fd limit
  by unfold_locales (auto simp: hs_routes_ratelimit_max_connection_time_route_serve_def close_request_def Let_def split: option.split)

interpretation favicon_ends: returning_handler fd "hs_routes_favicon_route_serve L ctx" for fd L ctx
  by unfold_locales (auto simp: hs_routes_favicon_route_serve_def respond_returns split: option.split)

interpretation security_headers_ends: returning_handler fd "hs_routes_security_headers_route_serve L ctx" for fd L ctx
  by unfold_locales (auto simp: hs_routes_security_headers_route_serve_def respond_returns split: option.split)

interpretation file_route_ends: returning_handler fd "hs_routes_file_route_serve L ctx" for fd L ctx
  by unfold_locales (auto simp: hs_routes_file_route_serve_def Let_def split: option.split)

lemma to_read_same: "fds w1 = fds w \<Longrightarrow> to_read fd w1 = to_read fd w"
  by (simp add: to_read_def answering_def pending_def)

lemma world_quiet_fds: "fds w1 = fds w \<Longrightarrow> world_quiet fd w w1"
  by (simp add: world_quiet_def sent_bytes_def eager_def)

lemma basic_auth_ends:
  fixes L :: "('sb, 'pv, 'cv, 'dt, 'sh) libs"
  assumes "\<And>a w. fds (snd (auth context a w)) = fds w"
  shows "returning_handler fd (hs_routes_security_basic_auth_route_serve L (Some context))"
proof
  fix p :: "('sb, 'pv, 'cv, 'dt) flow" and path w
  assume ok: "flow_ok fd p"
  have check: "to_read fd w1 = to_read fd w" if "basic_auth_check L context req w = (valid, req1, w1)"
    for valid w1 and req req1 :: "('sb, 'pv, 'cv) HSHttpRequest"
  proof -
    have "fds w1 = fds w" using that assms
      by (auto simp: basic_auth_check_def case_prod_beta split: option.splits if_splits)
    then show ?thesis by (rule to_read_same)
  qed
  show "returns (hs_routes_security_basic_auth_route_serve L (Some context) path p w) (progress fd w)"
    using ok by (auto simp: hs_routes_security_basic_auth_route_serve_def Let_def split: option.split prod.split
        intro!: respond_returns dest!: check)
qed

definition files_only :: "('sb, 'pv, 'cv, 'dt, 'sh) libs \<Rightarrow> bool" where
  \<comment> \<open>writing and removing a file leaves the table of descriptors as it was\<close>
  "files_only L \<longleftrightarrow> (\<forall>p s w. fds (snd (fsio_write_text_file L p s w)) = fds w) \<and> (\<forall>p w. fds (fsio_remove L p w) = fds w)"

definition session_functions_ok :: "'sh HSSessionRouteContext \<Rightarrow> bool" where
  \<comment> \<open>the functions of the context leave the descriptors alone\<close>
  "session_functions_ok c \<longleftrightarrow> (\<forall>w. fds (snd (generate_cookie_id c w)) = fds w)
     \<and> (\<forall>i w. fds (snd (read_from_storage c i w)) = fds w) \<and> (\<forall>i s w. fds (snd (write_to_storage c i s w)) = fds w)"

lemma default_session_functions_ok:
  assumes "files_only L"
  shows "session_functions_ok (default_session_context L)"
  using assms
  by (auto simp: session_functions_ok_def default_session_context_def files_only_def file_read_unchanged
      hs_routes_session_route_generate_cookie_id_def hs_routes_session_route_session_write_to_file_based_storage_def
      c_rand_def Let_def split: list.splits prod.splits option.splits)

lemma session_open_fds:
  assumes "session_functions_ok context" and "session_open L context cookie w = (sid, session, w1)"
  shows "fds w1 = fds w"
proof -
  have g: "generate_cookie_id context w = (i, w1) \<Longrightarrow> fds w1 = fds w" for w i w1
    using assms(1) by (metis session_functions_ok_def snd_conv)
  have rd: "read_from_storage context j w = (i, w1) \<Longrightarrow> fds w1 = fds w" for w i w1 j
    using assms(1) by (metis session_functions_ok_def snd_conv)
  show ?thesis
    using assms(2) by (auto simp: session_open_def Let_def split: option.splits prod.splits dest!: g rd)
qed

lemma session_callback_ok:
  assumes "session_functions_ok context"
  shows "callback_ok fd (session_callback L context sid)"
proof -
  have "to_read fd (snd (write_to_storage context i s w)) = to_read fd w" for i s w
    using assms by (intro to_read_same) (simp add: session_functions_ok_def)
  then show ?thesis
    by (auto simp: callback_ok_def session_callback_def hs_types_post_response_callback_new_def
        hs_routes_session_callback_run_def Let_def split: option.split route_value.split)
qed

lemma cookies_get_returns: "returns (hs_types_cookies_get_by_name L cookies name) (\<lambda>_. True)"
proof -
  have "returns (cookies_get_by_name_loop L v n i count) (\<lambda>_. True)" for v n i count
  proof (induction L v n i count rule: cookies_get_by_name_loop.induct)
    case (1 L v name index count)
    then show ?case by (subst cookies_get_by_name_loop.simps) (auto split: option.split)
  qed
  then show ?thesis by (auto simp: hs_types_cookies_get_by_name_def split: option.split)
qed

lemma session_ends:
  fixes L :: "('sb, 'pv, 'cv, 'dt, 'sh) libs"
  assumes "session_functions_ok context"
  shows "returning_handler fd (hs_routes_session_route_serve L (Some context))"
proof
  fix p :: "('sb, 'pv, 'cv, 'dt) flow" and path w
  assume ok: "flow_ok fd p"
  show "returns (hs_routes_session_route_serve L (Some context) path p w) (progress fd w)"
  proof (rule returnsI)
    show "hs_routes_session_route_serve L (Some context) path p w \<noteq> None"
    proof -
      have add: "returns (hs_types_post_response_callbacks_add cbs cb) (\<lambda>_. True)" for cbs and cb :: "'e HSPostResponseCallback option"
        by (auto simp: hs_types_post_response_callbacks_add_def Let_def split: option.split)
      have "returns (hs_routes_session_route_serve L (Some context) path p w) (\<lambda>_. True)"
        by (auto simp: hs_routes_session_route_serve_def Let_def split: option.split prod.split
            intro!: returns_bind [OF cookies_get_returns] returns_bind [OF add])
      then show ?thesis by (rule returns_some)
    qed
    fix x
    assume run: "hs_routes_session_route_serve L (Some context) path p w = ret x"
    obtain d p1 w1 where x: "x = (d, p1, w1)" by (cases x)
    from run [unfolded x] show "progress fd w x"
    proof (rule session_serveE)
      fix cookie sid session resp rs b cbs
      assume opened: "session_open L context cookie w = (Some sid, session, w1)"
        and add: "hs_types_post_response_callbacks_add (callbacks p) (Some (session_callback L context sid)) = ret (b, cbs)"
        and p1: "p1 = with_session L context sid session resp rs cbs p"
      have "callbacks_ok fd cbs"
      proof (cases "callbacks p")
        case None
        with add show ?thesis by (simp add: hs_types_post_response_callbacks_add_def callbacks_ok_def)
      next
        case (Some c)
        with ok have "callbacks_wf c" "list_all (callback_ok fd) (callback_list c)" by (simp_all add: flow_ok_def callbacks_ok_def)
        with callbacks_add_spec [of c "session_callback L context sid"] add Some session_callback_ok [OF assms, of fd L sid]
        show ?thesis by (auto simp: callbacks_ok_def)
      qed
      moreover have "to_read fd w1 = to_read fd w" using session_open_fds [OF assms opened] by (rule to_read_same)
      ultimately show ?thesis using ok by (simp add: x p1 with_session_def flow_ok_def env_ok_def)
    qed
  qed
qed

lemma directory_loop_returns:
  assumes "\<And>n. returns (create_href context p (dir_base_directory context) n) (\<lambda>_. True)"
  shows "returns (directory_loop L context p dir_path w names buffers) (\<lambda>_. True)"
proof (induction names arbitrary: buffers)
  case (Cons n names)
  have "returns (directory_entry L context p dir_path w n buffers) (\<lambda>_. True)"
    by (auto simp: directory_entry_def Let_def split: option.split prod.split intro!: returns_bind [OF assms])
  then show ?case unfolding directory_loop.simps by (rule returns_bind) (rule Cons.IH)
qed simp

lemma directory_ends:
  fixes L :: "('sb, 'pv, 'cv, 'dt, 'sh) libs"
  assumes "\<And>c p n. ctx = Some c \<Longrightarrow> create_href c p (dir_base_directory c) n \<noteq> None"
  shows "returning_handler fd (hs_routes_directory_route_serve L ctx)"
proof
  fix p :: "('sb, 'pv, 'cv, 'dt) flow" and path w
  assume ok: "flow_ok fd p"
  have html: "returns (directory_html L c p dir_path base w) (\<lambda>_. True)" if "ctx = Some c" for c dir_path base
  proof -
    have "returns (create_href c p (dir_base_directory c) n) (\<lambda>_. True)" for p n
      using assms [OF that] by (intro returnsI) simp_all
    then show ?thesis by (auto simp: directory_html_def Let_def intro!: returns_bind [OF directory_loop_returns])
  qed
  show "returns (hs_routes_directory_route_serve L ctx path p w) (progress fd w)"
    using ok by (auto simp: hs_routes_directory_route_serve_def split: option.split intro!: returns_bind [OF html])
qed

section \<open>The serve functions of the library\<close>

inductive library_serve ::
  "('sb, 'pv, 'cv, 'dt, 'sh) libs \<Rightarrow> ('rv, ('sb, 'pv, 'cv, 'dt) route) vector_lib \<Rightarrow> ('sb, 'pv, 'cv, 'dt) flow serve_function \<Rightarrow> bool"
  for L :: "('sb, 'pv, 'cv, 'dt, 'sh) libs" and V :: "('rv, ('sb, 'pv, 'cv, 'dt) route) vector_lib" where
  not_found_route: "library_serve L V hs_routes_404_not_found_serve"
| length_required_route: "library_serve L V (hs_routes_411_length_required_serve L)"
| static_route: "library_serve L V (hs_routes_static_serve static_ctx)"
| redirection_route: "library_serve L V (hs_routes_redirection_serve L redirection_ctx)"
| powered_by_route: "library_serve L V (hs_routes_powered_by_serve L powered_by)"
| payload_limit_route: "library_serve L V (hs_routes_payload_limit_serve limit)"
| request_limit_route: "library_serve L V (hs_routes_ratelimit_max_connection_requests_route_serve limit)"
| time_limit_route: "library_serve L V (hs_routes_ratelimit_max_connection_time_route_serve limit)"
| favicon_route: "library_serve L V (hs_routes_favicon_route_serve L favicon_ctx)"
| security_headers_route: "library_serve L V (hs_routes_security_headers_route_serve L headers)"
| basic_auth_route: "(\<And>a w. fds (snd (auth auth_ctx a w)) = fds w)
    \<Longrightarrow> library_serve L V (hs_routes_security_basic_auth_route_serve L (Some auth_ctx))"
| session_route: "session_functions_ok (session_ctx :: 'sh HSSessionRouteContext)
    \<Longrightarrow> library_serve L V (hs_routes_session_route_serve L (Some session_ctx))"
| files_route: "library_serve L V (hs_routes_file_route_serve L file_ctx)"
| directories_route: "(\<And>c p n. dir_ctx = Some c \<Longrightarrow> create_href c p (dir_base_directory c) n \<noteq> None)
    \<Longrightarrow> library_serve L V (hs_routes_directory_route_serve L dir_ctx)"
| router_route: "(\<And>rt h. rt \<in> set (vec_list V (router_routes rtr)) \<Longrightarrow> serve rt = Some h \<Longrightarrow> library_serve L V h)
    \<Longrightarrow> library_serve L V (hs_router_as_route_serve L V (Some rtr))"

definition library_route ::
  "('sb, 'pv, 'cv, 'dt, 'sh) libs \<Rightarrow> ('rv, ('sb, 'pv, 'cv, 'dt) route) vector_lib \<Rightarrow> ('sb, 'pv, 'cv, 'dt) route \<Rightarrow> bool" where
  \<comment> \<open>whatever its path and its methods\<close>
  "library_route L V rt \<longleftrightarrow> (\<forall>h. serve rt = Some h \<longrightarrow> library_serve L V h)"

lemma library_serve_handles:
  assumes "libs_ok L" and "vector_ok V" and "library_serve L V h"
  shows "route_handler L h"
  using assms(3)
proof (induction rule: library_serve.induct)
  case (basic_auth_route c)
  then show ?case by (intro basic_auth_is_handler world_quiet_fds)
next
  case (session_route c)
  then show ?case by (intro session_route_is_handler world_quiet_fds) (simp_all add: session_functions_ok_def)
next
  case (router_route rtr)
  then show ?case by (intro router_is_handler [OF assms(1,2)]) (simp add: list_all_iff handled_by_def)
qed (rule not_found.route_handler_axioms length_required.route_handler_axioms static.route_handler_axioms
    redirection.route_handler_axioms powered_by.route_handler_axioms payload_limit.route_handler_axioms
    request_limit.route_handler_axioms time_limit.route_handler_axioms favicon.route_handler_axioms
    security_headers.route_handler_axioms file_route.route_handler_axioms directory_route.route_handler_axioms)+

lemma library_serve_ends:
  assumes "libs_ok L" and "vector_ok V" and "library_serve L V h"
  shows "returning_handler fd h"
  using assms(3)
proof (induction rule: library_serve.induct)
  case (router_route rtr)
  then show ?case by (intro router_returns [OF assms(1,2)]) (simp add: list_all_iff ends_by_def)
qed (rule not_found_ends.returning_handler_axioms length_required_ends.returning_handler_axioms static_ends.returning_handler_axioms
    redirection_ends.returning_handler_axioms powered_by_ends.returning_handler_axioms payload_limit_ends.returning_handler_axioms
    request_limit_ends.returning_handler_axioms time_limit_ends.returning_handler_axioms favicon_ends.returning_handler_axioms
    security_headers_ends.returning_handler_axioms file_route_ends.returning_handler_axioms
    basic_auth_ends session_ends directory_ends, assumption?)+

lemma library_routes_handle:
  "libs_ok L \<Longrightarrow> vector_ok V \<Longrightarrow> list_all (library_route L V) rts \<Longrightarrow> list_all (handled_by L) rts"
  by (auto simp: list_all_iff library_route_def handled_by_def library_serve_handles)

lemma library_routes_end:
  "libs_ok L \<Longrightarrow> vector_ok V \<Longrightarrow> list_all (library_route L V) rts \<Longrightarrow> list_all (ends_by fd) rts"
  by (auto simp: list_all_iff library_route_def ends_by_def library_serve_ends)

text \<open>The constructors of the library make such routes.\<close>

lemma library_constructors:
  "library_route L V hs_routes_error_404_not_found_route_new"
  "library_route L V (hs_routes_error_411_length_required_route_new L)"
  "library_route L V (hs_routes_powered_by_route_new L s)"
  "library_route L V (hs_routes_payload_limit_route_new n)"
  "library_route L V (hs_routes_ratelimit_max_connection_requests_route_new n)"
  "library_route L V (hs_routes_ratelimit_max_connection_time_route_new n)"
  "library_route L V (hs_routes_security_headers_route_new L headers)"
  "library_route L V (hs_routes_fs_file_route_new L base)"
  "library_route L V (hs_routes_fs_directory_route_new L base)"
  "pred_option (library_route L V) (hs_routes_static_route_new content mime)"
  "pred_option (library_route L V) (hs_routes_redirection_route_new L source target)"
  "pred_option (library_route L V) (hs_routes_favicon_route_new L icon age)"
  "files_only L \<Longrightarrow> pred_option (library_route L V) (hs_routes_session_route_new_default L)"
  "list_all (library_route L V) (vec_list V (router_routes rtr)) \<Longrightarrow> pred_option (library_route L V) (hs_router_as_route L V (Some rtr))"
proof -
  note news = hs_routes_common_serve_all_route_new_def hs_route_set_all_methods_def hs_route_new_def library_route_def
  show "library_route L V hs_routes_error_404_not_found_route_new"
    by (simp add: news hs_routes_error_404_not_found_route_new_def library_serve.intros)
  show "library_route L V (hs_routes_error_411_length_required_route_new L)"
    by (simp add: news hs_routes_error_411_length_required_route_new_def library_serve.intros)
  show "library_route L V (hs_routes_powered_by_route_new L s)"
    by (simp add: news hs_routes_powered_by_route_new_def library_serve.intros)
  show "library_route L V (hs_routes_payload_limit_route_new n)"
    by (simp add: news hs_routes_payload_limit_route_new_def library_serve.intros)
  show "library_route L V (hs_routes_ratelimit_max_connection_requests_route_new n)"
    by (simp add: news hs_routes_ratelimit_max_connection_requests_route_new_def library_serve.intros)
  show "library_route L V (hs_routes_ratelimit_max_connection_time_route_new n)"
    by (simp add: news hs_routes_ratelimit_max_connection_time_route_new_def library_serve.intros)
  show "library_route L V (hs_routes_security_headers_route_new L headers)"
    by (simp add: news hs_routes_security_headers_route_new_def library_serve.intros)
  show "library_route L V (hs_routes_fs_file_route_new L base)"
    by (simp add: news hs_routes_fs_file_route_new_def hs_routes_fs_file_route_new_with_options_def library_serve.intros)
  show "pred_option (library_route L V) (hs_routes_static_route_new content mime)"
    by (cases content) (simp_all add: news hs_routes_static_route_new_def library_serve.intros)
  show "pred_option (library_route L V) (hs_routes_redirection_route_new L source target)"
    by (simp add: news hs_routes_redirection_route_new_def hs_routes_redirection_route_new_with_options_def library_serve.intros)
  show "pred_option (library_route L V) (hs_routes_favicon_route_new L icon age)"
    by (cases icon) (simp_all add: news hs_routes_favicon_route_new_def library_serve.intros)
  have "hs_routes_fs_default_create_href L p b n \<noteq> None" for p b n
    by (simp add: hs_routes_fs_default_create_href_def split: option.split)
  then show "library_route L V (hs_routes_fs_directory_route_new L base)"
    by (auto simp: news hs_routes_fs_directory_route_new_def hs_routes_fs_directory_route_new_with_options_def
        intro!: directories_route)
  show "pred_option (library_route L V) (hs_routes_session_route_new_default L)" if "files_only L"
  proof -
    have "session_functions_ok (default_session_context L)" using that by (rule default_session_functions_ok)
    moreover have "hs_routes_session_route_new_default L = Some (hs_routes_common_serve_all_route_new
        \<lparr>serve := Some (hs_routes_session_route_serve L (Some (default_session_context L))),
         release_route := Some (hs_routes_session_route_release (Some (default_session_context L)))\<rparr>)"
      by (simp add: hs_routes_session_route_new_default_def hs_routes_session_route_new_def default_session_context_def Let_def)
    ultimately show ?thesis using session_route [of "default_session_context L" L V] by (simp add: news)
  qed
  show "pred_option (library_route L V) (hs_router_as_route L V (Some rtr))"
    if "list_all (library_route L V) (vec_list V (router_routes rtr))"
    using that by (auto simp: news list_all_iff hs_router_as_route_def intro!: router_route)
qed

section \<open>A segment with more than one request\<close>

lemma drained: "pending fd w = 0 \<Longrightarrow> stream_bytes fd w = []"
proof -
  have "sum_list (map (\<lambda>e. case e of Arrive bs \<Rightarrow> length bs + 1 | _ \<Rightarrow> 1) es) = 0 \<Longrightarrow> arriving es = []" for es
    by (cases es rule: arriving.cases) simp_all
  then show "pending fd w = 0 \<Longrightarrow> stream_bytes fd w = []"
    by (auto simp: pending_def stream_bytes_def split: option.splits)
qed

lemma one_segment_read:
  assumes "fds w fd = Some st" and "incoming st = [Arrive seg]" and "length seg \<le> count" 
  obtains sz bs w1 where "posix_read fd count w = ret (sz, bs, w1)" and "pending fd w1 = 0" and "answering fd w1"
proof -
  let ?w1 = "w\<lparr>fds := (fds w)(fd \<mapsto> st\<lparr>incoming := []\<rparr>)\<rparr>"
  have "posix_read fd count w = ret (int (length seg), seg, ?w1)" using assms by (simp add: posix_read_def)
  moreover have "pending fd ?w1 = 0" "answering fd ?w1" by (simp_all add: pending_def answering_def)
  ultimately show thesis by (rule that)
qed

lemma read_line_drains:
  assumes "stringbuffer_ok L" and "stringfn_ok L" and "plain_socket socket fd"
    and "fds w fd = Some st" and "incoming st = [Arrive seg]" and "length seg \<le> HS_IO_READ_BUFFER_SIZE"
    and "stringbuffer_to_string L b = []"
  shows "returns (hs_io_read_line L socket (Some b) w) (\<lambda>(line, b1, w1). pending fd w1 = 0 \<and> answering fd w1 \<and> b1 \<noteq> None)"
proof -
  let ?buffer = "replicate HS_IO_READ_BUFFER_SIZE NUL"
  obtain line eof b1 where l: "hs_io_read_line_from_buffer L b = (line, eof, b1)"
    by (cases "hs_io_read_line_from_buffer L b")
  from line_from_buffer_work(3) [OF assms(1,2) l assms(7)] have l': "line = None" "\<not> eof" "b1 = b" by simp_all
  obtain sz bytes w1 where rd: "posix_read fd HS_IO_READ_BUFFER_SIZE w = ret (sz, bytes, w1)"
    and w1: "pending fd w1 = 0" "answering fd w1" by (rule one_segment_read [OF assms(4-6)])
  have later: "returns (hs_io_read_line_loop L socket b2 buffer2 w1) (\<lambda>(line, b3, w3). pending fd w3 = 0 \<and> answering fd w3)" for b2 buffer2
    using read_line_loop_returns [OF assms(1-3) w1(2), of b2 buffer2] w1
    by (elim returns_mono) (auto simp: line_read_def)
  have "returns (store_nul buf i) (\<lambda>_. True)" for buf i by (simp add: store_nul_def)
  then have "returns (hs_io_read_line_loop L socket b ?buffer w) (\<lambda>(line, b3, w3). pending fd w3 = 0 \<and> answering fd w3)"
    unfolding hs_io_read_line_loop.simps [of L socket b ?buffer w] plain_socket_simps(6) [OF assms(3)] rd
    by (auto simp: w1 later split: prod.split intro!: returns_bind)
  then show ?thesis
    using l l' by (auto simp: hs_io_read_line_def plain_socket_simps [OF assms(3)] intro!: returns_bind)
qed

lemma parse_request_drains:
  assumes "libs_ok L" and "plain_socket socket fd"
    and "fds w fd = Some st" and "incoming st = [Arrive seg]" and "length seg \<le> HS_IO_READ_BUFFER_SIZE"
  shows "returns (hs_parser_parse_request L socket w) (\<lambda>(req, w1). stream_bytes fd w1 = [])"
proof -
  obtain s where s: "socket = Some s" using plain_socket_simps(3) [OF assms(2)] by auto
  note ok = libs_ok_parts(2) [OF assms(1)] libs_ok_parts(1) [OF assms(1)] assms(2) [unfolded s]
  have new: "stringbuffer_to_string L (stringbuffer_new L) = []" by (simp add: stringbuffer_laws [OF ok(1)])
  have tail: "returns (parse_headers_loop L (Some s) req0 (Some b) w1) (\<lambda>(req, b1, w2). stream_bytes fd w2 = [])"
    if "pending fd w1 = 0" "answering fd w1" for req0 b w1
    using parse_headers_loop_returns [OF ok that(2), of req0 b] that by (elim returns_mono) (auto intro: drained)
  show ?thesis
    unfolding hs_parser_parse_request_def s option.case
    by (rule returns_bind [OF read_line_drains [OF ok assms(3-5) new]])
      (auto simp: drained split: option.splits intro!: returns_bind [OF request_line_returns] returns_bind [OF tail])
qed

end
