(* ===== verification/Server_Threads.thy ===== *)
theory Server_Threads
  imports Server
begin

text \<open>
  The multi-threaded server of \<open>src/hs_server.c\<close> as interleaved steps. The listen loop and the
  workers share the field \<open>stop_requested\<close>, which each of them tests, asks
  \<open>should_stop_server\<close> about, and then stores, in three separate steps and without a lock. The
  answers of the function are given in the order of its calls.
\<close>

section \<open>States\<close>

datatype worker_pc =
    Serving            \<comment> \<open>in \<open>hs_router_serve_forever\<close>\<close>
  | Closed             \<comment> \<open>the socket is closed and released\<close>
  | Asking             \<comment> \<open>the test of \<open>stop_requested\<close> was false\<close>
  | Storing bool       \<comment> \<open>with the answer of the function\<close>
  | Finished

datatype loop_pc =
    Accepting
  | LoopAsking
  | LoopStoring bool
  | LoopTest           \<comment> \<open>at the condition of the loop\<close>
  | Stopped

record mt_state =
  stop_flag :: bool
  given :: "bool list"
  workers :: "worker_pc list"
  loop_at :: loop_pc

definition mt_start :: mt_state where
  "mt_start = \<lparr>stop_flag = False, given = [], workers = [], loop_at = Accepting\<rparr>"

section \<open>Steps\<close>

definition worker_to :: "nat \<Rightarrow> worker_pc \<Rightarrow> mt_state \<Rightarrow> mt_state" where
  "worker_to i pc s = s\<lparr>workers := (workers s)[i := pc]\<rparr>"

definition worker_at :: "nat \<Rightarrow> worker_pc \<Rightarrow> mt_state \<Rightarrow> bool" where
  "worker_at i pc s \<longleftrightarrow> i < length (workers s) \<and> workers s ! i = pc"

inductive loop_step :: "mt_state \<Rightarrow> mt_state \<Rightarrow> bool" where
  accepted: "loop_at s = Accepting \<Longrightarrow> loop_step s (s\<lparr>workers := workers s @ [Serving], loop_at := LoopTest\<rparr>)"
| not_accepted: "loop_at s = Accepting \<Longrightarrow> loop_step s (s\<lparr>loop_at := if stop_flag s then LoopTest else LoopAsking\<rparr>)"
| loop_asks: "loop_at s = LoopAsking \<Longrightarrow> loop_step s (s\<lparr>given := given s @ [b], loop_at := LoopStoring b\<rparr>)"
| loop_stores: "loop_at s = LoopStoring b \<Longrightarrow> loop_step s (s\<lparr>stop_flag := b, loop_at := LoopTest\<rparr>)"
| loop_tests: "loop_at s = LoopTest \<Longrightarrow> loop_step s (s\<lparr>loop_at := if stop_flag s then Stopped else Accepting\<rparr>)"

inductive worker_step :: "nat \<Rightarrow> mt_state \<Rightarrow> mt_state \<Rightarrow> bool" where
  served: "worker_at i Serving s \<Longrightarrow> worker_step i s (worker_to i Closed s)"
| tests: "worker_at i Closed s \<Longrightarrow> worker_step i s (worker_to i (if stop_flag s then Finished else Asking) s)"
| asks: "worker_at i Asking s \<Longrightarrow> worker_step i s (worker_to i (Storing b) (s\<lparr>given := given s @ [b]\<rparr>))"
| stores: "worker_at i (Storing b) s \<Longrightarrow> worker_step i s (worker_to i Finished (s\<lparr>stop_flag := b\<rparr>))"

inductive mt_reachable :: "mt_state \<Rightarrow> bool" where
  start: "mt_reachable mt_start"
| by_loop: "mt_reachable s \<Longrightarrow> loop_step s t \<Longrightarrow> mt_reachable t"
| by_worker: "mt_reachable s \<Longrightarrow> worker_step i s t \<Longrightarrow> mt_reachable t"

inductive_cases loop_stepE: "loop_step s t"
inductive_cases worker_stepE: "worker_step i s t"

lemmas step_intros = loop_step.intros worker_step.intros

section \<open>What the flag says\<close>

definition asked_wf :: "mt_state \<Rightarrow> bool" where
  \<comment> \<open>a stop that is stored, or about to be, was asked for\<close>
  "asked_wf s \<longleftrightarrow> (stop_flag s \<or> loop_at s = LoopStoring True \<or> loop_at s = Stopped \<or> Storing True \<in> set (workers s)
     \<longrightarrow> True \<in> set (given s))"

lemma worker_at_in: "worker_at i pc s \<Longrightarrow> pc \<in> set (workers s)"
  by (auto simp: worker_at_def)

lemma in_worker_to: "pc \<in> set (workers (worker_to i q s)) \<Longrightarrow> pc = q \<or> pc \<in> set (workers s)"
  using set_update_subset_insert by (fastforce simp: worker_to_def)

lemma worker_to_simps [simp]:
  "stop_flag (worker_to i q s) = stop_flag s" "given (worker_to i q s) = given s" "loop_at (worker_to i q s) = loop_at s"
  by (simp_all add: worker_to_def)

lemma loop_step_asked: "loop_step s t \<Longrightarrow> asked_wf s \<Longrightarrow> asked_wf t"
  by (erule loop_stepE) (auto simp: asked_wf_def split: if_splits)

lemma worker_step_asked: "worker_step i s t \<Longrightarrow> asked_wf s \<Longrightarrow> asked_wf t"
  by (erule worker_stepE) (auto simp: asked_wf_def dest!: in_worker_to dest: worker_at_in split: if_splits)

lemma reachable_asked: "mt_reachable s \<Longrightarrow> asked_wf s"
proof (induction rule: mt_reachable.induct)
  case start
  then show ?case by (simp add: asked_wf_def mt_start_def)
qed (auto intro: loop_step_asked worker_step_asked)

text \<open>The three steps of one worker without another in between are the sequential code.\<close>

lemma worker_alone:
  assumes "worker_at i Closed s" and "internal sv = Some sv_int" and "stop_requested sv_int = stop_flag s"
    and "f sv w = (b, w1)"
  shows "\<exists>t st1. (worker_step i)\<^sup>*\<^sup>* s t \<and> worker_at i Finished t
    \<and> check_stop_server (Some f) (sv, w) = ret st1 \<and> (\<exists>k. internal (fst st1) = Some k \<and> stop_requested k = stop_flag t)"
proof (cases "stop_flag s")
  case True
  then have "worker_step i s (worker_to i Finished s)" using tests [OF assms(1)] by simp
  then have "(worker_step i)\<^sup>*\<^sup>* s (worker_to i Finished s)" by blast
  with True assms show ?thesis
    by (intro exI [of _ "worker_to i Finished s"]) (auto simp: check_stop_server_def worker_at_def worker_to_def)
next
  case False
  let ?s1 = "worker_to i Asking s"
  let ?s2 = "worker_to i (Storing b) (?s1\<lparr>given := given ?s1 @ [b]\<rparr>)"
  let ?s3 = "worker_to i Finished (?s2\<lparr>stop_flag := b\<rparr>)"
  have 1: "worker_step i s ?s1" using tests [OF assms(1)] False by simp
  have 2: "worker_step i ?s1 ?s2" using assms(1) by (intro asks) (simp add: worker_at_def worker_to_def)
  have 3: "worker_step i ?s2 ?s3" using assms(1) by (intro stores) (simp add: worker_at_def worker_to_def)
  have "(worker_step i)\<^sup>*\<^sup>* s ?s3"
    by (rule converse_rtranclp_into_rtranclp [OF 1 converse_rtranclp_into_rtranclp [OF 2 r_into_rtranclp [where r = "worker_step i", OF 3]]])
  with False assms show ?thesis
    by (intro exI [of _ ?s3] exI [of _ "(sv\<lparr>internal := Some (sv_int\<lparr>stop_requested := b\<rparr>)\<rparr>, w1)"])
      (simp add: check_stop_server_def worker_at_def worker_to_def)
qed

section \<open>Properties\<close>

text \<open>
  The listen loop of the multi-threaded server ends only when the server was asked to stop: in
  every reachable state in which it has ended, a call of \<open>should_stop_server\<close> has answered true.
\<close>

theorem loop_stops_only_if_asked:
  assumes "mt_reachable s" and "loop_at s = Stopped"
  shows "True \<in> set (given s)"
  using reachable_asked [OF assms(1)] assms(2) by (simp add: asked_wf_def)

theorem loop_stops_only_if_asked_witness:
  "\<exists>s. mt_reachable s \<and> loop_at s = Stopped \<and> True \<in> set (given s)"
proof -
  let ?s1 = "mt_start\<lparr>loop_at := LoopAsking\<rparr>" and ?s2 = "mt_start\<lparr>given := [True], loop_at := LoopStoring True\<rparr>"
  let ?s3 = "mt_start\<lparr>given := [True], stop_flag := True, loop_at := LoopTest\<rparr>"
  let ?s4 = "mt_start\<lparr>given := [True], stop_flag := True, loop_at := Stopped\<rparr>"
  have "loop_step mt_start ?s1" using not_accepted [of mt_start] by (simp add: mt_start_def)
  with start have r1: "mt_reachable ?s1" by (rule by_loop)
  have "loop_step ?s1 ?s2" using loop_asks [of ?s1 True] by (simp add: mt_start_def)
  with r1 have r2: "mt_reachable ?s2" by (rule by_loop)
  have "loop_step ?s2 ?s3" using loop_stores [of ?s2 True] by (simp add: mt_start_def)
  with r2 have r3: "mt_reachable ?s3" by (rule by_loop)
  have "loop_step ?s3 ?s4" using loop_tests [of ?s3] by (simp add: mt_start_def)
  with r3 have "mt_reachable ?s4" by (rule by_loop)
  with loop_stops_only_if_asked [of ?s4] show ?thesis by (intro exI [of _ ?s4]) simp
qed

text \<open>
  C40. A request to stop can be lost: two workers find the flag clear and both ask; the first is
  told to stop, the second is not, and the second stores its answer last. All connections are
  then finished, the server was told to stop, and the listen loop waits for the next connection.
\<close>

theorem stop_request_can_be_lost:
  "\<exists>s. mt_reachable s \<and> given s = [True, False] \<and> \<not> stop_flag s \<and> loop_at s = Accepting \<and> workers s = [Finished, Finished]"
proof -
  let ?s = "\<lambda>f g ws l. \<lparr>stop_flag = f, given = g, workers = ws, loop_at = l\<rparr>"
  note loop = by_loop and work = by_worker
  have "mt_reachable (?s False [] [] Accepting)" using start by (simp add: mt_start_def)
  from loop [OF this accepted] have "mt_reachable (?s False [] [Serving] LoopTest)" by simp
  from loop [OF this loop_tests] have "mt_reachable (?s False [] [Serving] Accepting)" by simp
  from loop [OF this accepted] have "mt_reachable (?s False [] [Serving, Serving] LoopTest)" by simp
  from loop [OF this loop_tests] have "mt_reachable (?s False [] [Serving, Serving] Accepting)" by simp
  from work [OF this served [of 0]] have "mt_reachable (?s False [] [Closed, Serving] Accepting)"
    by (simp add: worker_at_def worker_to_def)
  from work [OF this served [of 1]] have "mt_reachable (?s False [] [Closed, Closed] Accepting)"
    by (simp add: worker_at_def worker_to_def)
  from work [OF this tests [of 0]] have "mt_reachable (?s False [] [Asking, Closed] Accepting)"
    by (simp add: worker_at_def worker_to_def)
  from work [OF this tests [of 1]] have "mt_reachable (?s False [] [Asking, Asking] Accepting)"
    by (simp add: worker_at_def worker_to_def)
  from work [OF this asks [of 0 _ True]] have "mt_reachable (?s False [True] [Storing True, Asking] Accepting)"
    by (simp add: worker_at_def worker_to_def)
  from work [OF this asks [of 1 _ False]] have "mt_reachable (?s False [True, False] [Storing True, Storing False] Accepting)"
    by (simp add: worker_at_def worker_to_def)
  from work [OF this stores [of 0 True]] have "mt_reachable (?s True [True, False] [Finished, Storing False] Accepting)"
    by (simp add: worker_at_def worker_to_def)
  from work [OF this stores [of 1 False]] have "mt_reachable (?s False [True, False] [Finished, Finished] Accepting)"
    by (simp add: worker_at_def worker_to_def)
  then show ?thesis by (intro exI [of _ "?s False [True, False] [Finished, Finished] Accepting"]) simp
qed

end
