(* ===== verification/C_Heap.thy ===== *)
theory C_Heap
  imports Types
begin

text \<open>
  The C heap below the structs of the library, for the question which function frees what. A
  pointer is an optional address, an allocated block holds one struct, string or library object,
  and addresses are never used twice, so that a block that has been freed stays recognisable:
  reading, writing or freeing it is a fault. \<open>malloc\<close> does not fail (the code never checks it).

  An \<^emph>\<open>owner\<close> is a predicate that lists the blocks a pointer is responsible for, with the release
  function that frees exactly those. The release functions of the library follow one pattern:
  return on NULL, release the fields in order, free the struct (\<open>release_struct\<close>); that owners of
  the fields give an owner of the struct is proved once here (\<open>struct_owner\<close>).
\<close>

section \<open>Structs whose fields are pointers\<close>

type_synonym addr = nat

type_synonym ptr = "addr option"

record HSArrayPair_mem =
  m_key :: ptr
  m_value :: ptr

record HSCookie_mem =
  m_name :: ptr
  m_cookie_value :: ptr
  m_expires :: ptr
  m_max_age :: int
  m_secure :: bool
  m_http_only :: bool
  m_domain :: ptr
  m_path :: ptr
  m_same_site :: HSCookieSameSite

record HSIOHttpRequestPayload_mem =
  m_socket :: "HSSocket option"
  m_partial :: ptr

record HSHttpRequestPayload_mem =
  m_loaded :: bool
  m_payload :: ptr

record HSHttpRequest_mem =
  m_req_method :: HSHttpMethod
  m_req_domain :: ptr
  m_req_port :: int
  m_req_ssl :: bool
  m_req_resource :: ptr
  m_req_query_string :: ptr
  m_req_user_agent :: ptr
  m_req_authorization :: ptr
  m_req_content_length :: size_t
  m_req_connection :: HSConnectionType
  m_req_cookies :: ptr
  m_req_headers :: ptr
  m_req_payload :: ptr

record HSHttpResponse_mem =
  m_resp_code :: HSHttpResponseCode
  m_resp_cookies :: ptr
  m_resp_headers :: ptr
  m_resp_mime_type :: HSMimeType
  m_resp_content_string :: ptr
  m_resp_content_file :: ptr

record 'fn HSPostResponseCallback_mem =
  m_context :: ptr
  m_run :: "'fn option"
  m_release :: "'fn option"

record HSPostResponseCallbacks_mem =
  m_callbacks :: ptr
  m_count :: nat
  m_capacity :: nat

record HSRouterFlowState_mem =
  m_done :: bool
  m_closed_connection :: bool
  m_base_path :: ptr

record HSRouteFlowState_mem =
  m_string_pairs :: ptr
  m_data :: ptr

record HSServeFlowParams_mem =
  m_request :: ptr
  m_response :: ptr
  m_flow_callbacks :: ptr
  m_route_state :: ptr
  m_router_state :: ptr
  m_connection_state :: ptr

record HSSession_mem =
  m_session_id :: ptr
  m_session_data :: ptr

record HSSessionCallbackContext_mem =
  m_callback_session_id :: ptr
  m_callback_route_context :: ptr
  m_callback_route_state :: ptr

text \<open>
  Routes and routers. A route has a pointer to the function that releases its extension, a struct of
  its own kind; that pointer is the name of one of the functions of the library here. The function
  the route serves with does not matter for memory and is left out, like the other function
  pointers of the extensions.
\<close>

datatype route_release =
    Common_extension_release
  | Payload_limit_release
  | Favicon_release
  | Static_release
  | Redirection_release
  | Security_headers_release
  | Basic_auth_release
  | File_release
  | Directory_release
  | Session_release
  | Router_release

record HSRoute_mem =
  m_route_path :: ptr
  m_is_parent_path :: bool
  m_is_get :: bool
  m_is_post :: bool
  m_is_put :: bool
  m_is_delete :: bool
  m_is_head :: bool
  m_is_connect :: bool
  m_is_options :: bool
  m_is_trace :: bool
  m_is_patch :: bool
  m_route_release :: "route_release option"
  m_extension :: ptr

record HSRouter_mem =
  m_routes :: ptr
  m_support_keep_alive :: bool

record HsRoutesStaticContext_mem =
  m_static_content :: ptr
  m_static_mime_type :: HSMimeType

record HsRoutesRedirectionContext_mem =
  m_to_path :: ptr
  m_temporary_redirect :: bool

record HSRouteFaviconContext_mem =
  m_favicon_path :: ptr
  m_cache_control_header :: ptr

record HSRoutesSecurityResponseHeaders_mem =
  m_x_frame_options :: HSXFrameOptionsReponseHeader
  m_x_content_type_options :: HSXContentTypeOptionsResponseHeader
  m_referrer_policy :: HSReferrerPolicyResponseHeader
  m_content_security_policy :: ptr
  m_permissions_policy :: ptr

record HSRoutesBasicAuthContext_mem =
  m_realm :: ptr
  m_auth_context :: ptr

record HSRoutesFileServeContext_mem =
  m_file_base_directory :: ptr
  m_file_close_connection :: bool

record HSRoutesDirectoryServeContext_mem =
  m_dir_base_directory :: ptr
  m_additional_head_content :: ptr
  m_dir_context :: ptr

record 'fn HSSessionRouteContext_mem =
  m_cookie_name :: ptr
  m_session_name :: ptr
  m_release_context :: "'fn option"
  m_user_context :: ptr

datatype 'fn extension =
    NumberE size_t
  | StaticE HsRoutesStaticContext_mem
  | RedirectionE HsRoutesRedirectionContext_mem
  | FaviconE HSRouteFaviconContext_mem
  | HeadersE HSRoutesSecurityResponseHeaders_mem
  | BasicAuthE HSRoutesBasicAuthContext_mem
  | FileServeE HSRoutesFileServeContext_mem
  | DirectoryServeE HSRoutesDirectoryServeContext_mem
  | SessionRouteE "'fn HSSessionRouteContext_mem"

text \<open>
  A server and its parts, again without the function pointers that do not matter for memory. A
  connection handler that a program provides has functions of its own to stop and to release; what
  other libraries allocate for a server, the threads and the TLS context, is opaque.
\<close>

datatype 'fn handler_function = Multi_thread_release | Handler_function 'fn

record 'fn HSServerConnectionHandler_mem =
  m_stop_connections :: "'fn option"
  m_handler_release :: "'fn handler_function option"
  m_handler_extension :: ptr

record HSServerSSLInfo_mem =
  m_private_key_pem_file :: ptr
  m_certificate_pem_file :: ptr

record HSServerInternal_mem =
  m_running :: bool
  m_stop_requested :: bool
  m_ssl_context :: ptr

record HSServer_mem =
  m_router :: ptr
  m_accept_recv_timeout_seconds :: int
  m_request_recv_timeout_seconds :: int
  m_connection_handler :: ptr
  m_ssl_info :: ptr
  m_internal :: ptr

datatype 'fn server_part =
    ServerP HSServer_mem
  | HandlerP "'fn HSServerConnectionHandler_mem"
  | SSLInfoP HSServerSSLInfo_mem
  | InternalP HSServerInternal_mem
  | ForeignP nat

section \<open>Blocks and heaps\<close>

datatype ('v, 'sb, 'dt, 'fn) block =
    StringB string
  | VectorB 'v
  | BufferB 'sb
  | TableB 'dt
  | PairB HSArrayPair_mem
  | PairsB ptr
  | CookieB HSCookie_mem
  | CookiesB ptr
  | IOPayloadB HSIOHttpRequestPayload_mem
  | PayloadB HSHttpRequestPayload_mem
  | RequestB HSHttpRequest_mem
  | ResponseB HSHttpResponse_mem
  | CallbackB "'fn HSPostResponseCallback_mem"
  | SlotsB "ptr option list"
  | CallbacksB HSPostResponseCallbacks_mem
  | RouterStateB HSRouterFlowState_mem
  | RouteStateB HSRouteFlowState_mem
  | ConnectionB HSServerConnectionState
  | FlowB HSServeFlowParams_mem
  | SessionB HSSession_mem
  | SessionContextB HSSessionCallbackContext_mem
  | RouteB HSRoute_mem
  | RouterB HSRouter_mem
  | ExtensionB "'fn extension"
  | ServerB "'fn server_part"

record ('v, 'sb, 'dt, 'fn) heap =
  cells :: "addr \<Rightarrow> ('v, 'sb, 'dt, 'fn) block option"
  next_addr :: addr

definition heap_ok :: "('v, 'sb, 'dt, 'fn) heap \<Rightarrow> bool" where
  "heap_ok h \<longleftrightarrow> (\<forall>a. next_addr h \<le> a \<longrightarrow> cells h a = None)"

definition malloc ::
  "('v, 'sb, 'dt, 'fn) block \<Rightarrow> ('v, 'sb, 'dt, 'fn) heap \<Rightarrow> ptr \<times> ('v, 'sb, 'dt, 'fn) heap" where
  \<comment> \<open>allocation together with the assignments that initialise the block\<close>
  "malloc b h = (Some (next_addr h), h\<lparr>cells := (cells h)(next_addr h \<mapsto> b), next_addr := next_addr h + 1\<rparr>)"

definition load ::
  "(('v, 'sb, 'dt, 'fn) block \<Rightarrow> 's option) \<Rightarrow> ptr \<Rightarrow> ('v, 'sb, 'dt, 'fn) heap \<Rightarrow> 's run" where
  "load as p h =
     (case p of
        None \<Rightarrow> ub NullDeref
      | Some a \<Rightarrow> (case Option.bind (cells h a) as of None \<Rightarrow> ub UseAfterFree | Some s \<Rightarrow> ret s))"

definition store ::
  "ptr \<Rightarrow> ('v, 'sb, 'dt, 'fn) block \<Rightarrow> ('v, 'sb, 'dt, 'fn) heap \<Rightarrow> ('v, 'sb, 'dt, 'fn) heap run" where
  "store p b h =
     (case p of
        None \<Rightarrow> ub NullDeref
      | Some a \<Rightarrow> if cells h a = None then ub UseAfterFree else ret (h\<lparr>cells := (cells h)(a \<mapsto> b)\<rparr>))"

definition gone :: "addr list \<Rightarrow> ('v, 'sb, 'dt, 'fn) heap \<Rightarrow> ('v, 'sb, 'dt, 'fn) heap" where
  \<comment> \<open>the heap without these blocks\<close>
  "gone F h = h\<lparr>cells := (\<lambda>a. if a \<in> set F then None else cells h a)\<rparr>"

definition hs_io_free ::
  "ptr \<Rightarrow> ('v, 'sb, 'dt, 'fn) heap \<Rightarrow> ('v, 'sb, 'dt, 'fn) heap run" where
  \<comment> \<open>freeing a block a second time is a fault\<close>
  "hs_io_free p h =
     (case p of
        None \<Rightarrow> ret h
      | Some a \<Rightarrow> if cells h a = None then ub UseAfterFree else ret (gone [a] h))"

lemma gone_simps [simp]:
  "gone [] h = h"
  "gone G (gone F h) = gone (F @ G) h"
  "next_addr (gone F h) = next_addr h"
  "cells (gone F h) a = (if a \<in> set F then None else cells h a)"
  by (simp_all add: gone_def if_if_eq_conj fun_eq_iff)

lemma malloc_simps [simp]:
  "fst (malloc b h) = Some (next_addr h)"
  "next_addr (snd (malloc b h)) = next_addr h + 1"
  "cells (snd (malloc b h)) = (cells h)(next_addr h \<mapsto> b)"
  by (simp_all add: malloc_def)

lemma heap_ok_malloc [simp, intro]: "heap_ok h \<Longrightarrow> heap_ok (snd (malloc b h))"
  by (auto simp: heap_ok_def)

lemma heap_ok_gone [simp, intro]: "heap_ok h \<Longrightarrow> heap_ok (gone F h)"
  by (auto simp: heap_ok_def)

lemma heap_ok_fresh [simp]: "heap_ok h \<Longrightarrow> cells h (next_addr h) = None"
  by (simp add: heap_ok_def)

lemma gone_cong: "set F = set G \<Longrightarrow> gone F h = gone G h"
  by (simp add: gone_def)

lemma load_simps [simp]:
  "load as None h = ub NullDeref"
  "Option.bind (cells h a) as = Some s \<Longrightarrow> load as (Some a) h = ret s"
  "Option.bind (cells h a) as = None \<Longrightarrow> load as (Some a) h = ub UseAfterFree"
  by (simp_all add: load_def)

lemma hs_io_free_simps [simp]:
  "hs_io_free None h = ret h"
  "cells h a \<noteq> None \<Longrightarrow> hs_io_free (Some a) h = ret (gone [a] h)"
  "cells h a = None \<Longrightarrow> hs_io_free (Some a) h = ub UseAfterFree"
  by (auto simp: hs_io_free_def)

lemma store_simps [simp]:
  "cells h a \<noteq> None \<Longrightarrow> store (Some a) b h = ret (h\<lparr>cells := (cells h)(a \<mapsto> b)\<rparr>)"
  by (auto simp: store_def)

section \<open>Reading a block as a struct\<close>

definition as_string :: "('v, 'sb, 'dt, 'fn) block \<Rightarrow> string option" where
  "as_string b = (case b of StringB x \<Rightarrow> Some x | _ \<Rightarrow> None)"

definition as_vector :: "('v, 'sb, 'dt, 'fn) block \<Rightarrow> ('v) option" where
  "as_vector b = (case b of VectorB x \<Rightarrow> Some x | _ \<Rightarrow> None)"

definition as_buffer :: "('v, 'sb, 'dt, 'fn) block \<Rightarrow> ('sb) option" where
  "as_buffer b = (case b of BufferB x \<Rightarrow> Some x | _ \<Rightarrow> None)"

definition as_table :: "('v, 'sb, 'dt, 'fn) block \<Rightarrow> ('dt) option" where
  "as_table b = (case b of TableB x \<Rightarrow> Some x | _ \<Rightarrow> None)"

definition as_pair :: "('v, 'sb, 'dt, 'fn) block \<Rightarrow> HSArrayPair_mem option" where
  "as_pair b = (case b of PairB x \<Rightarrow> Some x | _ \<Rightarrow> None)"

definition as_pairs :: "('v, 'sb, 'dt, 'fn) block \<Rightarrow> ptr option" where
  "as_pairs b = (case b of PairsB x \<Rightarrow> Some x | _ \<Rightarrow> None)"

definition as_cookie :: "('v, 'sb, 'dt, 'fn) block \<Rightarrow> HSCookie_mem option" where
  "as_cookie b = (case b of CookieB x \<Rightarrow> Some x | _ \<Rightarrow> None)"

definition as_cookies :: "('v, 'sb, 'dt, 'fn) block \<Rightarrow> ptr option" where
  "as_cookies b = (case b of CookiesB x \<Rightarrow> Some x | _ \<Rightarrow> None)"

definition as_io_payload :: "('v, 'sb, 'dt, 'fn) block \<Rightarrow> HSIOHttpRequestPayload_mem option" where
  "as_io_payload b = (case b of IOPayloadB x \<Rightarrow> Some x | _ \<Rightarrow> None)"

definition as_payload :: "('v, 'sb, 'dt, 'fn) block \<Rightarrow> HSHttpRequestPayload_mem option" where
  "as_payload b = (case b of PayloadB x \<Rightarrow> Some x | _ \<Rightarrow> None)"

definition as_request :: "('v, 'sb, 'dt, 'fn) block \<Rightarrow> HSHttpRequest_mem option" where
  "as_request b = (case b of RequestB x \<Rightarrow> Some x | _ \<Rightarrow> None)"

definition as_response :: "('v, 'sb, 'dt, 'fn) block \<Rightarrow> HSHttpResponse_mem option" where
  "as_response b = (case b of ResponseB x \<Rightarrow> Some x | _ \<Rightarrow> None)"

definition as_callback :: "('v, 'sb, 'dt, 'fn) block \<Rightarrow> ('fn HSPostResponseCallback_mem) option" where
  "as_callback b = (case b of CallbackB x \<Rightarrow> Some x | _ \<Rightarrow> None)"

definition as_slots :: "('v, 'sb, 'dt, 'fn) block \<Rightarrow> (ptr option list) option" where
  "as_slots b = (case b of SlotsB x \<Rightarrow> Some x | _ \<Rightarrow> None)"

definition as_callbacks :: "('v, 'sb, 'dt, 'fn) block \<Rightarrow> HSPostResponseCallbacks_mem option" where
  "as_callbacks b = (case b of CallbacksB x \<Rightarrow> Some x | _ \<Rightarrow> None)"

definition as_router_state :: "('v, 'sb, 'dt, 'fn) block \<Rightarrow> HSRouterFlowState_mem option" where
  "as_router_state b = (case b of RouterStateB x \<Rightarrow> Some x | _ \<Rightarrow> None)"

definition as_route_state :: "('v, 'sb, 'dt, 'fn) block \<Rightarrow> HSRouteFlowState_mem option" where
  "as_route_state b = (case b of RouteStateB x \<Rightarrow> Some x | _ \<Rightarrow> None)"

definition as_connection :: "('v, 'sb, 'dt, 'fn) block \<Rightarrow> HSServerConnectionState option" where
  "as_connection b = (case b of ConnectionB x \<Rightarrow> Some x | _ \<Rightarrow> None)"

definition as_flow :: "('v, 'sb, 'dt, 'fn) block \<Rightarrow> HSServeFlowParams_mem option" where
  "as_flow b = (case b of FlowB x \<Rightarrow> Some x | _ \<Rightarrow> None)"

definition as_session :: "('v, 'sb, 'dt, 'fn) block \<Rightarrow> HSSession_mem option" where
  "as_session b = (case b of SessionB x \<Rightarrow> Some x | _ \<Rightarrow> None)"

definition as_session_context :: "('v, 'sb, 'dt, 'fn) block \<Rightarrow> HSSessionCallbackContext_mem option" where
  "as_session_context b = (case b of SessionContextB x \<Rightarrow> Some x | _ \<Rightarrow> None)"

lemma as_simps [simp]:
  "as_string (StringB y1) = Some y1"
  "as_vector (VectorB y2) = Some y2"
  "as_buffer (BufferB y3) = Some y3"
  "as_table (TableB y4) = Some y4"
  "as_pair (PairB y5) = Some y5"
  "as_pairs (PairsB y6) = Some y6"
  "as_cookie (CookieB y7) = Some y7"
  "as_cookies (CookiesB y8) = Some y8"
  "as_io_payload (IOPayloadB y9) = Some y9"
  "as_payload (PayloadB y10) = Some y10"
  "as_request (RequestB y11) = Some y11"
  "as_response (ResponseB y12) = Some y12"
  "as_callback (CallbackB y13) = Some y13"
  "as_slots (SlotsB y14) = Some y14"
  "as_callbacks (CallbacksB y15) = Some y15"
  "as_router_state (RouterStateB y16) = Some y16"
  "as_route_state (RouteStateB y17) = Some y17"
  "as_connection (ConnectionB y18) = Some y18"
  "as_flow (FlowB y19) = Some y19"
  "as_session (SessionB y20) = Some y20"
  "as_session_context (SessionContextB y21) = Some y21"
  by (simp_all add: as_string_def as_vector_def as_buffer_def as_table_def as_pair_def as_pairs_def as_cookie_def as_cookies_def as_io_payload_def as_payload_def as_request_def as_response_def as_callback_def as_slots_def as_callbacks_def as_router_state_def as_route_state_def as_connection_def as_flow_def as_session_def as_session_context_def)

lemma as_Some [simp]:
  "as_string b = Some y1 \<longleftrightarrow> b = StringB y1"
  "as_vector b = Some y2 \<longleftrightarrow> b = VectorB y2"
  "as_buffer b = Some y3 \<longleftrightarrow> b = BufferB y3"
  "as_table b = Some y4 \<longleftrightarrow> b = TableB y4"
  "as_pair b = Some y5 \<longleftrightarrow> b = PairB y5"
  "as_pairs b = Some y6 \<longleftrightarrow> b = PairsB y6"
  "as_cookie b = Some y7 \<longleftrightarrow> b = CookieB y7"
  "as_cookies b = Some y8 \<longleftrightarrow> b = CookiesB y8"
  "as_io_payload b = Some y9 \<longleftrightarrow> b = IOPayloadB y9"
  "as_payload b = Some y10 \<longleftrightarrow> b = PayloadB y10"
  "as_request b = Some y11 \<longleftrightarrow> b = RequestB y11"
  "as_response b = Some y12 \<longleftrightarrow> b = ResponseB y12"
  "as_callback b = Some y13 \<longleftrightarrow> b = CallbackB y13"
  "as_slots b = Some y14 \<longleftrightarrow> b = SlotsB y14"
  "as_callbacks b = Some y15 \<longleftrightarrow> b = CallbacksB y15"
  "as_router_state b = Some y16 \<longleftrightarrow> b = RouterStateB y16"
  "as_route_state b = Some y17 \<longleftrightarrow> b = RouteStateB y17"
  "as_connection b = Some y18 \<longleftrightarrow> b = ConnectionB y18"
  "as_flow b = Some y19 \<longleftrightarrow> b = FlowB y19"
  "as_session b = Some y20 \<longleftrightarrow> b = SessionB y20"
  "as_session_context b = Some y21 \<longleftrightarrow> b = SessionContextB y21"
  by (simp_all add: as_string_def as_vector_def as_buffer_def as_table_def as_pair_def as_pairs_def as_cookie_def
      as_cookies_def as_io_payload_def as_payload_def as_request_def as_response_def as_callback_def as_slots_def
      as_callbacks_def as_router_state_def as_route_state_def as_connection_def as_flow_def as_session_def as_session_context_def split: block.split)

definition as_route :: "('v, 'sb, 'dt, 'fn) block \<Rightarrow> HSRoute_mem option" where
  "as_route b = (case b of RouteB x \<Rightarrow> Some x | _ \<Rightarrow> None)"

definition as_router :: "('v, 'sb, 'dt, 'fn) block \<Rightarrow> HSRouter_mem option" where
  "as_router b = (case b of RouterB x \<Rightarrow> Some x | _ \<Rightarrow> None)"

definition as_number :: "('v, 'sb, 'dt, 'fn) block \<Rightarrow> size_t option" where
  "as_number b = (case b of ExtensionB (NumberE x) \<Rightarrow> Some x | _ \<Rightarrow> None)"

definition as_static :: "('v, 'sb, 'dt, 'fn) block \<Rightarrow> HsRoutesStaticContext_mem option" where
  "as_static b = (case b of ExtensionB (StaticE x) \<Rightarrow> Some x | _ \<Rightarrow> None)"

definition as_redirection :: "('v, 'sb, 'dt, 'fn) block \<Rightarrow> HsRoutesRedirectionContext_mem option" where
  "as_redirection b = (case b of ExtensionB (RedirectionE x) \<Rightarrow> Some x | _ \<Rightarrow> None)"

definition as_favicon :: "('v, 'sb, 'dt, 'fn) block \<Rightarrow> HSRouteFaviconContext_mem option" where
  "as_favicon b = (case b of ExtensionB (FaviconE x) \<Rightarrow> Some x | _ \<Rightarrow> None)"

definition as_headers :: "('v, 'sb, 'dt, 'fn) block \<Rightarrow> HSRoutesSecurityResponseHeaders_mem option" where
  "as_headers b = (case b of ExtensionB (HeadersE x) \<Rightarrow> Some x | _ \<Rightarrow> None)"

definition as_basic_auth :: "('v, 'sb, 'dt, 'fn) block \<Rightarrow> HSRoutesBasicAuthContext_mem option" where
  "as_basic_auth b = (case b of ExtensionB (BasicAuthE x) \<Rightarrow> Some x | _ \<Rightarrow> None)"

definition as_file_serve :: "('v, 'sb, 'dt, 'fn) block \<Rightarrow> HSRoutesFileServeContext_mem option" where
  "as_file_serve b = (case b of ExtensionB (FileServeE x) \<Rightarrow> Some x | _ \<Rightarrow> None)"

definition as_directory_serve :: "('v, 'sb, 'dt, 'fn) block \<Rightarrow> HSRoutesDirectoryServeContext_mem option" where
  "as_directory_serve b = (case b of ExtensionB (DirectoryServeE x) \<Rightarrow> Some x | _ \<Rightarrow> None)"

definition as_session_route :: "('v, 'sb, 'dt, 'fn) block \<Rightarrow> ('fn HSSessionRouteContext_mem) option" where
  "as_session_route b = (case b of ExtensionB (SessionRouteE x) \<Rightarrow> Some x | _ \<Rightarrow> None)"

lemma as_route_simps [simp]:
  "as_route (RouteB z0) = Some z0"
  "as_router (RouterB z1) = Some z1"
  "as_number (ExtensionB (NumberE z2)) = Some z2"
  "as_static (ExtensionB (StaticE z3)) = Some z3"
  "as_redirection (ExtensionB (RedirectionE z4)) = Some z4"
  "as_favicon (ExtensionB (FaviconE z5)) = Some z5"
  "as_headers (ExtensionB (HeadersE z6)) = Some z6"
  "as_basic_auth (ExtensionB (BasicAuthE z7)) = Some z7"
  "as_file_serve (ExtensionB (FileServeE z8)) = Some z8"
  "as_directory_serve (ExtensionB (DirectoryServeE z9)) = Some z9"
  "as_session_route (ExtensionB (SessionRouteE z10)) = Some z10"
  by (simp_all add: as_route_def as_router_def as_number_def as_static_def as_redirection_def as_favicon_def as_headers_def as_basic_auth_def
      as_file_serve_def as_directory_serve_def as_session_route_def)

lemma as_route_Some [simp]:
  "as_route b = Some z0 \<longleftrightarrow> b = RouteB z0"
  "as_router b = Some z1 \<longleftrightarrow> b = RouterB z1"
  "as_number b = Some z2 \<longleftrightarrow> b = ExtensionB (NumberE z2)"
  "as_static b = Some z3 \<longleftrightarrow> b = ExtensionB (StaticE z3)"
  "as_redirection b = Some z4 \<longleftrightarrow> b = ExtensionB (RedirectionE z4)"
  "as_favicon b = Some z5 \<longleftrightarrow> b = ExtensionB (FaviconE z5)"
  "as_headers b = Some z6 \<longleftrightarrow> b = ExtensionB (HeadersE z6)"
  "as_basic_auth b = Some z7 \<longleftrightarrow> b = ExtensionB (BasicAuthE z7)"
  "as_file_serve b = Some z8 \<longleftrightarrow> b = ExtensionB (FileServeE z8)"
  "as_directory_serve b = Some z9 \<longleftrightarrow> b = ExtensionB (DirectoryServeE z9)"
  "as_session_route b = Some z10 \<longleftrightarrow> b = ExtensionB (SessionRouteE z10)"
  by (simp_all add: as_route_def as_router_def as_number_def as_static_def as_redirection_def as_favicon_def as_headers_def as_basic_auth_def
      as_file_serve_def as_directory_serve_def as_session_route_def
      split: block.split extension.split)

definition as_server :: "('v, 'sb, 'dt, 'fn) block \<Rightarrow> HSServer_mem option" where
  "as_server b = (case b of ServerB (ServerP x) \<Rightarrow> Some x | _ \<Rightarrow> None)"

definition as_handler :: "('v, 'sb, 'dt, 'fn) block \<Rightarrow> ('fn HSServerConnectionHandler_mem) option" where
  "as_handler b = (case b of ServerB (HandlerP x) \<Rightarrow> Some x | _ \<Rightarrow> None)"

definition as_ssl_info :: "('v, 'sb, 'dt, 'fn) block \<Rightarrow> HSServerSSLInfo_mem option" where
  "as_ssl_info b = (case b of ServerB (SSLInfoP x) \<Rightarrow> Some x | _ \<Rightarrow> None)"

definition as_internal :: "('v, 'sb, 'dt, 'fn) block \<Rightarrow> HSServerInternal_mem option" where
  "as_internal b = (case b of ServerB (InternalP x) \<Rightarrow> Some x | _ \<Rightarrow> None)"

definition as_foreign :: "('v, 'sb, 'dt, 'fn) block \<Rightarrow> nat option" where
  "as_foreign b = (case b of ServerB (ForeignP x) \<Rightarrow> Some x | _ \<Rightarrow> None)"

lemma as_server_simps [simp]:
  "as_server (ServerB (ServerP z0)) = Some z0"
  "as_handler (ServerB (HandlerP z1)) = Some z1"
  "as_ssl_info (ServerB (SSLInfoP z2)) = Some z2"
  "as_internal (ServerB (InternalP z3)) = Some z3"
  "as_foreign (ServerB (ForeignP z4)) = Some z4"
  by (simp_all add: as_server_def as_handler_def as_ssl_info_def as_internal_def as_foreign_def)

lemma as_server_Some [simp]:
  "as_server b = Some z0 \<longleftrightarrow> b = ServerB (ServerP z0)"
  "as_handler b = Some z1 \<longleftrightarrow> b = ServerB (HandlerP z1)"
  "as_ssl_info b = Some z2 \<longleftrightarrow> b = ServerB (SSLInfoP z2)"
  "as_internal b = Some z3 \<longleftrightarrow> b = ServerB (InternalP z3)"
  "as_foreign b = Some z4 \<longleftrightarrow> b = ServerB (ForeignP z4)"
  by (simp_all add: as_server_def as_handler_def as_ssl_info_def as_internal_def as_foreign_def split: block.split server_part.split)

section \<open>Lists of blocks\<close>

primrec join :: "'a list option list \<Rightarrow> 'a list option" where
  "join [] = Some []"
| "join (x # xs) = (case x of None \<Rightarrow> None | Some F \<Rightarrow> map_option ((@) F) (join xs))"

lemma join_Cons_Some [simp]:
  "join (x # xs) = Some F \<longleftrightarrow> (\<exists>F1 F2. x = Some F1 \<and> join xs = Some F2 \<and> F = F1 @ F2)"
  by (auto simp: join.simps split: option.splits)

declare join.simps(2) [simp del]

lemma join_append:
  "join (xs @ ys) = Some F \<longleftrightarrow> (\<exists>F1 F2. join xs = Some F1 \<and> join ys = Some F2 \<and> F = F1 @ F2)"
  by (induction xs arbitrary: F) auto

lemma join_map_cong:
  assumes "join (map f xs) = Some F"
    and "\<And>x G. x \<in> set xs \<Longrightarrow> f x = Some G \<Longrightarrow> set G \<subseteq> set F \<Longrightarrow> g x = Some G"
  shows "join (map g xs) = Some F"
  using assms
proof (induction xs arbitrary: F)
  case Nil
  then show ?case by simp
next
  case (Cons x xs)
  from Cons.prems(1) obtain F1 F2 where F: "f x = Some F1" "join (map f xs) = Some F2" "F = F1 @ F2"
    by auto
  have "join (map g xs) = Some F2"
    by (rule Cons.IH [OF F(2)]) (use Cons.prems(2) F(3) in auto)
  moreover have "g x = Some F1" using Cons.prems(2) [of x F1] F by simp
  ultimately show ?case using F by simp
qed

lemma join_member:
  "join (map f xs) = Some F \<Longrightarrow> x \<in> set xs \<Longrightarrow> \<exists>G. f x = Some G \<and> set G \<subseteq> set F"
  by (induction xs arbitrary: F) (auto, force)

lemma join_covers:
  "join (map f xs) = Some F \<Longrightarrow> y \<in> set F \<Longrightarrow> \<exists>x \<in> set xs. \<exists>G. f x = Some G \<and> y \<in> set G"
  by (induction xs arbitrary: F) auto

section \<open>Owners\<close>

locale framed =
  fixes own :: "('v, 'sb, 'dt, 'fn) heap \<Rightarrow> 'p \<Rightarrow> addr list option"
  assumes frame: "own h p = Some F \<Longrightarrow> \<forall>a \<in> set F. cells h' a = cells h a \<Longrightarrow> own h' p = Some F"
    and live: "own h p = Some F \<Longrightarrow> a \<in> set F \<Longrightarrow> cells h a \<noteq> None"
begin

lemma own_elsewhere:
  assumes "own h p = Some F" and "set F \<inter> set G = {}"
  shows "own (gone G h) p = Some F"
  using assms(2) by (intro frame [OF assms(1)]) auto

lemma own_fresh:
  assumes "own h p = Some F" and "heap_ok h" and "next_addr h \<le> a"
  shows "a \<notin> set F"
  using live [OF assms(1), of a] assms(2,3) by (auto simp: heap_ok_def)

lemma own_malloc:
  assumes "own h p = Some F" and "heap_ok h"
  shows "own (snd (malloc b h)) p = Some F"
  using own_fresh [OF assms, of "next_addr h"] by (intro frame [OF assms(1)]) auto

lemma own_store:
  assumes "own h p = Some F" and "a \<notin> set F"
  shows "own (h\<lparr>cells := (cells h)(a := x)\<rparr>) p = Some F"
  using assms(2) by (intro frame [OF assms(1)]) auto

end

locale owner = framed own for own :: "('v, 'sb, 'dt, 'fn) heap \<Rightarrow> 'p \<Rightarrow> addr list option" +
  fixes release :: "'p \<Rightarrow> ('v, 'sb, 'dt, 'fn) heap \<Rightarrow> ('v, 'sb, 'dt, 'fn) heap run"
  assumes release: "own h p = Some F \<Longrightarrow> distinct F \<Longrightarrow> release p h = ret (gone F h)"
begin

lemma release_elsewhere:
  \<comment> \<open>other blocks may have been freed before\<close>
  assumes "own h p = Some F" and "distinct F" and "set F \<inter> set G = {}"
  shows "release p (gone G h) = ret (gone (G @ F) h)"
  using release [OF own_elsewhere [OF assms(1,3)] assms(2)] by simp

end

lemma owner_field:
  \<comment> \<open>a field of a struct\<close>
  assumes "owner own release"
  shows "owner (\<lambda>h s. own h (f s)) (\<lambda>s. release (f s))"
  using assms unfolding owner_def framed_def owner_axioms_def by blast

lemma framed_guard:
  assumes "framed own"
  shows "framed (\<lambda>h s. if P s then own h s else None)"
proof
  fix h h' s F
  assume "(if P s then own h s else None) = Some F"
  then have P: "P s" "own h s = Some F" by (simp_all split: if_splits)
  show "(if P s then own h' s else None) = Some F" if "\<forall>a \<in> set F. cells h' a = cells h a"
    using P framed.frame [OF assms P(2) that] by simp
  show "cells h a \<noteq> None" if "a \<in> set F" for a
    by (rule framed.live [OF assms P(2) that])
qed

lemma owner_guard:
  assumes "owner own release"
  shows "owner (\<lambda>h s. if P s then own h s else None) release"
proof (intro owner.intro owner_axioms.intro framed_guard owner.axioms(1) [OF assms])
  fix h s F
  assume "(if P s then own h s else None) = Some F" "distinct F"
  then show "release s h = ret (gone F h)" using owner.release [OF assms] by (simp split: if_splits)
qed

definition own_struct ::
  "(('v, 'sb, 'dt, 'fn) block \<Rightarrow> 's option) \<Rightarrow> (('v, 'sb, 'dt, 'fn) heap \<Rightarrow> 's \<Rightarrow> addr list option) list
    \<Rightarrow> ('v, 'sb, 'dt, 'fn) heap \<Rightarrow> ptr \<Rightarrow> addr list option" where
  \<comment> \<open>the blocks of the fields, then the block of the struct\<close>
  "own_struct as os h p =
     (case p of
        None \<Rightarrow> Some []
      | Some a \<Rightarrow> (case Option.bind (cells h a) as of
                    None \<Rightarrow> None
                  | Some s \<Rightarrow> map_option (\<lambda>F. F @ [a]) (join (map (\<lambda>own. own h s) os))))"

primrec release_fields ::
  "(('v, 'sb, 'dt, 'fn) block \<Rightarrow> 's option) \<Rightarrow> ('s \<Rightarrow> ('v, 'sb, 'dt, 'fn) heap \<Rightarrow> ('v, 'sb, 'dt, 'fn) heap run) list
    \<Rightarrow> ptr \<Rightarrow> ('v, 'sb, 'dt, 'fn) heap \<Rightarrow> ('v, 'sb, 'dt, 'fn) heap run" where
  \<comment> \<open>a statement per field, each reads the field from the struct\<close>
  "release_fields as [] p h = ret h"
| "release_fields as (f # fs) p h = bindR (load as p h) (\<lambda>s. bindR (f s h) (release_fields as fs p))"

definition release_struct ::
  "(('v, 'sb, 'dt, 'fn) block \<Rightarrow> 's option) \<Rightarrow> ('s \<Rightarrow> ('v, 'sb, 'dt, 'fn) heap \<Rightarrow> ('v, 'sb, 'dt, 'fn) heap run) list
    \<Rightarrow> ptr \<Rightarrow> ('v, 'sb, 'dt, 'fn) heap \<Rightarrow> ('v, 'sb, 'dt, 'fn) heap run" where
  \<comment> \<open>return on NULL; release the fields; free the struct\<close>
  "release_struct as fs p h = (if p = None then ret h else bindR (release_fields as fs p h) (hs_io_free p))"

lemma own_struct_None [simp]: "own_struct as os h None = Some []"
  by (simp add: own_struct_def)

lemma own_structE:
  assumes "own_struct as os h p = Some F" and "p \<noteq> None \<or> F \<noteq> []"
  obtains a s F1 where "p = Some a" "cells h a \<noteq> None" "Option.bind (cells h a) as = Some s"
    "join (map (\<lambda>own. own h s) os) = Some F1" "F = F1 @ [a]"
  using assms by (cases p) (fastforce simp: own_struct_def Option.bind_eq_Some_conv split: option.splits)+

lemma own_structI:
  assumes "Option.bind (cells h a) as = Some s" and "join (map (\<lambda>own. own h s) os) = Some F"
  shows "own_struct as os h (Some a) = Some (F @ [a])"
  using assms by (simp add: own_struct_def)

lemma release_fields_gone:
  assumes "list_all2 owner os fs" and "Option.bind (cells h a) as = Some s"
    and "join (map (\<lambda>own. own h s) os) = Some F" and "distinct (G @ F)" and "a \<notin> set G" and "a \<notin> set F"
  shows "release_fields as fs (Some a) (gone G h) = ret (gone (G @ F) h)"
  using assms
proof (induction os fs arbitrary: F G rule: list_all2_induct)
  case Nil
  then show ?case by simp
next
  case (Cons own os f fs)
  from Cons.prems(2) obtain F1 F2 where F: "own h s = Some F1" "join (map (\<lambda>own. own h s) os) = Some F2" "F = F1 @ F2"
    by auto
  have "f s (gone G h) = ret (gone (G @ F1) h)"
    using Cons.prems(3) F(3) by (intro owner.release_elsewhere [OF Cons.hyps(1) F(1)]) auto
  moreover have "release_fields as fs (Some a) (gone (G @ F1) h) = ret (gone ((G @ F1) @ F2) h)"
    using Cons.prems F(3) by (intro Cons.IH [OF Cons.prems(1) F(2)]) auto
  ultimately show ?case using Cons.prems F(3) by simp
qed

lemma framed_struct:
  assumes "list_all framed os"
  shows "framed (own_struct as os)"
proof
  fix h h' p F
  assume own: "own_struct as os h p = Some F"
  have member: "framed own" if "own \<in> set os" for own
    using assms that by (simp add: list_all_iff)
  show "own_struct as os h' p = Some F" if agree: "\<forall>a \<in> set F. cells h' a = cells h a"
  proof (cases p)
    case (Some _)
    with own obtain a s F1 where a: "p = Some a" "Option.bind (cells h a) as = Some s"
      "join (map (\<lambda>own. own h s) os) = Some F1" "F = F1 @ [a]" by (auto elim: own_structE)
    have "join (map (\<lambda>own. own h' s) os) = Some F1"
    proof (rule join_map_cong [OF a(3)])
      fix own G assume G: "own \<in> set os" "own h s = Some G" "set G \<subseteq> set F1"
      from member [OF G(1)] G(2) show "own h' s = Some G" by (rule framed.frame) (use agree a(4) G(3) in auto)
    qed
    with a agree show ?thesis by (simp add: own_struct_def)
  qed (use own in simp)
  show "cells h x \<noteq> None" if x: "x \<in> set F" for x
  proof -
    from own x obtain b s F1 where b: "p = Some b" "cells h b \<noteq> None" "join (map (\<lambda>own. own h s) os) = Some F1" "F = F1 @ [b]"
      by (cases F) (auto elim: own_structE)
    show ?thesis
    proof (cases "x = b")
      case False
      with b(4) x join_covers [OF b(3), of x] obtain own G where own: "own \<in> set os" "own h s = Some G" "x \<in> set G"
        by auto
      from member [OF own(1)] own(2,3) show ?thesis by (rule framed.live)
    qed (use b in simp)
  qed
qed

lemma framed_field:
  assumes "framed own"
  shows "framed (\<lambda>h s. own h (f s))"
  using assms unfolding framed_def by blast

lemma framed_join:
  assumes "framed own"
  shows "framed (\<lambda>h ps. join (map (own h) ps))"
proof
  fix h h' ps F
  assume own: "join (map (own h) ps) = Some F"
  show "join (map (own h') ps) = Some F" if "\<forall>a \<in> set F. cells h' a = cells h a"
    by (rule join_map_cong [OF own], rule framed.frame [OF assms]) (use that in auto)
  show "cells h x \<noteq> None" if "x \<in> set F" for x
    using that join_covers [OF own, of x] framed.live [OF assms] by auto
qed

theorem struct_owner:
  assumes "list_all2 owner os fs"
  shows "owner (own_struct as os) (release_struct as fs)"
proof (intro owner.intro owner_axioms.intro framed_struct)
  have "\<exists>f. owner own f" if "own \<in> set os" for own
    using assms that by (metis case_prodD in_set_impl_in_set_zip1 list_all2_iff)
  then show "list_all framed os" by (auto simp: list_all_iff dest: owner.axioms(1))
  fix h p F
  assume own: "own_struct as os h p = Some F" "distinct F"
  show "release_struct as fs p h = ret (gone F h)"
  proof (cases p)
    case (Some _)
    with own(1) obtain a s F1 where a: "p = Some a" "cells h a \<noteq> None" "Option.bind (cells h a) as = Some s"
      "join (map (\<lambda>own. own h s) os) = Some F1" "F = F1 @ [a]" by (auto elim: own_structE)
    have "release_fields as fs (Some a) (gone [] h) = ret (gone ([] @ F1) h)"
      using own(2) a(5) by (intro release_fields_gone [OF assms a(3,4)]) auto
    with a own(2) show ?thesis by (simp add: release_struct_def)
  qed (use own in \<open>simp add: release_struct_def\<close>)
qed

section \<open>Loops that release\<close>

function release_each ::
  "(nat \<Rightarrow> ('v, 'sb, 'dt, 'fn) heap \<Rightarrow> 'p run) \<Rightarrow> ('p \<Rightarrow> ('v, 'sb, 'dt, 'fn) heap \<Rightarrow> ('v, 'sb, 'dt, 'fn) heap run)
    \<Rightarrow> nat \<Rightarrow> nat \<Rightarrow> ('v, 'sb, 'dt, 'fn) heap \<Rightarrow> ('v, 'sb, 'dt, 'fn) heap run" where
  \<comment> \<open>read the pointer at the index, release it, go on to the count\<close>
  "release_each get release index count h =
     (if index < count
      then bindR (get index h) (\<lambda>p. bindR (release p h) (\<lambda>h1. release_each get release (Suc index) count h1))
      else ret h)"
  by pat_completeness auto
termination
  by (relation "measure (\<lambda>(get, release, index, count, h). count - index)") auto

declare release_each.simps [simp del]

lemma release_each_gone:
  assumes "owner own release" and "\<And>i G. i < length ps \<Longrightarrow> a \<notin> set G \<Longrightarrow> get i (gone G h) = ret (ps ! i)"
    and "join (map (own h) (drop i ps)) = Some F" and "distinct (G @ F)" and "a \<notin> set (G @ F)"
  shows "release_each get release i (length ps) (gone G h) = ret (gone (G @ F) h)"
  using assms(3-5)
proof (induction "length ps - i" arbitrary: i F G)
  case 0
  then have "drop i ps = []" "\<not> i < length ps" by simp_all
  with 0(2) show ?case by (simp add: release_each.simps [of get release i])
next
  case (Suc n)
  then have i: "i < length ps" "drop i ps = ps ! i # drop (Suc i) ps"
    by (simp_all add: Cons_nth_drop_Suc)
  from Suc.prems(1) obtain F1 F2 where F: "own h (ps ! i) = Some F1" "join (map (own h) (drop (Suc i) ps)) = Some F2" "F = F1 @ F2"
    unfolding i(2) by auto
  have "release (ps ! i) (gone G h) = ret (gone (G @ F1) h)"
    using Suc.prems(2) F(3) by (intro owner.release_elsewhere [OF assms(1) F(1)]) auto
  moreover have "release_each get release (Suc i) (length ps) (gone (G @ F1) h) = ret (gone ((G @ F1) @ F2) h)"
    using Suc.hyps(2) Suc.prems F(3) by (intro Suc.hyps(1) [OF _ F(2)]) auto
  ultimately show ?case
    using i(1) Suc.prems(3) F(3) assms(2) [of i G] by (simp add: release_each.simps [of get release i])
qed

section \<open>Accounts\<close>

text \<open>
  \<open>accounts h F h' F'\<close>: code that was responsible for the blocks \<open>F\<close> in \<open>h\<close> has gone on to \<open>h'\<close>, and is
  now responsible for \<open>F'\<close>. Nothing is leaked: what it no longer lists has been freed; nothing is
  taken: what it lists anew is freshly allocated; nothing else has changed.
\<close>

definition accounts ::
  "('v, 'sb, 'dt, 'fn) heap \<Rightarrow> addr list \<Rightarrow> ('v, 'sb, 'dt, 'fn) heap \<Rightarrow> addr list \<Rightarrow> bool" where
  "accounts h F h' F' \<longleftrightarrow> heap_ok h \<and> heap_ok h' \<and> next_addr h \<le> next_addr h' \<and> distinct F' \<and> (\<forall>a \<in> set F'. cells h' a \<noteq> None)
     \<and> set F' \<subseteq> set F \<union> {a. next_addr h \<le> a}
     \<and> (\<forall>a. a \<notin> set F' \<longrightarrow> cells h' a = (if a \<in> set F then None else cells h a))"

lemma accountsD:
  assumes "accounts h F h' F'"
  shows "heap_ok h'" "next_addr h \<le> next_addr h'" "distinct F'" "a \<in> set F' \<Longrightarrow> cells h' a \<noteq> None"
    and "a \<in> set F' \<Longrightarrow> a \<in> set F \<or> next_addr h \<le> a"
    and "a \<notin> set F' \<Longrightarrow> cells h' a = (if a \<in> set F then None else cells h a)" and "heap_ok h"
  using assms unfolding accounts_def by (blast, blast, blast, blast, blast, blast, blast)

lemma heap_okD: "heap_ok h \<Longrightarrow> cells h a \<noteq> None \<Longrightarrow> a < next_addr h"
  by (auto simp: heap_ok_def not_le [symmetric])

lemma accounts_refl:
  assumes "heap_ok h" and "distinct F" and "\<forall>a \<in> set F. cells h a \<noteq> None"
  shows "accounts h F h F"
  using assms by (simp add: accounts_def)

lemma accounts_none [simp, intro]: "heap_ok h \<Longrightarrow> accounts h [] h []"
  by (simp add: accounts_refl)

lemma accounts_trans [trans]:
  assumes "accounts h F h1 F1" and "accounts h1 F1 h2 F2"
  shows "accounts h F h2 F2"
  unfolding accounts_def
proof (intro conjI ballI allI impI subsetI)
  fix a
  show "cells h2 a = (if a \<in> set F then None else cells h a)" if "a \<notin> set F2"
  proof (cases "a \<in> set F1")
    case True
    with accountsD(6) [OF assms(2) that] have "cells h2 a = None" by simp
    with accountsD(5) [OF assms(1) True] accountsD(7) [OF assms(1)] show ?thesis by (auto simp: heap_ok_def)
  next
    case False
    with accountsD(6) [OF assms(2) that] accountsD(6) [OF assms(1) False] show ?thesis by simp
  qed
  show "a \<in> set F \<union> {a. next_addr h \<le> a}" if "a \<in> set F2"
    using accountsD(5) [OF assms(2) that] accountsD(5) [OF assms(1)] accountsD(2) [OF assms(1)] by auto
qed (use accountsD(1-4,7) [OF assms(1)] accountsD(1-4) [OF assms(2)] in auto)

lemma accounts_frame:
  assumes "accounts h F h' F'" and "distinct G" and "\<forall>a \<in> set G. cells h a \<noteq> None" and "set G \<inter> set F = {}"
  shows "accounts h (F @ G) h' (F' @ G)"
    and "set G \<inter> set F' = {}" and "a \<in> set G \<Longrightarrow> cells h' a = cells h a"
proof -
  show disj: "set G \<inter> set F' = {}"
    using accountsD(5) [OF assms(1)] heap_okD [OF accountsD(7) [OF assms(1)]] assms(3,4) by (fastforce simp: not_le [symmetric])
  show same: "cells h' a = cells h a" if "a \<in> set G" for a
  proof -
    from that disj assms(4) have "a \<notin> set F'" "a \<notin> set F" by blast+
    with accountsD(6) [OF assms(1)] show ?thesis by simp
  qed
  show "accounts h (F @ G) h' (F' @ G)"
    unfolding accounts_def
    using accountsD [OF assms(1)] disj same assms(2,3) by auto
qed

lemma accounts_malloc:
  assumes "heap_ok h" and "distinct F" and "\<forall>a \<in> set F. cells h a \<noteq> None"
  shows "accounts h F (snd (malloc b h)) (F @ [next_addr h])"
  using assms heap_okD [OF assms(1)] by (auto simp: accounts_def)

lemma accounts_gone:
  assumes "heap_ok h" and "distinct (F @ G)" and "\<forall>a \<in> set F. cells h a \<noteq> None"
  shows "accounts h (F @ G) (gone G h) F"
  using assms by (auto simp: accounts_def)

lemma accounts_store:
  assumes "accounts h F h' F'" and "a \<in> set F'"
  shows "accounts h F (h'\<lparr>cells := (cells h')(a \<mapsto> b)\<rparr>) F'"
  using accountsD [OF assms(1)] assms(2) heap_okD [of h' a] by (auto simp: accounts_def heap_ok_def)

lemma accounts_set:
  assumes "accounts h F h' F'" and "set G = set F" and "set G' = set F'" and "distinct G'"
  shows "accounts h G h' G'"
  using assms unfolding accounts_def by simp

lemma accounts_next:
  assumes "accounts h F0 h1 F" and "accounts h1 [] h2 G"
  shows "accounts h F0 h2 (F @ G)" and "set F \<inter> set G = {}"
    and "framed own \<Longrightarrow> own h1 q = Some F' \<Longrightarrow> own h2 q = Some F'"
proof -
  have live: "\<forall>a \<in> set F. cells h1 a \<noteq> None" using accountsD(4) [OF assms(1)] by blast
  from accounts_frame [OF assms(2) accountsD(3) [OF assms(1)] live]
  have fr: "accounts h1 F h2 (G @ F)" "set F \<inter> set G = {}" by simp_all
  from fr(1) have "accounts h1 F h2 (F @ G)"
    by (rule accounts_set) (use accountsD(3) [OF fr(1)] fr(2) in auto)
  with assms(1) show "accounts h F0 h2 (F @ G)" by (rule accounts_trans)
  show "set F \<inter> set G = {}" by (rule fr(2))
  show "own h2 q = Some F'" if own: "framed own" "own h1 q = Some F'"
  proof (rule framed.frame [OF own], rule ballI)
    fix a assume "a \<in> set F'"
    then have "a < next_addr h1" using framed.live [OF own] heap_okD [OF accountsD(7) [OF assms(2)]] by blast
    then have "a \<notin> set G" using accountsD(5) [OF assms(2), of a] by auto
    then show "cells h2 a = cells h1 a" using accountsD(6) [OF assms(2)] by simp
  qed
qed

lemma accounts_other:
  \<comment> \<open>code that works on some of the blocks only\<close>
  assumes "accounts h F0 h1 F" and "accounts h1 G h2 G'" and "set F = set G \<union> set R" and "distinct R" and "set G \<inter> set R = {}"
  shows "accounts h F0 h2 (G' @ R)" and "set R \<inter> set G' = {}" and "\<forall>a \<in> set R. cells h2 a = cells h1 a"
proof -
  have live: "\<forall>a \<in> set R. cells h1 a \<noteq> None" using accountsD(4) [OF assms(1)] assms(3) by blast
  have disj: "set R \<inter> set G = {}" using assms(5) by blast
  note fr = accounts_frame [OF assms(2,4) live disj]
  have "accounts h1 F h2 (G' @ R)"
    by (rule accounts_set [OF fr(1)]) (use assms(3) accountsD(3) [OF fr(1)] in auto)
  with assms(1) show "accounts h F0 h2 (G' @ R)" by (rule accounts_trans)
  show "set R \<inter> set G' = {}" "\<forall>a \<in> set R. cells h2 a = cells h1 a" using fr(2,3) by auto
qed

lemma accounts_malloc_next:
  assumes "accounts h F0 h1 F"
  shows "accounts h F0 (snd (malloc b h1)) (F @ [next_addr h1])" and "next_addr h1 \<notin> set F"
    and "framed own \<Longrightarrow> own h1 q = Some F' \<Longrightarrow> own (snd (malloc b h1)) q = Some F'"
proof -
  have "accounts h1 [] (snd (malloc b h1)) ([] @ [next_addr h1])"
    by (rule accounts_malloc) (use accountsD(1) [OF assms] in auto)
  then have new: "accounts h1 [] (snd (malloc b h1)) [next_addr h1]" by simp
  show "accounts h F0 (snd (malloc b h1)) (F @ [next_addr h1])" by (rule accounts_next(1) [OF assms new])
  show "next_addr h1 \<notin> set F" using accounts_next(2) [OF assms new] by simp
  show "framed own \<Longrightarrow> own h1 q = Some F' \<Longrightarrow> own (snd (malloc b h1)) q = Some F'" by (rule accounts_next(3) [OF assms new])
qed

context framed
begin

lemma own_accounts:
  assumes "own h q = Some G" and "distinct G" and "accounts h F h' F'" and "set G \<inter> set F = {}"
  shows "own h' q = Some G" and "set G \<inter> set F' = {}" and "accounts h (F @ G) h' (F' @ G)"
proof -
  have live: "\<forall>a \<in> set G. cells h a \<noteq> None" using live [OF assms(1)] by blast
  note fr = accounts_frame [OF assms(3,2) live assms(4)]
  show "own h' q = Some G" using fr(3) by (intro frame [OF assms(1)]) blast
  show "set G \<inter> set F' = {}" "accounts h (F @ G) h' (F' @ G)" using fr by blast+
qed

lemma accounts_own: "own h p = Some F \<Longrightarrow> heap_ok h \<Longrightarrow> distinct F \<Longrightarrow> accounts h F h F"
  using live by (intro accounts_refl) blast+

end

context owner
begin

lemma release_accounts:
  \<comment> \<open>what was created or kept is given back\<close>
  assumes "accounts h F h' F'" and "own h' p = Some F'"
  shows "\<exists>h2. release p h' = ret h2 \<and> accounts h F h2 []"
proof -
  have "accounts h' ([] @ F') (gone F' h') []"
    using accountsD(1,3) [OF assms(1)] by (intro accounts_gone) auto
  with assms(1) have "accounts h F (gone F' h') []" by (simp add: accounts_trans)
  with release [OF assms(2) accountsD(3) [OF assms(1)]] show ?thesis by blast
qed

end

end
