(* ===== verification/Memory.thy ===== *)
theory Memory
  imports C_Heap
begin

text \<open>
  Ownership: the constructors, the release functions and the operations that move pointers into
  and out of the structs of \<open>src/hs_types.c\<close>, \<open>src/hs_types_array.c\<close>, \<open>src/hs_types_cookie.c\<close> and
  \<open>src/hs_io.c\<close>, on the heap of \<open>C_Heap\<close>. The definitions with the suffix \<open>_mem\<close> are the same C
  functions as those of \<open>Types\<close>, \<open>Types_Array\<close>, \<open>Types_Cookie\<close> and \<open>IO\<close>, which see values only; here
  it is which blocks they allocate, keep and free that counts.

  Vectors, string buffers and hash tables are allocated and released by external code, which is a
  parameter (\<open>mem_lib\<close>), and so are the release functions a callback points to. What is relied on is
  \<open>mem_ok\<close>: each releases exactly the blocks its object owns.
\<close>

section \<open>External functions\<close>

record ('v, 'sb, 'dt, 'fn) mem_lib =
  vectors :: "('v, addr) vector_lib"
  m_vector_new :: "('v, 'sb, 'dt, 'fn) heap \<Rightarrow> ptr \<times> ('v, 'sb, 'dt, 'fn) heap"
  m_vector_release :: "ptr \<Rightarrow> ('v, 'sb, 'dt, 'fn) heap \<Rightarrow> ('v, 'sb, 'dt, 'fn) heap run"
  m_stringbuffer_release :: "ptr \<Rightarrow> ('v, 'sb, 'dt, 'fn) heap \<Rightarrow> ('v, 'sb, 'dt, 'fn) heap run"
  m_hashtable_new :: "('v, 'sb, 'dt, 'fn) heap \<Rightarrow> ptr \<times> ('v, 'sb, 'dt, 'fn) heap"
  m_hashtable_release :: "ptr \<Rightarrow> ('v, 'sb, 'dt, 'fn) heap \<Rightarrow> ('v, 'sb, 'dt, 'fn) heap run"
  m_call :: "'fn \<Rightarrow> ptr \<Rightarrow> ('v, 'sb, 'dt, 'fn) heap \<Rightarrow> ('v, 'sb, 'dt, 'fn) heap run"

text \<open>What a table owns besides its struct, and what a callback leaves to its release function.\<close>

record ('v, 'sb, 'dt, 'fn) contract =
  own_table :: "('v, 'sb, 'dt, 'fn) heap \<Rightarrow> ptr \<Rightarrow> addr list option"
  own_context :: "'fn \<Rightarrow> ('v, 'sb, 'dt, 'fn) heap \<Rightarrow> ptr \<Rightarrow> addr list option"

definition own_string :: "('v, 'sb, 'dt, 'fn) heap \<Rightarrow> ptr \<Rightarrow> addr list option" where
  "own_string = own_struct as_string []"

definition own_buffer :: "('v, 'sb, 'dt, 'fn) heap \<Rightarrow> ptr \<Rightarrow> addr list option" where
  "own_buffer = own_struct as_buffer []"

definition mem_ok :: "('v, 'sb, 'dt, 'fn) mem_lib \<Rightarrow> ('v, 'sb, 'dt, 'fn) contract \<Rightarrow> bool" where
  "mem_ok M C \<longleftrightarrow> vector_ok (vectors M)
     \<and> (\<forall>h. m_vector_new M h = malloc (VectorB (vector_new (vectors M))) h)
     \<and> (\<forall>h a v. cells h a = Some (VectorB v) \<longrightarrow> m_vector_release M (Some a) h = ret (gone [a] h))
     \<and> owner own_buffer (m_stringbuffer_release M)
     \<and> (\<forall>h. \<exists>t. m_hashtable_new M h = malloc (TableB t) h \<and> own_table C (snd (malloc (TableB t) h)) (Some (next_addr h)) = Some [next_addr h])
     \<and> owner (own_table C) (m_hashtable_release M)
     \<and> (\<forall>fn. framed (own_context C fn))
     \<and> (\<forall>h a cb fn F. cells h a = Some (CallbackB cb) \<longrightarrow> m_release cb = Some fn \<longrightarrow> own_context C fn h (m_context cb) = Some F
          \<longrightarrow> distinct (F @ [a]) \<longrightarrow> m_call M fn (Some a) h = ret (gone F h))"

lemma mem_ok_parts:
  assumes "mem_ok M C"
  shows "vector_ok (vectors M)" "m_vector_new M h = malloc (VectorB (vector_new (vectors M))) h"
    and "cells h a = Some (VectorB v) \<Longrightarrow> m_vector_release M (Some a) h = ret (gone [a] h)"
    and "owner own_buffer (m_stringbuffer_release M)"
    and "\<exists>t. m_hashtable_new M h = malloc (TableB t) h \<and> own_table C (snd (malloc (TableB t) h)) (Some (next_addr h)) = Some [next_addr h]"
    and "owner (own_table C) (m_hashtable_release M)" "framed (own_context C fn)"
    and "cells h a = Some (CallbackB cb) \<Longrightarrow> m_release cb = Some fn \<Longrightarrow> own_context C fn h (m_context cb) = Some F
          \<Longrightarrow> distinct (F @ [a]) \<Longrightarrow> m_call M fn (Some a) h = ret (gone F h)"
  using assms unfolding mem_ok_def by blast+

section \<open>Strings\<close>

lemma owner_block: "owner (own_struct as []) hs_io_free"
proof -
  have "owner (own_struct as []) (release_struct as [])" by (rule struct_owner) simp
  moreover have "release_struct as [] = hs_io_free" by (auto simp: release_struct_def fun_eq_iff)
  ultimately show ?thesis by simp
qed

interpretation str: owner own_string hs_io_free
  unfolding own_string_def by (rule owner_block)

section \<open>Vectors of pointers\<close>

definition vector_at ::
  "('v, addr) vector_lib \<Rightarrow> ptr \<Rightarrow> nat \<Rightarrow> ('v, 'sb, 'dt, 'fn) heap \<Rightarrow> ptr run" where
  \<comment> \<open>\<open>vector_get(vector, index)\<close>\<close>
  "vector_at V vector index h = bindR (load as_vector vector h) (\<lambda>v. ret (vector_get V v index))"

definition release_vector ::
  "('v, 'sb, 'dt, 'fn) mem_lib \<Rightarrow> (ptr \<Rightarrow> ('v, 'sb, 'dt, 'fn) heap \<Rightarrow> ('v, 'sb, 'dt, 'fn) heap run)
    \<Rightarrow> ptr \<Rightarrow> ('v, 'sb, 'dt, 'fn) heap \<Rightarrow> ('v, 'sb, 'dt, 'fn) heap run" where
  \<comment> \<open>release each element, then the vector\<close>
  "release_vector M release vector h =
     bindR (load as_vector vector h)
       (\<lambda>v. bindR (release_each (vector_at (vectors M) vector) release 0 (vector_size (vectors M) v) h)
              (m_vector_release M vector))"

definition own_elements ::
  "('v, addr) vector_lib \<Rightarrow> (('v, 'sb, 'dt, 'fn) heap \<Rightarrow> ptr \<Rightarrow> addr list option)
    \<Rightarrow> ('v, 'sb, 'dt, 'fn) heap \<Rightarrow> ptr \<Rightarrow> addr list option" where
  "own_elements V own h vector =
     (if vector \<noteq> None then own_struct as_vector [\<lambda>h v. join (map (own h) (map Some (vec_list V v)))] h vector else None)"

lemma own_elements_Some:
  "own_elements V own h p = Some F \<longleftrightarrow>
    (\<exists>a v F1. p = Some a \<and> cells h a = Some (VectorB v) \<and> join (map (own h) (map Some (vec_list V v))) = Some F1 \<and> F = F1 @ [a])"
  by (auto simp: own_elements_def own_struct_def Option.bind_eq_Some_conv
      split: option.splits)

lemma framed_elements:
  assumes "framed own"
  shows "framed (own_elements V own)"
  unfolding own_elements_def
  by (intro framed_guard framed_struct)
    (simp add: framed_field [OF framed_join [OF assms], of "\<lambda>v. map Some (vec_list V v)", simplified])

lemma owner_elements:
  assumes "mem_ok M C" and "owner own release"
  shows "owner (own_elements (vectors M) own) (release_vector M release)"
proof (intro owner.intro owner_axioms.intro framed_elements owner.axioms(1) [OF assms(2)])
  fix h p F
  assume own: "own_elements (vectors M) own h p = Some F" "distinct F"
  then obtain a v F1 where p: "p = Some a" "cells h a = Some (VectorB v)"
    "join (map (own h) (map Some (vec_list (vectors M) v))) = Some F1" "F = F1 @ [a]"
    by (auto simp: own_elements_Some)
  note vec = mem_ok_parts(1) [OF assms(1)]
  let ?ps = "map Some (vec_list (vectors M) v)"
  have "release_each (vector_at (vectors M) p) release 0 (length ?ps) (gone [] h) = ret (gone ([] @ F1) h)"
    by (rule release_each_gone [OF assms(2), where a = a])
      (use own(2) p in \<open>auto simp: vector_at_def vector_laws [OF vec]\<close>)
  moreover have "m_vector_release M (Some a) (gone F1 h) = ret (gone [a] (gone F1 h))"
    using own(2) p by (intro mem_ok_parts(3) [OF assms(1)]) auto
  ultimately show "release_vector M release p h = ret (gone F h)"
    using p by (simp add: release_vector_def vector_laws [OF vec])
qed

section \<open>Pairs, cookies and their containers\<close>

definition hs_types_array_pair_release_mem ::
  "bool \<Rightarrow> ptr \<Rightarrow> ('v, 'sb, 'dt, 'fn) heap \<Rightarrow> ('v, 'sb, 'dt, 'fn) heap run" where
  "hs_types_array_pair_release_mem release_value =
     release_struct as_pair [\<lambda>pair. hs_io_free (m_key pair),
        \<lambda>pair. if release_value then hs_io_free (m_value pair) else ret]"

definition hs_types_array_release_mem ::
  "('v, 'sb, 'dt, 'fn) mem_lib \<Rightarrow> bool \<Rightarrow> ptr \<Rightarrow> ('v, 'sb, 'dt, 'fn) heap \<Rightarrow> ('v, 'sb, 'dt, 'fn) heap run" where
  "hs_types_array_release_mem M release_value vector h =
     (if vector = None then ret h else release_vector M (hs_types_array_pair_release_mem release_value) vector h)"

definition hs_types_array_string_pair_release_mem ::
  "('v, 'sb, 'dt, 'fn) mem_lib \<Rightarrow> ptr \<Rightarrow> ('v, 'sb, 'dt, 'fn) heap \<Rightarrow> ('v, 'sb, 'dt, 'fn) heap run" where
  "hs_types_array_string_pair_release_mem M =
     release_struct as_pairs [\<lambda>vector. hs_types_array_release_mem M True vector]"

definition hs_types_cookie_release_mem ::
  "ptr \<Rightarrow> ('v, 'sb, 'dt, 'fn) heap \<Rightarrow> ('v, 'sb, 'dt, 'fn) heap run" where
  "hs_types_cookie_release_mem =
     release_struct as_cookie
       [\<lambda>cookie. hs_io_free (m_name cookie),
        \<lambda>cookie. hs_io_free (m_cookie_value cookie),
        \<lambda>cookie. hs_io_free (m_expires cookie),
        \<lambda>cookie. hs_io_free (m_domain cookie),
        \<lambda>cookie. hs_io_free (m_path cookie)]"

definition hs_types_cookies_release_mem ::
  "('v, 'sb, 'dt, 'fn) mem_lib \<Rightarrow> ptr \<Rightarrow> ('v, 'sb, 'dt, 'fn) heap \<Rightarrow> ('v, 'sb, 'dt, 'fn) heap run" where
  "hs_types_cookies_release_mem M =
     release_struct as_cookies [\<lambda>vector. release_vector M hs_types_cookie_release_mem vector]"

definition own_pair ::
  "('v, 'sb, 'dt, 'fn) heap \<Rightarrow> ptr \<Rightarrow> addr list option" where
  \<comment> \<open>a pair of a container: \<open>hs_types_array_pair_add\<close> refuses a NULL key\<close>
  "own_pair =
     own_struct as_pair [\<lambda>h pair. if m_key pair \<noteq> None then own_string h (m_key pair) else None,
        \<lambda>h pair. own_string h (m_value pair)]"

definition own_pairs ::
  "('v, addr) vector_lib \<Rightarrow> ('v, 'sb, 'dt, 'fn) heap \<Rightarrow> ptr \<Rightarrow> addr list option" where
  "own_pairs V =
     own_struct as_pairs [\<lambda>h vector. own_elements V own_pair h vector]"

definition own_cookie ::
  "('v, 'sb, 'dt, 'fn) heap \<Rightarrow> ptr \<Rightarrow> addr list option" where
  "own_cookie =
     own_struct as_cookie
       [\<lambda>h cookie. own_string h (m_name cookie),
        \<lambda>h cookie. own_string h (m_cookie_value cookie),
        \<lambda>h cookie. own_string h (m_expires cookie),
        \<lambda>h cookie. own_string h (m_domain cookie),
        \<lambda>h cookie. own_string h (m_path cookie)]"

definition own_named_cookie ::
  "('v, 'sb, 'dt, 'fn) heap \<Rightarrow> ptr \<Rightarrow> addr list option" where
  \<comment> \<open>a cookie of a container: \<open>hs_types_cookies_add\<close> refuses a NULL name or value\<close>
  "own_named_cookie =
     own_struct as_cookie
       [\<lambda>h cookie. if m_name cookie \<noteq> None then own_string h (m_name cookie) else None,
        \<lambda>h cookie. if m_cookie_value cookie \<noteq> None then own_string h (m_cookie_value cookie) else None,
        \<lambda>h cookie. own_string h (m_expires cookie),
        \<lambda>h cookie. own_string h (m_domain cookie),
        \<lambda>h cookie. own_string h (m_path cookie)]"

definition own_cookies ::
  "('v, addr) vector_lib \<Rightarrow> ('v, 'sb, 'dt, 'fn) heap \<Rightarrow> ptr \<Rightarrow> addr list option" where
  "own_cookies V =
     own_struct as_cookies [\<lambda>h vector. own_elements V own_named_cookie h vector]"

lemma owner_ret: "owner (\<lambda>h s. Some []) (\<lambda>s. ret)"
  by unfold_locales simp_all

interpretation pair: owner own_pair "hs_types_array_pair_release_mem True"
  unfolding own_pair_def hs_types_array_pair_release_mem_def
  by (rule struct_owner) (simp add: owner_guard [OF owner_field [OF str.owner_axioms]] owner_field [OF str.owner_axioms])

interpretation cookie: owner own_cookie hs_types_cookie_release_mem
  unfolding own_cookie_def hs_types_cookie_release_mem_def
  by (rule struct_owner) (simp add: owner_field [OF str.owner_axioms])

interpretation named_cookie: owner own_named_cookie hs_types_cookie_release_mem
  unfolding own_named_cookie_def hs_types_cookie_release_mem_def
  by (rule struct_owner) (simp add: owner_guard [OF owner_field [OF str.owner_axioms]] owner_field [OF str.owner_axioms])

lemma owner_array:
  assumes "mem_ok M C"
  shows "owner (own_elements (vectors M) own_pair) (hs_types_array_release_mem M True)"
proof -
  have "release_vector M (hs_types_array_pair_release_mem True) p h = hs_types_array_release_mem M True p h"
    if "own_elements (vectors M) own_pair h p = Some F" for h p F
    using that by (auto simp: hs_types_array_release_mem_def own_elements_Some)
  with owner_elements [OF assms pair.owner_axioms] show ?thesis
    unfolding owner_def owner_axioms_def by metis
qed

lemma owner_pairs:
  assumes "mem_ok M C"
  shows "owner (own_pairs (vectors M)) (hs_types_array_string_pair_release_mem M)"
  unfolding own_pairs_def hs_types_array_string_pair_release_mem_def
  by (rule struct_owner) (simp add: owner_array [OF assms])

lemma owner_cookies:
  assumes "mem_ok M C"
  shows "owner (own_cookies (vectors M)) (hs_types_cookies_release_mem M)"
  unfolding own_cookies_def hs_types_cookies_release_mem_def
  by (rule struct_owner) (simp add: owner_elements [OF assms named_cookie.owner_axioms])

section \<open>Payloads, requests and responses\<close>

definition hs_io_release_http_request_payload_mem ::
  "('v, 'sb, 'dt, 'fn) mem_lib \<Rightarrow> ptr \<Rightarrow> ('v, 'sb, 'dt, 'fn) heap \<Rightarrow> ('v, 'sb, 'dt, 'fn) heap run" where
  "hs_io_release_http_request_payload_mem M =
     release_struct as_io_payload [\<lambda>payload. m_stringbuffer_release M (m_partial payload)]"

definition request_payload_release_mem ::
  "('v, 'sb, 'dt, 'fn) mem_lib \<Rightarrow> ptr \<Rightarrow> ('v, 'sb, 'dt, 'fn) heap \<Rightarrow> ('v, 'sb, 'dt, 'fn) heap run" where
  \<comment> \<open>the block for \<open>request->payload\<close> in \<open>hs_types_http_request_release\<close>\<close>
  "request_payload_release_mem M p h =
     (if p = None then ret h
      else bindR (load as_payload p h)
             (\<lambda>payload. bindR (hs_io_release_http_request_payload_mem M (m_payload payload) h)
                (\<lambda>h1. bindR (load as_payload p h1)
                   (\<lambda>payload. bindR (store p (PayloadB (payload\<lparr>m_payload := None\<rparr>)) h1) (hs_io_free p)))))"

definition hs_types_http_request_release_mem ::
  "('v, 'sb, 'dt, 'fn) mem_lib \<Rightarrow> ptr \<Rightarrow> ('v, 'sb, 'dt, 'fn) heap \<Rightarrow> ('v, 'sb, 'dt, 'fn) heap run" where
  "hs_types_http_request_release_mem M =
     release_struct as_request
       [\<lambda>request. hs_io_free (m_req_domain request),
        \<lambda>request. hs_io_free (m_req_resource request),
        \<lambda>request. hs_io_free (m_req_query_string request),
        \<lambda>request. hs_io_free (m_req_user_agent request),
        \<lambda>request. hs_io_free (m_req_authorization request),
        \<lambda>request. hs_types_cookies_release_mem M (m_req_cookies request),
        \<lambda>request. hs_types_array_string_pair_release_mem M (m_req_headers request),
        \<lambda>request. request_payload_release_mem M (m_req_payload request)]"

definition hs_types_http_response_release_mem ::
  "('v, 'sb, 'dt, 'fn) mem_lib \<Rightarrow> ptr \<Rightarrow> ('v, 'sb, 'dt, 'fn) heap \<Rightarrow> ('v, 'sb, 'dt, 'fn) heap run" where
  "hs_types_http_response_release_mem M =
     release_struct as_response
       [\<lambda>response. hs_io_free (m_resp_content_string response),
        \<lambda>response. hs_io_free (m_resp_content_file response),
        \<lambda>response. hs_types_cookies_release_mem M (m_resp_cookies response),
        \<lambda>response. hs_types_array_string_pair_release_mem M (m_resp_headers response)]"

definition own_io_payload ::
  "('v, 'sb, 'dt, 'fn) heap \<Rightarrow> ptr \<Rightarrow> addr list option" where
  "own_io_payload =
     own_struct as_io_payload [\<lambda>h payload. own_buffer h (m_partial payload)]"

definition own_payload ::
  "('v, 'sb, 'dt, 'fn) heap \<Rightarrow> ptr \<Rightarrow> addr list option" where
  "own_payload =
     own_struct as_payload [\<lambda>h payload. own_io_payload h (m_payload payload)]"

definition own_request ::
  "('v, addr) vector_lib \<Rightarrow> ('v, 'sb, 'dt, 'fn) heap \<Rightarrow> ptr \<Rightarrow> addr list option" where
  "own_request V =
     own_struct as_request
       [\<lambda>h request. own_string h (m_req_domain request),
        \<lambda>h request. own_string h (m_req_resource request),
        \<lambda>h request. own_string h (m_req_query_string request),
        \<lambda>h request. own_string h (m_req_user_agent request),
        \<lambda>h request. own_string h (m_req_authorization request),
        \<lambda>h request. own_cookies V h (m_req_cookies request),
        \<lambda>h request. own_pairs V h (m_req_headers request),
        \<lambda>h request. own_payload h (m_req_payload request)]"

definition own_response ::
  "('v, addr) vector_lib \<Rightarrow> ('v, 'sb, 'dt, 'fn) heap \<Rightarrow> ptr \<Rightarrow> addr list option" where
  "own_response V =
     own_struct as_response
       [\<lambda>h response. own_string h (m_resp_content_string response),
        \<lambda>h response. own_string h (m_resp_content_file response),
        \<lambda>h response. own_cookies V h (m_resp_cookies response),
        \<lambda>h response. own_pairs V h (m_resp_headers response)]"

lemma owner_io_payload:
  assumes "mem_ok M C"
  shows "owner own_io_payload (hs_io_release_http_request_payload_mem M)"
  unfolding own_io_payload_def hs_io_release_http_request_payload_mem_def
  by (rule struct_owner) (simp add: owner_field [OF mem_ok_parts(4) [OF assms]])

lemma framed_payload: "framed own_payload"
  unfolding own_payload_def own_io_payload_def own_buffer_def
  by (rule framed_struct, simp, rule framed_field, rule framed_struct, simp, rule framed_field, rule framed_struct, simp)

lemma owner_payload:
  fixes M :: "('v, 'sb, 'dt, 'fn) mem_lib"
  assumes "mem_ok M C"
  shows "owner own_payload (request_payload_release_mem M)"
proof (intro owner.intro owner_axioms.intro framed_payload)
  note io = owner_io_payload [OF assms]
  fix h :: "('v, 'sb, 'dt, 'fn) heap" and p F
  assume own: "own_payload h p = Some F" "distinct F"
  show "request_payload_release_mem M p h = ret (gone F h)"
  proof (cases p)
    case (Some _)
    with own obtain a pl F1 where p: "p = Some a" "cells h a = Some (PayloadB pl)" "own_io_payload h (m_payload pl) = Some F1" "F = F1 @ [a]"
      unfolding own_payload_def by (auto simp: Option.bind_eq_Some_conv elim!: own_structE)
    have "hs_io_release_http_request_payload_mem M (m_payload pl) h = ret (gone F1 h)"
      using own(2) p(4) by (intro owner.release [OF io p(3)]) simp
    moreover have "gone [a] (gone F1 h\<lparr>cells := (cells (gone F1 h))(a \<mapsto> x)\<rparr>) = gone F h" for x
      by (auto simp: gone_def p(4) fun_eq_iff)
    ultimately show ?thesis
      using p own(2) by (simp add: request_payload_release_mem_def)
  qed (use own in \<open>simp add: own_payload_def request_payload_release_mem_def\<close>)
qed

lemma owner_request:
  assumes "mem_ok M C"
  shows "owner (own_request (vectors M)) (hs_types_http_request_release_mem M)"
  unfolding own_request_def hs_types_http_request_release_mem_def
  by (rule struct_owner)
    (simp add: owner_field [OF str.owner_axioms] owner_field [OF owner_cookies [OF assms]] owner_field [OF owner_pairs [OF assms]]
      owner_field [OF owner_payload [OF assms]])

lemma owner_response:
  assumes "mem_ok M C"
  shows "owner (own_response (vectors M)) (hs_types_http_response_release_mem M)"
  unfolding own_response_def hs_types_http_response_release_mem_def
  by (rule struct_owner)
    (simp add: owner_field [OF str.owner_axioms] owner_field [OF owner_cookies [OF assms]] owner_field [OF owner_pairs [OF assms]])

section \<open>Callbacks\<close>

definition hs_types_post_response_callback_release_mem ::
  "('v, 'sb, 'dt, 'fn) mem_lib \<Rightarrow> ptr \<Rightarrow> ('v, 'sb, 'dt, 'fn) heap \<Rightarrow> ('v, 'sb, 'dt, 'fn) heap run" where
  "hs_types_post_response_callback_release_mem M callback h =
     (if callback = None then ret h
      else bindR (load as_callback callback h)
             (\<lambda>cb. bindR (case m_release cb of None \<Rightarrow> ret h | Some fn \<Rightarrow> m_call M fn callback h) (hs_io_free callback)))"

definition slot_at :: "ptr \<Rightarrow> nat \<Rightarrow> ('v, 'sb, 'dt, 'fn) heap \<Rightarrow> ptr run" where
  \<comment> \<open>\<open>callbacks[index]\<close>; a slot that was never assigned is not read\<close>
  "slot_at slots_ptr index h =
     bindR (load as_slots slots_ptr h)
       (\<lambda>slots. if index < length slots then (case slots ! index of None \<Rightarrow> ub OutOfBounds | Some p \<Rightarrow> ret p) else ub OutOfBounds)"

definition hs_types_post_response_callbacks_release_mem ::
  "('v, 'sb, 'dt, 'fn) mem_lib \<Rightarrow> ptr \<Rightarrow> ('v, 'sb, 'dt, 'fn) heap \<Rightarrow> ('v, 'sb, 'dt, 'fn) heap run" where
  \<comment> \<open>the loop over the callbacks, then their array\<close>
  "hs_types_post_response_callbacks_release_mem M =
     release_struct as_callbacks
       [\<lambda>cbs h. bindR (release_each (slot_at (m_callbacks cbs)) (hs_types_post_response_callback_release_mem M) 0 (m_count cbs) h)
                 (hs_io_free (m_callbacks cbs))]"

definition own_callback_context ::
  "('v, 'sb, 'dt, 'fn) contract \<Rightarrow> ('v, 'sb, 'dt, 'fn) heap \<Rightarrow> 'fn HSPostResponseCallback_mem \<Rightarrow> addr list option" where
  \<comment> \<open>without a release function the context belongs to someone else\<close>
  "own_callback_context C h cb = (case m_release cb of None \<Rightarrow> Some [] | Some fn \<Rightarrow> own_context C fn h (m_context cb))"

definition own_callback ::
  "('v, 'sb, 'dt, 'fn) contract \<Rightarrow> ('v, 'sb, 'dt, 'fn) heap \<Rightarrow> ptr \<Rightarrow> addr list option" where
  "own_callback C = own_struct as_callback [own_callback_context C]"

definition own_slots ::
  "('v, 'sb, 'dt, 'fn) contract \<Rightarrow> nat \<Rightarrow> ('v, 'sb, 'dt, 'fn) heap \<Rightarrow> ptr \<Rightarrow> addr list option" where
  "own_slots C count h p =
     (if p \<noteq> None then own_struct as_slots
        [\<lambda>h slots. if count \<le> length slots \<and> None \<notin> set (take count slots)
                   then join (map (own_callback C h) (map the (take count slots))) else None] h p
      else None)"

definition own_callbacks ::
  "('v, 'sb, 'dt, 'fn) contract \<Rightarrow> ('v, 'sb, 'dt, 'fn) heap \<Rightarrow> ptr \<Rightarrow> addr list option" where
  "own_callbacks C =
     own_struct as_callbacks [\<lambda>h cbs. own_slots C (m_count cbs) h (m_callbacks cbs)]"

lemma framed_callback:
  assumes "mem_ok M C"
  shows "framed (own_callback C)"
proof -
  have "framed (own_callback_context C)"
  proof
    fix h h' cb F
    assume own: "own_callback_context C h cb = Some F"
    note ctx = mem_ok_parts(7) [OF assms]
    show "own_callback_context C h' cb = Some F" if "\<forall>a \<in> set F. cells h' a = cells h a"
      using own framed.frame [OF ctx _ that] by (cases "m_release cb") (simp_all add: own_callback_context_def)
    show "cells h x \<noteq> None" if "x \<in> set F" for x
      using own framed.live [OF ctx _ that] that by (cases "m_release cb") (simp_all add: own_callback_context_def)
  qed
  then show ?thesis unfolding own_callback_def by (intro framed_struct) simp
qed

lemma owner_callback:
  assumes "mem_ok M C"
  shows "owner (own_callback C) (hs_types_post_response_callback_release_mem M)"
proof (intro owner.intro owner_axioms.intro framed_callback [OF assms])
  fix h p F
  assume own: "own_callback C h p = Some F" "distinct F"
  show "hs_types_post_response_callback_release_mem M p h = ret (gone F h)"
  proof (cases p)
    case (Some _)
    with own(1) obtain a cb F1 where p: "p = Some a" "cells h a = Some (CallbackB cb)" "own_callback_context C h cb = Some F1" "F = F1 @ [a]"
      unfolding own_callback_def by (auto simp: Option.bind_eq_Some_conv elim!: own_structE)
    with own(2) show ?thesis
      using mem_ok_parts(8) [OF assms p(2)]
      by (cases "m_release cb") (simp_all add: own_callback_context_def hs_types_post_response_callback_release_mem_def)
  qed (use own in \<open>simp add: own_callback_def hs_types_post_response_callback_release_mem_def\<close>)
qed

lemma framed_slots:
  assumes "mem_ok M C"
  shows "framed (own_slots C count)"
  unfolding own_slots_def
  by (rule framed_guard, rule framed_struct, simp del: map_map, rule framed_guard)
    (rule framed_field [OF framed_join [OF framed_callback [OF assms]], of "\<lambda>slots. map the (take count slots)"])

lemma owner_slots:
  assumes "mem_ok M C"
  shows "owner (own_slots C count)
    (\<lambda>p h. bindR (release_each (slot_at p) (hs_types_post_response_callback_release_mem M) 0 count h) (hs_io_free p))"
proof (intro owner.intro owner_axioms.intro framed_slots [OF assms])
  fix h p F
  assume own: "own_slots C count h p = Some F" "distinct F"
  then obtain a slots F1 where p: "p = Some a" "cells h a = Some (SlotsB slots)" "count \<le> length slots" "None \<notin> set (take count slots)"
    "join (map (own_callback C h) (map the (take count slots))) = Some F1" "F = F1 @ [a]"
    by (auto simp: own_slots_def own_struct_def Option.bind_eq_Some_conv
        split: if_splits option.splits)
  let ?ps = "map the (take count slots)"
  have "slot_at p i (gone G h) = ret (?ps ! i)" if "i < length ?ps" "a \<notin> set G" for i G
    using that p(1-4) by (auto simp: slot_at_def in_set_conv_nth split: option.splits)
  then have "release_each (slot_at p) (hs_types_post_response_callback_release_mem M) 0 (length ?ps) (gone [] h) = ret (gone ([] @ F1) h)"
    using own(2) p by (intro release_each_gone [OF owner_callback [OF assms], where a = a]) auto
  then show "bindR (release_each (slot_at p) (hs_types_post_response_callback_release_mem M) 0 count h) (hs_io_free p) = ret (gone F h)"
    using own(2) p by simp
qed

lemma owner_callbacks:
  assumes "mem_ok M C"
  shows "owner (own_callbacks C) (hs_types_post_response_callbacks_release_mem M)"
proof -
  have "owner (\<lambda>h cbs. own_slots C (m_count cbs) h (m_callbacks cbs))
    (\<lambda>cbs h. bindR (release_each (slot_at (m_callbacks cbs)) (hs_types_post_response_callback_release_mem M) 0 (m_count cbs) h)
                 (hs_io_free (m_callbacks cbs)))"
    using owner_slots [OF assms] unfolding owner_def framed_def owner_axioms_def by blast
  then show ?thesis
    unfolding own_callbacks_def hs_types_post_response_callbacks_release_mem_def by (intro struct_owner) simp
qed

section \<open>The state of a request\<close>

definition hs_types_router_flow_state_release_mem ::
  "ptr \<Rightarrow> ('v, 'sb, 'dt, 'fn) heap \<Rightarrow> ('v, 'sb, 'dt, 'fn) heap run" where
  "hs_types_router_flow_state_release_mem =
     release_struct as_router_state [\<lambda>state. hs_io_free (m_base_path state)]"

definition hs_types_route_flow_state_release_mem ::
  "('v, 'sb, 'dt, 'fn) mem_lib \<Rightarrow> ptr \<Rightarrow> ('v, 'sb, 'dt, 'fn) heap \<Rightarrow> ('v, 'sb, 'dt, 'fn) heap run" where
  "hs_types_route_flow_state_release_mem M =
     release_struct as_route_state
       [\<lambda>state. hs_types_array_string_pair_release_mem M (m_string_pairs state),
        \<lambda>state. m_hashtable_release M (m_data state)]"

definition hs_types_server_connection_state_release_mem ::
  "ptr \<Rightarrow> ('v, 'sb, 'dt, 'fn) heap \<Rightarrow> ('v, 'sb, 'dt, 'fn) heap run" where
  "hs_types_server_connection_state_release_mem =
     hs_io_free"

definition hs_types_serve_flow_params_release_mem ::
  "('v, 'sb, 'dt, 'fn) mem_lib \<Rightarrow> ptr \<Rightarrow> ('v, 'sb, 'dt, 'fn) heap \<Rightarrow> ('v, 'sb, 'dt, 'fn) heap run" where
  "hs_types_serve_flow_params_release_mem M =
     release_struct as_flow
       [\<lambda>params. hs_types_http_request_release_mem M (m_request params),
        \<lambda>params. hs_types_http_response_release_mem M (m_response params),
        \<lambda>params. hs_types_post_response_callbacks_release_mem M (m_flow_callbacks params),
        \<lambda>params. hs_types_route_flow_state_release_mem M (m_route_state params),
        \<lambda>params. hs_types_router_flow_state_release_mem (m_router_state params)]"

definition hs_routes_session_release_session_mem ::
  "('v, 'sb, 'dt, 'fn) mem_lib \<Rightarrow> ptr \<Rightarrow> ('v, 'sb, 'dt, 'fn) heap \<Rightarrow> ('v, 'sb, 'dt, 'fn) heap run" where
  "hs_routes_session_release_session_mem M =
     release_struct as_session [\<lambda>session. hs_io_free (m_session_id session), \<lambda>session. m_hashtable_release M (m_session_data session)]"

definition hs_routes_session_callback_release_mem ::
  "ptr \<Rightarrow> ('v, 'sb, 'dt, 'fn) heap \<Rightarrow> ('v, 'sb, 'dt, 'fn) heap run" where
  "hs_routes_session_callback_release_mem callback h =
     (if callback = None then ret h
      else bindR (load as_callback callback h)
             (\<lambda>cb. release_struct as_session_context [\<lambda>context. hs_io_free (m_callback_session_id context)] (m_context cb) h))"

definition own_router_state ::
  "('v, 'sb, 'dt, 'fn) heap \<Rightarrow> ptr \<Rightarrow> addr list option" where
  "own_router_state =
     own_struct as_router_state [\<lambda>h state. own_string h (m_base_path state)]"

definition own_route_state ::
  "('v, addr) vector_lib \<Rightarrow> ('v, 'sb, 'dt, 'fn) contract \<Rightarrow> ('v, 'sb, 'dt, 'fn) heap \<Rightarrow> ptr \<Rightarrow> addr list option" where
  "own_route_state V C =
     own_struct as_route_state
       [\<lambda>h state. own_pairs V h (m_string_pairs state),
        \<lambda>h state. own_table C h (m_data state)]"

definition own_flow ::
  "('v, addr) vector_lib \<Rightarrow> ('v, 'sb, 'dt, 'fn) contract \<Rightarrow> ('v, 'sb, 'dt, 'fn) heap \<Rightarrow> ptr \<Rightarrow> addr list option" where
  \<comment> \<open>the connection state belongs to the connection, not to the request\<close>
  "own_flow V C =
     own_struct as_flow
       [\<lambda>h params. own_request V h (m_request params),
        \<lambda>h params. own_response V h (m_response params),
        \<lambda>h params. own_callbacks C h (m_flow_callbacks params),
        \<lambda>h params. own_route_state V C h (m_route_state params),
        \<lambda>h params. own_router_state h (m_router_state params)]"

definition own_session ::
  "('v, 'sb, 'dt, 'fn) contract \<Rightarrow> ('v, 'sb, 'dt, 'fn) heap \<Rightarrow> ptr \<Rightarrow> addr list option" where
  "own_session C =
     own_struct as_session [\<lambda>h session. own_string h (m_session_id session), \<lambda>h session. own_table C h (m_session_data session)]"

definition own_session_context ::
  "('v, 'sb, 'dt, 'fn) heap \<Rightarrow> ptr \<Rightarrow> addr list option" where
  \<comment> \<open>the context of the callback of the session route: the route and its state belong to others\<close>
  "own_session_context =
     own_struct as_session_context [\<lambda>h context. own_string h (m_callback_session_id context)]"

interpretation router_state: owner own_router_state hs_types_router_flow_state_release_mem
  unfolding own_router_state_def hs_types_router_flow_state_release_mem_def
  by (rule struct_owner) (simp add: owner_field [OF str.owner_axioms])

interpretation session_context: owner own_session_context
  "release_struct as_session_context [\<lambda>context. hs_io_free (m_callback_session_id context)]"
  unfolding own_session_context_def
  by (rule struct_owner) (simp add: owner_field [OF str.owner_axioms])

lemma owner_route_state:
  assumes "mem_ok M C"
  shows "owner (own_route_state (vectors M) C) (hs_types_route_flow_state_release_mem M)"
  unfolding own_route_state_def hs_types_route_flow_state_release_mem_def
  by (rule struct_owner) (simp add: owner_field [OF owner_pairs [OF assms]] owner_field [OF mem_ok_parts(6) [OF assms]])

lemma owner_session:
  assumes "mem_ok M C"
  shows "owner (own_session C) (hs_routes_session_release_session_mem M)"
  unfolding own_session_def hs_routes_session_release_session_mem_def
  by (rule struct_owner) (simp add: owner_field [OF str.owner_axioms] owner_field [OF mem_ok_parts(6) [OF assms]])

lemma owner_flow:
  assumes "mem_ok M C"
  shows "owner (own_flow (vectors M) C) (hs_types_serve_flow_params_release_mem M)"
  unfolding own_flow_def hs_types_serve_flow_params_release_mem_def
  by (rule struct_owner)
    (simp add: owner_field [OF owner_request [OF assms]] owner_field [OF owner_response [OF assms]]
      owner_field [OF owner_callbacks [OF assms]] owner_field [OF owner_route_state [OF assms]] owner_field [OF router_state.owner_axioms])

lemma session_callback_release:
  \<comment> \<open>the release function of the session route keeps the contract of callbacks\<close>
  assumes "cells h a = Some (CallbackB cb)" and "own_session_context h (m_context cb) = Some F" and "distinct (F @ [a])"
  shows "hs_routes_session_callback_release_mem (Some a) h = ret (gone F h)"
  using assms session_context.release [of h "m_context cb" F] by (simp add: hs_routes_session_callback_release_mem_def)


section \<open>An instance of the external functions\<close>

text \<open>Vectors are lists, tables are empty, and the only release function is the one of the session route.\<close>

definition reference_mem :: "(addr list, string, unit, unit) mem_lib" where
  "reference_mem =
     \<lparr>vectors = list_vector, m_vector_new = malloc (VectorB []), m_vector_release = hs_io_free, m_stringbuffer_release = hs_io_free,
      m_hashtable_new = malloc (TableB ()), m_hashtable_release = hs_io_free, m_call = (\<lambda>_. hs_routes_session_callback_release_mem)\<rparr>"

definition reference_contract :: "(addr list, string, unit, unit) contract" where
  "reference_contract = \<lparr>own_table = own_struct as_table [], own_context = (\<lambda>_. own_session_context)\<rparr>"

lemma reference_mem_ok: "mem_ok reference_mem reference_contract"
  unfolding mem_ok_def
proof (intro conjI allI impI)
  show "vector_ok (vectors reference_mem)" by (simp add: reference_mem_def list_vector_ok)
  show "m_vector_new reference_mem h = malloc (VectorB (vector_new (vectors reference_mem))) h" for h
    by (simp add: reference_mem_def list_vector_def)
  show "m_vector_release reference_mem (Some a) h = ret (gone [a] h)" if "cells h a = Some (VectorB v)" for h a v
    using that by (simp add: reference_mem_def)
  show "owner own_buffer (m_stringbuffer_release reference_mem)"
    unfolding own_buffer_def by (simp add: reference_mem_def owner_block)
  show "owner (own_table reference_contract) (m_hashtable_release reference_mem)"
    by (simp add: reference_mem_def reference_contract_def owner_block)
  show "\<exists>t. m_hashtable_new reference_mem h = malloc (TableB t) h
    \<and> own_table reference_contract (snd (malloc (TableB t) h)) (Some (next_addr h)) = Some [next_addr h]" for h
    by (simp add: reference_mem_def reference_contract_def own_struct_def)
  show "framed (own_context reference_contract fn)" for fn
    by (simp add: reference_contract_def session_context.framed_axioms)
  show "m_call reference_mem fn (Some a) h = ret (gone F h)"
    if "cells h a = Some (CallbackB cb)" "m_release cb = Some fn" "own_context reference_contract fn h (m_context cb) = Some F" "distinct (F @ [a])"
    for h a cb fn F
    using that session_callback_release by (simp add: reference_mem_def reference_contract_def)
qed

section \<open>Releasing the state of a request\<close>

text \<open>
  C13. Releasing the state of a request frees exactly what it owns: request, response, callbacks with
  their contexts and the states of router and routes. Nothing is leaked, nothing else is freed, no
  block is freed twice, and the connection state stays. A second release is a use after free.
\<close>

theorem flow_release_frees_exactly:
  assumes "mem_ok M C" and "own_flow (vectors M) C h (Some p) = Some F" and "distinct F"
  shows "hs_types_serve_flow_params_release_mem M (Some p) h = ret (gone F h)
    \<and> hs_types_serve_flow_params_release_mem M (Some p) (gone F h) = ub UseAfterFree"
proof
  show "hs_types_serve_flow_params_release_mem M (Some p) h = ret (gone F h)"
    by (rule owner.release [OF owner_flow [OF assms(1)] assms(2,3)])
  have "p \<in> set F" using assms(2) by (auto simp: own_flow_def elim!: own_structE)
  then show "hs_types_serve_flow_params_release_mem M (Some p) (gone F h) = ub UseAfterFree"
    by (simp add: hs_types_serve_flow_params_release_mem_def release_struct_def load_def)
qed

theorem flow_release_frees_exactly_witness:
  "let h = \<lparr>cells = [0 \<mapsto> StringB ''/a'',
                      1 \<mapsto> RequestB \<lparr>m_req_method = HS_HTTP_METHOD_GET, m_req_domain = None, m_req_port = -1, m_req_ssl = False,
                            m_req_resource = Some 0, m_req_query_string = None, m_req_user_agent = None, m_req_authorization = None,
                            m_req_content_length = 0, m_req_connection = HS_CONNECTION_TYPE_UNKNOWN, m_req_cookies = None,
                            m_req_headers = None, m_req_payload = None\<rparr>,
                      2 \<mapsto> StringB ''id'',
                      3 \<mapsto> SessionContextB \<lparr>m_callback_session_id = Some 2, m_callback_route_context = None, m_callback_route_state = None\<rparr>,
                      4 \<mapsto> CallbackB \<lparr>m_context = Some 3, m_run = None, m_release = Some ()\<rparr>,
                      5 \<mapsto> SlotsB [Some (Some 4)],
                      6 \<mapsto> CallbacksB \<lparr>m_callbacks = Some 5, m_count = 1, m_capacity = 1\<rparr>,
                      7 \<mapsto> FlowB \<lparr>m_request = Some 1, m_response = None, m_flow_callbacks = Some 6, m_route_state = None,
                            m_router_state = None, m_connection_state = None\<rparr>,
                      8 \<mapsto> StringB ''other''],
               next_addr = 9\<rparr> :: (addr list, string, unit, unit) heap
   in hs_types_serve_flow_params_release_mem reference_mem (Some 7) h = ret (gone [0, 1, 2, 3, 4, 5, 6, 7] h)
    \<and> hs_types_serve_flow_params_release_mem reference_mem (Some 7) (gone [0, 1, 2, 3, 4, 5, 6, 7] h) = ub UseAfterFree"
  unfolding Let_def
  by (rule flow_release_frees_exactly [OF reference_mem_ok])
    (simp_all add: own_flow_def own_request_def own_response_def own_callbacks_def own_slots_def own_callback_def own_callback_context_def
      own_session_context_def own_route_state_def own_router_state_def own_struct_def own_string_def own_cookies_def own_pairs_def
      own_payload_def reference_contract_def)

end
