(* ===== verification/Ownership.thy ===== *)
theory Ownership
  imports Memory
begin

text \<open>
  The constructors of the structs of \<open>src/hs_types.c\<close>, \<open>src/hs_types_array.c\<close>,
  \<open>src/hs_types_cookie.c\<close> and \<open>src/hs_io.c\<close> and the operations that pass pointers into and out of
  them, on the heap: what is allocated is owned by what is returned, and what is passed in is owned
  by the struct afterwards. As in \<open>Memory\<close>, a definition with the suffix \<open>_mem\<close> is the C function of
  that name. A constructor allocates its fields before the struct here; addresses are the only
  difference.
\<close>

section \<open>Constructors\<close>

definition hs_types_array_string_pair_new_mem ::
  "('v, 'sb, 'dt, 'fn) mem_lib \<Rightarrow> ('v, 'sb, 'dt, 'fn) heap \<Rightarrow> ptr \<times> ('v, 'sb, 'dt, 'fn) heap" where
  "hs_types_array_string_pair_new_mem M h = (let (vector, h1) = m_vector_new M h in malloc (PairsB vector) h1)"

definition hs_types_cookie_new_mem ::
  "('v, 'sb, 'dt, 'fn) heap \<Rightarrow> ptr \<times> ('v, 'sb, 'dt, 'fn) heap" where
  "hs_types_cookie_new_mem h =
     malloc (CookieB \<lparr>m_name = None, m_cookie_value = None, m_expires = None, m_max_age = -1, m_secure = False,
       m_http_only = False, m_domain = None, m_path = None, m_same_site = HS_COOKIE_SAME_SITE_LAX\<rparr>) h"

definition hs_types_cookies_new_mem ::
  "('v, 'sb, 'dt, 'fn) mem_lib \<Rightarrow> ('v, 'sb, 'dt, 'fn) heap \<Rightarrow> ptr \<times> ('v, 'sb, 'dt, 'fn) heap" where
  "hs_types_cookies_new_mem M h = (let (vector, h1) = m_vector_new M h in malloc (CookiesB vector) h1)"

definition hs_types_http_request_new_mem ::
  "('v, 'sb, 'dt, 'fn) mem_lib \<Rightarrow> ('v, 'sb, 'dt, 'fn) heap \<Rightarrow> ptr \<times> ('v, 'sb, 'dt, 'fn) heap" where
  "hs_types_http_request_new_mem M h =
     (let (cookies, h1) = hs_types_cookies_new_mem M h;
          (headers, h2) = hs_types_array_string_pair_new_mem M h1
      in malloc (RequestB \<lparr>m_req_method = HS_HTTP_METHOD_GET, m_req_domain = None, m_req_port = -1, m_req_ssl = False,
           m_req_resource = None, m_req_query_string = None, m_req_user_agent = None, m_req_authorization = None,
           m_req_content_length = 0, m_req_connection = HS_CONNECTION_TYPE_UNKNOWN, m_req_cookies = cookies,
           m_req_headers = headers, m_req_payload = None\<rparr>) h2)"

definition hs_types_http_response_new_mem ::
  "('v, 'sb, 'dt, 'fn) mem_lib \<Rightarrow> ('v, 'sb, 'dt, 'fn) heap \<Rightarrow> ptr \<times> ('v, 'sb, 'dt, 'fn) heap" where
  "hs_types_http_response_new_mem M h =
     (let (cookies, h1) = hs_types_cookies_new_mem M h;
          (headers, h2) = hs_types_array_string_pair_new_mem M h1
      in malloc (ResponseB \<lparr>m_resp_code = HS_HTTP_RESPONSE_CODE_OK, m_resp_cookies = cookies, m_resp_headers = headers,
           m_resp_mime_type = HS_MIME_TYPE_NONE, m_resp_content_string = None, m_resp_content_file = None\<rparr>) h2)"

definition hs_types_post_response_callback_new_mem ::
  "('v, 'sb, 'dt, 'fn) heap \<Rightarrow> ptr \<times> ('v, 'sb, 'dt, 'fn) heap" where
  "hs_types_post_response_callback_new_mem h = malloc (CallbackB \<lparr>m_context = None, m_run = None, m_release = None\<rparr>) h"

definition hs_types_post_response_callbacks_new_mem ::
  "nat \<Rightarrow> ('v, 'sb, 'dt, 'fn) heap \<Rightarrow> ptr \<times> ('v, 'sb, 'dt, 'fn) heap" where
  "hs_types_post_response_callbacks_new_mem capacity h =
     (let (slots, h1) = malloc (SlotsB (replicate capacity None)) h
      in malloc (CallbacksB \<lparr>m_callbacks = slots, m_count = 0, m_capacity = capacity\<rparr>) h1)"

definition hs_types_router_flow_state_new_mem ::
  "('v, 'sb, 'dt, 'fn) heap \<Rightarrow> ptr \<times> ('v, 'sb, 'dt, 'fn) heap" where
  "hs_types_router_flow_state_new_mem h =
     malloc (RouterStateB \<lparr>m_done = False, m_closed_connection = False, m_base_path = None\<rparr>) h"

definition hs_types_route_flow_state_new_mem ::
  "('v, 'sb, 'dt, 'fn) mem_lib \<Rightarrow> ('v, 'sb, 'dt, 'fn) heap \<Rightarrow> ptr \<times> ('v, 'sb, 'dt, 'fn) heap" where
  "hs_types_route_flow_state_new_mem M h =
     (let (string_pairs, h1) = hs_types_array_string_pair_new_mem M h;
          (data, h2) = m_hashtable_new M h1
      in malloc (RouteStateB \<lparr>m_string_pairs = string_pairs, m_data = data\<rparr>) h2)"

definition hs_types_serve_flow_params_new_pre_populated_mem ::
  "('v, 'sb, 'dt, 'fn) mem_lib \<Rightarrow> ptr \<Rightarrow> ('v, 'sb, 'dt, 'fn) heap \<Rightarrow> ptr \<times> ('v, 'sb, 'dt, 'fn) heap" where
  "hs_types_serve_flow_params_new_pre_populated_mem M req h =
     (let (resp, h1) = hs_types_http_response_new_mem M h;
          (cbs, h2) = hs_types_post_response_callbacks_new_mem 1 h1;
          (route, h3) = hs_types_route_flow_state_new_mem M h2;
          (router, h4) = hs_types_router_flow_state_new_mem h3
      in malloc (FlowB \<lparr>m_request = req, m_response = resp, m_flow_callbacks = cbs, m_route_state = route,
           m_router_state = router, m_connection_state = None\<rparr>) h4)"

definition hs_types_serve_flow_params_new_mem ::
  "('v, 'sb, 'dt, 'fn) mem_lib \<Rightarrow> ('v, 'sb, 'dt, 'fn) heap \<Rightarrow> ptr \<times> ('v, 'sb, 'dt, 'fn) heap" where
  "hs_types_serve_flow_params_new_mem M h =
     (let (req, h1) = hs_types_http_request_new_mem M h in hs_types_serve_flow_params_new_pre_populated_mem M req h1)"

definition hs_routes_session_new_session_mem ::
  "('v, 'sb, 'dt, 'fn) mem_lib \<Rightarrow> ('v, 'sb, 'dt, 'fn) heap \<Rightarrow> ptr \<times> ('v, 'sb, 'dt, 'fn) heap" where
  "hs_routes_session_new_session_mem M h =
     (let (data, h1) = m_hashtable_new M h in malloc (SessionB \<lparr>m_session_id = None, m_session_data = data\<rparr>) h1)"

definition hs_io_new_http_request_payload_mem ::
  "HSSocket option \<Rightarrow> ptr \<Rightarrow> ('v, 'sb, 'dt, 'fn) heap \<Rightarrow> ptr \<times> ('v, 'sb, 'dt, 'fn) heap" where
  "hs_io_new_http_request_payload_mem socket buffer h =
     (if \<not> hs_socket_is_open socket \<or> buffer = None then (None, h)
      else malloc (IOPayloadB \<lparr>m_socket = socket, m_partial = buffer\<rparr>) h)"

definition hs_types_http_request_new_payload_mem ::
  "ptr \<Rightarrow> ('v, 'sb, 'dt, 'fn) heap \<Rightarrow> ptr \<times> ('v, 'sb, 'dt, 'fn) heap" where
  "hs_types_http_request_new_payload_mem io h = malloc (PayloadB \<lparr>m_loaded = False, m_payload = io\<rparr>) h"

section \<open>A constructor hands over all it allocates\<close>

definition creates ::
  "(('v, 'sb, 'dt, 'fn) heap \<Rightarrow> ptr \<Rightarrow> addr list option) \<Rightarrow> ('v, 'sb, 'dt, 'fn) heap \<Rightarrow> addr list
    \<Rightarrow> ptr \<times> ('v, 'sb, 'dt, 'fn) heap \<Rightarrow> bool" where
  \<comment> \<open>the blocks \<open>F\<close> have been passed in; everything is owned by the result\<close>
  "creates own h F r \<longleftrightarrow> (\<exists>F'. own (snd r) (fst r) = Some F' \<and> accounts h F (snd r) F')"

lemma createsE:
  assumes "creates own h F r"
  obtains p h1 F' where "r = (p, h1)" "own h1 p = Some F'" "accounts h F h1 F'"
  using assms by (cases r) (auto simp: creates_def)

lemma creates_struct:
  assumes "accounts h F0 h1 F" and "as b = Some s" and "join (map (\<lambda>own. own h1 s) os) = Some F" and "list_all framed os"
  shows "creates (own_struct as os) h F0 (malloc b h1)"
proof -
  let ?h2 = "snd (malloc b h1)"
  have "\<forall>a \<in> set F. cells ?h2 a = cells h1 a"
    using accounts_malloc_next(2) [OF assms(1)] by auto
  then have "join (map (\<lambda>own. own ?h2 s) os) = Some F"
  proof (intro join_map_cong [OF assms(3)])
    fix own G assume own: "own \<in> set os" "own h1 s = Some G" "set G \<subseteq> set F"
    then have "framed own" using assms(4) by (simp add: list_all_iff)
    then show "own ?h2 s = Some G" using own(2)
      by (rule framed.frame) (use \<open>\<forall>a \<in> set F. cells ?h2 a = cells h1 a\<close> own(3) in blast)
  qed
  then have "own_struct as os ?h2 (Some (next_addr h1)) = Some (F @ [next_addr h1])"
    using assms(2) by (intro own_structI) simp_all
  then show ?thesis using accounts_malloc_next(1) [OF assms(1), of b] by (simp add: creates_def)
qed

lemma creates_leaf:
  assumes "heap_ok h" and "as b = Some s" and "join (map (\<lambda>own. own h s) os) = Some []" and "list_all framed os"
  shows "creates (own_struct as os) h [] (malloc b h)"
  by (rule creates_struct) (use assms in auto)

named_theorems framed_rules
  \<comment> \<open>what a pointer owns depends on its blocks only\<close>

lemma framed_structs [framed_rules]:
  "framed own_string" "framed own_payload" "framed own_router_state" "framed own_named_cookie" "framed own_pair"
  "framed (own_elements V own_pair)" "framed (own_elements V own_named_cookie)"
  by (rule str.framed_axioms framed_payload router_state.framed_axioms framed_elements pair.framed_axioms named_cookie.framed_axioms)+

lemma framed_containers [framed_rules]: "framed (own_pairs V)" "framed (own_cookies V)"
  unfolding own_pairs_def own_cookies_def
  by (rule framed_struct, simp add: framed_structs)+

lemma framed_request [framed_rules]: "framed (own_request V)"
  unfolding own_request_def
  by (rule framed_struct) (simp, intro conjI; rule framed_field, rule framed_rules)

lemma framed_response [framed_rules]: "framed (own_response V)"
  unfolding own_response_def
  by (rule framed_struct) (simp, intro conjI; rule framed_field, rule framed_rules)

lemma new_vector:
  assumes "mem_ok M C" and "heap_ok h"
  shows "own_elements (vectors M) own (snd (m_vector_new M h)) (fst (m_vector_new M h)) = Some [next_addr h]"
    and "accounts h [] (snd (m_vector_new M h)) [next_addr h]"
  using accounts_malloc [OF assms(2), of "[]"] vector_laws(3) [OF mem_ok_parts(1) [OF assms(1)]]
  by (simp_all add: mem_ok_parts(2) [OF assms(1)] own_elements_Some)

lemma array_new_creates:
  assumes "mem_ok M C" and "heap_ok h"
  shows "creates (own_pairs (vectors M)) h [] (hs_types_array_string_pair_new_mem M h)"
  unfolding own_pairs_def hs_types_array_string_pair_new_mem_def Let_def split_def
  using new_vector(1) [OF assms, of own_pair]
  by (intro creates_struct [OF new_vector(2) [OF assms]], simp) (simp_all add: framed_rules)

lemma cookies_new_creates:
  assumes "mem_ok M C" and "heap_ok h"
  shows "creates (own_cookies (vectors M)) h [] (hs_types_cookies_new_mem M h)"
  unfolding own_cookies_def hs_types_cookies_new_mem_def Let_def split_def
  using new_vector(1) [OF assms, of own_named_cookie]
  by (intro creates_struct [OF new_vector(2) [OF assms]], simp) (simp_all add: framed_rules)

lemma own_string_None [simp]: "own_string h None = Some []"
  by (simp add: own_string_def)

lemma own_payload_None [simp]: "own_payload h None = Some []"
  by (simp add: own_payload_def)

lemma request_new_creates:
  assumes "mem_ok M C" and "heap_ok h"
  shows "creates (own_request (vectors M)) h [] (hs_types_http_request_new_mem M h)"
proof -
  obtain c h1 F1 where c: "hs_types_cookies_new_mem M h = (c, h1)" "own_cookies (vectors M) h1 c = Some F1" "accounts h [] h1 F1"
    by (rule createsE [OF cookies_new_creates [OF assms]])
  obtain a h2 F2 where a: "hs_types_array_string_pair_new_mem M h1 = (a, h2)" "own_pairs (vectors M) h2 a = Some F2" "accounts h1 [] h2 F2"
    by (rule createsE [OF array_new_creates [OF assms(1) accountsD(1) [OF c(3)]]])
  have "own_cookies (vectors M) h2 c = Some F1" by (rule accounts_next(3) [OF c(3) a(3) framed_containers(2) c(2)])
  with a(2) show ?thesis
    unfolding own_request_def hs_types_http_request_new_mem_def c(1) a(1) Let_def split_conv
    by (intro creates_struct [OF accounts_next(1) [OF c(3) a(3)]], simp) (simp_all add: framed_field framed_rules)
qed

lemma response_new_creates:
  assumes "mem_ok M C" and "heap_ok h"
  shows "creates (own_response (vectors M)) h [] (hs_types_http_response_new_mem M h)"
proof -
  obtain c h1 F1 where c: "hs_types_cookies_new_mem M h = (c, h1)" "own_cookies (vectors M) h1 c = Some F1" "accounts h [] h1 F1"
    by (rule createsE [OF cookies_new_creates [OF assms]])
  obtain a h2 F2 where a: "hs_types_array_string_pair_new_mem M h1 = (a, h2)" "own_pairs (vectors M) h2 a = Some F2" "accounts h1 [] h2 F2"
    by (rule createsE [OF array_new_creates [OF assms(1) accountsD(1) [OF c(3)]]])
  have "own_cookies (vectors M) h2 c = Some F1" by (rule accounts_next(3) [OF c(3) a(3) framed_containers(2) c(2)])
  with a(2) show ?thesis
    unfolding own_response_def hs_types_http_response_new_mem_def c(1) a(1) Let_def split_conv
    by (intro creates_struct [OF accounts_next(1) [OF c(3) a(3)]], simp) (simp_all add: framed_field framed_rules)
qed

lemma callback_new_creates:
  assumes "mem_ok M C" and "heap_ok h"
  shows "creates (own_callback C) h [] (hs_types_post_response_callback_new_mem h)"
  using accounts_malloc [OF assms(2), of "[]"]
  by (simp add: creates_def own_callback_def hs_types_post_response_callback_new_mem_def own_struct_def own_callback_context_def)

lemma callbacks_new_creates:
  assumes "mem_ok M C" and "heap_ok h"
  shows "creates (own_callbacks C) h [] (hs_types_post_response_callbacks_new_mem n h)"
proof -
  have fr: "framed (\<lambda>h cbs. own_slots C (m_count cbs) h (m_callbacks cbs))"
    using framed_slots [OF assms(1)] unfolding framed_def by blast
  have "accounts h [] (snd (malloc (SlotsB (replicate n None)) h)) ([] @ [next_addr h])"
    by (rule accounts_malloc) (use assms in auto)
  then show ?thesis
    unfolding own_callbacks_def hs_types_post_response_callbacks_new_mem_def Let_def split_def append_Nil
    by (rule creates_struct, simp) (simp add: own_slots_def own_struct_def, use fr in simp)
qed

lemma router_state_new_creates:
  assumes "heap_ok h"
  shows "creates own_router_state h [] (hs_types_router_flow_state_new_mem h)"
  unfolding own_router_state_def hs_types_router_flow_state_new_mem_def
  by (rule creates_leaf [OF assms], simp) (simp_all add: framed_field framed_rules)

lemma new_table:
  assumes "mem_ok M C" and "heap_ok h"
  shows "creates (own_table C) h [] (m_hashtable_new M h)"
  using mem_ok_parts(5) [OF assms(1), of h] accounts_malloc [OF assms(2), of "[]"] by (auto simp: creates_def)

lemma route_state_new_creates:
  assumes "mem_ok M C" and "heap_ok h"
  shows "creates (own_route_state (vectors M) C) h [] (hs_types_route_flow_state_new_mem M h)"
proof -
  obtain a h1 F1 where a: "hs_types_array_string_pair_new_mem M h = (a, h1)" "own_pairs (vectors M) h1 a = Some F1" "accounts h [] h1 F1"
    by (rule createsE [OF array_new_creates [OF assms]])
  obtain t h2 F2 where t: "m_hashtable_new M h1 = (t, h2)" "own_table C h2 t = Some F2" "accounts h1 [] h2 F2"
    by (rule createsE [OF new_table [OF assms(1) accountsD(1) [OF a(3)]]])
  have "own_pairs (vectors M) h2 a = Some F1" by (rule accounts_next(3) [OF a(3) t(3) framed_containers(1) a(2)])
  with t(2) show ?thesis
    unfolding own_route_state_def hs_types_route_flow_state_new_mem_def a(1) t(1) Let_def split_conv
    by (intro creates_struct [OF accounts_next(1) [OF a(3) t(3)]], simp)
      (simp_all add: framed_field framed_rules owner.axioms(1) [OF mem_ok_parts(6) [OF assms(1)]])
qed

lemma session_new_creates:
  assumes "mem_ok M C" and "heap_ok h"
  shows "creates (own_session C) h [] (hs_routes_session_new_session_mem M h)"
proof -
  obtain t h1 F where t: "m_hashtable_new M h = (t, h1)" "own_table C h1 t = Some F" "accounts h [] h1 F"
    by (rule createsE [OF new_table [OF assms]])
  then show ?thesis
    unfolding own_session_def hs_routes_session_new_session_mem_def t(1) Let_def split_conv
    by (intro creates_struct [OF t(3)], simp)
      (simp_all add: framed_field framed_rules owner.axioms(1) [OF mem_ok_parts(6) [OF assms(1)]])
qed

lemma flow_new_creates:
  assumes "mem_ok M C" and "heap_ok h" and "own_request (vectors M) h req = Some F" and "distinct F"
  shows "creates (own_flow (vectors M) C) h F (hs_types_serve_flow_params_new_pre_populated_mem M req h)"
proof -
  have q: "accounts h F h F"
    using framed.accounts_own [OF framed_request assms(3,2,4)] .
  obtain p h1 F1 where p: "hs_types_http_response_new_mem M h = (p, h1)" "own_response (vectors M) h1 p = Some F1" "accounts h [] h1 F1"
    by (rule createsE [OF response_new_creates [OF assms(1,2)]])
  note a1 = accounts_next [OF q p(3)]
  obtain c h2 F2 where c: "hs_types_post_response_callbacks_new_mem 1 h1 = (c, h2)" "own_callbacks C h2 c = Some F2" "accounts h1 [] h2 F2"
    by (rule createsE [OF callbacks_new_creates [OF assms(1) accountsD(1) [OF a1(1)]]])
  note a2 = accounts_next [OF a1(1) c(3)]
  obtain s h3 F3 where s: "hs_types_route_flow_state_new_mem M h2 = (s, h3)" "own_route_state (vectors M) C h3 s = Some F3" "accounts h2 [] h3 F3"
    by (rule createsE [OF route_state_new_creates [OF assms(1) accountsD(1) [OF a2(1)]]])
  note a3 = accounts_next [OF a2(1) s(3)]
  obtain r h4 F4 where r: "hs_types_router_flow_state_new_mem h3 = (r, h4)" "own_router_state h4 r = Some F4" "accounts h3 [] h4 F4"
    by (rule createsE [OF router_state_new_creates [OF accountsD(1) [OF a3(1)]]])
  note a4 = accounts_next [OF a3(1) r(3)]
  note callbacks = owner.axioms(1) [OF owner_callbacks [OF assms(1)]]
  note route_state = owner.axioms(1) [OF owner_route_state [OF assms(1)]]
  have "own_request (vectors M) h4 req = Some F" "own_response (vectors M) h4 p = Some F1"
    by (rule a4(3) a3(3) a2(3) a1(3) framed_request framed_response assms(3) p(2))+
  moreover have "own_callbacks C h4 c = Some F2" "own_route_state (vectors M) C h4 s = Some F3"
    by (rule a4(3) a3(3) callbacks route_state c(2) s(2))+
  ultimately show ?thesis
    unfolding own_flow_def hs_types_serve_flow_params_new_pre_populated_mem_def p(1) c(1) s(1) r(1) Let_def split_conv
    by (intro creates_struct [OF a4(1)], simp) (use r(2) in \<open>simp_all add: framed_field framed_rules callbacks route_state\<close>)
qed

end
