(* ===== verification/Ownership_Ops.thy ===== *)
theory Ownership_Ops
  imports Ownership
begin

text \<open>
  The operations on the containers of pairs and of cookies, on the heap: what is added belongs to
  the container, what is removed is released, and the content changes as for the lists of
  \<open>Types_Array\<close> and \<open>Types_Cookie\<close>.
\<close>

section \<open>Strings and vectors in the heap\<close>

definition text_at :: "ptr \<Rightarrow> ('v, 'sb, 'dt, 'fn) heap \<Rightarrow> cstr run" where
  \<comment> \<open>the string a \<open>char *\<close> points to when a function reads it\<close>
  "text_at p h = (if p = None then ret None else bindR (load as_string p h) (\<lambda>s. ret (Some s)))"

definition push_at ::
  "('v, addr) vector_lib \<Rightarrow> ptr \<Rightarrow> ptr \<Rightarrow> ('v, 'sb, 'dt, 'fn) heap \<Rightarrow> ('v, 'sb, 'dt, 'fn) heap run" where
  \<comment> \<open>\<open>vector_push(vector, element)\<close>\<close>
  "push_at V vector element h =
     bindR (load as_vector vector h) (\<lambda>v. store vector (VectorB (vector_push V v (the element))) h)"

definition remove_step ::
  "('v, addr) vector_lib \<Rightarrow> (ptr \<Rightarrow> ('v, 'sb, 'dt, 'fn) heap \<Rightarrow> bool run)
    \<Rightarrow> (ptr \<Rightarrow> ('v, 'sb, 'dt, 'fn) heap \<Rightarrow> ('v, 'sb, 'dt, 'fn) heap run)
    \<Rightarrow> ptr \<Rightarrow> nat \<Rightarrow> ('v, 'sb, 'dt, 'fn) heap \<Rightarrow> ('v, 'sb, 'dt, 'fn) heap run" where
  \<comment> \<open>the body of the loops that remove by key or name: an element that matches is released first and
    taken out of the vector afterwards\<close>
  "remove_step V match release vector index h =
     bindR (vector_at V vector index h)
       (\<lambda>p. bindR (match p h)
          (\<lambda>m. if m
               then bindR (release p h)
                      (\<lambda>h1. bindR (load as_vector vector h1)
                         (\<lambda>v. store vector (VectorB (vector_remove V v index)) h1))
               else ret h))"

primrec remove_loop ::
  "('v, addr) vector_lib \<Rightarrow> (ptr \<Rightarrow> ('v, 'sb, 'dt, 'fn) heap \<Rightarrow> bool run)
    \<Rightarrow> (ptr \<Rightarrow> ('v, 'sb, 'dt, 'fn) heap \<Rightarrow> ('v, 'sb, 'dt, 'fn) heap run)
    \<Rightarrow> ptr \<Rightarrow> nat \<Rightarrow> ('v, 'sb, 'dt, 'fn) heap \<Rightarrow> ('v, 'sb, 'dt, 'fn) heap run" where
  \<comment> \<open>from the last index down to 0\<close>
  "remove_loop V match release vector 0 h = remove_step V match release vector 0 h"
| "remove_loop V match release vector (Suc index) h =
     bindR (remove_step V match release vector (Suc index) h) (remove_loop V match release vector index)"

section \<open>Pairs\<close>

definition hs_types_array_pair_add_mem ::
  "('v, 'sb, 'dt, 'fn) mem_lib \<Rightarrow> ptr \<Rightarrow> ptr \<Rightarrow> ptr \<Rightarrow> ('v, 'sb, 'dt, 'fn) heap \<Rightarrow> (bool \<times> ('v, 'sb, 'dt, 'fn) heap) run" where
  "hs_types_array_pair_add_mem M vector key value h =
     (if vector = None \<or> key = None then ret (False, h)
      else let (pair, h1) = malloc (PairB \<lparr>m_key = key, m_value = value\<rparr>) h
           in bindR (push_at (vectors M) vector pair h1) (\<lambda>h2. ret (True, h2)))"

definition hs_types_array_string_pair_add_mem ::
  "('v, 'sb, 'dt, 'fn) mem_lib \<Rightarrow> ptr \<Rightarrow> ptr \<Rightarrow> ptr \<Rightarrow> ('v, 'sb, 'dt, 'fn) heap \<Rightarrow> (bool \<times> ('v, 'sb, 'dt, 'fn) heap) run" where
  "hs_types_array_string_pair_add_mem M array key value h =
     (if array = None then ret (False, h)
      else bindR (load as_pairs array h) (\<lambda>vector. hs_types_array_pair_add_mem M vector key value h))"

definition pair_matches ::
  "('sb, 'pv, 'cv, 'ht, 'sh) libs \<Rightarrow> ptr \<Rightarrow> ptr \<Rightarrow> ('v, 'sb, 'dt, 'fn) heap \<Rightarrow> bool run" where
  \<comment> \<open>\<open>pair != NULL && stringfn_equal(pair->key, key)\<close>\<close>
  "pair_matches L key pair h =
     (if pair = None then ret False
      else bindR (load as_pair pair h)
             (\<lambda>p. bindR (text_at (m_key p) h) (\<lambda>k. bindR (text_at key h) (\<lambda>k'. ret (stringfn_equal L k k')))))"

definition hs_types_array_pair_remove_by_key_mem ::
  "('sb, 'pv, 'cv, 'ht, 'sh) libs \<Rightarrow> ('v, 'sb, 'dt, 'fn) mem_lib \<Rightarrow> ptr \<Rightarrow> ptr \<Rightarrow> bool
    \<Rightarrow> ('v, 'sb, 'dt, 'fn) heap \<Rightarrow> ('v, 'sb, 'dt, 'fn) heap run" where
  "hs_types_array_pair_remove_by_key_mem L M vector key release_value h =
     (if vector = None \<or> key = None then ret h
      else bindR (load as_vector vector h)
             (\<lambda>v. let count = vector_size (vectors M) v
                  in if count = 0 then ret h
                     else remove_loop (vectors M) (pair_matches L key) (hs_types_array_pair_release_mem release_value)
                            vector (count - 1) h))"

definition hs_types_array_string_pair_remove_by_key_mem ::
  "('sb, 'pv, 'cv, 'ht, 'sh) libs \<Rightarrow> ('v, 'sb, 'dt, 'fn) mem_lib \<Rightarrow> ptr \<Rightarrow> ptr
    \<Rightarrow> ('v, 'sb, 'dt, 'fn) heap \<Rightarrow> ('v, 'sb, 'dt, 'fn) heap run" where
  "hs_types_array_string_pair_remove_by_key_mem L M array key h =
     (if array = None then ret h
      else bindR (load as_pairs array h) (\<lambda>vector. hs_types_array_pair_remove_by_key_mem L M vector key True h))"

section \<open>Cookies\<close>

definition hs_types_cookies_add_mem ::
  "('v, 'sb, 'dt, 'fn) mem_lib \<Rightarrow> ptr \<Rightarrow> ptr \<Rightarrow> ('v, 'sb, 'dt, 'fn) heap \<Rightarrow> (bool \<times> ('v, 'sb, 'dt, 'fn) heap) run" where
  "hs_types_cookies_add_mem M cookies cookie h =
     (if cookies = None \<or> cookie = None then ret (False, h)
      else bindR (load as_cookie cookie h)
             (\<lambda>c. if m_name c = None \<or> m_cookie_value c = None then ret (False, h)
                  else bindR (load as_cookies cookies h)
                         (\<lambda>vector. bindR (push_at (vectors M) vector cookie h) (\<lambda>h1. ret (True, h1)))))"

definition cookie_matches ::
  "('sb, 'pv, 'cv, 'ht, 'sh) libs \<Rightarrow> ptr \<Rightarrow> ptr \<Rightarrow> ('v, 'sb, 'dt, 'fn) heap \<Rightarrow> bool run" where
  \<comment> \<open>\<open>stringfn_equal(cookie->name, name)\<close>\<close>
  "cookie_matches L name cookie h =
     bindR (load as_cookie cookie h)
       (\<lambda>c. bindR (text_at (m_name c) h) (\<lambda>n. bindR (text_at name h) (\<lambda>n'. ret (stringfn_equal L n n'))))"

definition hs_types_cookies_remove_by_name_mem ::
  "('sb, 'pv, 'cv, 'ht, 'sh) libs \<Rightarrow> ('v, 'sb, 'dt, 'fn) mem_lib \<Rightarrow> ptr \<Rightarrow> ptr
    \<Rightarrow> ('v, 'sb, 'dt, 'fn) heap \<Rightarrow> ('v, 'sb, 'dt, 'fn) heap run" where
  "hs_types_cookies_remove_by_name_mem L M cookies name h =
     (if cookies = None \<or> name = None then ret h
      else bindR (load as_cookies cookies h)
             (\<lambda>vector. bindR (load as_vector vector h)
                (\<lambda>v. let count = vector_size (vectors M) v
                     in if count = 0 then ret h
                        else remove_loop (vectors M) (cookie_matches L name) hs_types_cookie_release_mem vector (count - 1) h)))"

section \<open>What the loops remove\<close>

definition removed ::
  "('v, 'sb, 'dt, 'fn) heap \<Rightarrow> addr \<Rightarrow> addr set \<Rightarrow> 'v \<Rightarrow> ('v, 'sb, 'dt, 'fn) heap" where
  \<comment> \<open>a heap in the middle of a loop: some blocks are gone, the vector has its new content\<close>
  "removed h a A v = h\<lparr>cells := (\<lambda>x. if x = a then Some (VectorB v) else if x \<in> A then None else cells h x)\<rparr>"

lemma removed_simps [simp]:
  "cells (removed h a A v) x = (if x = a then Some (VectorB v) else if x \<in> A then None else cells h x)"
  "next_addr (removed h a A v) = next_addr h"
  "(removed h a A v)\<lparr>cells := (cells (removed h a A v))(a \<mapsto> VectorB v')\<rparr> = removed h a A v'"
  "a \<notin> set G \<Longrightarrow> gone G (removed h a A v) = removed h a (A \<union> set G) v"
  by (auto simp: removed_def gone_def fun_eq_iff)

lemma join_concat:
  "join (map f xs) = Some F \<longleftrightarrow> (\<forall>x \<in> set xs. f x \<noteq> None) \<and> F = concat (map (\<lambda>x. the (f x)) xs)"
  by (induction xs arbitrary: F) auto

lemma remove_step_removed:
  assumes "owner own release" and "vector_ok V" and "vec_list V v = xs @ e # rest"
    and "own h (Some e) = Some F" and "distinct F" and "set F \<inter> A = {}" and "a \<notin> set F"
    and "match (Some e) (removed h a A v) = ret m"
  shows "remove_step V match release (Some a) (length xs) (removed h a A v)
    = ret (if m then removed h a (A \<union> set F) (vector_remove V v (length xs)) else removed h a A v)"
proof -
  have "own (removed h a A v) (Some e) = Some F"
    by (rule framed.frame [OF owner.axioms(1) [OF assms(1)] assms(4)]) (use assms(6,7) in auto)
  then have "release (Some e) (removed h a A v) = ret (removed h a (A \<union> set F) v)"
    using owner.release [OF assms(1)] assms(5,7) by simp
  then show ?thesis
    using assms(3,8) by (simp add: remove_step_def vector_at_def vector_laws [OF assms(2)])
qed

lemma remove_loop_removed:
  assumes "owner own release" and "vector_ok V"
    and "\<forall>e \<in> set xs. own h (Some e) = Some (fp e)" and "distinct (concat (map fp xs))" and "a \<notin> set (concat (map fp xs))"
    and "\<And>e A v. e \<in> set xs \<Longrightarrow> A \<subseteq> set (concat (map fp xs)) \<Longrightarrow> set (fp e) \<inter> A = {} \<Longrightarrow> match (Some e) (removed h a A v) = ret (P e)"
    and "i < length xs" and "vec_list V v = take (Suc i) xs @ rest"
    and "A \<subseteq> set (concat (map fp (drop (Suc i) xs)))"
  shows "\<exists>v'. remove_loop V match release (Some a) i (removed h a A v)
      = ret (removed h a (A \<union> set (concat (map fp (filter P (take (Suc i) xs))))) v')
    \<and> vec_list V v' = filter (\<lambda>e. \<not> P e) (take (Suc i) xs) @ rest"
  using assms(7-9)
proof (induction i arbitrary: A v rest)
  case 0
  then obtain e ys where xs: "xs = e # ys" by (cases xs) auto
  have "set (fp e) \<inter> A = {}" using assms(4) 0(3) by (auto simp: xs)
  moreover have "A \<subseteq> set (concat (map fp xs))" using 0(3) by (auto simp: xs)
  ultimately show ?case
    using remove_step_removed [OF assms(1,2), of v "[]" e rest h "fp e" A a match "P e"] 0(2) assms(3-6)
    by (auto simp: xs vector_laws [OF assms(2)])
next
  case (Suc i)
  let ?e = "xs ! Suc i"
  have split: "xs = take (Suc i) xs @ ?e # drop (Suc (Suc i)) xs" and take: "take (Suc (Suc i)) xs = take (Suc i) xs @ [?e]"
    by (rule id_take_nth_drop [OF Suc.prems(1)], rule take_Suc_conv_app_nth [OF Suc.prems(1)])
  have e: "?e \<in> set xs" using Suc.prems(1) by simp
  have d: "distinct (concat (map fp (take (Suc i) xs)) @ fp ?e @ concat (map fp (drop (Suc (Suc i)) xs)))"
    using assms(4) by (subst (asm) split) simp
  have disj: "set (fp ?e) \<inter> A = {}" using d Suc.prems(3) by auto
  have sub: "A \<subseteq> set (concat (map fp xs))"
    using Suc.prems(3) set_drop_subset [of "Suc (Suc i)" xs] by auto
  have "match (Some ?e) (removed h a A v) = ret (P ?e)" by (rule assms(6) [OF e sub disj])
  then have step: "remove_step V match release (Some a) (Suc i) (removed h a A v)
    = ret (if P ?e then removed h a (A \<union> set (fp ?e)) (vector_remove V v (Suc i)) else removed h a A v)"
    using remove_step_removed [OF assms(1,2), of v "take (Suc i) xs" ?e rest h "fp ?e" A a match "P ?e"] Suc.prems(1,2)
      assms(3,5) e d disj by (auto simp: take min_def)
  have drop: "set (concat (map fp (drop (Suc i) xs))) = set (fp ?e) \<union> set (concat (map fp (drop (Suc (Suc i)) xs)))"
    using Suc.prems(1) by (simp add: Cons_nth_drop_Suc [symmetric])
  show ?case
  proof (cases "P ?e")
    case True
    have "vec_list V (vector_remove V v (Suc i)) = take (Suc i) xs @ rest"
      using Suc.prems(1,2) by (simp add: vector_laws [OF assms(2)] take)
    from Suc.IH [OF _ this, of "A \<union> set (fp ?e)"] Suc.prems(1,3) True show ?thesis
      unfolding drop by (auto simp: step take Un_assoc Un_commute Un_left_commute)
  next
    case False
    have "vec_list V v = take (Suc i) xs @ ?e # rest" using Suc.prems(2) by (simp add: take)
    from Suc.IH [OF _ this, of A] Suc.prems(1,3) False show ?thesis
      unfolding drop by (auto simp: step take)
  qed
qed

lemma distinct_concat_filter:
  "distinct (concat (map f xs)) \<Longrightarrow> distinct (concat (map f (filter Q xs)))"
  by (induction xs) auto

lemma accounts_removed:
  assumes "heap_ok h" and "cells h a = Some b" and "distinct F" and "\<forall>x \<in> set F. cells h x \<noteq> None" and "a \<in> set F"
    and "A \<subseteq> set F" and "distinct F'" and "set F' = set F - A" and "a \<notin> A"
  shows "accounts h F (removed h a A v) F'"
  using assms heap_okD [OF assms(1)] by (auto simp: accounts_def heap_ok_def)

lemma vector_remove_spec:
  assumes "owner own release" and "vector_ok V" and "heap_ok h" and "cells h a = Some (VectorB v)"
    and "own_elements V own h (Some a) = Some F" and "distinct F"
    and "\<And>e G h'. e \<in> set (vec_list V v) \<Longrightarrow> own h (Some e) = Some G \<Longrightarrow> set G \<subseteq> set F \<Longrightarrow>
      (\<forall>x. x \<in> set G \<or> x \<notin> set F \<longrightarrow> cells h' x = cells h x) \<Longrightarrow> match (Some e) h' = ret (P e)"
  shows "\<exists>v' A F'. (if vector_size V v = 0 then ret h else remove_loop V match release (Some a) (vector_size V v - 1) h)
      = ret (removed h a A v')
    \<and> vec_list V v' = filter (\<lambda>e. \<not> P e) (vec_list V v) \<and> own_elements V own (removed h a A v') (Some a) = Some F'
    \<and> accounts h F (removed h a A v') F'
    \<and> (\<forall>e \<in> set (vec_list V v'). \<forall>G. own h (Some e) = Some G \<longrightarrow> (\<forall>x \<in> set G. cells (removed h a A v') x = cells h x))"
proof -
  let ?xs = "vec_list V v" and ?fp = "\<lambda>e. the (own h (Some e))"
  note fr = owner.axioms(1) [OF assms(1)]
  have own: "\<forall>e \<in> set ?xs. own h (Some e) = Some (?fp e)" and F: "F = concat (map ?fp ?xs) @ [a]"
    using assms(4,5) by (auto simp: own_elements_Some join_concat o_def)
  have d: "distinct (concat (map ?fp ?xs))" "a \<notin> set (concat (map ?fp ?xs))" using assms(6) F by auto
  have a0: "removed h a {} v = h" using assms(4) by (simp add: removed_def fun_upd_def [symmetric] fun_upd_idem_iff)
  let ?A = "set (concat (map ?fp (filter P ?xs)))" and ?F' = "concat (map ?fp (filter (\<lambda>e. \<not> P e) ?xs)) @ [a]"
  have "\<exists>v'. (if vector_size V v = 0 then ret h else remove_loop V match release (Some a) (vector_size V v - 1) h)
      = ret (removed h a ?A v') \<and> vec_list V v' = filter (\<lambda>e. \<not> P e) ?xs"
  proof (cases "?xs = []")
    case True
    then show ?thesis using a0 by (auto simp: vector_laws [OF assms(2)] intro!: exI [of _ v])
  next
    case False
    have "match (Some e) (removed h a A w) = ret (P e)"
      if "e \<in> set ?xs" "A \<subseteq> set (concat (map ?fp ?xs))" "set (?fp e) \<inter> A = {}" for e A w
    proof (rule assms(7) [OF that(1)])
      show "own h (Some e) = Some (?fp e)" using own that(1) by blast
      show "set (?fp e) \<subseteq> set F" using that(1) by (auto simp: F)
      show "\<forall>x. x \<in> set (?fp e) \<or> x \<notin> set F \<longrightarrow> cells (removed h a A w) x = cells h x"
        using that d(2) by (auto simp: F)
    qed
    then have matches: "match (Some e) (removed h a A w) = ret (P e)"
      if "e \<in> set ?xs" "A \<subseteq> set (concat (map ?fp ?xs))" "set (?fp e) \<inter> A = {}" for e A w using that by blast
    have last: "length ?xs - 1 < length ?xs" "?xs = take (Suc (length ?xs - 1)) ?xs @ []" "take (Suc (length ?xs - 1)) ?xs = ?xs"
      using False by simp_all
    have "\<exists>v'. remove_loop V match release (Some a) (length ?xs - 1) (removed h a {} v)
        = ret (removed h a ({} \<union> set (concat (map ?fp (filter P (take (Suc (length ?xs - 1)) ?xs))))) v')
      \<and> vec_list V v' = filter (\<lambda>e. \<not> P e) (take (Suc (length ?xs - 1)) ?xs) @ []"
      by (rule remove_loop_removed [OF assms(1,2) own d _ last(1,2) empty_subsetI]) (rule matches)
    then show ?thesis unfolding last(3) a0 using False by (simp add: vector_laws(1) [OF assms(2)])
  qed
  then obtain v' where v': "(if vector_size V v = 0 then ret h else remove_loop V match release (Some a) (vector_size V v - 1) h)
      = ret (removed h a ?A v')" "vec_list V v' = filter (\<lambda>e. \<not> P e) ?xs" by blast
  have disj: "set (?fp e) \<inter> ?A = {}" if e: "e \<in> set ?xs" "\<not> P e" for e
  proof -
    from e(1) obtain ys zs where xs: "?xs = ys @ e # zs" by (auto simp: in_set_conv_decomp)
    have "distinct (concat (map ?fp (ys @ e # zs)))" using d(1) xs by simp
    then have "set (?fp e) \<inter> set (concat (map ?fp (ys @ zs))) = {}" by auto
    then show ?thesis using e(2) by (auto simp: xs)
  qed
  have "own (removed h a ?A v') (Some e) = Some (?fp e)" if e: "e \<in> set ?xs" "\<not> P e" for e
    by (rule framed.frame [OF fr, of h "Some e"]) (use own e disj [OF e] d(2) in auto)
  then have "own_elements V own (removed h a ?A v') (Some a) = Some ?F'"
    by (auto simp: own_elements_Some v'(2) join_concat intro!: arg_cong [of _ _ concat])
  moreover have "accounts h F (removed h a ?A v') ?F'"
  proof (rule accounts_removed [OF assms(3,4,6)])
    show "\<forall>x \<in> set F. cells h x \<noteq> None" using framed.live [OF framed_elements [OF fr] assms(5)] by blast
    show "distinct ?F'" using distinct_concat_filter [OF d(1)] d(2) by auto
    show "set ?F' = set F - ?A" using disj d(2) by (auto simp: F)
  qed (use d(2) in \<open>auto simp: F\<close>)
  moreover have "\<forall>e \<in> set (vec_list V v'). \<forall>G. own h (Some e) = Some G \<longrightarrow> (\<forall>x \<in> set G. cells (removed h a ?A v') x = cells h x)"
    using disj d(2) v'(2) by fastforce
  ultimately show ?thesis using v' by blast
qed

section \<open>Containers of pairs\<close>

definition text_of :: "('v, 'sb, 'dt, 'fn) heap \<Rightarrow> ptr \<Rightarrow> cstr" where
  "text_of h p = Option.bind p (\<lambda>a. Option.bind (cells h a) as_string)"

definition pair_of :: "('v, 'sb, 'dt, 'fn) heap \<Rightarrow> addr \<Rightarrow> cstr \<times> cstr" where
  "pair_of h e = (case Option.bind (cells h e) as_pair of None \<Rightarrow> (None, None) | Some p \<Rightarrow> (text_of h (m_key p), text_of h (m_value p)))"

definition vector_of :: "('v, addr) vector_lib \<Rightarrow> ('v, 'sb, 'dt, 'fn) heap \<Rightarrow> ptr \<Rightarrow> addr list" where
  "vector_of V h p = (case Option.bind p (\<lambda>a. Option.bind (cells h a) as_vector) of None \<Rightarrow> [] | Some v \<Rightarrow> vec_list V v)"

definition pairs_at :: "('v, addr) vector_lib \<Rightarrow> ('v, 'sb, 'dt, 'fn) heap \<Rightarrow> ptr \<Rightarrow> (cstr \<times> cstr) list" where
  \<comment> \<open>the content of a container: its keys and values as strings\<close>
  "pairs_at V h array =
     (case Option.bind array (\<lambda>a. Option.bind (cells h a) as_pairs) of
        None \<Rightarrow> []
      | Some vector \<Rightarrow> map (pair_of h) (vector_of V h vector))"

lemma own_string_Some:
  "own_string h p = Some F \<longleftrightarrow> (case p of None \<Rightarrow> F = [] | Some a \<Rightarrow> (\<exists>s. cells h a = Some (StringB s)) \<and> F = [a])"
  by (auto simp: own_string_def own_struct_def Option.bind_eq_Some_conv split: option.splits)

lemma own_pair_Some:
  "own_pair h (Some e) = Some F \<longleftrightarrow>
    (\<exists>p k K W. cells h e = Some (PairB p) \<and> m_key p = Some k \<and> own_string h (Some k) = Some K \<and> own_string h (m_value p) = Some W
      \<and> F = K @ W @ [e])"
  by (auto simp: own_pair_def own_struct_def Option.bind_eq_Some_conv split: option.splits)

lemma own_pairs_Some:
  "own_pairs V h (Some b) = Some F \<longleftrightarrow>
    (\<exists>a Fv. cells h b = Some (PairsB (Some a)) \<and> own_elements V own_pair h (Some a) = Some Fv \<and> F = Fv @ [b])"
  by (auto simp: own_pairs_def own_struct_def Option.bind_eq_Some_conv own_elements_Some split: option.splits)

lemma text_of_frame:
  assumes "own_string h p = Some F" and "\<forall>a \<in> set F. cells h' a = cells h a"
  shows "text_of h' p = text_of h p"
  using assms by (cases p) (auto simp: text_of_def own_string_Some)

lemma pair_of_frame:
  assumes "own_pair h (Some e) = Some F" and "\<forall>a \<in> set F. cells h' a = cells h a"
  shows "pair_of h' e = pair_of h e"
proof -
  from assms(1) obtain p k K W where p: "cells h e = Some (PairB p)" "m_key p = Some k" "own_string h (Some k) = Some K"
    "own_string h (m_value p) = Some W" "F = K @ W @ [e]" by (auto simp: own_pair_Some)
  then show ?thesis
    using text_of_frame [OF p(3), of h'] text_of_frame [OF p(4), of h'] assms(2) by (simp add: pair_of_def)
qed

lemma text_at_own:
  assumes "own_string h p = Some F"
  shows "text_at p h = ret (text_of h p)"
  using assms by (cases p) (auto simp: text_at_def text_of_def own_string_Some)

lemma push_at_own:
  assumes "vector_ok V" and "framed own" and "own_elements V own h (Some a) = Some F" and "own h (Some n) = Some G"
    and "distinct (F @ G)" and "cells h a = Some (VectorB v)"
  shows "push_at V (Some a) (Some n) h = ret (h\<lparr>cells := (cells h)(a \<mapsto> VectorB (vector_push V v n))\<rparr>)"
    and "\<exists>F'. own_elements V own (h\<lparr>cells := (cells h)(a \<mapsto> VectorB (vector_push V v n))\<rparr>) (Some a) = Some F'
      \<and> distinct F' \<and> set F' = set F \<union> set G"
proof -
  let ?h = "h\<lparr>cells := (cells h)(a \<mapsto> VectorB (vector_push V v n))\<rparr>"
  show "push_at V (Some a) (Some n) h = ret ?h" using assms(6) by (simp add: push_at_def)
  from assms(3,6) obtain F1 where F1: "join (map (own h) (map Some (vec_list V v))) = Some F1" "F = F1 @ [a]"
    by (auto simp: own_elements_Some)
  have keep: "own ?h (Some e) = Some H" if "own h (Some e) = Some H" "a \<notin> set H" for e H
    by (rule framed.frame [OF assms(2) that(1)]) (use that(2) in auto)
  have "join (map (own ?h) (map Some (vec_list V v))) = Some F1"
  proof (rule join_map_cong [OF F1(1)])
    fix p H assume p: "p \<in> set (map Some (vec_list V v))" "own h p = Some H" "set H \<subseteq> set F1"
    then obtain e where e: "p = Some e" by auto
    have "a \<notin> set H" using p(3) assms(5) F1(2) by auto
    with keep p(2) show "own ?h p = Some H" unfolding e by blast
  qed
  moreover have "own ?h (Some n) = Some G" by (rule keep [OF assms(4)]) (use assms(5) F1(2) in auto)
  ultimately have "join (map (own ?h) (map Some (vec_list V (vector_push V v n)))) = Some (F1 @ G)"
    by (simp add: vector_laws(4) [OF assms(1)] join_append)
  then have "own_elements V own ?h (Some a) = Some ((F1 @ G) @ [a])" by (simp add: own_elements_Some)
  then show "\<exists>F'. own_elements V own ?h (Some a) = Some F' \<and> distinct F' \<and> set F' = set F \<union> set G"
    by (rule exI [of _ "(F1 @ G) @ [a]", OF conjI]) (use assms(5) F1(2) in auto)
qed

lemma array_add_spec:
  assumes "mem_ok M C" and "heap_ok h" and "own_pairs (vectors M) h (Some b) = Some F"
    and "own_string h (Some k) = Some K" and "own_string h value = Some W" and "distinct (F @ K @ W)"
  shows "\<exists>h' F'. hs_types_array_string_pair_add_mem M (Some b) (Some k) value h = ret (True, h')
    \<and> own_pairs (vectors M) h' (Some b) = Some F' \<and> accounts h (F @ K @ W) h' F'
    \<and> pairs_at (vectors M) h' (Some b) = pairs_at (vectors M) h (Some b) @ [(text_of h (Some k), text_of h value)]
    \<and> (\<forall>x \<in> set K \<union> set W. cells h' x = cells h x)"
proof -
  note vec = mem_ok_parts(1) [OF assms(1)]
  let ?n = "next_addr h" and ?V = "vectors M" and ?pair = "PairB \<lparr>m_key = Some k, m_value = value\<rparr>"
  let ?h1 = "snd (malloc ?pair h)"
  from assms(3) obtain a Fv where b: "cells h b = Some (PairsB (Some a))" "own_elements ?V own_pair h (Some a) = Some Fv" "F = Fv @ [b]"
    by (auto simp: own_pairs_Some)
  then obtain v Fe where a: "cells h a = Some (VectorB v)" "join (map (own_pair h) (map Some (vec_list ?V v))) = Some Fe" "Fv = Fe @ [a]"
    by (auto simp: own_elements_Some)
  let ?h2 = "?h1\<lparr>cells := (cells ?h1)(a \<mapsto> VectorB (vector_push ?V v ?n))\<rparr>"
  have live: "\<forall>x \<in> set (F @ K @ W). cells h x \<noteq> None"
    using framed.live [OF framed_containers(1) assms(3)] str.live [OF assms(4)] str.live [OF assms(5)] by auto
  note acc1 = accounts_malloc [OF assms(2,6) live, of ?pair]
  have n: "?n \<notin> set (F @ K @ W)" using accountsD(3) [OF acc1] by simp
  have keep: "framed own \<Longrightarrow> own h p = Some G \<Longrightarrow> own ?h1 p = Some G" for own p G
    by (rule framed.own_malloc [OF _ _ assms(2)])
  have el: "own_elements ?V own_pair ?h1 (Some a) = Some Fv" by (rule keep [OF framed_structs(6) b(2)])
  have new: "own_pair ?h1 (Some ?n) = Some (K @ W @ [?n])"
    using keep [OF framed_structs(1) assms(4)] keep [OF framed_structs(1) assms(5)] by (auto simp: own_pair_Some)
  have a1: "cells ?h1 a = Some (VectorB v)" "cells ?h1 b = Some (PairsB (Some a))"
    using a(1,3) b(1,3) n by auto
  have d: "distinct (Fv @ (K @ W @ [?n]))" using assms(6) n b(3) by auto
  note push = push_at_own [OF vec framed_structs(5) el new d a1(1)]
  from push(2) obtain Fv' where Fv': "own_elements ?V own_pair ?h2 (Some a) = Some Fv'" "distinct Fv'" "set Fv' = set Fv \<union> set (K @ W @ [?n])"
    by blast
  have ab: "a \<noteq> b" using assms(6) b(3) a(3) by auto
  have run: "hs_types_array_string_pair_add_mem M (Some b) (Some k) value h = ret (True, ?h2)"
    using b(1) push(1) by (simp add: hs_types_array_string_pair_add_mem_def hs_types_array_pair_add_mem_def malloc_def)
  have own: "own_pairs ?V ?h2 (Some b) = Some (Fv' @ [b])"
    using Fv'(1) a1(2) ab by (simp add: own_pairs_Some)
  have "accounts h (F @ K @ W) ?h2 ((F @ K @ W) @ [?n])"
    by (rule accounts_store [OF acc1]) (simp add: b(3) a(3))
  then have acc: "accounts h (F @ K @ W) ?h2 (Fv' @ [b])"
    by (rule accounts_set) (use Fv'(2,3) b(3) d assms(6) n in auto)
  have "pair_of ?h2 e = pair_of h e" if e: "e \<in> set (vec_list ?V v)" for e
  proof -
    from join_member [OF a(2), of "Some e"] e obtain G where G: "own_pair h (Some e) = Some G" "set G \<subseteq> set Fe" by auto
    show ?thesis by (rule pair_of_frame [OF G(1)]) (use G(2) a(3) b(3) n assms(6) in auto)
  qed
  moreover have agree: "\<forall>x \<in> set K \<union> set W. cells ?h2 x = cells h x" using n assms(6) a(3) b(3) by auto
  moreover have "pair_of ?h2 ?n = (text_of h (Some k), text_of h value)"
  proof -
    have "text_of ?h2 (Some k) = text_of h (Some k)" "text_of ?h2 value = text_of h value"
      by (rule text_of_frame [OF assms(4)], use agree in blast, rule text_of_frame [OF assms(5)], use agree in blast)
    moreover have "?n \<noteq> a" using n a(3) b(3) by auto
    ultimately show ?thesis by (simp add: pair_of_def)
  qed
  ultimately have "pairs_at ?V ?h2 (Some b) = pairs_at ?V h (Some b) @ [(text_of h (Some k), text_of h value)]"
    using a(1) b(1) a1(2) ab by (simp add: pairs_at_def vector_of_def vector_laws(4) [OF vec])
  with run own acc agree show ?thesis by blast
qed

lemma accounts_wrap:
  \<comment> \<open>a block around what changes\<close>
  assumes "accounts h F h' F'" and "cells h b \<noteq> None" and "b \<notin> set F"
  shows "accounts h (F @ [b]) h' (F' @ [b])" and "cells h' b = cells h b" and "b \<notin> set F'"
  using accounts_frame [OF assms(1), of "[b]"] assms(2,3) by auto

lemma pair_matches_own:
  assumes "stringfn_ok L" and "own_pair h (Some e) = Some G" and "\<forall>x. x \<in> set G \<or> x = k \<longrightarrow> cells h' x = cells h x"
    and "cells h k = Some (StringB s)"
  shows "pair_matches L (Some k) (Some e) h' = ret (fst (pair_of h e) = Some s)"
proof -
  from assms(2) obtain p kp K W where p: "cells h e = Some (PairB p)" "m_key p = Some kp" "own_string h (Some kp) = Some K" "G = K @ W @ [e]"
    by (auto simp: own_pair_Some)
  from p(3) obtain t where t: "cells h kp = Some (StringB t)" "K = [kp]" by (auto simp: own_string_Some)
  show ?thesis
    using p t assms(3,4) by (simp add: pair_matches_def text_at_def pair_of_def text_of_def stringfn_laws [OF assms(1)])
qed

lemma array_remove_spec:
  assumes "mem_ok M C" and "stringfn_ok L" and "heap_ok h" and "own_pairs (vectors M) h (Some b) = Some F" and "distinct F"
    and "cells h k = Some (StringB s)" and "k \<notin> set F"
  shows "\<exists>h' F'. hs_types_array_string_pair_remove_by_key_mem L M (Some b) (Some k) h = ret h'
    \<and> own_pairs (vectors M) h' (Some b) = Some F' \<and> accounts h F h' F'
    \<and> pairs_at (vectors M) h' (Some b) = filter (\<lambda>(key, value). key \<noteq> Some s) (pairs_at (vectors M) h (Some b))"
proof -
  note vec = mem_ok_parts(1) [OF assms(1)]
  let ?V = "vectors M" and ?P = "\<lambda>e. fst (pair_of h e) = Some s"
  from assms(4) obtain a Fv where b: "cells h b = Some (PairsB (Some a))" "own_elements ?V own_pair h (Some a) = Some Fv" "F = Fv @ [b]"
    by (auto simp: own_pairs_Some)
  then obtain v Fe where a: "cells h a = Some (VectorB v)" "join (map (own_pair h) (map Some (vec_list ?V v))) = Some Fe" "Fv = Fe @ [a]"
    by (auto simp: own_elements_Some)
  have d: "distinct Fv" using assms(5) b(3) by simp
  have "pair_matches L (Some k) (Some e) h' = ret (?P e)"
    if "own_pair h (Some e) = Some G" "\<forall>x. x \<in> set G \<or> x \<notin> set Fv \<longrightarrow> cells h' x = cells h x" for e G h'
    by (rule pair_matches_own [OF assms(2) that(1) _ assms(6)]) (use that(2) assms(7) b(3) in auto)
  then obtain v' A Fv' where r: "(if vector_size ?V v = 0 then ret h
      else remove_loop ?V (pair_matches L (Some k)) (hs_types_array_pair_release_mem True) (Some a) (vector_size ?V v - 1) h)
      = ret (removed h a A v')" "vec_list ?V v' = filter (\<lambda>e. \<not> ?P e) (vec_list ?V v)"
    "own_elements ?V own_pair (removed h a A v') (Some a) = Some Fv'" "accounts h Fv (removed h a A v') Fv'"
    "\<forall>e \<in> set (vec_list ?V v'). \<forall>G. own_pair h (Some e) = Some G \<longrightarrow> (\<forall>x \<in> set G. cells (removed h a A v') x = cells h x)"
    using vector_remove_spec [OF pair.owner_axioms vec assms(3) a(1) b(2) d, of "pair_matches L (Some k)" ?P] by blast
  let ?h = "removed h a A v'"
  note wrap = accounts_wrap [OF r(4), of b]
  have bb: "cells h b \<noteq> None" "b \<notin> set Fv" using b(1,3) assms(5) by auto
  have own: "own_pairs ?V ?h (Some b) = Some (Fv' @ [b])"
    using r(3) wrap(2) [OF bb] b(1) by (simp add: own_pairs_Some)
  have acc: "accounts h F ?h (Fv' @ [b])" unfolding b(3) by (rule wrap(1) [OF bb])
  have run: "hs_types_array_string_pair_remove_by_key_mem L M (Some b) (Some k) h = ret ?h"
    using b(1) a(1) r(1)
    by (simp add: hs_types_array_string_pair_remove_by_key_mem_def hs_types_array_pair_remove_by_key_mem_def Let_def del: removed_simps)
  have "pair_of ?h e = pair_of h e" if e: "e \<in> set (vec_list ?V v')" for e
  proof -
    from join_member [OF a(2), of "Some e"] e r(2) obtain G where G: "own_pair h (Some e) = Some G" by auto
    show ?thesis using r(5) e G by (intro pair_of_frame [OF G]) blast
  qed
  then have "map (pair_of ?h) (vec_list ?V v') = filter (\<lambda>(key, value). key \<noteq> Some s) (map (pair_of h) (vec_list ?V v))"
    by (auto simp: r(2) filter_map comp_def split_def intro!: map_cong)
  then have "pairs_at ?V ?h (Some b) = filter (\<lambda>(key, value). key \<noteq> Some s) (pairs_at ?V h (Some b))"
    using a(1) b(1) wrap(2) [OF bb] by (simp add: pairs_at_def vector_of_def)
  with run own acc show ?thesis by blast
qed

text \<open>
  C27. The array of pairs on the heap implements the list of its keys and values: removing a key drops
  its pairs, whatever their number, and frees exactly their blocks; adding appends the pair of the
  key and the value that are given (the value may be NULL), and the array owns both from then on,
  with their contents unchanged. Nothing else in the heap changes.
\<close>

theorem array_heap_refines:
  assumes "mem_ok M C" and "stringfn_ok L" and "heap_ok h" and "own_pairs (vectors M) h (Some b) = Some F"
    and "cells h k = Some (StringB s)" and "own_string h value = Some W" and "distinct (F @ [k] @ W)"
  shows "(\<exists>h' F'. hs_types_array_string_pair_remove_by_key_mem L M (Some b) (Some k) h = ret h'
        \<and> own_pairs (vectors M) h' (Some b) = Some F' \<and> accounts h F h' F'
        \<and> pairs_at (vectors M) h' (Some b) = filter (\<lambda>(key, value). key \<noteq> Some s) (pairs_at (vectors M) h (Some b)))
    \<and> (\<exists>h' F'. hs_types_array_string_pair_add_mem M (Some b) (Some k) value h = ret (True, h')
        \<and> own_pairs (vectors M) h' (Some b) = Some F' \<and> accounts h (F @ [k] @ W) h' F'
        \<and> pairs_at (vectors M) h' (Some b) = pairs_at (vectors M) h (Some b) @ [(Some s, text_of h value)])"
proof
  have "own_string h (Some k) = Some [k]" "text_of h (Some k) = Some s"
    using assms(5) by (simp_all add: own_string_Some text_of_def)
  with array_add_spec [OF assms(1,3,4) _ assms(6), of k "[k]"] assms(7)
  show "\<exists>h' F'. hs_types_array_string_pair_add_mem M (Some b) (Some k) value h = ret (True, h')
        \<and> own_pairs (vectors M) h' (Some b) = Some F' \<and> accounts h (F @ [k] @ W) h' F'
        \<and> pairs_at (vectors M) h' (Some b) = pairs_at (vectors M) h (Some b) @ [(Some s, text_of h value)]"
    by auto
  show "\<exists>h' F'. hs_types_array_string_pair_remove_by_key_mem L M (Some b) (Some k) h = ret h'
        \<and> own_pairs (vectors M) h' (Some b) = Some F' \<and> accounts h F h' F'
        \<and> pairs_at (vectors M) h' (Some b) = filter (\<lambda>(key, value). key \<noteq> Some s) (pairs_at (vectors M) h (Some b))"
    by (rule array_remove_spec [OF assms(1-4) _ assms(5)]) (use assms(7) in simp_all)
qed

theorem array_heap_refines_witness:
  "let h = \<lparr>cells = [0 \<mapsto> StringB ''a'', 1 \<mapsto> StringB ''1'', 2 \<mapsto> PairB \<lparr>m_key = Some 0, m_value = Some 1\<rparr>,
                      3 \<mapsto> VectorB [2], 4 \<mapsto> PairsB (Some 3), 5 \<mapsto> StringB ''a'', 6 \<mapsto> StringB ''2''],
               next_addr = 7\<rparr> :: (addr list, string, unit, unit) heap
   in (\<exists>h' F'. hs_types_array_string_pair_remove_by_key_mem reference_libs reference_mem (Some 4) (Some 5) h = ret h'
        \<and> accounts h [0, 1, 2, 3, 4] h' F' \<and> pairs_at list_vector h' (Some 4) = [])
    \<and> (\<exists>h' F'. hs_types_array_string_pair_add_mem reference_mem (Some 4) (Some 5) (Some 6) h = ret (True, h')
        \<and> accounts h [0, 1, 2, 3, 4, 5, 6] h' F'
        \<and> pairs_at list_vector h' (Some 4) = [(Some ''a'', Some ''1''), (Some ''a'', Some ''2'')])"
proof -
  let ?h = "\<lparr>cells = [0 \<mapsto> StringB ''a'', 1 \<mapsto> StringB ''1'', 2 \<mapsto> PairB \<lparr>m_key = Some 0, m_value = Some 1\<rparr>,
                      3 \<mapsto> VectorB [2], 4 \<mapsto> PairsB (Some 3), 5 \<mapsto> StringB ''a'', 6 \<mapsto> StringB ''2''],
               next_addr = 7\<rparr> :: (addr list, string, unit, unit) heap"
  have list: "vec_list list_vector [2] = [2::addr]" by (simp add: list_vector_def vec_list_def List.map_filter_simps)
  have V: "vectors reference_mem = list_vector" by (simp add: reference_mem_def)
  have ok: "heap_ok ?h" by (simp add: heap_ok_def)
  have own: "own_pairs (vectors reference_mem) ?h (Some 4) = Some [0, 1, 2, 3, 4]"
    by (simp add: own_pairs_Some own_elements_Some V list own_pair_Some own_string_Some)
  have at: "pairs_at list_vector ?h (Some 4) = [(Some ''a'', Some ''1'')]"
    by (simp add: pairs_at_def vector_of_def list pair_of_def text_of_def)
  have new: "own_string ?h (Some 6) = Some [6]" "text_of ?h (Some 6) = Some ''2''" by (simp_all add: own_string_Some text_of_def)
  from array_heap_refines [OF reference_mem_ok reference_ok(1) ok own _ new(1), of 5 "''a''"] at new(2) show ?thesis
    unfolding Let_def V by auto
qed

section \<open>Containers of cookies\<close>

definition cookie_of :: "('v, 'sb, 'dt, 'fn) heap \<Rightarrow> addr \<Rightarrow> HSCookie" where
  \<comment> \<open>the cookie as a value\<close>
  "cookie_of h e = (let c = the (Option.bind (cells h e) as_cookie) in
     \<lparr>cookie_name = text_of h (m_name c), cookie_value = text_of h (m_cookie_value c), cookie_expires = text_of h (m_expires c),
      cookie_max_age = m_max_age c, cookie_secure = m_secure c, cookie_http_only = m_http_only c,
      cookie_domain = text_of h (m_domain c), cookie_path = text_of h (m_path c), cookie_same_site = m_same_site c\<rparr>)"

definition cookies_at :: "('v, addr) vector_lib \<Rightarrow> ('v, 'sb, 'dt, 'fn) heap \<Rightarrow> ptr \<Rightarrow> HSCookie list" where
  "cookies_at V h cookies =
     (case Option.bind cookies (\<lambda>a. Option.bind (cells h a) as_cookies) of
        None \<Rightarrow> []
      | Some vector \<Rightarrow> map (cookie_of h) (vector_of V h vector))"

lemma own_named_cookie_Some:
  "own_named_cookie h (Some e) = Some F \<longleftrightarrow>
    (\<exists>c n v N W E D P. cells h e = Some (CookieB c) \<and> m_name c = Some n \<and> m_cookie_value c = Some v
      \<and> own_string h (Some n) = Some N \<and> own_string h (Some v) = Some W \<and> own_string h (m_expires c) = Some E
      \<and> own_string h (m_domain c) = Some D \<and> own_string h (m_path c) = Some P \<and> F = N @ W @ E @ D @ P @ [e])"
  by (simp add: own_named_cookie_def own_struct_def Option.bind_eq_Some_conv split: option.splits; safe; simp; blast)

lemma own_cookies_Some:
  "own_cookies V h (Some b) = Some F \<longleftrightarrow>
    (\<exists>a Fv. cells h b = Some (CookiesB (Some a)) \<and> own_elements V own_named_cookie h (Some a) = Some Fv \<and> F = Fv @ [b])"
  by (auto simp: own_cookies_def own_struct_def Option.bind_eq_Some_conv own_elements_Some split: option.splits)

lemma cookie_of_frame:
  assumes "own_named_cookie h (Some e) = Some F" and "\<forall>a \<in> set F. cells h' a = cells h a"
  shows "cookie_of h' e = cookie_of h e"
proof -
  from assms(1) obtain c n v N W E D P where c: "cells h e = Some (CookieB c)" "m_name c = Some n" "m_cookie_value c = Some v"
    "own_string h (Some n) = Some N" "own_string h (Some v) = Some W" "own_string h (m_expires c) = Some E"
    "own_string h (m_domain c) = Some D" "own_string h (m_path c) = Some P" "F = N @ W @ E @ D @ P @ [e]"
    by (auto simp only: own_named_cookie_Some)
  then show ?thesis
    using assms(2) text_of_frame [OF c(4), of h'] text_of_frame [OF c(5), of h'] text_of_frame [OF c(6), of h']
      text_of_frame [OF c(7), of h'] text_of_frame [OF c(8), of h']
    by (simp add: cookie_of_def)
qed

lemma cookies_add_spec:
  assumes "mem_ok M C" and "heap_ok h" and "own_cookies (vectors M) h (Some b) = Some F"
    and "own_named_cookie h (Some c) = Some G" and "distinct (F @ G)"
  shows "\<exists>h' F'. hs_types_cookies_add_mem M (Some b) (Some c) h = ret (True, h')
    \<and> own_cookies (vectors M) h' (Some b) = Some F' \<and> accounts h (F @ G) h' F'
    \<and> cookies_at (vectors M) h' (Some b) = cookies_at (vectors M) h (Some b) @ [cookie_of h c]"
proof -
  note vec = mem_ok_parts(1) [OF assms(1)]
  let ?V = "vectors M"
  from assms(3) obtain a Fv where b: "cells h b = Some (CookiesB (Some a))" "own_elements ?V own_named_cookie h (Some a) = Some Fv" "F = Fv @ [b]"
    by (auto simp: own_cookies_Some)
  then obtain v Fe where a: "cells h a = Some (VectorB v)" "join (map (own_named_cookie h) (map Some (vec_list ?V v))) = Some Fe" "Fv = Fe @ [a]"
    by (auto simp: own_elements_Some)
  let ?h2 = "h\<lparr>cells := (cells h)(a \<mapsto> VectorB (vector_push ?V v c))\<rparr>"
  have live: "\<forall>x \<in> set (F @ G). cells h x \<noteq> None"
    using framed.live [OF framed_containers(2) assms(3)] named_cookie.live [OF assms(4)] by auto
  have d: "distinct (Fv @ G)" using assms(5) b(3) by auto
  note push = push_at_own [OF vec framed_structs(4) b(2) assms(4) d a(1)]
  from push(2) obtain Fv' where Fv': "own_elements ?V own_named_cookie ?h2 (Some a) = Some Fv'" "distinct Fv'" "set Fv' = set Fv \<union> set G"
    by blast
  have ab: "a \<noteq> b" using assms(5) b(3) a(3) by auto
  from assms(4) obtain cc where cc: "cells h c = Some (CookieB cc)" "m_name cc \<noteq> None" "m_cookie_value cc \<noteq> None"
    by (auto simp only: own_named_cookie_Some)
  have run: "hs_types_cookies_add_mem M (Some b) (Some c) h = ret (True, ?h2)"
    using b(1) push(1) cc by (simp add: hs_types_cookies_add_mem_def)
  have own: "own_cookies ?V ?h2 (Some b) = Some (Fv' @ [b])"
    using Fv'(1) b(1) ab by (simp add: own_cookies_Some)
  have "accounts h (F @ G) ?h2 (F @ G)"
    by (rule accounts_store [OF accounts_refl [OF assms(2,5) live]]) (simp add: b(3) a(3))
  then have acc: "accounts h (F @ G) ?h2 (Fv' @ [b])"
    by (rule accounts_set) (use Fv'(2,3) b(3) d assms(5) in auto)
  have "cookie_of ?h2 e = cookie_of h e" if e: "e \<in> set (vec_list ?V v)" for e
  proof -
    from join_member [OF a(2), of "Some e"] e obtain H where H: "own_named_cookie h (Some e) = Some H" "set H \<subseteq> set Fe" by auto
    show ?thesis by (rule cookie_of_frame [OF H(1)]) (use H(2) d a(3) in auto)
  qed
  moreover have "cookie_of ?h2 c = cookie_of h c"
    by (rule cookie_of_frame [OF assms(4)]) (use d a(3) in auto)
  ultimately have "cookies_at ?V ?h2 (Some b) = cookies_at ?V h (Some b) @ [cookie_of h c]"
    using a(1) b(1) ab by (simp add: cookies_at_def vector_of_def vector_laws(4) [OF vec])
  with run own acc show ?thesis by blast
qed

lemma cookie_matches_own:
  assumes "stringfn_ok L" and "own_named_cookie h (Some e) = Some G" and "\<forall>x. x \<in> set G \<or> x = k \<longrightarrow> cells h' x = cells h x"
    and "cells h k = Some (StringB s)"
  shows "cookie_matches L (Some k) (Some e) h' = ret (cookie_name (cookie_of h e) = Some s)"
proof -
  from assms(2) obtain c n N R where c: "cells h e = Some (CookieB c)" "m_name c = Some n" "own_string h (Some n) = Some N" "G = N @ R @ [e]"
    by (auto simp only: own_named_cookie_Some append_assoc [symmetric]) (metis append_assoc)
  from c(3) obtain t where t: "cells h n = Some (StringB t)" "N = [n]" by (auto simp: own_string_Some)
  show ?thesis
    using c t assms(3,4) by (simp add: cookie_matches_def text_at_def cookie_of_def text_of_def stringfn_laws [OF assms(1)])
qed

lemma cookies_remove_spec:
  assumes "mem_ok M C" and "stringfn_ok L" and "heap_ok h" and "own_cookies (vectors M) h (Some b) = Some F" and "distinct F"
    and "cells h k = Some (StringB s)" and "k \<notin> set F"
  shows "\<exists>h' F'. hs_types_cookies_remove_by_name_mem L M (Some b) (Some k) h = ret h'
    \<and> own_cookies (vectors M) h' (Some b) = Some F' \<and> accounts h F h' F'
    \<and> cookies_at (vectors M) h' (Some b) = filter (\<lambda>c. cookie_name c \<noteq> Some s) (cookies_at (vectors M) h (Some b))"
proof -
  note vec = mem_ok_parts(1) [OF assms(1)]
  let ?V = "vectors M" and ?P = "\<lambda>e. cookie_name (cookie_of h e) = Some s"
  from assms(4) obtain a Fv where b: "cells h b = Some (CookiesB (Some a))" "own_elements ?V own_named_cookie h (Some a) = Some Fv" "F = Fv @ [b]"
    by (auto simp: own_cookies_Some)
  then obtain v Fe where a: "cells h a = Some (VectorB v)" "join (map (own_named_cookie h) (map Some (vec_list ?V v))) = Some Fe" "Fv = Fe @ [a]"
    by (auto simp: own_elements_Some)
  have d: "distinct Fv" using assms(5) b(3) by simp
  have "cookie_matches L (Some k) (Some e) h' = ret (?P e)"
    if "own_named_cookie h (Some e) = Some G" "\<forall>x. x \<in> set G \<or> x \<notin> set Fv \<longrightarrow> cells h' x = cells h x" for e G h'
    by (rule cookie_matches_own [OF assms(2) that(1) _ assms(6)]) (use that(2) assms(7) b(3) in auto)
  then obtain v' A Fv' where r: "(if vector_size ?V v = 0 then ret h
      else remove_loop ?V (cookie_matches L (Some k)) hs_types_cookie_release_mem (Some a) (vector_size ?V v - 1) h)
      = ret (removed h a A v')" "vec_list ?V v' = filter (\<lambda>e. \<not> ?P e) (vec_list ?V v)"
    "own_elements ?V own_named_cookie (removed h a A v') (Some a) = Some Fv'" "accounts h Fv (removed h a A v') Fv'"
    "\<forall>e \<in> set (vec_list ?V v'). \<forall>G. own_named_cookie h (Some e) = Some G \<longrightarrow> (\<forall>x \<in> set G. cells (removed h a A v') x = cells h x)"
    using vector_remove_spec [OF named_cookie.owner_axioms vec assms(3) a(1) b(2) d, of "cookie_matches L (Some k)" ?P] by blast
  let ?h = "removed h a A v'"
  note wrap = accounts_wrap [OF r(4), of b]
  have bb: "cells h b \<noteq> None" "b \<notin> set Fv" using b(1,3) assms(5) by auto
  have own: "own_cookies ?V ?h (Some b) = Some (Fv' @ [b])"
    using r(3) wrap(2) [OF bb] b(1) by (simp add: own_cookies_Some)
  have acc: "accounts h F ?h (Fv' @ [b])" unfolding b(3) by (rule wrap(1) [OF bb])
  have run: "hs_types_cookies_remove_by_name_mem L M (Some b) (Some k) h = ret ?h"
    using b(1) a(1) r(1) by (simp add: hs_types_cookies_remove_by_name_mem_def Let_def del: removed_simps)
  have "cookie_of ?h e = cookie_of h e" if e: "e \<in> set (vec_list ?V v')" for e
  proof -
    from join_member [OF a(2), of "Some e"] e r(2) obtain G where G: "own_named_cookie h (Some e) = Some G" by auto
    show ?thesis using r(5) e G by (intro cookie_of_frame [OF G]) blast
  qed
  then have "map (cookie_of ?h) (vec_list ?V v') = filter (\<lambda>c. cookie_name c \<noteq> Some s) (map (cookie_of h) (vec_list ?V v))"
    by (auto simp: r(2) filter_map comp_def intro!: map_cong)
  then have "cookies_at ?V ?h (Some b) = filter (\<lambda>c. cookie_name c \<noteq> Some s) (cookies_at ?V h (Some b))"
    using a(1) b(1) wrap(2) [OF bb] by (simp add: cookies_at_def vector_of_def)
  with run own acc show ?thesis by blast
qed

end
