(* ===== verification/Parser_Memory.thy ===== *)
theory Parser_Memory
  imports Ownership_Ops Parser
begin

text \<open>
  The parser of \<open>src/hs_parser.c\<close> on the heap, from the lines of a header to the blocks the request
  owns. What is parsed is what \<open>Parser\<close> says; here it is shown which strings the request owns
  afterwards, and which no one owns any more. String buffers are local to a function; their content
  is passed beside them.
\<close>

section \<open>Cookie headers\<close>

record ('v, 'sb, 'dt, 'fn) mem_scan =
  ms_heap :: "('v, 'sb, 'dt, 'fn) heap"
  ms_buffer :: 'sb
  ms_name :: ptr
  ms_looking_for_name :: bool
  ms_added :: bool

definition cookie_scan_add_mem ::
  "('sb, 'pv, 'cv, 'ht, 'sh) libs \<Rightarrow> ('v, 'sb, 'dt, 'fn) mem_lib \<Rightarrow> ptr \<Rightarrow> ('v, 'sb, 'dt, 'fn) mem_scan
    \<Rightarrow> ('v, 'sb, 'dt, 'fn) mem_scan run" where
  \<comment> \<open>the value is copied out of the buffer, the cookie is made of name and value and added\<close>
  "cookie_scan_add_mem L M cookies s =
     (let (value, h1) = malloc (StringB (stringbuffer_to_string L (ms_buffer s))) (ms_heap s);
          (cookie, h2) = hs_types_cookie_new_mem h1
      in bindR (load as_cookie cookie h2)
           (\<lambda>c. bindR (store cookie (CookieB (c\<lparr>m_name := ms_name s, m_cookie_value := value\<rparr>)) h2)
              (\<lambda>h3. bindR (hs_types_cookies_add_mem M cookies cookie h3)
                 (\<lambda>(added, h4). ret (s\<lparr>ms_heap := h4, ms_added := added\<rparr>)))))"

primrec cookie_scan_loop_mem ::
  "('sb, 'pv, 'cv, 'ht, 'sh) libs \<Rightarrow> ('v, 'sb, 'dt, 'fn) mem_lib \<Rightarrow> ptr \<Rightarrow> string \<Rightarrow> ('v, 'sb, 'dt, 'fn) mem_scan
    \<Rightarrow> ('v, 'sb, 'dt, 'fn) mem_scan run" where
  "cookie_scan_loop_mem L M cookies [] s = ret s"
| "cookie_scan_loop_mem L M cookies (c # rest) s =
     bindR
       (if ms_looking_for_name s
        then (if c = CHR ''=''
              then let (name, h1) = malloc (StringB (stringbuffer_to_string L (ms_buffer s))) (ms_heap s)
                   in ret (s\<lparr>ms_looking_for_name := False, ms_name := name, ms_heap := h1,
                            ms_buffer := stringbuffer_clear L (ms_buffer s)\<rparr>)
              else if c \<noteq> CHR '' '' \<or> \<not> stringbuffer_is_empty L (ms_buffer s)
              then ret (s\<lparr>ms_buffer := stringbuffer_append L (ms_buffer s) c\<rparr>)
              else ret s)
        else if c = CHR '';'' \<and> (rest = [] \<or> hd rest = CHR '' '')
        then bindR (cookie_scan_add_mem L M cookies s)
               (\<lambda>s1. ret (s1\<lparr>ms_name := None, ms_looking_for_name := True, ms_buffer := stringbuffer_clear L (ms_buffer s)\<rparr>))
        else ret (s\<lparr>ms_buffer := stringbuffer_append L (ms_buffer s) c\<rparr>))
       (cookie_scan_loop_mem L M cookies rest)"

definition cookie_scan_finish_mem ::
  "('sb, 'pv, 'cv, 'ht, 'sh) libs \<Rightarrow> ('v, 'sb, 'dt, 'fn) mem_lib \<Rightarrow> ptr \<Rightarrow> ('v, 'sb, 'dt, 'fn) mem_scan
    \<Rightarrow> ('v, 'sb, 'dt, 'fn) mem_scan run" where
  "cookie_scan_finish_mem L M cookies s =
     (if \<not> ms_looking_for_name s \<and> \<not> stringbuffer_is_empty L (ms_buffer s) then cookie_scan_add_mem L M cookies s
      else bindR (hs_io_free (ms_name s) (ms_heap s)) (\<lambda>h1. ret (s\<lparr>ms_heap := h1\<rparr>)))"

definition hs_parser_parse_cookie_header_mem ::
  "('sb, 'pv, 'cv, 'ht, 'sh) libs \<Rightarrow> ('v, 'sb, 'dt, 'fn) mem_lib \<Rightarrow> ptr \<Rightarrow> ptr \<Rightarrow> ('v, 'sb, 'dt, 'fn) heap
    \<Rightarrow> (bool \<times> ('v, 'sb, 'dt, 'fn) heap) run" where
  "hs_parser_parse_cookie_header_mem L M cookies cookie_line h =
     (if cookies = None \<or> cookie_line = None then ret (False, h)
      else bindR (load as_string cookie_line h)
             (\<lambda>line. if length line = 0 then ret (False, h)
                else let (buffer, h1) = malloc (BufferB (stringbuffer_new L)) h
                     in bindR (cookie_scan_loop_mem L M cookies line
                                 \<lparr>ms_heap = h1, ms_buffer = stringbuffer_new L, ms_name = None, ms_looking_for_name = True, ms_added = False\<rparr>)
                          (\<lambda>s. bindR (cookie_scan_finish_mem L M cookies s)
                             (\<lambda>s1. bindR (m_stringbuffer_release M buffer (ms_heap s1)) (\<lambda>h2. ret (ms_added s1, h2))))))"

section \<open>The scan keeps track of its blocks\<close>

text \<open>
  The state of the scan on the heap and the state of the scan of \<open>Parser\<close>: the same buffer, the
  name as a string, and the cookies of the container.
\<close>

definition scans ::
  "('sb, 'pv, 'cv, 'ht, 'sh) libs \<Rightarrow> ('v, addr) vector_lib \<Rightarrow> addr \<Rightarrow> ('v, 'sb, 'dt, 'fn) mem_scan \<Rightarrow> ('sb, 'cv) cookie_scan
    \<Rightarrow> addr list \<Rightarrow> addr list \<Rightarrow> bool" where
  "scans L V b s t F N \<longleftrightarrow> own_cookies V (ms_heap s) (Some b) = Some F \<and> own_string (ms_heap s) (ms_name s) = Some N
     \<and> distinct (F @ N) \<and> heap_ok (ms_heap s) \<and> (ms_name s = None \<longleftrightarrow> ms_looking_for_name s)
     \<and> ms_buffer s = scan_buffer t \<and> ms_looking_for_name s = scan_looking_for_name t \<and> ms_added s = scan_added t
     \<and> text_of (ms_heap s) (ms_name s) = scan_name t
     \<and> (\<exists>v. scan_cookies t = Some v \<and> cookies_at V (ms_heap s) (Some b) = cookie_list L v)"

lemma cookies_at_frame:
  assumes "own_cookies V h (Some b) = Some F" and "\<forall>a \<in> set F. cells h' a = cells h a"
  shows "cookies_at V h' (Some b) = cookies_at V h (Some b)"
proof -
  from assms(1) obtain a v Fe where b: "cells h b = Some (CookiesB (Some a))" "cells h a = Some (VectorB v)"
    "join (map (own_named_cookie h) (map Some (vec_list V v))) = Some Fe" "F = Fe @ [a] @ [b]"
    by (auto simp: own_cookies_Some own_elements_Some)
  have "cookie_of h' e = cookie_of h e" if e: "e \<in> set (vec_list V v)" for e
  proof -
    from join_member [OF b(3), of "Some e"] e obtain H where H: "own_named_cookie h (Some e) = Some H" "set H \<subseteq> set Fe" by auto
    show ?thesis by (rule cookie_of_frame [OF H(1)]) (use H(2) assms(2) b(4) in auto)
  qed
  then show ?thesis using b assms(2) by (simp add: cookies_at_def vector_of_def)
qed

lemma cookies_at_malloc:
  assumes "own_cookies V h (Some b) = Some F" and "heap_ok h"
  shows "cookies_at V (snd (malloc x h)) (Some b) = cookies_at V h (Some b)"
  using framed.own_fresh [OF framed_containers(2) assms, of "next_addr h"]
  by (intro cookies_at_frame [OF assms(1)]) auto

lemma scan_add:
  assumes "mem_ok M C" and "libs_ok L" and "scans L (vectors M) b s t F N" and "\<not> ms_looking_for_name s"
  shows "\<exists>s' F'. cookie_scan_add_mem L M (Some b) s = ret s' \<and> ms_buffer s' = ms_buffer s
    \<and> scans L (vectors M) b (s'\<lparr>ms_name := None, ms_looking_for_name := True\<rparr>)
        ((cookie_scan_add L t)\<lparr>scan_name := None, scan_looking_for_name := True\<rparr>) F' []
    \<and> accounts (ms_heap s) (F @ N) (ms_heap s') F'"
proof -
  let ?h = "ms_heap s" and ?V = "vectors M" and ?text = "stringbuffer_to_string L (ms_buffer s)"
  let ?v = "next_addr ?h" and ?c = "next_addr ?h + 1"
  let ?h1 = "snd (malloc (StringB ?text) ?h)"
  let ?cookie = "\<lparr>m_name = ms_name s, m_cookie_value = Some ?v, m_expires = None, m_max_age = -1, m_secure = False,
    m_http_only = False, m_domain = None, m_path = None, m_same_site = HS_COOKIE_SAME_SITE_LAX\<rparr>"
  let ?h3 = "snd (malloc (CookieB ?cookie) ?h1)"
  from assms(3,4) obtain n v where s: "own_cookies ?V ?h (Some b) = Some F" "ms_name s = Some n" "own_string ?h (Some n) = Some N"
    "distinct (F @ N)" "heap_ok ?h" "ms_buffer s = scan_buffer t" "text_of ?h (Some n) = scan_name t" "scan_cookies t = Some v"
    "cookies_at ?V ?h (Some b) = cookie_list L v"
    by (auto simp: scans_def)
  have live: "\<forall>x \<in> set (F @ N). cells ?h x \<noteq> None"
    using framed.live [OF framed_containers(2) s(1)] str.live [OF s(3)] by auto
  note refl = accounts_refl [OF s(5,4) live]
  have a1: "accounts ?h (F @ N) ?h1 ((F @ N) @ [?v])" "?v \<notin> set (F @ N)"
    by (rule accounts_malloc_next(1,2) [OF refl])+
  have a3: "accounts ?h (F @ N) ?h3 (((F @ N) @ [?v]) @ [next_addr ?h1])" "next_addr ?h1 \<notin> set ((F @ N) @ [?v])"
    by (rule accounts_malloc_next(1,2) [OF a1(1)])+
  have keep: "own ?h3 p = Some G" if "framed own" "own ?h p = Some G" for own p G
    by (rule accounts_malloc_next(3) [OF a1(1) that(1)], rule accounts_malloc_next(3) [OF refl that])
  have own: "own_cookies ?V ?h3 (Some b) = Some F" "own_string ?h3 (Some n) = Some N"
    by (rule keep [OF framed_containers(2) s(1)], rule keep [OF framed_structs(1) s(3)])
  have v: "own_string ?h3 (Some ?v) = Some [?v]" by (simp add: own_string_Some)
  have c: "own_named_cookie ?h3 (Some ?c) = Some (N @ [?v] @ [?c])"
    using own(2) v s(2) by (simp add: own_named_cookie_Some)
  have d: "distinct (F @ N @ [?v] @ [?c])" using a3(2) a1(2) s(4) by auto
  have ok: "heap_ok ?h3" by (rule accountsD(1) [OF a3(1)])
  from cookies_add_spec [OF assms(1) ok own(1) c] d obtain h' F' where r:
    "hs_types_cookies_add_mem M (Some b) (Some ?c) ?h3 = ret (True, h')" "own_cookies ?V h' (Some b) = Some F'"
    "accounts ?h3 (F @ N @ [?v] @ [?c]) h' F'"
    "cookies_at ?V h' (Some b) = cookies_at ?V ?h3 (Some b) @ [cookie_of ?h3 ?c]" by auto
  have "cookie_of ?h3 ?c = hs_types_cookie_new\<lparr>cookie_name := scan_name t, cookie_value := Some ?text\<rparr>"
  proof -
    have "text_of ?h3 (Some n) = scan_name t"
      unfolding s(7) [symmetric] by (rule text_of_frame [OF s(3)]) (use a1(2) a3(2) in auto)
    moreover have "text_of ?h3 (Some ?v) = Some ?text" by (simp add: text_of_def)
    moreover have "cells ?h3 ?c = Some (CookieB ?cookie)" by simp
    moreover have "text_of ?h3 None = None" by (simp add: text_of_def)
    ultimately show ?thesis
      using s(2) unfolding cookie_of_def Let_def by (simp add: hs_types_cookie_new_def del: malloc_simps)
  qed
  moreover have "cookies_at ?V ?h3 (Some b) = cookie_list L v"
    unfolding s(9) [symmetric]
    by (rule cookies_at_frame [OF s(1)]) (use a1(2) a3(2) in auto)
  ultimately have at: "cookies_at ?V h' (Some b) = cookie_list L v @ [hs_types_cookie_new\<lparr>cookie_name := scan_name t, cookie_value := Some ?text\<rparr>]"
    using r(4) by simp
  obtain nm where nm: "scan_name t = Some nm"
    using s(3) s(7) [symmetric] by (auto simp: own_string_Some text_of_def)
  have "store (Some ?c) (CookieB ?cookie) (snd (malloc x ?h1)) = ret ?h3" for x
    by (simp add: store_def malloc_def)
  then have run: "cookie_scan_add_mem L M (Some b) s = ret (s\<lparr>ms_heap := h', ms_added := True\<rparr>)"
    using r(1) s(2) by (simp add: cookie_scan_add_mem_def hs_types_cookie_new_mem_def Let_def split_def del: store_simps)
  have "accounts ?h (F @ N) ?h3 (F @ N @ [?v] @ [?c])"
    using a3(1) by simp
  then have acc: "accounts ?h (F @ N) h' F'" using r(3) by (rule accounts_trans)
  have "scans L ?V b (s\<lparr>ms_heap := h', ms_added := True, ms_name := None, ms_looking_for_name := True\<rparr>)
        ((cookie_scan_add L t)\<lparr>scan_name := None, scan_looking_for_name := True\<rparr>) F' []"
    using r(2) accountsD(1,3) [OF acc] s(6,8) at nm vector_laws(4) [OF libs_ok_parts(4) [OF assms(2)]]
    by (simp add: scans_def cookie_scan_add_def text_of_def cookie_list_def)
  with run acc show ?thesis by (intro exI [of _ "s\<lparr>ms_heap := h', ms_added := True\<rparr>"] exI [of _ F']) simp
qed

lemma scan_step_simps:
  "scans L V b s t F N \<Longrightarrow> scans L V b (s\<lparr>ms_buffer := x\<rparr>) (t\<lparr>scan_buffer := x\<rparr>) F N"
  by (simp add: scans_def)

lemma scans_accounts: "scans L V b s t F N \<Longrightarrow> accounts (ms_heap s) (F @ N) (ms_heap s) (F @ N)"
  using framed.live [OF framed_containers(2)] str.live by (fastforce simp: scans_def intro!: accounts_refl)

lemma scan_name_step:
  assumes "scans L V b s t F []" and "ms_looking_for_name s"
  shows "scans L V b (s\<lparr>ms_looking_for_name := False, ms_name := Some (next_addr (ms_heap s)),
        ms_heap := snd (malloc (StringB (stringbuffer_to_string L (ms_buffer s))) (ms_heap s)), ms_buffer := stringbuffer_clear L (ms_buffer s)\<rparr>)
      (t\<lparr>scan_looking_for_name := False, scan_name := Some (stringbuffer_to_string L (scan_buffer t)),
        scan_buffer := stringbuffer_clear L (scan_buffer t)\<rparr>) F [next_addr (ms_heap s)]"
    and "accounts (ms_heap s) F (snd (malloc (StringB (stringbuffer_to_string L (ms_buffer s))) (ms_heap s))) (F @ [next_addr (ms_heap s)])"
proof -
  from assms(1) have s: "own_cookies V (ms_heap s) (Some b) = Some F" "heap_ok (ms_heap s)" "distinct F" by (simp_all add: scans_def)
  note fresh = framed.own_fresh [OF framed_containers(2) s(1,2), of "next_addr (ms_heap s)"]
  show "scans L V b (s\<lparr>ms_looking_for_name := False, ms_name := Some (next_addr (ms_heap s)),
        ms_heap := snd (malloc (StringB (stringbuffer_to_string L (ms_buffer s))) (ms_heap s)), ms_buffer := stringbuffer_clear L (ms_buffer s)\<rparr>)
      (t\<lparr>scan_looking_for_name := False, scan_name := Some (stringbuffer_to_string L (scan_buffer t)),
        scan_buffer := stringbuffer_clear L (scan_buffer t)\<rparr>) F [next_addr (ms_heap s)]"
    using assms fresh s framed.own_malloc [OF framed_containers(2) s(1,2)] cookies_at_malloc [OF s(1,2)]
    by (simp add: scans_def own_string_Some text_of_def)
  show "accounts (ms_heap s) F (snd (malloc (StringB (stringbuffer_to_string L (ms_buffer s))) (ms_heap s))) (F @ [next_addr (ms_heap s)])"
    by (rule accounts_malloc [OF s(2,3)]) (use framed.live [OF framed_containers(2) s(1)] in blast)
qed

lemma scan_loop:
  assumes "mem_ok M C" and "libs_ok L" and "scans L (vectors M) b s t F N"
  shows "\<exists>s' F' N'. cookie_scan_loop_mem L M (Some b) line s = ret s'
    \<and> scans L (vectors M) b s' (cookie_scan_loop L line t) F' N' \<and> accounts (ms_heap s) (F @ N) (ms_heap s') (F' @ N')"
  using assms(3)
proof (induction line arbitrary: s t F N)
  case Nil
  then show ?case using scans_accounts by fastforce
next
  case (Cons c rest)
  let ?V = "vectors M"
  note sc = Cons.prems
  have same: "ms_buffer s = scan_buffer t" "ms_looking_for_name s = scan_looking_for_name t"
    and name: "ms_looking_for_name s \<Longrightarrow> N = []"
    using sc by (auto simp: scans_def own_string_Some)
  consider (equals) "ms_looking_for_name s" "c = CHR ''=''" | (semicolon) "\<not> ms_looking_for_name s" "c = CHR '';''" "rest = [] \<or> hd rest = CHR '' ''"
    | (append) "ms_looking_for_name s \<and> c \<noteq> CHR ''='' \<and> (c \<noteq> CHR '' '' \<or> \<not> stringbuffer_is_empty L (ms_buffer s))
        \<or> \<not> ms_looking_for_name s \<and> \<not> (c = CHR '';'' \<and> (rest = [] \<or> hd rest = CHR '' ''))"
    | (skip) "ms_looking_for_name s" "c = CHR '' ''" "stringbuffer_is_empty L (ms_buffer s)"
    by blast
  then show ?case
  proof cases
    case equals
    note step = scan_name_step [OF sc [unfolded name [OF equals(1)]] equals(1)]
    from Cons.IH [OF step(1)] obtain s' F' N' where
      "cookie_scan_loop_mem L M (Some b) (c # rest) s = ret s'" "scans L ?V b s' (cookie_scan_loop L (c # rest) t) F' N'"
      "accounts (snd (malloc (StringB (stringbuffer_to_string L (ms_buffer s))) (ms_heap s))) (F @ [next_addr (ms_heap s)]) (ms_heap s') (F' @ N')"
      using equals same by (auto simp: Let_def split_def cookie_scan_loop.simps)
    with accounts_trans [OF step(2) this(3)] name [OF equals(1)] show ?thesis by auto
  next
    case semicolon
    from scan_add [OF assms(1,2) sc semicolon(1)] obtain s1 F1 where add:
      "cookie_scan_add_mem L M (Some b) s = ret s1" "ms_buffer s1 = ms_buffer s"
      "scans L ?V b (s1\<lparr>ms_name := None, ms_looking_for_name := True\<rparr>)
        ((cookie_scan_add L t)\<lparr>scan_name := None, scan_looking_for_name := True\<rparr>) F1 []"
      "accounts (ms_heap s) (F @ N) (ms_heap s1) F1" by blast
    let ?x = "stringbuffer_clear L (ms_buffer s)"
    have "cookie_scan_loop_mem L M (Some b) (c # rest) s = cookie_scan_loop_mem L M (Some b) rest
        (s1\<lparr>ms_name := None, ms_looking_for_name := True, ms_buffer := ?x\<rparr>)"
      using semicolon add(1) by simp
    moreover have "cookie_scan_loop L (c # rest) t = cookie_scan_loop L rest
        ((cookie_scan_add L t)\<lparr>scan_name := None, scan_looking_for_name := True, scan_buffer := ?x\<rparr>)"
      using semicolon same by (cases "cookie_scan_add L t") (simp add: cookie_scan_loop.simps)
    moreover note Cons.IH [OF scan_step_simps [OF add(3), of ?x]]
    ultimately obtain s' F' N' where "cookie_scan_loop_mem L M (Some b) (c # rest) s = ret s'"
      "scans L ?V b s' (cookie_scan_loop L (c # rest) t) F' N'" "accounts (ms_heap s1) F1 (ms_heap s') (F' @ N')" by auto
    with accounts_trans [OF add(4) this(3)] show ?thesis by blast
  next
    case append
    let ?x = "stringbuffer_append L (ms_buffer s) c"
    have "cookie_scan_loop_mem L M (Some b) (c # rest) s = cookie_scan_loop_mem L M (Some b) rest (s\<lparr>ms_buffer := ?x\<rparr>)"
      using append by auto
    moreover have "cookie_scan_loop L (c # rest) t = cookie_scan_loop L rest (t\<lparr>scan_buffer := ?x\<rparr>)"
      using append same by (auto simp: cookie_scan_loop.simps)
    moreover note Cons.IH [OF scan_step_simps [OF sc, of ?x]]
    ultimately show ?thesis by simp
  next
    case skip
    from Cons.IH [OF sc] show ?thesis using skip same by (simp add: cookie_scan_loop.simps)
  qed
qed

lemma scan_finish:
  assumes "mem_ok M C" and "libs_ok L" and "scans L (vectors M) b s t F N"
  shows "\<exists>s' F'. cookie_scan_finish_mem L M (Some b) s = ret s' \<and> own_cookies (vectors M) (ms_heap s') (Some b) = Some F'
    \<and> ms_added s' = scan_added (cookie_scan_finish L t)
    \<and> (\<exists>v. scan_cookies (cookie_scan_finish L t) = Some v \<and> cookies_at (vectors M) (ms_heap s') (Some b) = cookie_list L v)
    \<and> accounts (ms_heap s) (F @ N) (ms_heap s') F'"
proof (cases "\<not> ms_looking_for_name s \<and> \<not> stringbuffer_is_empty L (ms_buffer s)")
  case True
  from scan_add [OF assms] True obtain s' F' where add: "cookie_scan_add_mem L M (Some b) s = ret s'"
    "scans L (vectors M) b (s'\<lparr>ms_name := None, ms_looking_for_name := True\<rparr>)
        ((cookie_scan_add L t)\<lparr>scan_name := None, scan_looking_for_name := True\<rparr>) F' []"
    "accounts (ms_heap s) (F @ N) (ms_heap s') F'" by blast
  have "cookie_scan_finish L t = cookie_scan_add L t"
    using True assms(3) by (simp add: cookie_scan_finish_def scans_def)
  with add True show ?thesis by (auto simp: cookie_scan_finish_mem_def scans_def)
next
  case False
  from assms(3) have s: "own_cookies (vectors M) (ms_heap s) (Some b) = Some F" "own_string (ms_heap s) (ms_name s) = Some N"
    "distinct (F @ N)" "heap_ok (ms_heap s)" by (simp_all add: scans_def)
  have finish: "cookie_scan_finish L t = t"
    using False assms(3) by (auto simp: cookie_scan_finish_def scans_def)
  have free: "hs_io_free (ms_name s) (ms_heap s) = ret (gone N (ms_heap s))"
    by (rule str.release [OF s(2)]) (use s(3) in simp)
  have disj: "set F \<inter> set N = {}" using s(3) by auto
  have "accounts (ms_heap s) (F @ N) (gone N (ms_heap s)) F"
    by (rule accounts_gone [OF s(4,3)]) (use framed.live [OF framed_containers(2) s(1)] in blast)
  moreover have "own_cookies (vectors M) (gone N (ms_heap s)) (Some b) = Some F"
    by (rule framed.own_elsewhere [OF framed_containers(2) s(1) disj])
  moreover have "cookies_at (vectors M) (gone N (ms_heap s)) (Some b) = cookies_at (vectors M) (ms_heap s) (Some b)"
    by (rule cookies_at_frame [OF s(1)]) (use disj in auto)
  ultimately show ?thesis
    using False free assms(3) finish by (auto simp: cookie_scan_finish_mem_def scans_def)
qed

lemma parse_cookie_header_spec:
  assumes "mem_ok M C" and "libs_ok L" and "heap_ok h" and "own_cookies (vectors M) h (Some b) = Some F" and "distinct F"
    and "cells h l = Some (StringB line)" and "cookies_at (vectors M) h (Some b) = cookie_list L v"
  shows "\<exists>added h' F' v'. hs_parser_parse_cookie_header_mem L M (Some b) (Some l) h = ret (added, h')
    \<and> hs_parser_parse_cookie_header L (Some v) (Some line) = (added, Some v')
    \<and> own_cookies (vectors M) h' (Some b) = Some F' \<and> accounts h F h' F'
    \<and> cookies_at (vectors M) h' (Some b) = cookie_list L v'"
proof (cases "line = []")
  case True
  then show ?thesis
    using assms(4,6,7) framed.accounts_own [OF framed_containers(2) assms(4,3,5)]
    by (auto simp: hs_parser_parse_cookie_header_mem_def hs_parser_parse_cookie_header_def)
next
  case False
  let ?V = "vectors M" and ?n = "next_addr h" and ?h1 = "snd (malloc (BufferB (stringbuffer_new L)) h)"
  let ?s = "\<lparr>ms_heap = ?h1, ms_buffer = stringbuffer_new L, ms_name = None, ms_looking_for_name = True, ms_added = False\<rparr>"
  let ?t = "\<lparr>scan_cookies = Some v, scan_buffer = stringbuffer_new L, scan_name = None, scan_looking_for_name = True, scan_added = False\<rparr>"
  have acc0: "accounts h F h F" by (rule framed.accounts_own [OF framed_containers(2) assms(4,3,5)])
  note acc1 = accounts_malloc_next(1) [OF acc0, of "BufferB (stringbuffer_new L)"]
  have n: "?n \<notin> set F" by (rule accounts_malloc_next(2) [OF acc0])
  have "scans L ?V b ?s ?t F []"
    using accountsD(1) [OF acc1] framed.own_malloc [OF framed_containers(2) assms(4,3)] assms(5,7) cookies_at_malloc [OF assms(4,3)]
    by (simp add: scans_def text_of_def)
  from scan_loop [OF assms(1,2) this, of line] obtain s2 F2 N2 where loop: "cookie_scan_loop_mem L M (Some b) line ?s = ret s2"
    "scans L ?V b s2 (cookie_scan_loop L line ?t) F2 N2" "accounts ?h1 F (ms_heap s2) (F2 @ N2)" by auto
  from scan_finish [OF assms(1,2) loop(2)] obtain s3 F3 v3 where fin: "cookie_scan_finish_mem L M (Some b) s2 = ret s3"
    "own_cookies ?V (ms_heap s3) (Some b) = Some F3" "ms_added s3 = scan_added (cookie_scan_finish L (cookie_scan_loop L line ?t))"
    "scan_cookies (cookie_scan_finish L (cookie_scan_loop L line ?t)) = Some v3" "cookies_at ?V (ms_heap s3) (Some b) = cookie_list L v3"
    "accounts (ms_heap s2) (F2 @ N2) (ms_heap s3) F3" by blast
  have acc3: "accounts ?h1 F (ms_heap s3) F3" by (rule accounts_trans [OF loop(3) fin(6)])
  note buffer = mem_ok_parts(4) [OF assms(1)]
  have "own_buffer ?h1 (Some ?n) = Some [?n]" by (simp add: own_buffer_def own_struct_def)
  from framed.own_accounts [OF owner.axioms(1) [OF buffer] this _ acc3] n
  have b3: "own_buffer (ms_heap s3) (Some ?n) = Some [?n]" "?n \<notin> set F3" "accounts ?h1 (F @ [?n]) (ms_heap s3) (F3 @ [?n])" by auto
  have rel: "m_stringbuffer_release M (Some ?n) (ms_heap s3) = ret (gone [?n] (ms_heap s3))"
    by (rule owner.release [OF buffer b3(1)]) simp
  have "accounts (ms_heap s3) (F3 @ [?n]) (gone [?n] (ms_heap s3)) F3"
    by (rule accounts_gone) (use accountsD(1,3,4) [OF b3(3)] in auto)
  from accounts_trans [OF accounts_trans [OF acc1 b3(3)] this] have acc: "accounts h F (gone [?n] (ms_heap s3)) F3" .
  have own: "own_cookies ?V (gone [?n] (ms_heap s3)) (Some b) = Some F3"
    by (rule framed.own_elsewhere [OF framed_containers(2) fin(2)]) (use b3(2) in simp)
  have at: "cookies_at ?V (gone [?n] (ms_heap s3)) (Some b) = cookie_list L v3"
    unfolding fin(5) [symmetric] by (rule cookies_at_frame [OF fin(2)]) (use b3(2) in auto)
  have "hs_parser_parse_cookie_header_mem L M (Some b) (Some l) h = ret (ms_added s3, gone [?n] (ms_heap s3))"
    using False assms(6) loop(1) fin(1) rel
    by (simp add: hs_parser_parse_cookie_header_mem_def Let_def split_def)
  moreover have "hs_parser_parse_cookie_header L (Some v) (Some line) = (ms_added s3, Some v3)"
    using False fin(3,4) by (simp add: hs_parser_parse_cookie_header_def Let_def)
  ultimately show ?thesis using own acc at by blast
qed

end
