(* ===== verification/Request_Memory.thy ===== *)
theory Request_Memory
  imports Parser_Memory
begin

text \<open>
  The requests of \<open>src/hs_parser.c\<close> on the heap: a request as \<open>Parser\<close> sees it and the blocks that
  hold it (\<open>holds\<close>), the functions that make a request and apply header lines to it, and what they
  lose: a second user agent or authorization overwrites the pointer to the first, and the copy of a
  target that ends in a colon is never freed.
\<close>

section \<open>The functions\<close>

definition new_text :: "cstr \<Rightarrow> ('v, 'sb, 'dt, 'fn) heap \<Rightarrow> ptr \<times> ('v, 'sb, 'dt, 'fn) heap" where
  \<comment> \<open>a string returned in a block of its own, or NULL\<close>
  "new_text s h = (case s of None \<Rightarrow> (None, h) | Some t \<Rightarrow> malloc (StringB t) h)"

definition hs_parser_parse_header_mem ::
  "('sb, 'pv, 'cv, 'ht, 'sh) libs \<Rightarrow> ptr \<Rightarrow> ('v, 'sb, 'dt, 'fn) heap \<Rightarrow> (ptr \<times> ('v, 'sb, 'dt, 'fn) heap) run" where
  "hs_parser_parse_header_mem L line h =
     (if line = None then ret (None, h)
      else bindR (load as_string line h)
             (\<lambda>l. if length l < 3 then ret (None, h)
                else (let end_index = header_end_index l
                      in if end_index = 0 then ret (None, h)
                         else (let (key, h1) = new_text (map_option (stringfn_mut_to_lowercase L) (stringfn_substring L l 0 end_index)) h;
                                   (value, h2) = new_text (if end_index + 2 < length l
                                                            then stringfn_substring L l (int (end_index + 2)) 0 else None) h1
                               in ret (malloc (SlotsB [Some key, Some value]) h2)))))"

definition hs_parser_set_header_mem ::
  "('sb, 'pv, 'cv, 'ht, 'sh) libs \<Rightarrow> ('v, 'sb, 'dt, 'fn) mem_lib \<Rightarrow> ptr \<Rightarrow> ptr \<Rightarrow> ptr
    \<Rightarrow> ('v, 'sb, 'dt, 'fn) heap \<Rightarrow> ('v, 'sb, 'dt, 'fn) heap run" where
  "hs_parser_set_header_mem L M req key value h =
     (if req = None \<or> key = None \<or> value = None then ret h
      else bindR (load as_string key h) (\<lambda>k. bindR (load as_string value h) (\<lambda>v. bindR (load as_request req h)
        (\<lambda>r. if stringfn_equal L (Some k) (Some ''cookie'')
             then bindR (hs_parser_parse_cookie_header_mem L M (m_req_cookies r) value h) (\<lambda>(_, h1). ret h1)
             else if stringfn_equal L (Some k) (Some ''content-length'')
             then store req (RequestB (r\<lparr>m_req_content_length := word_of_int (atoi v)\<rparr>)) h
             else if stringfn_equal L (Some k) (Some ''connection'')
             then (if stringfn_equal L (Some v) (Some ''close'')
                   then store req (RequestB (r\<lparr>m_req_connection := HS_CONNECTION_TYPE_CLOSE\<rparr>)) h
                   else if stringfn_starts_with L (Some v) (Some ''keep-alive'')
                   then store req (RequestB (r\<lparr>m_req_connection := HS_CONNECTION_TYPE_KEEP_ALIVE\<rparr>)) h
                   else ret h)
             else if stringfn_equal L (Some k) (Some ''user-agent'')
             then (let (p, h1) = malloc (StringB v) h in store req (RequestB (r\<lparr>m_req_user_agent := p\<rparr>)) h1)
             else if stringfn_equal L (Some k) (Some ''authorization'')
             then (let (p, h1) = malloc (StringB v) h in store req (RequestB (r\<lparr>m_req_authorization := p\<rparr>)) h1)
             else ret h))))"

definition parse_header_line_mem ::
  "('sb, 'pv, 'cv, 'ht, 'sh) libs \<Rightarrow> ('v, 'sb, 'dt, 'fn) mem_lib \<Rightarrow> ptr \<Rightarrow> ptr
    \<Rightarrow> ('v, 'sb, 'dt, 'fn) heap \<Rightarrow> ('v, 'sb, 'dt, 'fn) heap run" where
  \<comment> \<open>the body of the loop of \<open>hs_parser_parse_request\<close> for a line that has been read\<close>
  "parse_header_line_mem L M req line h =
     bindR (hs_parser_parse_header_mem L line h)
       (\<lambda>(header, h1). bindR (hs_io_free line h1)
          (\<lambda>h2. if header = None then ret h2
                else bindR (load as_request req h2) (\<lambda>r.
                     bindR (slot_at header 0 h2) (\<lambda>key. bindR (slot_at header 1 h2) (\<lambda>value.
                     bindR (hs_types_array_string_pair_add_mem M (m_req_headers r) key value h2) (\<lambda>(_, h3).
                     bindR (hs_parser_set_header_mem L M req key value h3) (hs_io_free header)))))))"

primrec parse_headers_loop_mem ::
  "('sb, 'pv, 'cv, 'ht, 'sh) libs \<Rightarrow> ('v, 'sb, 'dt, 'fn) mem_lib \<Rightarrow> ptr \<Rightarrow> string list
    \<Rightarrow> ('v, 'sb, 'dt, 'fn) heap \<Rightarrow> ('v, 'sb, 'dt, 'fn) heap run" where
  \<comment> \<open>the loop, given the lines \<open>hs_io_read_line\<close> returns, each in a block of its own\<close>
  "parse_headers_loop_mem L M req [] h = ret h"
| "parse_headers_loop_mem L M req (line # lines) h =
     (let (p, h1) = malloc (StringB line) h
      in bindR (parse_header_line_mem L M req p h1) (parse_headers_loop_mem L M req lines))"

section \<open>A request and the blocks that hold it\<close>

definition mem_strings :: "HSHttpRequest_mem \<Rightarrow> ptr list" where
  "mem_strings m = [m_req_domain m, m_req_resource m, m_req_query_string m, m_req_user_agent m, m_req_authorization m]"

definition mem_scalars :: "HSHttpRequest_mem \<Rightarrow> HSHttpMethod \<times> int \<times> bool \<times> size_t \<times> HSConnectionType" where
  "mem_scalars m = (m_req_method m, m_req_port m, m_req_ssl m, m_req_content_length m, m_req_connection m)"

definition request_texts :: "('sb, 'pv, 'cv) HSHttpRequest \<Rightarrow> cstr list" where
  "request_texts r = [req_domain r, req_resource r, req_query_string r, req_user_agent r, req_authorization r]"

definition request_scalars :: "('sb, 'pv, 'cv) HSHttpRequest \<Rightarrow> HSHttpMethod \<times> int \<times> bool \<times> size_t \<times> HSConnectionType" where
  "request_scalars r = (req_method r, req_port r, req_ssl r, req_content_length r, req_connection r)"

lemmas request_fields = mem_strings_def mem_scalars_def request_texts_def request_scalars_def

definition holds_parts ::
  "('sb, 'pv, 'cv, 'ht, 'sh) libs \<Rightarrow> ('v, addr) vector_lib \<Rightarrow> ('v, 'sb, 'dt, 'fn) heap \<Rightarrow> HSHttpRequest_mem
    \<Rightarrow> ('sb, 'pv, 'cv) HSHttpRequest \<Rightarrow> addr list \<Rightarrow> addr list \<Rightarrow> addr list \<Rightarrow> bool" where
  "holds_parts L V h m r S C H \<longleftrightarrow> mem_scalars m = request_scalars r
     \<and> join (map (own_string h) (mem_strings m)) = Some S \<and> map (text_of h) (mem_strings m) = request_texts r
     \<and> (\<exists>b v. m_req_cookies m = Some b \<and> own_cookies V h (Some b) = Some C \<and> req_cookies r = Some v
          \<and> cookies_at V h (Some b) = cookie_list L v)
     \<and> (\<exists>b v. m_req_headers m = Some b \<and> own_pairs V h (Some b) = Some H \<and> req_headers r = Some v
          \<and> pairs_at V h (Some b) = map (\<lambda>(k, x). (Some k, x)) (array_pairs L v))
     \<and> m_req_payload m = None"

definition holds ::
  "('sb, 'pv, 'cv, 'ht, 'sh) libs \<Rightarrow> ('v, addr) vector_lib \<Rightarrow> ('v, 'sb, 'dt, 'fn) heap \<Rightarrow> addr
    \<Rightarrow> ('sb, 'pv, 'cv) HSHttpRequest \<Rightarrow> addr list \<Rightarrow> bool" where
  \<comment> \<open>the blocks \<open>F\<close> behind the pointer \<open>q\<close> hold the request \<open>r\<close>, which has no payload yet\<close>
  "holds L V h q r F \<longleftrightarrow> (\<exists>m S C H. cells h q = Some (RequestB m) \<and> holds_parts L V h m r S C H \<and> F = S @ C @ H @ [q])"

lemma holds_own:
  assumes "holds L V h q r F"
  shows "own_request V h (Some q) = Some F"
proof -
  from assms obtain m S C H where m: "cells h q = Some (RequestB m)" "holds_parts L V h m r S C H" "F = S @ C @ H @ [q]"
    by (auto simp: holds_def)
  from m(2) obtain D R Q U A where
    "own_string h (m_req_domain m) = Some D" "own_string h (m_req_resource m) = Some R" "own_string h (m_req_query_string m) = Some Q"
    "own_string h (m_req_user_agent m) = Some U" "own_string h (m_req_authorization m) = Some A" "S = D @ R @ Q @ U @ A"
    "own_cookies V h (m_req_cookies m) = Some C" "own_pairs V h (m_req_headers m) = Some H" "m_req_payload m = None"
    by (auto simp: holds_parts_def mem_strings_def)
  then show ?thesis using m(1,3) by (simp add: own_request_def own_struct_def)
qed

lemma holds_live: "holds L V h q r F \<Longrightarrow> a \<in> set F \<Longrightarrow> cells h a \<noteq> None"
  by (rule framed.live [OF framed_request holds_own])

lemma pairs_at_frame:
  assumes "own_pairs V h (Some b) = Some F" and "\<forall>a \<in> set F. cells h' a = cells h a"
  shows "pairs_at V h' (Some b) = pairs_at V h (Some b)"
proof -
  from assms(1) obtain a v Fe where b: "cells h b = Some (PairsB (Some a))" "cells h a = Some (VectorB v)"
    "join (map (own_pair h) (map Some (vec_list V v))) = Some Fe" "F = Fe @ [a] @ [b]"
    by (auto simp: own_pairs_Some own_elements_Some)
  have "pair_of h' e = pair_of h e" if e: "e \<in> set (vec_list V v)" for e
  proof -
    from join_member [OF b(3), of "Some e"] e obtain H where H: "own_pair h (Some e) = Some H" "set H \<subseteq> set Fe" by auto
    show ?thesis by (rule pair_of_frame [OF H(1)]) (use H(2) assms(2) b(4) in auto)
  qed
  then show ?thesis using b assms(2) by (simp add: pairs_at_def vector_of_def)
qed

lemma texts_frame:
  assumes "join (map (own_string h) ps) = Some S" and "\<forall>a \<in> set S. cells h' a = cells h a"
  shows "join (map (own_string h') ps) = Some S" and "map (text_of h') ps = map (text_of h) ps"
proof -
  show "join (map (own_string h') ps) = Some S" by (rule framed.frame [OF framed_join [OF framed_structs(1)] assms])
  show "map (text_of h') ps = map (text_of h) ps"
    using assms
  proof (induction ps arbitrary: S)
    case (Cons p ps)
    from Cons.prems obtain F G where "own_string h p = Some F" "join (map (own_string h) ps) = Some G" "S = F @ G" by auto
    then show ?case using Cons.IH [of G] Cons.prems(2) text_of_frame [of h p F h'] by simp
  qed simp
qed

lemma holds_parts_frame:
  assumes "holds_parts L V h m r S C H" and "\<forall>a \<in> set S \<union> set C \<union> set H. cells h' a = cells h a"
  shows "holds_parts L V h' m r S C H"
proof -
  from assms(1) obtain b v d u where p: "join (map (own_string h) (mem_strings m)) = Some S"
    "m_req_cookies m = Some b" "own_cookies V h (Some b) = Some C" "req_cookies r = Some v" "cookies_at V h (Some b) = cookie_list L v"
    "m_req_headers m = Some d" "own_pairs V h (Some d) = Some H" "req_headers r = Some u"
    "pairs_at V h (Some d) = map (\<lambda>(k, x). (Some k, x)) (array_pairs L u)"
    by (auto simp: holds_parts_def)
  have agree: "\<forall>a \<in> set S. cells h' a = cells h a" "\<forall>a \<in> set C. cells h' a = cells h a" "\<forall>a \<in> set H. cells h' a = cells h a"
    using assms(2) by blast+
  show ?thesis
    using assms(1) p texts_frame [OF p(1) agree(1)] framed.frame [OF framed_containers(2) p(3) agree(2)]
      framed.frame [OF framed_containers(1) p(7) agree(3)] cookies_at_frame [OF p(3) agree(2)] pairs_at_frame [OF p(7) agree(3)]
    by (simp add: holds_parts_def)
qed

lemma holds_frame:
  assumes "holds L V h q r F" and "\<forall>a \<in> set F. cells h' a = cells h a"
  shows "holds L V h' q r F"
proof -
  from assms(1) obtain m S C H where m: "cells h q = Some (RequestB m)" "holds_parts L V h m r S C H" "F = S @ C @ H @ [q]"
    by (auto simp: holds_def)
  have "holds_parts L V h' m r S C H" by (rule holds_parts_frame [OF m(2)]) (use assms(2) m(3) in auto)
  then show ?thesis using m assms(2) by (auto simp: holds_def)
qed

lemma holds_accounts: "holds L V h q r F \<Longrightarrow> heap_ok h \<Longrightarrow> distinct F \<Longrightarrow> accounts h F h F"
  by (rule framed.accounts_own [OF framed_request holds_own])


section \<open>Header lines\<close>

lemma join_update:
  assumes "join (map f ps) = Some S" and "i < length ps" and "f x = Some G"
  shows "\<exists>A U B. S = A @ U @ B \<and> f (ps ! i) = Some U \<and> join (map f (ps[i := x])) = Some (A @ G @ B)"
  using assms(1,2)
proof (induction ps arbitrary: i S)
  case (Cons p ps)
  from Cons.prems(1) obtain F T where F: "f p = Some F" "join (map f ps) = Some T" "S = F @ T" by auto
  show ?case
  proof (cases i)
    case 0
    with F assms(3) show ?thesis by (intro exI [of _ "[]"] exI [of _ F] exI [of _ T]) simp
  next
    case (Suc j)
    with Cons.IH [OF F(2), of j] Cons.prems(2) obtain A U B where
      "T = A @ U @ B" "f (ps ! j) = Some U" "join (map f (ps[j := x])) = Some (A @ G @ B)" by auto
    with F Suc show ?thesis by (intro exI [of _ "F @ A"] exI [of _ U] exI [of _ B]) simp
  qed
qed simp

lemma holds_store:
  assumes "cells h q = Some b" and "holds_parts L V h m r S C H" and "q \<notin> set S \<union> set C \<union> set H"
  shows "store (Some q) (RequestB m) h = ret (h\<lparr>cells := (cells h)(q \<mapsto> RequestB m)\<rparr>)"
    and "holds L V (h\<lparr>cells := (cells h)(q \<mapsto> RequestB m)\<rparr>) q r (S @ C @ H @ [q])"
proof -
  show "store (Some q) (RequestB m) h = ret (h\<lparr>cells := (cells h)(q \<mapsto> RequestB m)\<rparr>)" using assms(1) by simp
  have "holds_parts L V (h\<lparr>cells := (cells h)(q \<mapsto> RequestB m)\<rparr>) m r S C H"
    by (rule holds_parts_frame [OF assms(2)]) (use assms(3) in auto)
  then show "holds L V (h\<lparr>cells := (cells h)(q \<mapsto> RequestB m)\<rparr>) q r (S @ C @ H @ [q])" by (auto simp: holds_def)
qed

text \<open>A scalar field is assigned.\<close>

lemma set_scalar:
  assumes "heap_ok h" and "cells h q = Some (RequestB m)" and "holds_parts L V h m r S C H" and "distinct (S @ C @ H @ [q])"
    and "mem_strings m' = mem_strings m" "m_req_cookies m' = m_req_cookies m" "m_req_headers m' = m_req_headers m"
      "m_req_payload m' = m_req_payload m"
    and "request_texts r' = request_texts r" "req_cookies r' = req_cookies r" "req_headers r' = req_headers r"
    and "mem_scalars m' = request_scalars r'"
  shows "\<exists>h'. store (Some q) (RequestB m') h = ret h' \<and> holds L V h' q r' (S @ C @ H @ [q])
    \<and> accounts h (S @ C @ H @ [q]) h' (S @ C @ H @ [q])"
proof -
  have "holds_parts L V h m' r' S C H" using assms(3,5-12) by (simp add: holds_parts_def)
  from holds_store [OF assms(2) this] have r: "store (Some q) (RequestB m') h = ret (h\<lparr>cells := (cells h)(q \<mapsto> RequestB m')\<rparr>)"
    "holds L V (h\<lparr>cells := (cells h)(q \<mapsto> RequestB m')\<rparr>) q r' (S @ C @ H @ [q])" using assms(4) by auto
  have "accounts h (S @ C @ H @ [q]) h (S @ C @ H @ [q])"
    by (rule holds_accounts [OF _ assms(1,4)]) (use assms(2,3) in \<open>auto simp: holds_def\<close>)
  from accounts_store [OF this, of q] r show ?thesis by auto
qed

text \<open>A string field is assigned: the string it pointed to is lost.\<close>

lemma set_string:
  assumes "heap_ok h" and "cells h q = Some (RequestB m)" and "holds_parts L V h m r S C H" and "distinct (S @ C @ H @ [q])"
    and "i < length (mem_strings m)" and "mem_strings m' = (mem_strings m)[i := Some (next_addr h)]"
      "m_req_cookies m' = m_req_cookies m" "m_req_headers m' = m_req_headers m" "m_req_payload m' = m_req_payload m"
    and "request_texts r' = (request_texts r)[i := Some v]" "req_cookies r' = req_cookies r" "req_headers r' = req_headers r"
    and "mem_scalars m' = mem_scalars m" "request_scalars r' = request_scalars r"
  shows "\<exists>h' F' X. store (Some q) (RequestB m') (snd (malloc (StringB v) h)) = ret h' \<and> holds L V h' q r' F'
    \<and> accounts h (S @ C @ H @ [q]) h' (F' @ X) \<and> length X = (if request_texts r ! i = None then 0 else 1)"
proof -
  let ?p = "next_addr h" and ?h1 = "snd (malloc (StringB v) h)" and ?F = "S @ C @ H @ [q]"
  have "holds L V h q r ?F" using assms(2,3) by (auto simp: holds_def)
  from holds_accounts [OF this assms(1,4)] have "accounts h ?F h ?F" .
  note acc = accounts_malloc_next(1) [OF this, of "StringB v"] accounts_malloc_next(2) [OF this]
  have parts: "holds_parts L V ?h1 m r S C H" by (rule holds_parts_frame [OF assms(3)]) (use acc(2) in auto)
  from parts have texts: "join (map (own_string ?h1) (mem_strings m)) = Some S" "map (text_of ?h1) (mem_strings m) = request_texts r"
    by (simp_all add: holds_parts_def)
  have new: "own_string ?h1 (Some ?p) = Some [?p]" "text_of ?h1 (Some ?p) = Some v" by (simp_all add: own_string_Some text_of_def)
  from join_update [of "own_string ?h1", OF texts(1) assms(5) new(1)] obtain A U B where
    u: "S = A @ U @ B" "own_string ?h1 (mem_strings m ! i) = Some U" "join (map (own_string ?h1) (mem_strings m')) = Some (A @ [?p] @ B)"
    unfolding assms(6) by blast
  have "map (text_of ?h1) (mem_strings m') = request_texts r'"
    using new(2) texts(2) assms(10) by (simp add: assms(6) map_update)
  then have "holds_parts L V ?h1 m' r' (A @ [?p] @ B) C H"
    using parts u(3) assms(7-9,11-14) by (simp add: holds_parts_def)
  moreover have "cells ?h1 q = Some (RequestB m)" "q \<notin> set (A @ [?p] @ B) \<union> set C \<union> set H"
    using assms(2,4) acc(2) u(1) by auto
  ultimately have r: "store (Some q) (RequestB m') ?h1 = ret (?h1\<lparr>cells := (cells ?h1)(q \<mapsto> RequestB m')\<rparr>)"
    "holds L V (?h1\<lparr>cells := (cells ?h1)(q \<mapsto> RequestB m')\<rparr>) q r' ((A @ [?p] @ B) @ C @ H @ [q])"
    using holds_store by blast+
  have "accounts h ?F (?h1\<lparr>cells := (cells ?h1)(q \<mapsto> RequestB m')\<rparr>) (?F @ [?p])"
    by (rule accounts_store [OF acc(1)]) simp
  then have "accounts h ?F (?h1\<lparr>cells := (cells ?h1)(q \<mapsto> RequestB m')\<rparr>) (((A @ [?p] @ B) @ C @ H @ [q]) @ U)"
    by (rule accounts_set) (use assms(4) acc(2) u(1) in auto)
  moreover have "request_texts r ! i = text_of ?h1 (mem_strings m ! i)"
    using assms(5) by (simp add: texts(2) [symmetric])
  then have "length U = (if request_texts r ! i = None then 0 else 1)"
    using u(2) by (cases "mem_strings m ! i") (auto simp: own_string_Some text_of_def)
  ultimately show ?thesis using r by blast
qed

text \<open>A container has changed.\<close>

lemma holds_cookies:
  assumes "cells h q = Some (RequestB m)" and "holds_parts L V h m r S C H" and "\<forall>a \<in> set S \<union> set H \<union> {q}. cells h' a = cells h a"
    and "m_req_cookies m = Some b" and "own_cookies V h' (Some b) = Some C'" and "cookies_at V h' (Some b) = cookie_list L v"
  shows "holds L V h' q (r\<lparr>req_cookies := Some v\<rparr>) (S @ C' @ H @ [q])"
proof -
  from assms(2) obtain d u where p: "mem_scalars m = request_scalars r" "join (map (own_string h) (mem_strings m)) = Some S"
    "map (text_of h) (mem_strings m) = request_texts r" "m_req_headers m = Some d" "own_pairs V h (Some d) = Some H"
    "req_headers r = Some u" "pairs_at V h (Some d) = map (\<lambda>(k, x). (Some k, x)) (array_pairs L u)" "m_req_payload m = None"
    by (auto simp: holds_parts_def)
  have agree: "\<forall>a \<in> set S. cells h' a = cells h a" "\<forall>a \<in> set H. cells h' a = cells h a" "cells h' q = cells h q"
    using assms(3) by blast+
  show ?thesis
    using assms(1,4-6) p agree(3) texts_frame [OF p(2) agree(1)] framed.frame [OF framed_containers(1) p(5) agree(2)]
      pairs_at_frame [OF p(5) agree(2)]
    by (auto simp: holds_def holds_parts_def request_texts_def request_scalars_def intro!: exI [of _ m])
qed

lemma holds_headers:
  assumes "cells h q = Some (RequestB m)" and "holds_parts L V h m r S C H" and "\<forall>a \<in> set S \<union> set C \<union> {q}. cells h' a = cells h a"
    and "m_req_headers m = Some d" and "own_pairs V h' (Some d) = Some H'"
    and "pairs_at V h' (Some d) = map (\<lambda>(k, x). (Some k, x)) (array_pairs L v)"
  shows "holds L V h' q (r\<lparr>req_headers := Some v\<rparr>) (S @ C @ H' @ [q])"
proof -
  from assms(2) obtain b u where p: "mem_scalars m = request_scalars r" "join (map (own_string h) (mem_strings m)) = Some S"
    "map (text_of h) (mem_strings m) = request_texts r" "m_req_cookies m = Some b" "own_cookies V h (Some b) = Some C"
    "req_cookies r = Some u" "cookies_at V h (Some b) = cookie_list L u" "m_req_payload m = None"
    by (auto simp: holds_parts_def)
  have agree: "\<forall>a \<in> set S. cells h' a = cells h a" "\<forall>a \<in> set C. cells h' a = cells h a" "cells h' q = cells h q"
    using assms(3) by blast+
  show ?thesis
    using assms(1,4-6) p agree(3) texts_frame [OF p(2) agree(1)] framed.frame [OF framed_containers(2) p(5) agree(2)]
      cookies_at_frame [OF p(5) agree(2)]
    by (auto simp: holds_def holds_parts_def request_texts_def request_scalars_def intro!: exI [of _ m])
qed

definition lost_by_header :: "cstr \<Rightarrow> cstr \<Rightarrow> ('sb, 'pv, 'cv) HSHttpRequest \<Rightarrow> nat" where
  \<comment> \<open>the number of strings a header overwrites\<close>
  "lost_by_header key val r =
     (if val \<noteq> None \<and> (key = Some ''user-agent'' \<and> req_user_agent r \<noteq> None \<or> key = Some ''authorization'' \<and> req_authorization r \<noteq> None)
      then 1 else 0)"


lemma set_header_spec:
  fixes L :: "('sb, 'pv, 'cv, 'ht, 'sh) libs" and M :: "('v, 'sb, 'dt, 'fn) mem_lib"
  assumes "mem_ok M C0" and "libs_ok L" and "heap_ok h" and "holds L (vectors M) h q r F" and "distinct F"
    and "cells h k = Some (StringB key)" and "own_string h val = Some W"
  shows "\<exists>h' F' X. hs_parser_set_header_mem L M (Some q) (Some k) val h = ret h'
    \<and> holds L (vectors M) h' q (the (hs_parser_set_header L (Some r) (Some key) (text_of h val))) F'
    \<and> accounts h F h' (F' @ X) \<and> length X = lost_by_header (Some key) (text_of h val) r"
proof (cases val)
  case None
  then show ?thesis
    using assms(4) holds_accounts [OF assms(4,3,5)]
    by (intro exI [of _ h] exI [of _ F] exI [of _ "[]"])
      (simp add: hs_parser_set_header_mem_def hs_parser_set_header_def text_of_def lost_by_header_def)
next
  case (Some a)
  let ?V = "vectors M"
  note laws = stringfn_laws [OF libs_ok_parts(1) [OF assms(2)]]
  from assms(7) Some obtain v where v: "cells h a = Some (StringB v)" "text_of h val = Some v"
    by (auto simp: own_string_Some text_of_def)
  from assms(4) obtain m S C H where m: "cells h q = Some (RequestB m)" "holds_parts L ?V h m r S C H" "F = S @ C @ H @ [q]"
    by (auto simp: holds_def)
  note d = assms(5) [unfolded m(3)]
  have scalar: "\<exists>h'. store (Some q) (RequestB m') h = ret h' \<and> holds L ?V h' q r' F \<and> accounts h F h' F"
    if "mem_strings m' = mem_strings m" "m_req_cookies m' = m_req_cookies m" "m_req_headers m' = m_req_headers m"
      "m_req_payload m' = m_req_payload m" "request_texts r' = request_texts r" "req_cookies r' = req_cookies r"
      "req_headers r' = req_headers r" "mem_scalars m' = request_scalars r'" for m' r'
    unfolding m(3) by (rule set_scalar [OF assms(3) m(1,2) d that])
  have scalars: "mem_scalars m = request_scalars r" using m(2) by (simp add: holds_parts_def)
  have keep: "\<exists>h'. (ret h :: ('v, 'sb, 'dt, 'fn) heap run) = ret h' \<and> holds L ?V h' q r F \<and> accounts h F h' F"
    using assms(4) holds_accounts [OF assms(4,3,5)] by blast
  have run: "hs_parser_set_header_mem L M (Some q) (Some k) val h =
      (if key = ''cookie'' then bindR (hs_parser_parse_cookie_header_mem L M (m_req_cookies m) val h) (\<lambda>(_, h1). ret h1)
       else if key = ''content-length'' then store (Some q) (RequestB (m\<lparr>m_req_content_length := word_of_int (atoi v)\<rparr>)) h
       else if key = ''connection''
       then (if v = ''close'' then store (Some q) (RequestB (m\<lparr>m_req_connection := HS_CONNECTION_TYPE_CLOSE\<rparr>)) h
             else if stringfn_starts_with L (Some v) (Some ''keep-alive'')
             then store (Some q) (RequestB (m\<lparr>m_req_connection := HS_CONNECTION_TYPE_KEEP_ALIVE\<rparr>)) h
             else ret h)
       else if key = ''user-agent''
       then store (Some q) (RequestB (m\<lparr>m_req_user_agent := Some (next_addr h)\<rparr>)) (snd (malloc (StringB v) h))
       else if key = ''authorization''
       then store (Some q) (RequestB (m\<lparr>m_req_authorization := Some (next_addr h)\<rparr>)) (snd (malloc (StringB v) h))
       else ret h)"
    using assms(6) v(1) m(1) Some by (simp add: hs_parser_set_header_mem_def laws split_def Let_def)
  have pure: "hs_parser_set_header L (Some r) (Some key) (Some v) = Some
      (if key = ''cookie'' then r\<lparr>req_cookies := snd (hs_parser_parse_cookie_header L (req_cookies r) (Some v))\<rparr>
       else if key = ''content-length'' then r\<lparr>req_content_length := word_of_int (atoi v)\<rparr>
       else if key = ''connection''
       then (if v = ''close'' then r\<lparr>req_connection := HS_CONNECTION_TYPE_CLOSE\<rparr>
             else if stringfn_starts_with L (Some v) (Some ''keep-alive'') then r\<lparr>req_connection := HS_CONNECTION_TYPE_KEEP_ALIVE\<rparr> else r)
       else if key = ''user-agent'' then r\<lparr>req_user_agent := Some v\<rparr>
       else if key = ''authorization'' then r\<lparr>req_authorization := Some v\<rparr> else r)"
    by (simp add: hs_parser_set_header_def laws)
  consider (cookie) "key = ''cookie''" | (agent) "key = ''user-agent''" | (auth) "key = ''authorization''"
    | (other) "key \<noteq> ''cookie''" "key \<noteq> ''user-agent''" "key \<noteq> ''authorization''" by blast
  then show ?thesis
  proof cases
    case cookie
    from m(2) obtain b cv where b: "m_req_cookies m = Some b" "own_cookies ?V h (Some b) = Some C" "req_cookies r = Some cv"
      "cookies_at ?V h (Some b) = cookie_list L cv" by (auto simp: holds_parts_def)
    have dC: "distinct C" using d by simp
    from parse_cookie_header_spec [OF assms(1,2,3) b(2) dC v(1) b(4)] obtain added h' C' cv' where c:
      "hs_parser_parse_cookie_header_mem L M (Some b) (Some a) h = ret (added, h')"
      "hs_parser_parse_cookie_header L (Some cv) (Some v) = (added, Some cv')"
      "own_cookies ?V h' (Some b) = Some C'" "accounts h C h' C'" "cookies_at ?V h' (Some b) = cookie_list L cv'" by blast
    let ?G = "S @ H @ [q]"
    have G: "distinct ?G" "\<forall>x \<in> set ?G. cells h x \<noteq> None" "set ?G \<inter> set C = {}"
      using d holds_live [OF assms(4)] m(3) by auto
    note fr = accounts_frame [OF c(4) G]
    have "holds L ?V h' q (r\<lparr>req_cookies := Some cv'\<rparr>) (S @ C' @ H @ [q])"
      by (rule holds_cookies [OF m(1,2) _ b(1) c(3,5)]) (use fr(3) in simp)
    moreover have "accounts h F h' ((S @ C' @ H @ [q]) @ [])"
      by (rule accounts_set [OF fr(1)]) (use fr(2) m(3) accountsD(3) [OF fr(1)] in auto)
    ultimately show ?thesis
      using run pure cookie b(1,3) c(1,2) Some v(2) by (auto simp: lost_by_header_def)
  next
    case agent
    have "\<exists>h' F' X. store (Some q) (RequestB (m\<lparr>m_req_user_agent := Some (next_addr h)\<rparr>)) (snd (malloc (StringB v) h)) = ret h'
      \<and> holds L ?V h' q (r\<lparr>req_user_agent := Some v\<rparr>) F' \<and> accounts h (S @ C @ H @ [q]) h' (F' @ X)
      \<and> length X = (if request_texts r ! 3 = None then 0 else 1)"
      by (rule set_string [OF assms(3) m(1,2) d]) (simp_all add: request_fields)
    moreover have "hs_parser_set_header_mem L M (Some q) (Some k) val h
        = store (Some q) (RequestB (m\<lparr>m_req_user_agent := Some (next_addr h)\<rparr>)) (snd (malloc (StringB v) h))"
      "the (hs_parser_set_header L (Some r) (Some key) (text_of h val)) = r\<lparr>req_user_agent := Some v\<rparr>"
      "lost_by_header (Some key) (text_of h val) r = (if request_texts r ! 3 = None then 0 else 1)"
      using run pure agent v(2) by (simp_all add: lost_by_header_def request_texts_def)
    ultimately show ?thesis unfolding m(3) by simp
  next
    case auth
    have "\<exists>h' F' X. store (Some q) (RequestB (m\<lparr>m_req_authorization := Some (next_addr h)\<rparr>)) (snd (malloc (StringB v) h)) = ret h'
      \<and> holds L ?V h' q (r\<lparr>req_authorization := Some v\<rparr>) F' \<and> accounts h (S @ C @ H @ [q]) h' (F' @ X)
      \<and> length X = (if request_texts r ! 4 = None then 0 else 1)"
      by (rule set_string [OF assms(3) m(1,2) d]) (simp_all add: request_fields)
    moreover have "hs_parser_set_header_mem L M (Some q) (Some k) val h
        = store (Some q) (RequestB (m\<lparr>m_req_authorization := Some (next_addr h)\<rparr>)) (snd (malloc (StringB v) h))"
      "the (hs_parser_set_header L (Some r) (Some key) (text_of h val)) = r\<lparr>req_authorization := Some v\<rparr>"
      "lost_by_header (Some key) (text_of h val) r = (if request_texts r ! 4 = None then 0 else 1)"
      using run pure auth v(2) by (simp_all add: lost_by_header_def request_texts_def)
    ultimately show ?thesis unfolding m(3) by simp
  next
    case other
    have "\<exists>h'. hs_parser_set_header_mem L M (Some q) (Some k) val h = ret h'
      \<and> holds L ?V h' q (the (hs_parser_set_header L (Some r) (Some key) (Some v))) F \<and> accounts h F h' F"
    proof -
      consider (len) "key = ''content-length''" | (close) "key = ''connection''" "v = ''close''"
        | (alive) "key = ''connection''" "v \<noteq> ''close''" "stringfn_starts_with L (Some v) (Some ''keep-alive'')"
        | (none) "key \<noteq> ''content-length''"
            "key \<noteq> ''connection'' \<or> v \<noteq> ''close'' \<and> \<not> stringfn_starts_with L (Some v) (Some ''keep-alive'')" by blast
      then show ?thesis
      proof cases
        case len
        have "\<exists>h'. store (Some q) (RequestB (m\<lparr>m_req_content_length := word_of_int (atoi v)\<rparr>)) h = ret h'
          \<and> holds L ?V h' q (r\<lparr>req_content_length := word_of_int (atoi v)\<rparr>) F \<and> accounts h F h' F"
          by (rule scalar) (use scalars in \<open>simp_all add: request_fields\<close>)
        with len other show ?thesis unfolding run pure by simp
      next
        case close
        have "\<exists>h'. store (Some q) (RequestB (m\<lparr>m_req_connection := HS_CONNECTION_TYPE_CLOSE\<rparr>)) h = ret h'
          \<and> holds L ?V h' q (r\<lparr>req_connection := HS_CONNECTION_TYPE_CLOSE\<rparr>) F \<and> accounts h F h' F"
          by (rule scalar) (use scalars in \<open>simp_all add: request_fields\<close>)
        with close other show ?thesis unfolding run pure by simp
      next
        case alive
        have "\<exists>h'. store (Some q) (RequestB (m\<lparr>m_req_connection := HS_CONNECTION_TYPE_KEEP_ALIVE\<rparr>)) h = ret h'
          \<and> holds L ?V h' q (r\<lparr>req_connection := HS_CONNECTION_TYPE_KEEP_ALIVE\<rparr>) F \<and> accounts h F h' F"
          by (rule scalar) (use scalars in \<open>simp_all add: request_fields\<close>)
        with alive other show ?thesis unfolding run pure by simp
      next
        case none
        with other keep show ?thesis unfolding run pure by (cases "key = ''connection''") simp_all
      qed
    qed
    then obtain h' where "hs_parser_set_header_mem L M (Some q) (Some k) val h = ret h'"
      "holds L ?V h' q (the (hs_parser_set_header L (Some r) (Some key) (Some v))) F" "accounts h F h' F" by blast
    with other v(2) show ?thesis
      by (intro exI [of _ h'] exI [of _ F] exI [of _ "[]"]) (simp add: lost_by_header_def)
  qed
qed


lemma parse_header_mem_spec:
  assumes "stringfn_ok L" and "heap_ok h" and "cells h l = Some (StringB line)"
  shows "case hs_parser_parse_header L (Some line) of
      None \<Rightarrow> hs_parser_parse_header_mem L (Some l) h = ret (None, h)
    | Some (key, val) \<Rightarrow> (\<exists>h' e k kt p W. hs_parser_parse_header_mem L (Some l) h = ret (Some e, h') \<and> key = Some kt
        \<and> cells h' e = Some (SlotsB [Some (Some k), Some p]) \<and> cells h' k = Some (StringB kt)
        \<and> own_string h' p = Some W \<and> text_of h' p = val \<and> accounts h [] h' ([k] @ W @ [e]))"
proof (cases "length line < 3 \<or> header_end_index line = 0")
  case True
  then show ?thesis using assms(3) by (auto simp: hs_parser_parse_header_def hs_parser_parse_header_mem_def)
next
  case False
  let ?n = "header_end_index line" and ?k = "next_addr h"
  from False obtain sub where sub: "stringfn_substring L line 0 ?n = Some sub"
    using stringfn_laws [OF assms(1)] by (cases line) auto
  let ?kt = "stringfn_mut_to_lowercase L sub"
  let ?val = "if ?n + 2 < length line then stringfn_substring L line (int (?n + 2)) 0 else None"
  let ?h1 = "snd (malloc (StringB ?kt) h)"
  have pure: "hs_parser_parse_header L (Some line) = Some (Some ?kt, ?val)"
    using False sub by (simp add: hs_parser_parse_header_def Let_def)
  have acc1: "accounts h [] ?h1 ([] @ [?k])" by (rule accounts_malloc_next(1) [OF accounts_none [OF assms(2)]])
  have run: "hs_parser_parse_header_mem L (Some l) h
      = ret (malloc (SlotsB [Some (Some ?k), Some (fst (new_text ?val ?h1))]) (snd (new_text ?val ?h1)))"
    using False assms(3) sub by (simp add: hs_parser_parse_header_mem_def Let_def split_def new_text_def [of "Some x" for x])
  show ?thesis
  proof (cases ?val)
    case None
    let ?e = "next_addr ?h1" and ?h2 = "snd (malloc (SlotsB [Some (Some ?k), Some None]) ?h1)"
    have "accounts h [] ?h2 (([] @ [?k]) @ [?e])" by (rule accounts_malloc_next(1) [OF acc1])
    moreover have "hs_parser_parse_header_mem L (Some l) h = ret (Some ?e, ?h2)"
      unfolding run None by (simp add: new_text_def prod_eq_iff)
    ultimately show ?thesis
      unfolding pure None
      by (simp only: option.case prod.case, intro exI [of _ ?h2] exI [of _ ?e] exI [of _ ?k] exI [of _ ?kt] exI [of _ None] exI [of _ "[]"])
        (simp add: text_of_def)
  next
    case (Some v)
    let ?p = "next_addr ?h1" and ?h2 = "snd (malloc (StringB v) ?h1)"
    let ?e = "next_addr ?h2" and ?h3 = "snd (malloc (SlotsB [Some (Some ?k), Some (Some ?p)]) ?h2)"
    have "accounts h [] ?h3 ((([] @ [?k]) @ [?p]) @ [?e])"
      by (rule accounts_malloc_next(1) [OF accounts_malloc_next(1) [OF acc1]])
    moreover have "hs_parser_parse_header_mem L (Some l) h = ret (Some ?e, ?h3)"
      unfolding run Some by (simp add: new_text_def prod_eq_iff)
    ultimately show ?thesis
      unfolding pure Some
      by (simp only: option.case prod.case, intro exI [of _ ?h3] exI [of _ ?e] exI [of _ ?k] exI [of _ ?kt] exI [of _ "Some ?p"] exI [of _ "[?p]"])
        (simp add: text_of_def own_string_Some)
  qed
qed


lemma accounts_free:
  \<comment> \<open>one of the blocks is freed\<close>
  assumes "accounts h F0 h1 (F @ [a])"
  shows "hs_io_free (Some a) h1 = ret (gone [a] h1)" and "accounts h F0 (gone [a] h1) F"
proof -
  show "hs_io_free (Some a) h1 = ret (gone [a] h1)" using accountsD(4) [OF assms, of a] by simp
  have "accounts h1 (F @ [a]) (gone [a] h1) F"
    by (rule accounts_gone) (use accountsD(1,3,4) [OF assms] in auto)
  with assms show "accounts h F0 (gone [a] h1) F" by (rule accounts_trans)
qed

definition lost_by_line ::
  "('sb, 'pv, 'cv, 'ht, 'sh) libs \<Rightarrow> string \<Rightarrow> ('sb, 'pv, 'cv) HSHttpRequest \<Rightarrow> nat" where
  "lost_by_line L line r =
     (case hs_parser_parse_header L (Some line) of None \<Rightarrow> 0 | Some (key, val) \<Rightarrow> lost_by_header key val r)"

lemma header_added:
  fixes L :: "('sb, 'pv, 'cv, 'ht, 'sh) libs" and M :: "('v, 'sb, 'dt, 'fn) mem_lib"
  assumes "mem_ok M C0" and "libs_ok L" and "holds L (vectors M) h q r F" and "accounts h0 F0 h (F @ [k] @ W @ [e])"
    and "cells h q = Some (RequestB m)" and "cells h k = Some (StringB kt)" and "own_string h p = Some W"
  shows "\<exists>h' F' X. bindR (hs_types_array_string_pair_add_mem M (m_req_headers m) (Some k) p h)
        (\<lambda>(_, h3). hs_parser_set_header_mem L M (Some q) (Some k) p h3) = ret h'
    \<and> holds L (vectors M) h' q
        (the (hs_parser_set_header L
               (Some (r\<lparr>req_headers := snd (hs_types_array_string_pair_add L (req_headers r) (Some kt) (text_of h p))\<rparr>))
               (Some kt) (text_of h p))) F'
    \<and> accounts h0 F0 h' ((F' @ X) @ [e]) \<and> length X = lost_by_header (Some kt) (text_of h p) r"
proof -
  let ?V = "vectors M"
  note d = accountsD(3) [OF assms(4)]
  from assms(3,5) obtain S C H where m: "holds_parts L ?V h m r S C H" "F = S @ C @ H @ [q]"
    by (auto simp: holds_def)
  from m(1) obtain b v where b: "m_req_headers m = Some b" "own_pairs ?V h (Some b) = Some H" "req_headers r = Some v"
    "pairs_at ?V h (Some b) = map (\<lambda>(k, x). (Some k, x)) (array_pairs L v)" by (auto simp: holds_parts_def)
  have k: "own_string h (Some k) = Some [k]" using assms(6) by (simp add: own_string_Some)
  have "distinct (H @ [k] @ W)" using d m(2) by auto
  from array_add_spec [OF assms(1) accountsD(1) [OF assms(4)] b(2) k assms(7) this] obtain h1 H1 where add:
    "hs_types_array_string_pair_add_mem M (Some b) (Some k) p h = ret (True, h1)" "own_pairs ?V h1 (Some b) = Some H1"
    "accounts h (H @ [k] @ W) h1 H1" "pairs_at ?V h1 (Some b) = pairs_at ?V h (Some b) @ [(text_of h (Some k), text_of h p)]"
    "\<forall>x \<in> set [k] \<union> set W. cells h1 x = cells h x" by blast
  let ?r = "r\<lparr>req_headers := Some (array_put L v kt (text_of h p))\<rparr>"
  have rest: "set (F @ [k] @ W @ [e]) = set (H @ [k] @ W) \<union> set (S @ C @ [q] @ [e])" using m(2) by auto
  have apart: "distinct (S @ C @ [q] @ [e])" "set (H @ [k] @ W) \<inter> set (S @ C @ [q] @ [e]) = {}" using d m(2) by auto
  note fr' = accounts_other(1,3) [OF assms(4) add(3) rest apart]
  have acc1: "accounts h0 F0 h1 ((S @ C @ H1 @ [q]) @ [e])"
    by (rule accounts_set [OF fr'(1)]) (use accountsD(3) [OF fr'(1)] in auto)
  have "text_of h (Some k) = Some kt" using assms(6) by (simp add: text_of_def)
  then have pairs: "pairs_at ?V h1 (Some b) = map (\<lambda>(k, x). (Some k, x)) (array_pairs L (array_put L v kt (text_of h p)))"
    unfolding add(4) b(4) by (simp add: array_put_pairs [OF assms(2)])
  have holds1: "holds L ?V h1 q ?r (S @ C @ H1 @ [q])"
    by (rule holds_headers [OF assms(5) m(1) _ b(1) add(2) pairs]) (use fr'(2) in simp)
  have k1: "cells h1 k = Some (StringB kt)" using add(5) assms(6) by simp
  have p1: "own_string h1 p = Some W" "text_of h1 p = text_of h p"
    using str.frame [OF assms(7), of h1] text_of_frame [OF assms(7), of h1] add(5) by blast+
  have d1: "distinct (S @ C @ H1 @ [q])" using accountsD(3) [OF acc1] by simp
  from set_header_spec [OF assms(1,2) accountsD(1) [OF acc1] holds1 d1 k1 p1(1)] obtain h2 F2 X where set:
    "hs_parser_set_header_mem L M (Some q) (Some k) p h1 = ret h2"
    "holds L ?V h2 q (the (hs_parser_set_header L (Some ?r) (Some kt) (text_of h p))) F2"
    "accounts h1 (S @ C @ H1 @ [q]) h2 (F2 @ X)" "length X = lost_by_header (Some kt) (text_of h p) ?r"
    unfolding p1(2) by blast
  have "accounts h0 F0 h2 ((F2 @ X) @ [e])"
    by (rule accounts_other(1) [OF acc1 set(3)]) (use accountsD(3) [OF acc1] in auto)
  moreover have "lost_by_header (Some kt) (text_of h p) ?r = lost_by_header (Some kt) (text_of h p) r"
    by (simp add: lost_by_header_def)
  ultimately show ?thesis using add(1) set b(1,3) by auto
qed

lemma parse_header_line_spec:
  assumes "mem_ok M C0" and "libs_ok L" and "holds L (vectors M) h q r F" and "accounts h0 F0 h (F @ [l])"
    and "cells h l = Some (StringB line)"
  shows "\<exists>h' F' X. parse_header_line_mem L M (Some q) (Some l) h = ret h'
    \<and> holds L (vectors M) h' q (apply_header L line r) F' \<and> accounts h0 F0 h' (F' @ X) \<and> length X = lost_by_line L line r"
proof (cases "hs_parser_parse_header L (Some line)")
  case None
  have "hs_parser_parse_header_mem L (Some l) h = ret (None, h)"
    using parse_header_mem_spec [OF libs_ok_parts(1) [OF assms(2)] accountsD(1) [OF assms(4)] assms(5)] None by simp
  moreover have "holds L (vectors M) (gone [l] h) q r F"
    by (rule holds_frame [OF assms(3)]) (use accountsD(3) [OF assms(4)] in auto)
  ultimately show ?thesis
    using None accounts_free [OF assms(4)]
    by (intro exI [of _ "gone [l] h"] exI [of _ F] exI [of _ "[]"])
      (simp add: parse_header_line_mem_def apply_header_def lost_by_line_def)
next
  case (Some kv)
  let ?V = "vectors M"
  note ok = accountsD(1) [OF assms(4)]
  obtain key val where kv: "kv = (key, val)" by (cases kv)
  from parse_header_mem_spec [OF libs_ok_parts(1) [OF assms(2)] ok assms(5)] Some kv obtain h1 e k kt p W where parse:
    "hs_parser_parse_header_mem L (Some l) h = ret (Some e, h1)" "key = Some kt" "cells h1 e = Some (SlotsB [Some (Some k), Some p])"
    "cells h1 k = Some (StringB kt)" "own_string h1 p = Some W" "text_of h1 p = val" "accounts h [] h1 ([k] @ W @ [e])" by auto
  note new = accounts_next [OF assms(4) parse(7)]
  have acc1: "accounts h0 F0 h1 ((F @ [k] @ W @ [e]) @ [l])"
    by (rule accounts_set [OF new(1)]) (use accountsD(3) [OF new(1)] in auto)
  note d = accountsD(3) [OF acc1]
  note free = accounts_free [OF acc1]
  let ?h2 = "gone [l] h1"
  have same: "cells ?h2 x = cells h x" if "x \<in> set F" for x
    using accountsD(6) [OF parse(7), of x] that d by auto
  have holds2: "holds L ?V ?h2 q r F" by (rule holds_frame [OF assms(3)]) (use same in blast)
  then obtain m where m: "cells ?h2 q = Some (RequestB m)" unfolding holds_def by blast
  have kp: "cells ?h2 k = Some (StringB kt)" "own_string ?h2 p = Some W" "text_of ?h2 p = val" "cells ?h2 e = Some (SlotsB [Some (Some k), Some p])"
    using parse(3-6) d str.frame [OF parse(5), of ?h2] text_of_frame [OF parse(5), of ?h2] by auto
  from header_added [OF assms(1,2) holds2 free(2) m kp(1,2)] obtain h' F' X where add:
    "bindR (hs_types_array_string_pair_add_mem M (m_req_headers m) (Some k) p ?h2)
        (\<lambda>(_, h3). hs_parser_set_header_mem L M (Some q) (Some k) p h3) = ret h'"
    "holds L ?V h' q (the (hs_parser_set_header L
               (Some (r\<lparr>req_headers := snd (hs_types_array_string_pair_add L (req_headers r) (Some kt) val)\<rparr>)) (Some kt) val)) F'"
    "accounts h0 F0 h' ((F' @ X) @ [e])" "length X = lost_by_header (Some kt) val r"
    unfolding kp(3) by blast
  note free2 = accounts_free [OF add(3)]
  have "holds L ?V (gone [e] h') q (apply_header L line r) F'"
  proof (rule holds_frame)
    show "holds L ?V h' q (apply_header L line r) F'" using add(2) Some kv parse(2) by (simp add: apply_header_def)
  qed (use accountsD(3) [OF add(3)] in auto)
  moreover have "slot_at (Some e) 0 ?h2 = ret (Some k)" "slot_at (Some e) 1 ?h2 = ret p"
    using kp(4) by (simp_all add: slot_at_def)
  then have "parse_header_line_mem L M (Some q) (Some l) h = ret (gone [e] h')"
    using parse(1) free(1) m free2(1) add(1)
    by (auto simp: parse_header_line_mem_def bindR_eq_ret split_def)
  ultimately show ?thesis using free2(2) add(4) Some kv parse(2) by (auto simp: lost_by_line_def)
qed


primrec lost_by_lines ::
  "('sb, 'pv, 'cv, 'ht, 'sh) libs \<Rightarrow> string list \<Rightarrow> ('sb, 'pv, 'cv) HSHttpRequest \<Rightarrow> nat" where
  "lost_by_lines L [] r = 0"
| "lost_by_lines L (line # lines) r = lost_by_line L line r + lost_by_lines L lines (apply_header L line r)"

lemma parse_headers_loop_mem_spec:
  assumes "mem_ok M C0" and "libs_ok L" and "holds L (vectors M) h q r F" and "heap_ok h" and "distinct F"
  shows "\<exists>h' F' X. parse_headers_loop_mem L M (Some q) lines h = ret h'
    \<and> holds L (vectors M) h' q (fold (apply_header L) lines r) F' \<and> accounts h F h' (F' @ X)
    \<and> length X = lost_by_lines L lines r"
  using assms(3-5)
proof (induction lines arbitrary: h r F)
  case Nil
  then show ?case using holds_accounts [OF Nil] by (intro exI [of _ h] exI [of _ F] exI [of _ "[]"]) simp
next
  case (Cons line lines)
  let ?V = "vectors M" and ?l = "next_addr h" and ?h1 = "snd (malloc (StringB line) h)"
  note acc0 = holds_accounts [OF Cons.prems]
  have acc1: "accounts h F ?h1 (F @ [?l])" and l: "?l \<notin> set F"
    by (rule accounts_malloc_next(1) [OF acc0], rule accounts_malloc_next(2) [OF acc0])
  have holds1: "holds L ?V ?h1 q r F" by (rule holds_frame [OF Cons.prems(1)]) (use l in auto)
  have line: "cells ?h1 ?l = Some (StringB line)" by simp
  from parse_header_line_spec [OF assms(1,2) holds1 acc1 line] obtain h2 F2 X2 where step:
    "parse_header_line_mem L M (Some q) (Some ?l) ?h1 = ret h2" "holds L ?V h2 q (apply_header L line r) F2"
    "accounts h F h2 (F2 @ X2)" "length X2 = lost_by_line L line r" by blast
  from Cons.IH [OF step(2) accountsD(1) [OF step(3)]] accountsD(3) [OF step(3)] obtain h3 F3 X3 where rest:
    "parse_headers_loop_mem L M (Some q) lines h2 = ret h3" "holds L ?V h3 q (fold (apply_header L) lines (apply_header L line r)) F3"
    "accounts h2 F2 h3 (F3 @ X3)" "length X3 = lost_by_lines L lines (apply_header L line r)" by auto
  have "accounts h F h3 ((F3 @ X3) @ X2)"
    by (rule accounts_other(1) [OF step(3) rest(3)]) (use accountsD(3) [OF step(3)] in auto)
  then show ?case
    using step(1,4) rest(1,2,4)
    by (intro exI [of _ h3] exI [of _ F3] exI [of _ "X3 @ X2"]) (simp add: Let_def split_def)
qed

section \<open>Requests are made\<close>

definition hs_parser_create_request_from_path_mem ::
  "('sb, 'pv, 'cv, 'ht, 'sh) libs \<Rightarrow> ('v, 'sb, 'dt, 'fn) mem_lib \<Rightarrow> cstr \<Rightarrow> bool \<Rightarrow> ('v, 'sb, 'dt, 'fn) heap
    \<Rightarrow> (ptr \<times> ('v, 'sb, 'dt, 'fn) heap) run" where
  \<comment> \<open>the target is only read; its copy is freed in the branches that set the resource\<close>
  "hs_parser_create_request_from_path_mem L M url_or_resource force_protocol h =
     (case url_or_resource of
        None \<Rightarrow> ret (None, h)
      | Some url \<Rightarrow>
          (let protocol = hs_parser_parse_protocol_from_url L (Some url);
               is_ssl = (protocol = HS_HTTP_PROTOCOL_HTTPS)
           in if force_protocol \<and> protocol = HS_HTTP_PROTOCOL_UNKNOWN then ret (None, h)
              else (let offset = (case protocol of
                                    HS_HTTP_PROTOCOL_HTTP \<Rightarrow> 7
                                  | HS_HTTP_PROTOCOL_HTTPS \<Rightarrow> 8
                                  | HS_HTTP_PROTOCOL_UNKNOWN \<Rightarrow> 0);
                        (url_clone, h1) = new_text (if offset \<noteq> 0 then stringfn_substring L url offset 0 else Some url) h
                    in bindR (load as_string url_clone h1)
                         (\<lambda>clone. case split_query clone of
                            (address, query) \<Rightarrow> (case split_authority address of
                              (domain, port, resource) \<Rightarrow>
                                (let (query_ptr, h2) = new_text query h1;
                                     (domain_ptr, h3) = new_text (Some domain) h2;
                                     (resource_ptr, h4) = new_text resource h3
                                 in bindR (if resource = None then ret h4 else hs_io_free url_clone h4)
                                      (\<lambda>h5. let (req, h6) = hs_types_http_request_new_mem M h5
                                            in bindR (load as_request req h6)
                                                 (\<lambda>m. bindR (store req (RequestB (m\<lparr>m_req_method := HS_HTTP_METHOD_UNKNOWN,
                                                              m_req_domain := domain_ptr, m_req_port := port, m_req_ssl := is_ssl,
                                                              m_req_resource := resource_ptr, m_req_query_string := query_ptr\<rparr>)) h6)
                                                        (\<lambda>h7. ret (req, h7))))))))))"

definition hs_parser_parse_request_line_mem ::
  "('sb, 'pv, 'cv, 'ht, 'sh) libs \<Rightarrow> ('v, 'sb, 'dt, 'fn) mem_lib \<Rightarrow> ptr \<Rightarrow> ('v, 'sb, 'dt, 'fn) heap
    \<Rightarrow> (ptr \<times> ('v, 'sb, 'dt, 'fn) heap) run" where
  \<comment> \<open>the words of the line are local to the function\<close>
  "hs_parser_parse_request_line_mem L M line h =
     (if line = None then ret (None, h)
      else bindR (load as_string line h)
             (\<lambda>l. let words = stringfn_split_words L l
                  in if length words = 3
                     then bindR (hs_parser_create_request_from_path_mem L M (Some (words ! 1)) False h)
                            (\<lambda>(req, h1). if req = None then ret (req, h1)
                                         else bindR (load as_request req h1)
                                                (\<lambda>m. bindR (store req (RequestB (m\<lparr>m_req_method := hs_parser_parse_method L (Some (words ! 0))\<rparr>)) h1)
                                                       (\<lambda>h2. ret (req, h2))))
                     else ret (None, h)))"

definition hs_parser_parse_request_mem ::
  "('sb, 'pv, 'cv, 'ht, 'sh) libs \<Rightarrow> ('v, 'sb, 'dt, 'fn) mem_lib \<Rightarrow> HSSocket option \<Rightarrow> cstr \<Rightarrow> string list \<Rightarrow> 'sb
    \<Rightarrow> ('v, 'sb, 'dt, 'fn) heap \<Rightarrow> (ptr \<times> ('v, 'sb, 'dt, 'fn) heap) run" where
  \<comment> \<open>given what \<open>hs_io_read_line\<close> returns: the first line, the header lines, and the content it leaves in the buffer\<close>
  "hs_parser_parse_request_mem L M socket first_line lines rest h =
     (if socket = None then ret (None, h)
      else (let (work_buffer, h1) = malloc (BufferB (stringbuffer_new L)) h
            in case first_line of
                 None \<Rightarrow> bindR (m_stringbuffer_release M work_buffer h1) (\<lambda>h2. ret (None, h2))
               | Some first \<Rightarrow>
                   (let (line, h2) = malloc (StringB first) h1
                    in bindR (hs_parser_parse_request_line_mem L M line h2)
                         (\<lambda>(req, h3). bindR (hs_io_free line h3)
                            (\<lambda>h4. bindR (parse_headers_loop_mem L M req lines h4)
                               (\<lambda>h5. bindR (store work_buffer (BufferB rest) h5)
                                  (\<lambda>h6. let (io, h7) = hs_io_new_http_request_payload_mem socket work_buffer h6;
                                            (payload, h8) = hs_types_http_request_new_payload_mem io h7
                                        in bindR (load as_request req h8)
                                             (\<lambda>m. bindR (store req (RequestB (m\<lparr>m_req_payload := payload\<rparr>)) h8)
                                                    (\<lambda>h9. ret (req, h9))))))))))"


lemma request_new_holds:
  fixes M :: "('v, 'sb, 'dt, 'fn) mem_lib" and h :: "('v, 'sb, 'dt, 'fn) heap"
  assumes "mem_ok M C0" and "libs_ok L" and "heap_ok h"
  shows "\<exists>q h' m C H. hs_types_http_request_new_mem M h = (Some q, h') \<and> cells h' q = Some (RequestB m)
    \<and> holds_parts L (vectors M) h' m (hs_types_http_request_new L) [] C H \<and> accounts h [] h' (C @ H @ [q])"
proof -
  let ?a = "next_addr h" and ?V = "vectors M"
  let ?vec = "VectorB (vector_new ?V) :: ('v, 'sb, 'dt, 'fn) block"
  let ?h1 = "snd (malloc ?vec h)"
  let ?h2 = "snd (malloc (CookiesB (Some ?a)) ?h1)"
  let ?h3 = "snd (malloc ?vec ?h2)"
  let ?h4 = "snd (malloc (PairsB (Some (?a + 2))) ?h3)"
  let ?m = "\<lparr>m_req_method = HS_HTTP_METHOD_GET, m_req_domain = None, m_req_port = -1, m_req_ssl = False,
           m_req_resource = None, m_req_query_string = None, m_req_user_agent = None, m_req_authorization = None,
           m_req_content_length = 0, m_req_connection = HS_CONNECTION_TYPE_UNKNOWN, m_req_cookies = Some (?a + 1),
           m_req_headers = Some (?a + 3), m_req_payload = None\<rparr>"
  let ?h5 = "snd (malloc (RequestB ?m) ?h4)"
  note vec = vector_laws(3) [OF mem_ok_parts(1) [OF assms(1)]]
  have run: "hs_types_http_request_new_mem M h = (Some (?a + 4), ?h5)"
    by (simp add: hs_types_http_request_new_mem_def hs_types_cookies_new_mem_def hs_types_array_string_pair_new_mem_def
        mem_ok_parts(2) [OF assms(1)] Let_def split_def prod_eq_iff numeral_eq_Suc)
  have "accounts h [] ?h5 ((((([] @ [?a]) @ [next_addr ?h1]) @ [next_addr ?h2]) @ [next_addr ?h3]) @ [next_addr ?h4])"
    by (intro accounts_malloc_next(1) accounts_none assms(3))
  then have acc: "accounts h [] ?h5 ([?a, ?a + 1] @ [?a + 2, ?a + 3] @ [?a + 4])" by (simp add: numeral_eq_Suc)
  have C: "own_cookies ?V ?h5 (Some (?a + 1)) = Some [?a, ?a + 1]" "cookies_at ?V ?h5 (Some (?a + 1)) = []"
    by (simp_all add: own_cookies_Some own_elements_Some vec cookies_at_def vector_of_def)
  have H: "own_pairs ?V ?h5 (Some (?a + 3)) = Some [?a + 2, ?a + 3]" "pairs_at ?V ?h5 (Some (?a + 3)) = []"
    by (simp_all add: own_pairs_Some own_elements_Some vec pairs_at_def vector_of_def)
  have "holds_parts L ?V ?h5 ?m (hs_types_http_request_new L) [] [?a, ?a + 1] [?a + 2, ?a + 3]"
    using C H cookies_new_list [OF assms(2)] array_new_pairs [OF assms(2)]
    by (simp add: holds_parts_def request_fields hs_types_http_request_new_def text_of_def)
  moreover have "cells ?h5 (?a + 4) = Some (RequestB ?m)" by (simp add: numeral_eq_Suc)
  ultimately show ?thesis using run acc by blast
qed

lemma new_text_next:
  assumes "accounts h F0 h1 F" and "new_text s h1 = (p, h2)"
  shows "\<exists>W. own_string h2 p = Some W \<and> text_of h2 p = s \<and> accounts h F0 h2 (F @ W) \<and> (s = None \<longleftrightarrow> W = [])
    \<and> (\<forall>a \<in> set F. cells h2 a = cells h1 a)"
proof (cases s)
  case None
  then show ?thesis using assms by (auto simp: new_text_def text_of_def)
next
  case (Some t)
  then have "p = Some (next_addr h1)" "h2 = snd (malloc (StringB t) h1)"
    using assms(2) by (auto simp: new_text_def malloc_def)
  moreover note accounts_malloc_next(1) [OF assms(1), of "StringB t"] accounts_malloc_next(2) [OF assms(1)]
  ultimately show ?thesis using Some by (auto simp: own_string_Some text_of_def intro!: exI [of _ "[next_addr h1]"])
qed

text \<open>A string field of a new request is filled with strings that exist already.\<close>

lemma new_request_filled:
  fixes M :: "('v, 'sb, 'dt, 'fn) mem_lib" and h :: "('v, 'sb, 'dt, 'fn) heap"
  assumes "mem_ok M C0" and "libs_ok L" and "accounts h0 F0 h (S @ X)"
    and "join (map (own_string h) [d, r, s, None, None]) = Some S" and "map (text_of h) [d, r, s] = [dname, res, query]"
  shows "\<exists>q h' h'' F m. hs_types_http_request_new_mem M h = (Some q, h') \<and> load as_request (Some q) h' = ret m
    \<and> store (Some q) (RequestB (m\<lparr>m_req_method := meth, m_req_domain := d, m_req_port := port, m_req_ssl := tls,
                                  m_req_resource := r, m_req_query_string := s\<rparr>)) h' = ret h''
    \<and> holds L (vectors M) h'' q ((hs_types_http_request_new L)
        \<lparr>req_method := meth, req_domain := dname, req_port := port, req_ssl := tls, req_resource := res, req_query_string := query\<rparr>) F
    \<and> accounts h0 F0 h'' (F @ X)"
proof -
  let ?V = "vectors M"
  from request_new_holds [OF assms(1,2) accountsD(1) [OF assms(3)]] obtain q h' m C H where new:
    "hs_types_http_request_new_mem M h = (Some q, h')" "cells h' q = Some (RequestB m)"
    "holds_parts L ?V h' m (hs_types_http_request_new L) [] C H" "accounts h [] h' (C @ H @ [q])" by blast
  note acc = accounts_next [OF assms(3) new(4)]
  let ?m = "m\<lparr>m_req_method := meth, m_req_domain := d, m_req_port := port, m_req_ssl := tls,
                                  m_req_resource := r, m_req_query_string := s\<rparr>"
  have "\<forall>a \<in> set S. cells h' a = cells h a"
  proof
    fix a assume "a \<in> set S"
    with acc(2) have "a \<notin> set (C @ H @ [q])" by auto
    from accountsD(6) [OF new(4) this] show "cells h' a = cells h a" by simp
  qed
  note texts = texts_frame [OF assms(4) this]
  have none: "m_req_user_agent m = None" "m_req_authorization m = None" "m_req_content_length m = 0"
    "m_req_connection m = HS_CONNECTION_TYPE_UNKNOWN"
    using new(3) by (auto simp: holds_parts_def request_fields hs_types_http_request_new_def own_string_Some split: option.splits)
  have parts: "holds_parts L ?V h' ?m ((hs_types_http_request_new L)
        \<lparr>req_method := meth, req_domain := dname, req_port := port, req_ssl := tls, req_resource := res, req_query_string := query\<rparr>) S C H"
    using new(3) texts assms(5) none
    by (simp add: holds_parts_def request_fields hs_types_http_request_new_def text_of_def)
  have q: "q \<notin> set S \<union> set C \<union> set H" using accountsD(3) [OF acc(1)] by auto
  note st = holds_store [OF new(2) parts q]
  have "accounts h0 F0 (h'\<lparr>cells := (cells h')(q \<mapsto> RequestB ?m)\<rparr>) ((S @ X) @ C @ H @ [q])"
    by (rule accounts_store [OF acc(1)]) simp
  then have "accounts h0 F0 (h'\<lparr>cells := (cells h')(q \<mapsto> RequestB ?m)\<rparr>) ((S @ C @ H @ [q]) @ X)"
    by (rule accounts_set) (use accountsD(3) [OF acc(1)] in auto)
  then show ?thesis using new(1,2) st by (intro exI conjI) (assumption | simp)+
qed


lemma accounts_new_fresh:
  assumes "accounts h [] h1 F" and "accounts h0 F0 h G"
  shows "\<forall>a \<in> set G. cells h1 a = cells h a"
proof
  fix a assume a: "a \<in> set G"
  with accounts_next(2) [OF assms(2,1)] have "a \<notin> set F" by auto
  from accountsD(6) [OF assms(1) this] show "cells h1 a = cells h a" by simp
qed

lemma create_request_spec:
  fixes M :: "('v, 'sb, 'dt, 'fn) mem_lib" and h :: "('v, 'sb, 'dt, 'fn) heap"
  assumes "mem_ok M C0" and "libs_ok L" and "heap_ok h"
    and "hs_parser_create_request_from_path L (Some url) force = ret (Some r)"
  shows "\<exists>q h' F X. hs_parser_create_request_from_path_mem L M (Some url) force h = ret (Some q, h')
    \<and> holds L (vectors M) h' q r F \<and> accounts h [] h' (F @ X) \<and> length X = (if req_resource r = None then 1 else 0)"
proof -
  let ?V = "vectors M" and ?protocol = "hs_parser_parse_protocol_from_url L (Some url)"
  let ?offset = "(case ?protocol of HS_HTTP_PROTOCOL_HTTP \<Rightarrow> 7 | HS_HTTP_PROTOCOL_HTTPS \<Rightarrow> 8 | HS_HTTP_PROTOCOL_UNKNOWN \<Rightarrow> 0) :: int"
  let ?copy = "if ?offset \<noteq> 0 then stringfn_substring L url ?offset 0 else Some url"
  have proto: "\<not> (force \<and> ?protocol = HS_HTTP_PROTOCOL_UNKNOWN)"
    using assms(4) by (auto simp: hs_parser_create_request_from_path_def)
  obtain clone where clone: "?copy = Some clone"
    using assms(4) by (auto simp: hs_parser_create_request_from_path_def Let_def split: if_splits option.splits)
  obtain address query where query: "split_query clone = (address, query)" by fastforce
  obtain dname port res where auth: "split_authority address = (dname, port, res)" by (metis prod_cases3)
  have r: "r = (hs_types_http_request_new L)\<lparr>req_method := HS_HTTP_METHOD_UNKNOWN, req_domain := Some dname, req_port := port,
      req_ssl := (?protocol = HS_HTTP_PROTOCOL_HTTPS), req_resource := res, req_query_string := query\<rparr>"
    using assms(4) proto clone query auth by (auto simp: hs_parser_create_request_from_path_def Let_def)
  let ?c = "next_addr h" and ?h1 = "snd (malloc (StringB clone) h)"
  have acc1: "accounts h [] ?h1 [?c]" using accounts_malloc_next(1) [OF accounts_none [OF assms(3)]] by simp
  obtain s h2 where s: "new_text query ?h1 = (s, h2)" by fastforce
  from new_text_next [OF acc1 s] obtain Ws where Ws: "own_string h2 s = Some Ws" "text_of h2 s = query"
    "accounts h [] h2 ([?c] @ Ws)" by blast
  obtain d h3 where d: "new_text (Some dname) h2 = (d, h3)" by fastforce
  from new_text_next [OF Ws(3) d] obtain Wd where Wd: "own_string h3 d = Some Wd" "text_of h3 d = Some dname"
    "accounts h [] h3 (([?c] @ Ws) @ Wd)" "\<forall>a \<in> set ([?c] @ Ws). cells h3 a = cells h2 a" by blast
  obtain p h4 where p: "new_text res h3 = (p, h4)" by fastforce
  from new_text_next [OF Wd(3) p] obtain Wp where Wp: "own_string h4 p = Some Wp" "text_of h4 p = res"
    "accounts h [] h4 ((([?c] @ Ws) @ Wd) @ Wp)" "\<forall>a \<in> set (([?c] @ Ws) @ Wd). cells h4 a = cells h3 a" by blast
  have keep: "\<forall>a \<in> set Ws. cells h3 a = cells h2 a" "\<forall>a \<in> set Ws. cells h4 a = cells h3 a" "\<forall>a \<in> set Wd. cells h4 a = cells h3 a"
    using Wd(4) Wp(4) by auto
  have own4: "own_string h4 s = Some Ws" "text_of h4 s = query" "own_string h4 d = Some Wd" "text_of h4 d = Some dname"
    using str.frame [OF str.frame [OF Ws(1) keep(1)] keep(2)] text_of_frame [OF Ws(1) keep(1)]
      text_of_frame [OF str.frame [OF Ws(1) keep(1)] keep(2)] Ws(2) str.frame [OF Wd(1) keep(3)] text_of_frame [OF Wd(1) keep(3)] Wd(2)
    by simp_all
  have acc4: "accounts h [] h4 ((Wd @ Wp @ Ws) @ [?c])"
    by (rule accounts_set [OF Wp(3)]) (use accountsD(3) [OF Wp(3)] in auto)
  have S: "join (map (own_string h4) [d, p, s, None, None]) = Some (Wd @ Wp @ Ws)" using own4 Wp(1) by simp
  have T: "map (text_of h4) [d, p, s] = [Some dname, res, query]" using own4 Wp(2) by simp
  obtain h5 X where h5: "(if res = None then ret h4 else hs_io_free (Some ?c) h4) = ret h5"
    "accounts h [] h5 ((Wd @ Wp @ Ws) @ X)" "length X = (if res = None then 1 else 0)"
    "join (map (own_string h5) [d, p, s, None, None]) = Some (Wd @ Wp @ Ws)" "map (text_of h5) [d, p, s] = [Some dname, res, query]"
  proof (cases "res = None")
    case True
    show ?thesis by (rule that [of h4 "[?c]"]) (use True acc4 S T in auto)
  next
    case False
    have agree: "\<forall>a \<in> set (Wd @ Wp @ Ws). cells (gone [?c] h4) a = cells h4 a" using accountsD(3) [OF acc4] by auto
    show ?thesis
      by (rule that [of "gone [?c] h4" "[]"])
        (use False accounts_free [OF acc4] texts_frame [OF S agree] T in \<open>auto simp del: join_Cons_Some\<close>)
  qed
  from new_request_filled [OF assms(1,2) h5(2,4,5), where meth = HS_HTTP_METHOD_UNKNOWN and port = port and tls = "?protocol = HS_HTTP_PROTOCOL_HTTPS"]
  obtain q h6 h7 F m where new: "hs_types_http_request_new_mem M h5 = (Some q, h6)" "load as_request (Some q) h6 = ret m"
    "store (Some q) (RequestB (m\<lparr>m_req_method := HS_HTTP_METHOD_UNKNOWN, m_req_domain := d, m_req_port := port,
        m_req_ssl := (?protocol = HS_HTTP_PROTOCOL_HTTPS), m_req_resource := p, m_req_query_string := s\<rparr>)) h6 = ret h7"
    "holds L ?V h7 q r F" "accounts h [] h7 (F @ X)" unfolding r by blast
  have "new_text ?copy h = (Some ?c, ?h1)" unfolding clone by (simp add: new_text_def prod_eq_iff)
  moreover have "load as_string (Some ?c) ?h1 = ret clone" by simp
  ultimately have "hs_parser_create_request_from_path_mem L M (Some url) force h = ret (Some q, h7)"
    using proto query auth s d p h5(1) new(1-3)
    by (auto simp: hs_parser_create_request_from_path_mem_def Let_def simp del: malloc_simps load_simps store_simps)
  moreover have "length X = (if req_resource r = None then 1 else 0)" using h5(3) r by simp
  ultimately show ?thesis using new(4,5) by blast
qed


lemma parse_request_line_mem_spec:
  assumes "mem_ok M C0" and "libs_ok L" and "accounts h0 F0 h G" and "cells h l = Some (StringB line)"
    and "hs_parser_parse_request_line L (Some line) = ret (Some r)"
  shows "\<exists>q h' F X. hs_parser_parse_request_line_mem L M (Some l) h = ret (Some q, h')
    \<and> holds L (vectors M) h' q r F \<and> accounts h0 F0 h' (G @ F @ X) \<and> (\<forall>a \<in> set G. cells h' a = cells h a)
    \<and> length X = (if req_resource r = None then 1 else 0)"
proof -
  let ?V = "vectors M" and ?words = "stringfn_split_words L line"
  note ok = accountsD(1) [OF assms(3)]
  from assms(5) obtain r1 where r1: "length ?words = 3" "hs_parser_create_request_from_path L (Some (?words ! 1)) False = ret (Some r1)"
    "r = r1\<lparr>req_method := hs_parser_parse_method L (Some (?words ! 0))\<rparr>"
    by (auto simp: hs_parser_parse_request_line_def hs_parser_create_request_from_resource_def Let_def bindR_eq_ret split: if_splits)
  from create_request_spec [OF assms(1,2) ok r1(2)] obtain q h1 F X where new:
    "hs_parser_create_request_from_path_mem L M (Some (?words ! 1)) False h = ret (Some q, h1)" "holds L ?V h1 q r1 F"
    "accounts h [] h1 (F @ X)" "length X = (if req_resource r1 = None then 1 else 0)" by blast
  note acc = accounts_next [OF assms(3) new(3)]
  from new(2) obtain m S C H where m: "cells h1 q = Some (RequestB m)" "holds_parts L ?V h1 m r1 S C H" "F = S @ C @ H @ [q]"
    by (auto simp: holds_def)
  let ?m = "m\<lparr>m_req_method := hs_parser_parse_method L (Some (?words ! 0))\<rparr>"
  have d: "distinct (S @ C @ H @ [q])" using accountsD(3) [OF acc(1)] m(3) by auto
  have "mem_scalars m = request_scalars r1" using m(2) by (simp add: holds_parts_def)
  then have "\<exists>h'. store (Some q) (RequestB ?m) h1 = ret h' \<and> holds L ?V h' q r (S @ C @ H @ [q])
    \<and> accounts h1 (S @ C @ H @ [q]) h' (S @ C @ H @ [q])"
    by (intro set_scalar [OF accountsD(1) [OF new(3)] m(1,2) d]) (simp_all add: r1(3) request_fields)
  then obtain h2 where st: "store (Some q) (RequestB ?m) h1 = ret h2" "holds L ?V h2 q r F" "accounts h1 F h2 F"
    using m(3) by blast
  have rest: "set (G @ F @ X) = set F \<union> set (G @ X)" "distinct (G @ X)" "set F \<inter> set (G @ X) = {}"
    using accountsD(3) [OF acc(1)] by auto
  note other = accounts_other(1,3) [OF acc(1) st(3) rest]
  have "accounts h0 F0 h2 (G @ F @ X)"
    by (rule accounts_set [OF other(1)]) (use accountsD(3) [OF acc(1)] in auto)
  moreover have "\<forall>a \<in> set G. cells h2 a = cells h a"
    using other(2) accounts_new_fresh [OF new(3) assms(3)] by auto
  moreover have "hs_parser_parse_request_line_mem L M (Some l) h = ret (Some q, h2)"
    using assms(4) r1(1) new(1) m(1) st(1) by (simp add: hs_parser_parse_request_line_mem_def Let_def del: store_simps)
  moreover have "length X = (if req_resource r = None then 1 else 0)" using new(4) r1(3) by simp
  ultimately show ?thesis using st(2) by blast
qed


section \<open>A whole request\<close>

definition payload_at :: "('v, 'sb, 'dt, 'fn) heap \<Rightarrow> ptr \<Rightarrow> 'sb HSHttpRequestPayload option" where
  "payload_at h p =
     map_option (\<lambda>pl. \<lparr>loaded = m_loaded pl,
        io_payload = map_option (\<lambda>io. \<lparr>io_partial = Option.bind (m_partial io) (\<lambda>b. Option.bind (cells h b) as_buffer), io_socket = m_socket io\<rparr>)
           (Option.bind (m_payload pl) (\<lambda>i. Option.bind (cells h i) as_io_payload))\<rparr>)
       (Option.bind p (\<lambda>a. Option.bind (cells h a) as_payload))"

definition holds_request ::
  "('sb, 'pv, 'cv, 'ht, 'sh) libs \<Rightarrow> ('v, addr) vector_lib \<Rightarrow> ('v, 'sb, 'dt, 'fn) heap \<Rightarrow> addr
    \<Rightarrow> ('sb, 'pv, 'cv) HSHttpRequest \<Rightarrow> addr list \<Rightarrow> bool" where
  \<comment> \<open>the blocks \<open>F\<close> are what the request at \<open>q\<close> owns, and its content is \<open>r\<close>\<close>
  "holds_request L V h q r F \<longleftrightarrow> own_request V h (Some q) = Some F
     \<and> (\<exists>m S C H. cells h q = Some (RequestB m) \<and> holds_parts L V h (m\<lparr>m_req_payload := None\<rparr>) r S C H
          \<and> payload_at h (m_req_payload m) = req_payload r)"

lemma own_request_payload:
  assumes "cells h q = Some (RequestB m)" and "holds_parts L V h (m\<lparr>m_req_payload := None\<rparr>) r S C H"
    and "own_payload h (m_req_payload m) = Some P"
  shows "own_request V h (Some q) = Some (S @ C @ H @ P @ [q])"
proof -
  from assms(2) obtain D R Q U A where
    "own_string h (m_req_domain m) = Some D" "own_string h (m_req_resource m) = Some R" "own_string h (m_req_query_string m) = Some Q"
    "own_string h (m_req_user_agent m) = Some U" "own_string h (m_req_authorization m) = Some A" "S = D @ R @ Q @ U @ A"
    "own_cookies V h (m_req_cookies m) = Some C" "own_pairs V h (m_req_headers m) = Some H"
    by (auto simp: holds_parts_def mem_strings_def)
  then show ?thesis using assms(1,3) by (simp add: own_request_def own_struct_def)
qed

text \<open>The last lines of \<open>hs_parser_parse_request\<close>: the work buffer goes into the payload.\<close>

lemma payload_attached:
  assumes "hs_socket_is_open socket" and "holds L V h q r F" and "accounts h0 F0 h (F @ [wb] @ X)" and "cells h wb = Some (BufferB rest)"
  shows "\<exists>h' h'' m F'. (let (io, h7) = hs_io_new_http_request_payload_mem socket (Some wb) h in hs_types_http_request_new_payload_mem io h7)
        = (Some (next_addr h + 1), h')
    \<and> load as_request (Some q) h' = ret m \<and> store (Some q) (RequestB (m\<lparr>m_req_payload := Some (next_addr h + 1)\<rparr>)) h' = ret h''
    \<and> holds_request L V h'' q (r\<lparr>req_payload := Some \<lparr>loaded = False, io_payload = Some \<lparr>io_partial = Some rest, io_socket = socket\<rparr>\<rparr>\<rparr>) F'
    \<and> accounts h0 F0 h'' (F' @ X)"
proof -
  let ?i = "next_addr h" and ?p = "next_addr h + 1"
  let ?h1 = "snd (malloc (IOPayloadB \<lparr>m_socket = socket, m_partial = Some wb\<rparr>) h)"
  let ?h2 = "snd (malloc (PayloadB \<lparr>m_loaded = False, m_payload = Some ?i\<rparr>) ?h1)"
  note acc1 = accounts_malloc_next(1) [OF assms(3), of "IOPayloadB \<lparr>m_socket = socket, m_partial = Some wb\<rparr>"]
  have acc2: "accounts h0 F0 ?h2 (((F @ [wb] @ X) @ [?i]) @ [?p])"
    using accounts_malloc_next(1) [OF acc1, of "PayloadB \<lparr>m_loaded = False, m_payload = Some ?i\<rparr>"] by simp
  note d = accountsD(3) [OF acc2]
  from assms(2) obtain m S C H where m: "cells h q = Some (RequestB m)" "holds_parts L V h m r S C H" "F = S @ C @ H @ [q]"
    by (auto simp: holds_def)
  let ?m = "m\<lparr>m_req_payload := Some ?p\<rparr>"
  let ?h3 = "?h2\<lparr>cells := (cells ?h2)(q \<mapsto> RequestB ?m)\<rparr>"
  have q: "cells ?h2 q = Some (RequestB m)" using m(1,3) d by auto
  have "holds_parts L V ?h3 m r S C H" by (rule holds_parts_frame [OF m(2)]) (use m(3) d in auto)
  then have parts: "holds_parts L V ?h3 (?m\<lparr>m_req_payload := None\<rparr>)
      (r\<lparr>req_payload := Some \<lparr>loaded = False, io_payload = Some \<lparr>io_partial = Some rest, io_socket = socket\<rparr>\<rparr>\<rparr>) S C H"
    by (simp add: holds_parts_def request_fields)
  have cells3: "cells ?h3 ?p = Some (PayloadB \<lparr>m_loaded = False, m_payload = Some ?i\<rparr>)"
    "cells ?h3 ?i = Some (IOPayloadB \<lparr>m_socket = socket, m_partial = Some wb\<rparr>)" "cells ?h3 wb = Some (BufferB rest)"
    "cells ?h3 q = Some (RequestB ?m)"
    using assms(4) m(3) d by auto
  then have "own_payload ?h3 (m_req_payload ?m) = Some ([wb] @ [?i] @ [?p])"
    by (simp add: own_payload_def own_io_payload_def own_buffer_def own_struct_def)
  from own_request_payload [OF cells3(4) parts this] have own: "own_request V ?h3 (Some q) = Some (S @ C @ H @ ([wb] @ [?i] @ [?p]) @ [q])" .
  have "payload_at ?h3 (m_req_payload ?m) = Some \<lparr>loaded = False, io_payload = Some \<lparr>io_partial = Some rest, io_socket = socket\<rparr>\<rparr>"
    using cells3 by (simp add: payload_at_def)
  with own parts cells3(4) have holds: "holds_request L V ?h3 q
      (r\<lparr>req_payload := Some \<lparr>loaded = False, io_payload = Some \<lparr>io_partial = Some rest, io_socket = socket\<rparr>\<rparr>\<rparr>)
      (S @ C @ H @ ([wb] @ [?i] @ [?p]) @ [q])"
    unfolding holds_request_def by (intro conjI exI) (assumption | simp)+
  have "accounts h0 F0 ?h3 (((F @ [wb] @ X) @ [?i]) @ [?p])" by (rule accounts_store [OF acc2]) (simp add: m(3))
  then have "accounts h0 F0 ?h3 ((S @ C @ H @ ([wb] @ [?i] @ [?p]) @ [q]) @ X)"
    by (rule accounts_set) (use d m(3) in auto)
  moreover have "(let (io, h7) = hs_io_new_http_request_payload_mem socket (Some wb) h in hs_types_http_request_new_payload_mem io h7) = (Some ?p, ?h2)"
    using assms(1) by (simp add: hs_io_new_http_request_payload_mem_def hs_types_http_request_new_payload_mem_def Let_def split_def prod_eq_iff)
  moreover have "load as_request (Some q) ?h2 = ret m" "store (Some q) (RequestB ?m) ?h2 = ret ?h3"
    using q by (simp_all del: malloc_simps)
  ultimately show ?thesis using holds by blast
qed


definition request_parsed ::
  "('sb, 'pv, 'cv, 'ht, 'sh) libs \<Rightarrow> HSSocket option \<Rightarrow> string list \<Rightarrow> 'sb \<Rightarrow> ('sb, 'pv, 'cv) HSHttpRequest
    \<Rightarrow> ('sb, 'pv, 'cv) HSHttpRequest" where
  \<comment> \<open>the result of \<open>hs_parser_parse_request\<close> for these header lines, as in \<open>parse_request_spec\<close>\<close>
  "request_parsed L socket lines rest r =
     (fold (apply_header L) lines r)\<lparr>req_payload := Some \<lparr>loaded = False, io_payload = Some \<lparr>io_partial = Some rest, io_socket = socket\<rparr>\<rparr>\<rparr>"

definition lost_strings ::
  "('sb, 'pv, 'cv, 'ht, 'sh) libs \<Rightarrow> string list \<Rightarrow> ('sb, 'pv, 'cv) HSHttpRequest \<Rightarrow> nat" where
  \<comment> \<open>the copy of a target without resource, and the strings that header lines overwrite\<close>
  "lost_strings L lines r = (if req_resource r = None then 1 else 0) + lost_by_lines L lines r"

lemma parse_request_mem_spec:
  fixes M :: "('v, 'sb, 'dt, 'fn) mem_lib" and h :: "('v, 'sb, 'dt, 'fn) heap"
  assumes "mem_ok M C0" and "libs_ok L" and "heap_ok h" and "hs_socket_is_open socket"
    and "hs_parser_parse_request_line L (Some first) = ret (Some r)"
  shows "\<exists>q h' F X. hs_parser_parse_request_mem L M socket (Some first) lines rest h = ret (Some q, h')
    \<and> holds_request L (vectors M) h' q (request_parsed L socket lines rest r) F \<and> accounts h [] h' (F @ X)
    \<and> length X = lost_strings L lines r"
proof -
  let ?V = "vectors M" and ?wb = "next_addr h" and ?l = "next_addr h + 1"
  let ?h1 = "snd (malloc (BufferB (stringbuffer_new L)) h)"
  let ?h2 = "snd (malloc (StringB first) ?h1)"
  have acc1: "accounts h [] ?h1 ([] @ [?wb])" by (rule accounts_malloc_next(1) [OF accounts_none [OF assms(3)]])
  have acc2: "accounts h [] ?h2 ([?wb] @ [?l])" using accounts_malloc_next(1) [OF acc1, of "StringB first"] by simp
  have l: "cells ?h2 ?l = Some (StringB first)" "cells ?h2 ?wb = Some (BufferB (stringbuffer_new L))" by simp_all
  from parse_request_line_mem_spec [OF assms(1,2) acc2 l(1) assms(5)] obtain q h3 F X where line:
    "hs_parser_parse_request_line_mem L M (Some ?l) ?h2 = ret (Some q, h3)" "holds L ?V h3 q r F"
    "accounts h [] h3 (([?wb] @ [?l]) @ F @ X)" "\<forall>a \<in> set ([?wb] @ [?l]). cells h3 a = cells ?h2 a"
    "length X = (if req_resource r = None then 1 else 0)" by blast
  have acc3: "accounts h [] h3 ((F @ [?wb] @ X) @ [?l])"
    by (rule accounts_set [OF line(3)]) (use accountsD(3) [OF line(3)] in auto)
  let ?h4 = "gone [?l] h3"
  note free = accounts_free [OF acc3]
  have holds4: "holds L ?V ?h4 q r F" by (rule holds_frame [OF line(2)]) (use accountsD(3) [OF acc3] in auto)
  have d4: "distinct F" using accountsD(3) [OF acc3] by simp
  from parse_headers_loop_mem_spec [OF assms(1,2) holds4 accountsD(1) [OF free(2)] d4] obtain h5 F5 X5 where loop:
    "parse_headers_loop_mem L M (Some q) lines ?h4 = ret h5" "holds L ?V h5 q (fold (apply_header L) lines r) F5"
    "accounts ?h4 F h5 (F5 @ X5)" "length X5 = lost_by_lines L lines r" by blast
  have rest4: "set (F @ [?wb] @ X) = set F \<union> set ([?wb] @ X)" "distinct ([?wb] @ X)" "set F \<inter> set ([?wb] @ X) = {}"
    using accountsD(3) [OF acc3] by auto
  note other = accounts_other(1,3) [OF free(2) loop(3) rest4]
  have acc5: "accounts h [] h5 (F5 @ [?wb] @ (X5 @ X))"
    by (rule accounts_set [OF other(1)]) (use accountsD(3) [OF other(1)] in auto)
  have wb5: "cells h5 ?wb = Some (BufferB (stringbuffer_new L))" using other(2) line(4) l(2) by auto
  let ?h6 = "h5\<lparr>cells := (cells h5)(?wb \<mapsto> BufferB rest)\<rparr>"
  have acc6: "accounts h [] ?h6 (F5 @ [?wb] @ (X5 @ X))" by (rule accounts_store [OF acc5]) simp
  have holds6: "holds L ?V ?h6 q (fold (apply_header L) lines r) F5"
    by (rule holds_frame [OF loop(2)]) (use accountsD(3) [OF acc5] in auto)
  have wb6: "cells ?h6 ?wb = Some (BufferB rest)" by simp
  from payload_attached [OF assms(4) holds6 acc6 wb6] obtain h8 h9 m F9 where att:
    "(let (io, h7) = hs_io_new_http_request_payload_mem socket (Some ?wb) ?h6 in hs_types_http_request_new_payload_mem io h7)
        = (Some (next_addr ?h6 + 1), h8)"
    "load as_request (Some q) h8 = ret m" "store (Some q) (RequestB (m\<lparr>m_req_payload := Some (next_addr ?h6 + 1)\<rparr>)) h8 = ret h9"
    "holds_request L ?V h9 q (request_parsed L socket lines rest r) F9" "accounts h [] h9 (F9 @ X5 @ X)"
    unfolding request_parsed_def by blast
  have "socket \<noteq> None" using assms(4) by (auto simp: hs_socket_is_open_def split: option.splits)
  moreover have "store (Some ?wb) (BufferB rest) h5 = ret ?h6" using wb5 by simp
  ultimately have "hs_parser_parse_request_mem L M socket (Some first) lines rest h = ret (Some q, h9)"
    using line(1) free(1) loop(1) att(1-3)
    unfolding hs_parser_parse_request_mem_def
    by (simp add: Let_def split_def del: malloc_simps(3) store_simps load_simps)
  moreover have "length (X5 @ X) = lost_strings L lines r" using loop(4) line(5) by (simp add: lost_strings_def)
  ultimately show ?thesis using att(4,5) by blast
qed

lemma holds_request_owner: "holds_request L V h q r F \<Longrightarrow> own_request V h (Some q) = Some F"
  by (simp add: holds_request_def)


text \<open>
  C11. A request on the heap: from the bytes of the connection \<open>hs_parser_parse_request\<close> builds, beside
  the request as a value, blocks that hold exactly this value, all owned by the pointer it returns.
  What it allocated besides and does not free is a list of lost strings of known length: the copy of
  a target that ends in a colon, and each user agent and authorization that a later header replaces.
\<close>

theorem parsed_request_in_memory:
  assumes "mem_ok M C" and "libs_ok L" and "heap_ok h" and "plain_socket socket fd" and "smooth HS_IO_READ_BUFFER_SIZE fd w"
    and "next_line (stream_bytes fd w) = (Some l, rest)" and "hs_parser_parse_request_line L (Some l) = ret (Some r0)"
  shows "\<exists>b w' r q h' F X. hs_parser_parse_request L socket w = ret (Some r, w')
    \<and> hs_parser_parse_request_mem L M socket (Some l) (fst (stream_lines rest)) b h = ret (Some q, h')
    \<and> holds_request L (vectors M) h' q r F \<and> accounts h [] h' (F @ X)
    \<and> length X = lost_strings L (fst (stream_lines rest)) r0"
proof -
  have "hs_socket_is_open socket" by (rule plain_socket_simps(2) [OF assms(4)])
  note mem = parse_request_mem_spec [OF assms(1-3) this assms(7), of "fst (stream_lines rest)", unfolded request_parsed_def]
  from parse_request_spec [OF assms(2,4-7)] mem show ?thesis by metis
qed

theorem parsed_request_in_memory_witness:
  "\<exists>b w' r q h' F X. hs_parser_parse_request reference_libs connection_socket
        (connection [Arrive (''GET /a HTTP/1.1'' @ [CR, LF] @ ''User-Agent: x'' @ [CR, LF] @ ''User-Agent: y'' @ [CR, LF, CR, LF])] [])
        = ret (Some r, w')
    \<and> hs_parser_parse_request_mem reference_libs reference_mem connection_socket (Some ''GET /a HTTP/1.1'')
        [''User-Agent: x'', ''User-Agent: y''] b \<lparr>cells = (\<lambda>_. None), next_addr = 0\<rparr> = ret (Some q, h')
    \<and> holds_request reference_libs (vectors reference_mem) h' q r F
    \<and> accounts \<lparr>cells = (\<lambda>_. None), next_addr = 0\<rparr> [] h' (F @ X) \<and> length X = 1"
proof -
  let ?w = "connection [Arrive (''GET /a HTTP/1.1'' @ [CR, LF] @ ''User-Agent: x'' @ [CR, LF] @ ''User-Agent: y'' @ [CR, LF, CR, LF])] []"
  let ?rest = "''User-Agent: x'' @ [CR, LF] @ ''User-Agent: y'' @ [CR, LF, CR, LF]"
  define r0 where "r0 = (hs_types_http_request_new reference_libs)\<lparr>req_method := HS_HTTP_METHOD_GET,
      req_domain := Some [], req_port := -1, req_ssl := False, req_resource := Some ''/a'', req_query_string := None\<rparr>"
  have 1: "smooth HS_IO_READ_BUFFER_SIZE 3 ?w" by (simp add: HS_IO_READ_BUFFER_SIZE_def)
  have 2: "next_line (stream_bytes 3 ?w) = (Some ''GET /a HTTP/1.1'', ?rest)" by (simp add: next_line_def)
  have 3: "hs_parser_parse_request_line reference_libs (Some ''GET /a HTTP/1.1'') = ret (Some r0)"
    unfolding r0_def by code_simp
  have lines: "fst (stream_lines ?rest) = [''User-Agent: x'', ''User-Agent: y'']" by code_simp
  have lost: "lost_strings reference_libs [''User-Agent: x'', ''User-Agent: y''] r0 = 1"
    unfolding r0_def by code_simp
  have ok: "heap_ok \<lparr>cells = (\<lambda>_. None), next_addr = 0\<rparr>" by (simp add: heap_ok_def)
  show ?thesis
    using parsed_request_in_memory [OF reference_mem_ok reference_libs_ok ok connection_simps(1) 1 2 3] unfolding lines lost .
qed

text \<open>
  C8. The memory of a request, from the first byte to the release of its state: parsing the request,
  making the state it is served with and releasing that state leave every block as it was, the lost
  strings apart, which nothing points to any more: the strings that repeated headers overwrite, and
  the copy of the target when the target has no resource (\<open>lost_strings\<close>).
\<close>

theorem request_memory_life:
  assumes "mem_ok M C" and "libs_ok L" and "heap_ok h" and "hs_socket_is_open socket"
    and "hs_parser_parse_request_line L (Some first) = ret (Some r)"
  shows "\<exists>q h1 p h2 h3 X. hs_parser_parse_request_mem L M socket (Some first) lines rest h = ret (Some q, h1)
    \<and> hs_types_serve_flow_params_new_pre_populated_mem M (Some q) h1 = (p, h2)
    \<and> hs_types_serve_flow_params_release_mem M p h2 = ret h3
    \<and> (\<forall>a. a \<notin> set X \<longrightarrow> cells h3 a = cells h a) \<and> (\<forall>a \<in> set X. cells h a = None \<and> cells h3 a \<noteq> None)
    \<and> distinct X \<and> length X = lost_strings L lines r"
proof -
  from parse_request_mem_spec [OF assms, of lines rest] obtain q h1 F X where parse:
    "hs_parser_parse_request_mem L M socket (Some first) lines rest h = ret (Some q, h1)"
    "own_request (vectors M) h1 (Some q) = Some F" "accounts h [] h1 (F @ X)" "length X = lost_strings L lines r"
    using holds_request_owner by blast
  have d: "set (F @ X) = set F \<union> set X" "distinct X" "set F \<inter> set X = {}" "distinct F"
    using accountsD(3) [OF parse(3)] by auto
  obtain p h2 F2 where new: "hs_types_serve_flow_params_new_pre_populated_mem M (Some q) h1 = (p, h2)"
    "own_flow (vectors M) C h2 p = Some F2" "accounts h1 F h2 F2"
    by (rule createsE [OF flow_new_creates [OF assms(1) accountsD(1) [OF parse(3)] parse(2) d(4)]])
  from owner.release_accounts [OF owner_flow [OF assms(1)] new(3,2)] obtain h3 where
    rel: "hs_types_serve_flow_params_release_mem M p h2 = ret h3" "accounts h1 F h3 []" by blast
  have acc: "accounts h [] h3 X" using accounts_other(1) [OF parse(3) rel(2) d(1-3)] by simp
  have "\<forall>a. a \<notin> set X \<longrightarrow> cells h3 a = cells h a" using accountsD(6) [OF acc] by simp
  moreover have "\<forall>a \<in> set X. cells h a = None \<and> cells h3 a \<noteq> None"
    using accountsD(4,5) [OF acc] assms(3) by (auto simp: heap_ok_def)
  ultimately show ?thesis using parse(1,4) new(1) rel(1) d(2) by blast
qed

theorem request_memory_life_witness:
  "\<exists>q h1 p h2 h3 X. hs_parser_parse_request_mem reference_libs reference_mem connection_socket (Some ''GET /a HTTP/1.1'')
        [''User-Agent: x'', ''Cookie: a=1; b=2''] [] \<lparr>cells = (\<lambda>_. None), next_addr = 0\<rparr> = ret (Some q, h1)
    \<and> hs_types_serve_flow_params_new_pre_populated_mem reference_mem (Some q) h1 = (p, h2)
    \<and> hs_types_serve_flow_params_release_mem reference_mem p h2 = ret h3 \<and> cells h3 = (\<lambda>_. None)"
proof -
  define r0 where "r0 = (hs_types_http_request_new reference_libs)\<lparr>req_method := HS_HTTP_METHOD_GET,
      req_domain := Some [], req_port := -1, req_ssl := False, req_resource := Some ''/a'', req_query_string := None\<rparr>"
  have line: "hs_parser_parse_request_line reference_libs (Some ''GET /a HTTP/1.1'') = ret (Some r0)"
    unfolding r0_def by code_simp
  have lost: "lost_strings reference_libs [''User-Agent: x'', ''Cookie: a=1; b=2''] r0 = 0"
    unfolding r0_def by code_simp
  have ok: "heap_ok \<lparr>cells = (\<lambda>_. None), next_addr = 0\<rparr>" by (simp add: heap_ok_def)
  have open_socket: "hs_socket_is_open connection_socket" by (rule plain_socket_simps(2) [OF connection_simps(1)])
  from request_memory_life [OF reference_mem_ok reference_libs_ok ok open_socket line, of "[''User-Agent: x'', ''Cookie: a=1; b=2'']" "[]",
      unfolded lost] show ?thesis
    by (auto simp: fun_eq_iff)
qed

end
