(* ===== verification/Routes_Memory.thy ===== *)
theory Routes_Memory
  imports Ownership_Ops
begin

text \<open>
  The memory of routes and routers: the release functions of \<open>src/hs_route.c\<close>, \<open>src/hs_router.c\<close> and
  \<open>src/hs_routes_*.c\<close>. A route has a pointer to the function that releases its extension, and the
  extension of a router used as a route is a router again, so releasing is recursive; nothing in
  the code bounds the recursion, hence \<open>partial_function\<close>. Routers that are properly nested, to any
  depth, are owners: their release returns and frees exactly what belongs to them.
\<close>

section \<open>The release functions of the routes\<close>

type_synonym ('v, 'sb, 'dt, 'fn) releaser = "ptr \<Rightarrow> ('v, 'sb, 'dt, 'fn) heap \<Rightarrow> ('v, 'sb, 'dt, 'fn) heap run"

definition with_extension ::
  "(ptr \<Rightarrow> ('v, 'sb, 'dt, 'fn) heap \<Rightarrow> ('v, 'sb, 'dt, 'fn) heap run) \<Rightarrow> ('v, 'sb, 'dt, 'fn) releaser" where
  \<comment> \<open>return on NULL, go on with \<open>route->extension\<close>\<close>
  "with_extension f route h =
     (if route = None then ret h else bindR (load as_route route h) (\<lambda>r. f (m_extension r) h))"

definition hs_routes_common_extension_release_mem :: "('v, 'sb, 'dt, 'fn) releaser" where
  "hs_routes_common_extension_release_mem = with_extension hs_io_free"

definition hs_routes_payload_limit_release_mem :: "('v, 'sb, 'dt, 'fn) releaser" where
  "hs_routes_payload_limit_release_mem = with_extension hs_io_free"

definition hs_routes_favicon_route_release_mem :: "('v, 'sb, 'dt, 'fn) releaser" where
  \<comment> \<open>the extension is not checked\<close>
  "hs_routes_favicon_route_release_mem = with_extension
     (\<lambda>extension h. bindR (release_fields as_favicon
          [\<lambda>context. hs_io_free (m_favicon_path context),
           \<lambda>context. hs_io_free (m_cache_control_header context)] extension h)
        (hs_io_free extension))"

definition hs_routes_static_release_mem :: "('v, 'sb, 'dt, 'fn) releaser" where
  "hs_routes_static_release_mem = with_extension
     (release_struct as_static [\<lambda>context. hs_io_free (m_static_content context)])"

definition hs_routes_redirection_release_mem :: "('v, 'sb, 'dt, 'fn) releaser" where
  "hs_routes_redirection_release_mem = with_extension
     (release_struct as_redirection [\<lambda>context. hs_io_free (m_to_path context)])"

definition hs_routes_security_headers_route_release_mem :: "('v, 'sb, 'dt, 'fn) releaser" where
  "hs_routes_security_headers_route_release_mem = with_extension
     (release_struct as_headers
        [\<lambda>headers. hs_io_free (m_content_security_policy headers),
         \<lambda>headers. hs_io_free (m_permissions_policy headers)])"

definition hs_routes_security_basic_auth_route_release_mem :: "('v, 'sb, 'dt, 'fn) releaser" where
  "hs_routes_security_basic_auth_route_release_mem = with_extension
     (release_struct as_basic_auth [\<lambda>context. hs_io_free (m_realm context)])"

definition hs_routes_file_route_release_mem :: "('v, 'sb, 'dt, 'fn) releaser" where
  "hs_routes_file_route_release_mem = with_extension
     (release_struct as_file_serve [\<lambda>context. hs_io_free (m_file_base_directory context)])"

definition hs_routes_directory_route_release_mem :: "('v, 'sb, 'dt, 'fn) releaser" where
  "hs_routes_directory_route_release_mem = with_extension
     (release_struct as_directory_serve
        [\<lambda>context. hs_io_free (m_dir_base_directory context),
         \<lambda>context. hs_io_free (m_additional_head_content context)])"

definition release_user_context ::
  "('v, 'sb, 'dt, 'fn) mem_lib \<Rightarrow> 'fn HSSessionRouteContext_mem \<Rightarrow> ('v, 'sb, 'dt, 'fn) heap \<Rightarrow> ('v, 'sb, 'dt, 'fn) heap run" where
  "release_user_context M c h =
     (case m_release_context c of
        None \<Rightarrow> ret h
      | Some fn \<Rightarrow> if m_user_context c \<noteq> None then m_call M fn (m_user_context c) h else ret h)"

definition hs_routes_session_route_release_mem :: "('v, 'sb, 'dt, 'fn) mem_lib \<Rightarrow> ('v, 'sb, 'dt, 'fn) releaser" where
  "hs_routes_session_route_release_mem M = with_extension
     (release_struct as_session_route
        [release_user_context M,
         \<lambda>context. hs_io_free (m_cookie_name context),
         \<lambda>context. hs_io_free (m_session_name context)])"

definition hs_router_as_route_release_mem :: "('v, 'sb, 'dt, 'fn) releaser \<Rightarrow> ('v, 'sb, 'dt, 'fn) releaser" where
  \<comment> \<open>\<open>release_router\<close> is \<open>hs_router_release\<close>, defined below\<close>
  "hs_router_as_route_release_mem release_router = with_extension
     (\<lambda>extension h. if extension = None then ret h else release_router extension h)"

definition call_release ::
  "('v, 'sb, 'dt, 'fn) mem_lib \<Rightarrow> ('v, 'sb, 'dt, 'fn) releaser \<Rightarrow> route_release \<Rightarrow> ('v, 'sb, 'dt, 'fn) releaser" where
  \<comment> \<open>\<open>route->release(route)\<close>\<close>
  "call_release M release_router f =
     (case f of
        Common_extension_release \<Rightarrow> hs_routes_common_extension_release_mem
      | Payload_limit_release \<Rightarrow> hs_routes_payload_limit_release_mem
      | Favicon_release \<Rightarrow> hs_routes_favicon_route_release_mem
      | Static_release \<Rightarrow> hs_routes_static_release_mem
      | Redirection_release \<Rightarrow> hs_routes_redirection_release_mem
      | Security_headers_release \<Rightarrow> hs_routes_security_headers_route_release_mem
      | Basic_auth_release \<Rightarrow> hs_routes_security_basic_auth_route_release_mem
      | File_release \<Rightarrow> hs_routes_file_route_release_mem
      | Directory_release \<Rightarrow> hs_routes_directory_route_release_mem
      | Session_release \<Rightarrow> hs_routes_session_route_release_mem M
      | Router_release \<Rightarrow> hs_router_as_route_release_mem release_router)"

definition hs_route_release_route_mem ::
  "('v, 'sb, 'dt, 'fn) mem_lib \<Rightarrow> ('v, 'sb, 'dt, 'fn) releaser \<Rightarrow> ('v, 'sb, 'dt, 'fn) releaser" where
  "hs_route_release_route_mem M release_router route h =
     (if route = None then ret h
      else bindR (load as_route route h)
             (\<lambda>r. bindR (case m_route_release r of None \<Rightarrow> ret h | Some f \<Rightarrow> call_release M release_router f route h)
                (\<lambda>h1. bindR (load as_route route h1)
                   (\<lambda>r1. bindR (hs_io_free (m_route_path r1) h1) (hs_io_free route)))))"

section \<open>The release of a router\<close>

lemma release_each_mono [partial_function_mono]:
  assumes "\<And>p h. mono_option (\<lambda>f. R f p h)"
  shows "mono_option (\<lambda>f. release_each get (R f) i n h)"
proof (induction "n - i" arbitrary: i h)
  case 0
  then have "release_each get (R f) i n h = ret h" for f by (simp add: release_each.simps)
  then show ?case by (simp add: option.const_mono)
next
  case (Suc k)
  then have "i < n" by linarith
  then have "release_each get (R f) i n h = bindR (get i h) (\<lambda>p. bindR (R f p h) (\<lambda>h1. release_each get (R f) (Suc i) n h1))" for f
    by (simp add: release_each.simps [of get "R f" i])
  moreover have "mono_option (\<lambda>f. release_each get (R f) (Suc i) n h1)" for h1 using Suc.hyps(2) by (intro Suc.hyps(1)) simp
  ultimately show ?case
    by (simp) (intro bindR_mono assms option.const_mono)
qed

lemma release_route_mono [partial_function_mono]:
  assumes "\<And>p h. mono_option (\<lambda>f. R f p h)"
  shows "mono_option (\<lambda>f. hs_route_release_route_mem M (R f) route h)"
proof -
  have "mono_option (\<lambda>f. call_release M (R f) g route h)" for g
    by (cases g) (auto simp: call_release_def hs_router_as_route_release_mem_def with_extension_def
        intro!: option.const_mono bindR_mono assms if_mono)
  then have "mono_option (\<lambda>f. case m_route_release r of None \<Rightarrow> ret h | Some g \<Rightarrow> call_release M (R f) g route h)" for r
    by (cases "m_route_release r") (simp_all add: option.const_mono)
  then show ?thesis
    unfolding hs_route_release_route_mem_def by (intro if_mono bindR_mono option.const_mono)
qed

partial_function (option) hs_router_release_mem ::
  "('v, 'sb, 'dt, 'fn) mem_lib \<Rightarrow> ptr \<Rightarrow> ('v, 'sb, 'dt, 'fn) heap \<Rightarrow> (fault + ('v, 'sb, 'dt, 'fn) heap) option" where
  "hs_router_release_mem M router h =
     (if router = None then ret h
      else bindR (load as_router router h)
             (\<lambda>r. bindR (if m_routes r = None then ret h
                         else bindR (load as_vector (m_routes r) h)
                                (\<lambda>v. bindR (release_each (vector_at (vectors M) (m_routes r))
                                              (hs_route_release_route_mem M (hs_router_release_mem M))
                                              0 (vector_size (vectors M) v) h)
                                       (m_vector_release M (m_routes r))))
                     (hs_io_free router)))"

section \<open>What belongs to a route\<close>

definition own_number :: "('v, 'sb, 'dt, 'fn) heap \<Rightarrow> ptr \<Rightarrow> addr list option" where
  "own_number = own_struct as_number []"

definition own_favicon :: "('v, 'sb, 'dt, 'fn) heap \<Rightarrow> ptr \<Rightarrow> addr list option" where
  "own_favicon h p =
     (if p \<noteq> None then own_struct as_favicon
        [\<lambda>h context. own_string h (m_favicon_path context), \<lambda>h context. own_string h (m_cache_control_header context)] h p
      else None)"

definition own_static :: "('v, 'sb, 'dt, 'fn) heap \<Rightarrow> ptr \<Rightarrow> addr list option" where
  "own_static = own_struct as_static [\<lambda>h context. own_string h (m_static_content context)]"

definition own_redirection :: "('v, 'sb, 'dt, 'fn) heap \<Rightarrow> ptr \<Rightarrow> addr list option" where
  "own_redirection = own_struct as_redirection [\<lambda>h context. own_string h (m_to_path context)]"

definition own_headers :: "('v, 'sb, 'dt, 'fn) heap \<Rightarrow> ptr \<Rightarrow> addr list option" where
  "own_headers = own_struct as_headers
     [\<lambda>h headers. own_string h (m_content_security_policy headers), \<lambda>h headers. own_string h (m_permissions_policy headers)]"

definition own_basic_auth :: "('v, 'sb, 'dt, 'fn) heap \<Rightarrow> ptr \<Rightarrow> addr list option" where
  \<comment> \<open>the context of the authentication function belongs to the user\<close>
  "own_basic_auth = own_struct as_basic_auth [\<lambda>h context. own_string h (m_realm context)]"

definition own_file_serve :: "('v, 'sb, 'dt, 'fn) heap \<Rightarrow> ptr \<Rightarrow> addr list option" where
  "own_file_serve = own_struct as_file_serve [\<lambda>h context. own_string h (m_file_base_directory context)]"

definition own_directory_serve :: "('v, 'sb, 'dt, 'fn) heap \<Rightarrow> ptr \<Rightarrow> addr list option" where
  "own_directory_serve = own_struct as_directory_serve
     [\<lambda>h context. own_string h (m_dir_base_directory context), \<lambda>h context. own_string h (m_additional_head_content context)]"

type_synonym ('v, 'sb, 'dt, 'fn) owns = "('v, 'sb, 'dt, 'fn) heap \<Rightarrow> ptr \<Rightarrow> addr list option"

definition own_user_context ::
  "('fn \<Rightarrow> ('v, 'sb, 'dt, 'fn) owns) \<Rightarrow> ('v, 'sb, 'dt, 'fn) heap \<Rightarrow> 'fn HSSessionRouteContext_mem \<Rightarrow> addr list option" where
  \<comment> \<open>\<open>U fn\<close>: what the release function \<open>fn\<close> of a user frees\<close>
  "own_user_context U h c =
     (case m_release_context c of
        None \<Rightarrow> Some []
      | Some fn \<Rightarrow> if m_user_context c \<noteq> None then U fn h (m_user_context c) else Some [])"

definition own_session_route :: "('fn \<Rightarrow> ('v, 'sb, 'dt, 'fn) owns) \<Rightarrow> ('v, 'sb, 'dt, 'fn) owns" where
  "own_session_route U = own_struct as_session_route
     [own_user_context U, \<lambda>h context. own_string h (m_cookie_name context), \<lambda>h context. own_string h (m_session_name context)]"

definition own_released ::
  "('fn \<Rightarrow> ('v, 'sb, 'dt, 'fn) owns) \<Rightarrow> ('v, 'sb, 'dt, 'fn) owns \<Rightarrow> route_release \<Rightarrow> ('v, 'sb, 'dt, 'fn) owns" where
  "own_released U R f =
     (case f of
        Common_extension_release \<Rightarrow> own_number
      | Payload_limit_release \<Rightarrow> own_number
      | Favicon_release \<Rightarrow> own_favicon
      | Static_release \<Rightarrow> own_static
      | Redirection_release \<Rightarrow> own_redirection
      | Security_headers_release \<Rightarrow> own_headers
      | Basic_auth_release \<Rightarrow> own_basic_auth
      | File_release \<Rightarrow> own_file_serve
      | Directory_release \<Rightarrow> own_directory_serve
      | Session_release \<Rightarrow> own_session_route U
      | Router_release \<Rightarrow> R)"

definition own_extension ::
  "('fn \<Rightarrow> ('v, 'sb, 'dt, 'fn) owns) \<Rightarrow> ('v, 'sb, 'dt, 'fn) owns \<Rightarrow> ('v, 'sb, 'dt, 'fn) heap \<Rightarrow> HSRoute_mem \<Rightarrow> addr list option" where
  \<comment> \<open>without a release function the extension belongs to someone else\<close>
  "own_extension U R h r = (case m_route_release r of None \<Rightarrow> Some [] | Some f \<Rightarrow> own_released U R f h (m_extension r))"

definition own_route ::
  "('fn \<Rightarrow> ('v, 'sb, 'dt, 'fn) owns) \<Rightarrow> ('v, 'sb, 'dt, 'fn) owns \<Rightarrow> ('v, 'sb, 'dt, 'fn) owns" where
  "own_route U R = own_struct as_route [own_extension U R, \<lambda>h r. own_string h (m_route_path r)]"

primrec own_router ::
  "('v, addr) vector_lib \<Rightarrow> ('fn \<Rightarrow> ('v, 'sb, 'dt, 'fn) owns) \<Rightarrow> nat \<Rightarrow> ('v, 'sb, 'dt, 'fn) owns" where
  \<comment> \<open>routers nested to a depth below the number\<close>
  "own_router V U 0 = (\<lambda>h p. None)"
| "own_router V U (Suc n) =
     own_struct as_router [\<lambda>h r. own_elements V (own_route U (own_router V U n)) h (m_routes r)]"

definition users_ok :: "('v, 'sb, 'dt, 'fn) mem_lib \<Rightarrow> ('fn \<Rightarrow> ('v, 'sb, 'dt, 'fn) owns) \<Rightarrow> bool" where
  "users_ok M U \<longleftrightarrow> (\<forall>fn. owner (U fn) (m_call M fn))"

section \<open>Routes are owners\<close>

lemma owner_never: "owner (\<lambda>h p. None) f"
  by unfold_locales simp_all

lemma owner_user_context:
  assumes "users_ok M U"
  shows "owner (own_user_context U) (release_user_context M)"
proof
  fix h h' c F
  assume own: "own_user_context U h c = Some F"
  note U = assms [unfolded users_ok_def, rule_format]
  show "own_user_context U h' c = Some F" if "\<forall>a \<in> set F. cells h' a = cells h a"
    using own framed.frame [OF owner.axioms(1) [OF U] _ that]
    by (auto simp: own_user_context_def split: option.splits)
  show "cells h a \<noteq> None" if "a \<in> set F" for a
    using own framed.live [OF owner.axioms(1) [OF U] _ that] that
    by (auto simp: own_user_context_def split: option.splits if_splits)
  show "release_user_context M c h = ret (gone F h)" if "distinct F"
    using own owner.release [OF U _ that]
    by (auto simp: own_user_context_def release_user_context_def split: option.splits if_splits)
qed

lemma struct_owner_strings:
  "owner (own_struct as [\<lambda>h s. own_string h (f s)]) (release_struct as [\<lambda>s. hs_io_free (f s)])"
  "owner (own_struct as [\<lambda>h s. own_string h (f s), \<lambda>h s. own_string h (g s)])
    (release_struct as [\<lambda>s. hs_io_free (f s), \<lambda>s. hs_io_free (g s)])"
  by (rule struct_owner, simp add: owner_field [OF str.owner_axioms])+

lemma owner_session_route:
  assumes "users_ok M U"
  shows "owner (own_session_route U) (release_struct as_session_route [release_user_context M,
    \<lambda>context. hs_io_free (m_cookie_name context), \<lambda>context. hs_io_free (m_session_name context)])"
  unfolding own_session_route_def
  by (rule struct_owner) (simp add: owner_user_context [OF assms] owner_field [OF str.owner_axioms])

lemma framed_favicon: "framed own_favicon"
  unfolding own_favicon_def by (intro framed_guard owner.axioms(1) [OF struct_owner_strings(2)])

lemma framed_released:
  assumes "users_ok M U" and "framed R"
  shows "framed (own_released U R f)"
  by (cases f) (simp_all add: assms(2) framed_favicon owner.axioms(1) [OF struct_owner_strings(1)] owner.axioms(1) [OF struct_owner_strings(2)]
      owner.axioms(1) [OF owner_block] owner.axioms(1) [OF owner_session_route [OF assms(1)]] own_released_def own_number_def own_static_def own_redirection_def own_headers_def own_basic_auth_def
      own_file_serve_def own_directory_serve_def)

lemma framed_extension:
  assumes "users_ok M U" and "framed R"
  shows "framed (own_extension U R)"
proof
  fix h h' r F
  assume own: "own_extension U R h r = Some F"
  note fr = framed_released [OF assms]
  show "own_extension U R h' r = Some F" if "\<forall>a \<in> set F. cells h' a = cells h a"
    using own framed.frame [OF fr _ that] by (auto simp: own_extension_def split: option.splits)
  show "cells h a \<noteq> None" if "a \<in> set F" for a
    using own framed.live [OF fr _ that] that by (auto simp: own_extension_def split: option.splits)
qed

lemma framed_route:
  assumes "users_ok M U" and "framed R"
  shows "framed (own_route U R)"
  unfolding own_route_def
  by (intro framed_struct) (simp add: framed_extension [OF assms] framed_field [OF str.framed_axioms])

lemma release_favicon:
  assumes "own_favicon h p = Some F" and "distinct F"
  shows "bindR (release_fields as_favicon [\<lambda>context. hs_io_free (m_favicon_path context),
     \<lambda>context. hs_io_free (m_cache_control_header context)] p h) (hs_io_free p) = ret (gone F h)"
proof -
  from assms(1) obtain a where "p = Some a" by (auto simp: own_favicon_def split: if_splits)
  then show ?thesis
    using owner.release [OF struct_owner_strings(2), of as_favicon m_favicon_path m_cache_control_header h p F] assms
    by (simp add: own_favicon_def release_struct_def del: release_fields.simps)
qed

lemma call_release_frees:
  assumes "users_ok M U" and "owner R release_router" and "cells h a = Some (RouteB r)"
    and "own_released U R f h (m_extension r) = Some F" and "distinct F" and "\<And>h. release_router None h = ret h"
  shows "call_release M release_router f (Some a) h = ret (gone F h)"
proof -
  have ext: "with_extension g (Some a) h = g (m_extension r) h" for g
    using assms(3) by (simp add: with_extension_def)
  show ?thesis
  proof (cases f)
    case Router_release
    then have "R h (m_extension r) = Some F" using assms(4) by (simp add: own_released_def)
    from owner.release [OF assms(2) this assms(5)] assms(6) [of h] Router_release show ?thesis
      by (cases "m_extension r") (simp_all add: call_release_def hs_router_as_route_release_mem_def ext)
  next
    case Favicon_release
    with assms(4,5) release_favicon show ?thesis
      by (simp add: call_release_def own_released_def hs_routes_favicon_route_release_mem_def ext)
  next
    case Session_release
    with assms(4,5) owner.release [OF owner_session_route [OF assms(1)]] show ?thesis
      by (simp add: call_release_def own_released_def hs_routes_session_route_release_mem_def ext)
  qed (use assms(4,5) in
    \<open>simp_all add: owner.release [OF struct_owner_strings(1)] owner.release [OF struct_owner_strings(2)] owner.release [OF owner_block] call_release_def own_released_def ext own_number_def own_static_def own_redirection_def own_headers_def own_basic_auth_def
      own_file_serve_def own_directory_serve_def hs_routes_common_extension_release_mem_def hs_routes_payload_limit_release_mem_def
      hs_routes_static_release_mem_def hs_routes_redirection_release_mem_def hs_routes_security_headers_route_release_mem_def
      hs_routes_security_basic_auth_route_release_mem_def hs_routes_file_route_release_mem_def hs_routes_directory_route_release_mem_def\<close>)
qed

lemma owner_route:
  assumes "users_ok M U" and "owner R release_router" and "\<And>h. release_router None h = ret h"
  shows "owner (own_route U R) (hs_route_release_route_mem M release_router)"
proof (intro owner.intro owner_axioms.intro framed_route [OF assms(1)] owner.axioms(1) [OF assms(2)])
  fix h p F
  assume own: "own_route U R h p = Some F" "distinct F"
  show "hs_route_release_route_mem M release_router p h = ret (gone F h)"
  proof (cases p)
    case None
    with own(1) show ?thesis by (simp add: own_route_def hs_route_release_route_mem_def)
  next
    case (Some _)
    with own(1) obtain a r F1 F2 where p: "p = Some a" "cells h a = Some (RouteB r)" "own_extension U R h r = Some F1"
      "own_string h (m_route_path r) = Some F2" "F = F1 @ F2 @ [a]"
      unfolding own_route_def by (auto simp: Option.bind_eq_Some_conv elim!: own_structE)
    have call: "(case m_route_release r of None \<Rightarrow> ret h | Some f \<Rightarrow> call_release M release_router f (Some a) h) = ret (gone F1 h)"
    proof (cases "m_route_release r")
      case None
      with p(3) show ?thesis by (simp add: own_extension_def)
    next
      case (Some f)
      with p(3) have "own_released U R f h (m_extension r) = Some F1" by (simp add: own_extension_def)
      from call_release_frees [OF assms(1,2) p(2) this _ assms(3)] own(2) p(5) Some show ?thesis by simp
    qed
    have "hs_io_free (m_route_path r) (gone F1 h) = ret (gone (F1 @ F2) h)"
      using own(2) p(5) by (intro str.release_elsewhere [OF p(4)]) auto
    with own(2) p call show ?thesis by (simp add: hs_route_release_route_mem_def)
  qed
qed

lemma router_release_None [simp]: "hs_router_release_mem M None h = ret h"
  by (simp add: hs_router_release_mem.simps)

lemma owner_router:
  assumes "mem_ok M C" and "users_ok M U"
  shows "owner (own_router (vectors M) U n) (hs_router_release_mem M)"
proof (induction n)
  case 0
  then show ?case by (simp add: owner_never)
next
  case (Suc n)
  note elements = owner_elements [OF assms(1) owner_route [OF assms(2) Suc router_release_None]]
  have "owner (own_router (vectors M) U (Suc n))
    (release_struct as_router [\<lambda>r. release_vector M (hs_route_release_route_mem M (hs_router_release_mem M)) (m_routes r)])"
    by (simp, rule struct_owner) (simp add: owner_field [OF elements])
  moreover have "release_struct as_router [\<lambda>r. release_vector M (hs_route_release_route_mem M (hs_router_release_mem M)) (m_routes r)] p h
      = hs_router_release_mem M p h" if "own_router (vectors M) U (Suc n) h p = Some F" for h p F
    using that by (subst hs_router_release_mem.simps)
      (auto simp: release_struct_def release_vector_def bindR_assoc own_struct_def own_elements_def Option.bind_eq_Some_conv
        split: option.splits if_splits)
  ultimately show ?case unfolding owner_def owner_axioms_def by metis
qed

end
