(* ===== verification/Sites_Memory.thy ===== *)
theory Sites_Memory
  imports Routes_Memory Routes_Session
begin

text \<open>
  The constructors of routes and routers on the heap (\<open>src/hs_route.c\<close>, \<open>src/hs_router.c\<close>,
  \<open>src/hs_routes_*.c\<close>), and what they amount to: in a tree of routes and routers that is built with them
  everything allocated is owned by the router, so that releasing it gives every block back. Strings
  are passed in as copies and belong to the route afterwards, as in \<open>src/examples/example.c\<close>. As in
  \<open>Ownership\<close>, a struct is allocated behind its fields here; addresses are the only difference.
\<close>

section \<open>Constructors\<close>

definition set_all_methods_mem :: "bool \<Rightarrow> HSRoute_mem \<Rightarrow> HSRoute_mem" where
  "set_all_methods_mem enable r =
     r\<lparr>m_is_get := enable, m_is_post := enable, m_is_put := enable, m_is_delete := enable, m_is_head := enable,
       m_is_connect := enable, m_is_options := enable, m_is_trace := enable, m_is_patch := enable\<rparr>"

definition hs_route_set_all_methods_mem ::
  "ptr \<Rightarrow> bool \<Rightarrow> ('v, 'sb, 'dt, 'fn) heap \<Rightarrow> ('v, 'sb, 'dt, 'fn) heap run" where
  "hs_route_set_all_methods_mem route enable h =
     (if route = None then ret h
      else bindR (load as_route route h) (\<lambda>r. store route (RouteB (set_all_methods_mem enable r)) h))"

definition new_route :: HSRoute_mem where
  \<comment> \<open>the fields \<open>hs_route_new\<close> sets\<close>
  "new_route =
     \<lparr>m_route_path = None, m_is_parent_path = False, m_is_get = False, m_is_post = False, m_is_put = False,
      m_is_delete = False, m_is_head = False, m_is_connect = False, m_is_options = False, m_is_trace = False,
      m_is_patch = False, m_route_release = None, m_extension = None\<rparr>"

definition hs_route_new_mem :: "('v, 'sb, 'dt, 'fn) heap \<Rightarrow> ptr \<times> ('v, 'sb, 'dt, 'fn) heap" where
  "hs_route_new_mem = malloc (RouteB new_route)"

definition serve_all_route :: HSRoute_mem where
  "serve_all_route = (set_all_methods_mem True new_route)\<lparr>m_is_parent_path := True\<rparr>"

definition hs_routes_common_serve_all_route_new_mem ::
  "('v, 'sb, 'dt, 'fn) heap \<Rightarrow> ptr \<times> ('v, 'sb, 'dt, 'fn) heap" where
  "hs_routes_common_serve_all_route_new_mem = malloc (RouteB serve_all_route)"

definition hs_routes_error_404_not_found_route_new_mem ::
  "('v, 'sb, 'dt, 'fn) heap \<Rightarrow> ptr \<times> ('v, 'sb, 'dt, 'fn) heap" where
  "hs_routes_error_404_not_found_route_new_mem = hs_routes_common_serve_all_route_new_mem"

definition hs_routes_error_411_length_required_route_new_mem ::
  "('v, 'sb, 'dt, 'fn) heap \<Rightarrow> ptr \<times> ('v, 'sb, 'dt, 'fn) heap" where
  "hs_routes_error_411_length_required_route_new_mem =
     malloc (RouteB (new_route\<lparr>m_is_post := True, m_is_put := True, m_is_parent_path := True\<rparr>))"

definition hs_routes_powered_by_route_new_mem ::
  "ptr \<Rightarrow> ('v, 'sb, 'dt, 'fn) heap \<Rightarrow> ptr \<times> ('v, 'sb, 'dt, 'fn) heap" where
  \<comment> \<open>the literal that stands in for NULL is not on the heap; there is no release function\<close>
  "hs_routes_powered_by_route_new_mem powered_by = malloc (RouteB (serve_all_route\<lparr>m_extension := powered_by\<rparr>))"

definition hs_routes_payload_limit_route_new_mem ::
  "size_t \<Rightarrow> ('v, 'sb, 'dt, 'fn) heap \<Rightarrow> ptr \<times> ('v, 'sb, 'dt, 'fn) heap" where
  "hs_routes_payload_limit_route_new_mem size_limit h =
     (if size_limit \<noteq> 0
      then let (p, h1) = malloc (ExtensionB (NumberE size_limit)) h
           in malloc (RouteB (serve_all_route\<lparr>m_extension := p, m_route_release := Some Payload_limit_release\<rparr>)) h1
      else hs_routes_common_serve_all_route_new_mem h)"

definition hs_routes_ratelimit_base_route_new_mem ::
  "size_t \<Rightarrow> ('v, 'sb, 'dt, 'fn) heap \<Rightarrow> ptr \<times> ('v, 'sb, 'dt, 'fn) heap" where
  "hs_routes_ratelimit_base_route_new_mem limit h =
     (let (extension, h1) = malloc (ExtensionB (NumberE limit)) h
      in malloc (RouteB (serve_all_route\<lparr>m_route_release := Some Common_extension_release, m_extension := extension\<rparr>)) h1)"

definition hs_routes_static_route_new_mem ::
  "ptr \<Rightarrow> HSMimeType \<Rightarrow> ('v, 'sb, 'dt, 'fn) heap \<Rightarrow> ptr \<times> ('v, 'sb, 'dt, 'fn) heap" where
  "hs_routes_static_route_new_mem content mime_type h =
     (if content = None then (None, h)
      else let (context, h1) = malloc (ExtensionB (StaticE \<lparr>m_static_content = content, m_static_mime_type = mime_type\<rparr>)) h
           in malloc (RouteB (new_route\<lparr>m_is_get := True, m_route_release := Some Static_release, m_extension := context\<rparr>)) h1)"

definition hs_routes_redirection_route_new_with_options_mem ::
  "ptr \<Rightarrow> ptr \<Rightarrow> bool \<Rightarrow> ('v, 'sb, 'dt, 'fn) heap \<Rightarrow> ptr \<times> ('v, 'sb, 'dt, 'fn) heap" where
  "hs_routes_redirection_route_new_with_options_mem from_path to temporary h =
     (if from_path = None \<or> to = None then (None, h)
      else let (context, h1) = malloc (ExtensionB (RedirectionE \<lparr>m_to_path = to, m_temporary_redirect = temporary\<rparr>)) h
           in malloc (RouteB (new_route\<lparr>m_route_path := from_path, m_is_get := True, m_route_release := Some Redirection_release,
                                        m_extension := context\<rparr>)) h1)"

definition hs_routes_favicon_route_new_mem ::
  "('sb, 'pv, 'cv, 'dt2, 'sh) libs \<Rightarrow> ptr \<Rightarrow> int \<Rightarrow> ('v, 'sb2, 'dt, 'fn) heap \<Rightarrow> ptr \<times> ('v, 'sb2, 'dt, 'fn) heap" where
  \<comment> \<open>the buffer for the header is released again\<close>
  "hs_routes_favicon_route_new_mem L path max_age_seconds h =
     (if path = None then (None, h)
      else let (cache_control, h1) =
                 (if 0 < max_age_seconds
                  then malloc (StringB (stringbuffer_to_string L (stringbuffer_append_int L
                         (stringbuffer_append_string L (stringbuffer_new L) ''public, max-age='') max_age_seconds))) h
                  else (None, h));
               (context, h2) = malloc (ExtensionB (FaviconE \<lparr>m_favicon_path = path, m_cache_control_header = cache_control\<rparr>)) h1;
               (route_path, h3) = malloc (StringB ''/favicon.ico'') h2
           in malloc (RouteB (new_route\<lparr>m_route_release := Some Favicon_release, m_is_get := True, m_route_path := route_path,
                                        m_extension := context\<rparr>)) h3)"

definition hs_routes_security_headers_response_headers_new_mem ::
  "('v, 'sb, 'dt, 'fn) heap \<Rightarrow> ptr \<times> ('v, 'sb, 'dt, 'fn) heap" where
  "hs_routes_security_headers_response_headers_new_mem =
     malloc (ExtensionB (HeadersE
       \<lparr>m_x_frame_options = HS_X_FRAME_OPTIONS_RESPONSE_HEADER_DENY,
        m_x_content_type_options = HS_X_CONTENT_TYPE_OPTIONS_RESPONSE_HEADER_NOSNIFF,
        m_referrer_policy = HS_REFERRER_POLICY_RESPONSE_HEADER_SAME_ORIGIN,
        m_content_security_policy = None, m_permissions_policy = None\<rparr>))"

definition hs_routes_security_headers_route_new_mem ::
  "ptr \<Rightarrow> ('v, 'sb, 'dt, 'fn) heap \<Rightarrow> ptr \<times> ('v, 'sb, 'dt, 'fn) heap" where
  "hs_routes_security_headers_route_new_mem headers h =
     (let (extension, h1) = (if headers = None then hs_routes_security_headers_response_headers_new_mem h else (headers, h))
      in malloc (RouteB (serve_all_route\<lparr>m_route_release := Some Security_headers_release, m_extension := extension\<rparr>)) h1)"

definition hs_routes_security_basic_auth_route_new_mem ::
  "ptr \<Rightarrow> bool \<Rightarrow> ptr \<Rightarrow> ('v, 'sb, 'dt, 'fn) heap \<Rightarrow> ptr \<times> ('v, 'sb, 'dt, 'fn) heap" where
  \<comment> \<open>\<open>has_auth\<close>: the pointer to the authentication function is not NULL\<close>
  "hs_routes_security_basic_auth_route_new_mem realm has_auth auth_ctx h =
     (if realm = None \<or> \<not> has_auth then (None, h)
      else let (context, h1) = malloc (ExtensionB (BasicAuthE \<lparr>m_realm = realm, m_auth_context = auth_ctx\<rparr>)) h
           in malloc (RouteB (serve_all_route\<lparr>m_extension := context, m_route_release := Some Basic_auth_release\<rparr>)) h1)"

definition hs_routes_fs_file_route_new_with_options_mem ::
  "ptr \<Rightarrow> bool \<Rightarrow> ('v, 'sb, 'dt, 'fn) heap \<Rightarrow> ptr \<times> ('v, 'sb, 'dt, 'fn) heap" where
  "hs_routes_fs_file_route_new_with_options_mem base close h =
     (let (context, h1) = malloc (ExtensionB (FileServeE \<lparr>m_file_base_directory = base, m_file_close_connection = close\<rparr>)) h
      in malloc (RouteB (new_route\<lparr>m_is_get := True, m_extension := context, m_route_release := Some File_release\<rparr>)) h1)"

definition hs_routes_fs_directory_route_new_with_options_mem ::
  "ptr \<Rightarrow> ptr \<Rightarrow> ptr \<Rightarrow> ('v, 'sb, 'dt, 'fn) heap \<Rightarrow> ptr \<times> ('v, 'sb, 'dt, 'fn) heap" where
  "hs_routes_fs_directory_route_new_with_options_mem base head ctx h =
     (let (route_context, h1) = malloc (ExtensionB (DirectoryServeE
            \<lparr>m_dir_base_directory = base, m_additional_head_content = head, m_dir_context = ctx\<rparr>)) h
      in malloc (RouteB (new_route\<lparr>m_is_get := True, m_extension := route_context, m_route_release := Some Directory_release\<rparr>)) h1)"

definition hs_routes_session_route_new_mem ::
  "ptr \<Rightarrow> ptr \<Rightarrow> bool \<Rightarrow> 'fn option \<Rightarrow> ptr \<Rightarrow> ('v, 'sb, 'dt, 'fn) heap \<Rightarrow> ptr \<times> ('v, 'sb, 'dt, 'fn) heap" where
  \<comment> \<open>\<open>has_functions\<close>: none of the functions that must be there is NULL\<close>
  "hs_routes_session_route_new_mem cname sname has_functions release_ctx ctx h =
     (if cname = None \<or> sname = None \<or> \<not> has_functions then (None, h)
      else let (context, h1) = malloc (ExtensionB (SessionRouteE \<lparr>m_cookie_name = cname, m_session_name = sname,
                 m_release_context = release_ctx, m_user_context = ctx\<rparr>)) h
           in malloc (RouteB (serve_all_route\<lparr>m_extension := context, m_route_release := Some Session_release\<rparr>)) h1)"

definition hs_routes_session_route_new_default_mem ::
  "('v, 'sb, 'dt, 'fn) heap \<Rightarrow> ptr \<times> ('v, 'sb, 'dt, 'fn) heap" where
  "hs_routes_session_route_new_default_mem h =
     (let (cname, h1) = malloc (StringB HS_DEFAULT_SESSION_COOKIE_NAME) h;
          (sname, h2) = malloc (StringB HS_DEFAULT_SESSION_STATE_NAME) h1
      in hs_routes_session_route_new_mem cname sname True None None h2)"

definition hs_router_new_mem ::
  "('v, 'sb, 'dt, 'fn) mem_lib \<Rightarrow> ('v, 'sb, 'dt, 'fn) heap \<Rightarrow> ptr \<times> ('v, 'sb, 'dt, 'fn) heap" where
  "hs_router_new_mem M h =
     (let (routes, h1) = m_vector_new M h in malloc (RouterB \<lparr>m_routes = routes, m_support_keep_alive = True\<rparr>) h1)"

definition hs_router_add_route_mem ::
  "('v, 'sb, 'dt, 'fn) mem_lib \<Rightarrow> ptr \<Rightarrow> ptr \<Rightarrow> ('v, 'sb, 'dt, 'fn) heap \<Rightarrow> ('v, 'sb, 'dt, 'fn) heap run" where
  "hs_router_add_route_mem M router route h =
     (case route of
        None \<Rightarrow> ret h
      | Some r \<Rightarrow> bindR (load as_router router h)
                  (\<lambda>rtr. bindR (load as_vector (m_routes rtr) h)
                     (\<lambda>v. store (m_routes rtr) (VectorB (vector_push (vectors M) v r)) h)))"

definition hs_router_as_route_mem ::
  "ptr \<Rightarrow> ('v, 'sb, 'dt, 'fn) heap \<Rightarrow> ptr \<times> ('v, 'sb, 'dt, 'fn) heap" where
  "hs_router_as_route_mem router h =
     (if router = None then (None, h)
      else malloc (RouteB (serve_all_route\<lparr>m_extension := router, m_route_release := Some Router_release\<rparr>)) h)"

section \<open>A constructor hands over what it gets and what it allocates\<close>

lemma route_creates:
  assumes "users_ok M U" and "framed R" and "accounts h F h1 F1"
    and "own_extension U R h1 r = Some G" and "own_string h1 (m_route_path r) = Some H" and "set F1 = set (G @ H)" and "distinct (G @ H)"
  shows "creates (own_route U R) h F (malloc (RouteB r) h1)"
  unfolding own_route_def
proof (rule creates_struct)
  show "accounts h F h1 (G @ H)" by (rule accounts_set [OF assms(3) refl]) (use assms(6,7) in auto)
  show "join (map (\<lambda>own. own h1 r) [own_extension U R, \<lambda>h r. own_string h (m_route_path r)]) = Some (G @ H)"
    using assms(4,5) by simp
  show "list_all framed [own_extension U R, \<lambda>h r. own_string h (m_route_path r)]"
    by (simp add: framed_extension [OF assms(1,2)] framed_field [OF str.framed_axioms])
qed simp

lemma plain_route_creates:
  \<comment> \<open>a route without release function\<close>
  assumes "users_ok M U" and "framed R" and "heap_ok h" and "m_route_release r = None" and "m_route_path r = None"
  shows "creates (own_route U R) h [] (malloc (RouteB r) h)"
  by (rule route_creates [OF assms(1,2) accounts_none [OF assms(3)], where G = "[]" and H = "[]"]) (simp_all add: own_extension_def assms(4,5))

lemma extended_route_creates:
  \<comment> \<open>an extension with its route\<close>
  assumes "users_ok M U" and "framed R" and "accounts h F h1 F1" and "as e = Some s"
    and "join (map (\<lambda>own. own h1 s) os) = Some G" and "list_all framed os"
    and "\<And>h p. p \<noteq> None \<Longrightarrow> own_released U R f h p = own_struct as os h p"
    and "m_route_release r = Some f" and "own_string h1 (m_route_path r) = Some H" and "set F1 = set (G @ H)" and "distinct (G @ H)"
    and "m_extension r = Some (next_addr h1)"
  shows "creates (own_route U R) h F (malloc (RouteB r) (snd (malloc e h1)))"
proof -
  let ?h2 = "snd (malloc e h1)"
  have acc: "accounts h F h1 (G @ H)" by (rule accounts_set [OF assms(3) refl]) (use assms(10,11) in auto)
  note fresh = accounts_malloc_next [OF acc]
  have "join (map (\<lambda>own. own ?h2 s) os) = Some G"
  proof (rule join_map_cong [OF assms(5)])
    fix own G' assume own: "own \<in> set os" "own h1 s = Some G'" "set G' \<subseteq> set G"
    then have "framed own" using assms(6) by (simp add: list_all_iff)
    then show "own ?h2 s = Some G'" using own(2) by (rule framed.frame) (use own(3) fresh(2) in auto)
  qed
  with assms(4) have "own_struct as os ?h2 (Some (next_addr h1)) = Some (G @ [next_addr h1])"
    by (intro own_structI) simp_all
  with assms(7,8,12) have ext: "own_extension U R ?h2 r = Some (G @ [next_addr h1])" by (simp add: own_extension_def)
  have path: "own_string ?h2 (m_route_path r) = Some H" by (rule fresh(3) [OF str.framed_axioms assms(9)])
  show ?thesis
    by (rule route_creates [OF assms(1,2) fresh(1) ext path]) (use assms(11) fresh(2) in auto)
qed

lemma strings_framed: "list_all framed [\<lambda>h s. own_string h (f s)]" "list_all framed [\<lambda>h s. own_string h (f s), \<lambda>h s. own_string h (g s)]"
  by (simp_all add: framed_field [OF str.framed_axioms])

lemma owned_account:
  assumes "framed own" and "own h p = Some F" and "heap_ok h" and "distinct F"
  shows "accounts h F h F"
  by (rule accounts_refl [OF assms(3,4)]) (use framed.live [OF assms(1,2)] in blast)

lemma owned_string_account:
  assumes "own_string h p = Some F" and "heap_ok h"
  shows "accounts h F h F"
proof (rule owned_account [OF str.framed_axioms assms])
  show "distinct F" using assms(1) by (cases p) (auto simp: own_string_def own_struct_def split: option.splits)
qed

lemma single_string_creates:
  \<comment> \<open>an extension that owns one string\<close>
  assumes "users_ok M U" and "framed R" and "heap_ok h" and "own_string h p = Some F"
    and "as e = Some s" and "f s = p" and "\<And>h p. p \<noteq> None \<Longrightarrow> own_released U R g h p = own_struct as [\<lambda>h s. own_string h (f s)] h p"
    and "m_route_release r = Some g" and "m_route_path r = None" and "m_extension r = Some (next_addr h)"
  shows "creates (own_route U R) h F (malloc (RouteB r) (snd (malloc e h)))"
proof -
  note acc = owned_string_account [OF assms(4,3)]
  show ?thesis
    by (rule extended_route_creates [where os = "[\<lambda>h s. own_string h (f s)]" and G = F and H = "[]", OF assms(1,2) acc assms(5) _ strings_framed(1) assms(7)])
      (use assms(4,6,8-10) accountsD(3) [OF acc] in simp_all)
qed

lemma own_released_simps:
  "own_released U R Static_release = own_struct as_static [\<lambda>h context. own_string h (m_static_content context)]"
  "own_released U R Redirection_release = own_struct as_redirection [\<lambda>h context. own_string h (m_to_path context)]"
  "own_released U R Basic_auth_release = own_struct as_basic_auth [\<lambda>h context. own_string h (m_realm context)]"
  "own_released U R File_release = own_struct as_file_serve [\<lambda>h context. own_string h (m_file_base_directory context)]"
  "own_released U R Directory_release = own_struct as_directory_serve
     [\<lambda>h context. own_string h (m_dir_base_directory context), \<lambda>h context. own_string h (m_additional_head_content context)]"
  "own_released U R Security_headers_release = own_struct as_headers
     [\<lambda>h headers. own_string h (m_content_security_policy headers), \<lambda>h headers. own_string h (m_permissions_policy headers)]"
  "own_released U R Session_release = own_session_route U"
  "own_released U R Common_extension_release = own_struct as_number []"
  "own_released U R Payload_limit_release = own_struct as_number []"
  "own_released U R Favicon_release = own_favicon"
  "own_released U R Router_release = R"
  by (simp_all add: own_released_def own_static_def own_redirection_def own_basic_auth_def own_file_serve_def own_directory_serve_def
      own_headers_def own_number_def)

lemma static_creates:
  assumes "users_ok M U" and "framed R" and "heap_ok h" and "own_string h content = Some F" and "content \<noteq> None"
  shows "creates (own_route U R) h F (hs_routes_static_route_new_mem content mime_type h)"
  unfolding hs_routes_static_route_new_mem_def Let_def split_def malloc_simps(1) if_not_P [OF assms(5)]
  by (rule single_string_creates [where f = m_static_content, OF assms(1-4)], rule as_route_simps)
    (simp_all add: own_released_simps new_route_def)

lemma basic_auth_creates:
  assumes "users_ok M U" and "framed R" and "heap_ok h" and "own_string h realm = Some F" and "realm \<noteq> None"
  shows "creates (own_route U R) h F (hs_routes_security_basic_auth_route_new_mem realm True ctx h)"
proof -
  have "\<not> (realm = None \<or> \<not> True)" using assms(5) by simp
  then show ?thesis
    unfolding hs_routes_security_basic_auth_route_new_mem_def Let_def split_def malloc_simps(1)
    by (simp only: if_False)
      (rule single_string_creates [where f = m_realm, OF assms(1-4)], rule as_route_simps,
        simp_all add: own_released_simps serve_all_route_def set_all_methods_mem_def new_route_def)
qed

lemma file_creates:
  assumes "users_ok M U" and "framed R" and "heap_ok h" and "own_string h base = Some F"
  shows "creates (own_route U R) h F (hs_routes_fs_file_route_new_with_options_mem base close h)"
  unfolding hs_routes_fs_file_route_new_with_options_mem_def Let_def split_def malloc_simps(1)
  by (rule single_string_creates [where f = m_file_base_directory, OF assms(1-4)], rule as_route_simps)
    (simp_all add: own_released_simps new_route_def)

lemma number_creates:
  assumes "users_ok M U" and "framed R" and "heap_ok h" and "f = Common_extension_release \<or> f = Payload_limit_release"
    and "m_route_release r = Some f" and "m_route_path r = None" and "m_extension r = Some (next_addr h)"
  shows "creates (own_route U R) h [] (malloc (RouteB r) (snd (malloc (ExtensionB (NumberE n)) h)))"
  by (rule extended_route_creates [where os = "[]" and G = "[]" and H = "[]" and f = f, OF assms(1,2) accounts_none [OF assms(3)]],
      rule as_route_simps)
    (use assms(4-) in \<open>auto simp: own_released_simps\<close>)

lemma two_strings_account:
  assumes "heap_ok h" and "own_string h p = Some F" and "own_string h q = Some G" and "distinct (F @ G)"
  shows "accounts h (F @ G) h (F @ G)"
  by (rule accounts_refl [OF assms(1,4)]) (use str.live [OF assms(2)] str.live [OF assms(3)] in auto)

lemma redirection_creates:
  assumes "users_ok M U" and "framed R" and "heap_ok h" and "own_string h from_path = Some F" and "own_string h target = Some G"
    and "from_path \<noteq> None" and "target \<noteq> None" and "distinct (F @ G)"
  shows "creates (own_route U R) h (F @ G) (hs_routes_redirection_route_new_with_options_mem from_path target temporary h)"
proof -
  have given: "\<not> (from_path = None \<or> target = None)" using assms(6,7) by simp
  show ?thesis
    unfolding hs_routes_redirection_route_new_with_options_mem_def Let_def split_def malloc_simps(1) if_not_P [OF given]
    by (rule extended_route_creates [where os = "[\<lambda>h context. own_string h (m_to_path context)]" and G = G and H = F
          and f = Redirection_release, OF assms(1,2) two_strings_account [OF assms(3-5,8)]], rule as_route_simps)
      (use assms(4,5,8) in \<open>auto simp: own_released_simps new_route_def framed_field [OF str.framed_axioms]\<close>)
qed

lemma directory_creates:
  assumes "users_ok M U" and "framed R" and "heap_ok h" and "own_string h base = Some F" and "own_string h head = Some G"
    and "distinct (F @ G)"
  shows "creates (own_route U R) h (F @ G) (hs_routes_fs_directory_route_new_with_options_mem base head ctx h)"
  unfolding hs_routes_fs_directory_route_new_with_options_mem_def Let_def split_def malloc_simps(1)
  by (rule extended_route_creates [where G = "F @ G" and H = "[]" and f = Directory_release
        and os = "[\<lambda>h context. own_string h (m_dir_base_directory context), \<lambda>h context. own_string h (m_additional_head_content context)]",
        OF assms(1,2) two_strings_account [OF assms(3-6)]], rule as_route_simps)
    (use assms(4-6) in \<open>auto simp: own_released_simps new_route_def framed_field [OF str.framed_axioms]\<close>)

lemma headers_creates:
  assumes "users_ok M U" and "framed R" and "heap_ok h"
  shows "creates (own_route U R) h [] (hs_routes_security_headers_route_new_mem None h)"
  unfolding hs_routes_security_headers_route_new_mem_def hs_routes_security_headers_response_headers_new_mem_def Let_def split_def
    if_P [OF refl] malloc_simps(1)
  by (rule extended_route_creates [where G = "[]" and H = "[]" and f = Security_headers_release
        and os = "[\<lambda>h headers. own_string h (m_content_security_policy headers), \<lambda>h headers. own_string h (m_permissions_policy headers)]",
        OF assms(1,2) accounts_none [OF assms(3)]], rule as_route_simps)
    (auto simp: own_released_simps serve_all_route_def set_all_methods_mem_def new_route_def framed_field [OF str.framed_axioms])

lemma new_string:
  assumes "accounts h F0 h1 F"
  shows "own_string (snd (malloc (StringB s) h1)) (Some (next_addr h1)) = Some [next_addr h1]"
    and "accounts h F0 (snd (malloc (StringB s) h1)) (F @ [next_addr h1])"
  using accounts_malloc_next(1) [OF assms] by (simp_all add: own_string_def own_struct_def)

lemma session_creates:
  assumes "users_ok M U" and "framed R" and "heap_ok h" and "own_string h (Some p) = Some F" and "own_string h (Some q) = Some G"
    and "distinct (F @ G)"
  shows "creates (own_route U R) h (F @ G) (hs_routes_session_route_new_mem (Some p) (Some q) True None ctx h)"
proof -
  have given: "\<not> (Some p = None \<or> Some q = None \<or> \<not> True)" by simp
  show ?thesis
    unfolding hs_routes_session_route_new_mem_def Let_def split_def malloc_simps(1) if_not_P [OF given]
    by (rule extended_route_creates [where f = Session_release and H = "[]" and G = "F @ G" and
          os = "[own_user_context U, \<lambda>h context. own_string h (m_cookie_name context), \<lambda>h context. own_string h (m_session_name context)]",
          OF assms(1,2) two_strings_account [OF assms(3-6)]], rule as_route_simps)
      (use assms(4-6) in \<open>simp_all add: own_released_simps own_session_route_def serve_all_route_def set_all_methods_mem_def
        new_route_def own_user_context_def framed_field [OF str.framed_axioms] owner.axioms(1) [OF owner_user_context [OF assms(1)]]\<close>)
qed

lemma favicon_creates:
  assumes "users_ok M U" and "framed R" and "heap_ok h" and "own_string h path = Some F" and "path \<noteq> None"
  shows "creates (own_route U R) h F (hs_routes_favicon_route_new_mem L path max_age_seconds h)"
proof -
  let ?text = "stringbuffer_to_string L (stringbuffer_append_int L (stringbuffer_append_string L (stringbuffer_new L) ''public, max-age='') max_age_seconds)"
  obtain cache h1 where cache: "(if 0 < max_age_seconds then malloc (StringB ?text) h else (None, h)) = (cache, h1)" by fastforce
  obtain G where G: "own_string h1 cache = Some G" "own_string h1 path = Some F" "accounts h F h1 (F @ G)"
  proof (cases "0 < max_age_seconds")
    case True
    note acc = owned_string_account [OF assms(4,3)]
    show ?thesis
      by (rule that [of "[next_addr h]"])
        (use cache True new_string [OF acc, of ?text] accounts_malloc_next(3) [OF acc str.framed_axioms assms(4), of "StringB ?text"] in \<open>auto simp: prod_eq_iff\<close>)
  next
    case False
    show ?thesis by (rule that [of "[]"]) (use cache False assms(4) owned_string_account [OF assms(4,3)] in auto)
  qed
  let ?e = "ExtensionB (FaviconE \<lparr>m_favicon_path = path, m_cache_control_header = cache\<rparr>)"
  let ?h2 = "snd (malloc ?e h1)" and ?os = "[\<lambda>h context. own_string h (m_favicon_path context), \<lambda>h context. own_string h (m_cache_control_header context)]"
  let ?h3 = "snd (malloc (StringB ''/favicon.ico'') ?h2)"
  note a2 = accounts_malloc_next(1) [OF G(3), of ?e] and keep = accounts_malloc_next(3) [OF G(3), where b = ?e]
  note s3 = new_string [OF a2, of "''/favicon.ico''"]
  have "join (map (\<lambda>own. own ?h2 \<lparr>m_favicon_path = path, m_cache_control_header = cache\<rparr>) ?os) = Some (F @ G)"
    using keep [OF str.framed_axioms G(1)] keep [OF str.framed_axioms G(2)] by (simp del: malloc_simps(3))
  then have "own_struct as_favicon ?os ?h2 (Some (next_addr h1)) = Some ((F @ G) @ [next_addr h1])"
    by (intro own_structI [where s = "\<lparr>m_favicon_path = path, m_cache_control_header = cache\<rparr>"]) simp_all
  then have "own_favicon ?h2 (Some (next_addr h1)) = Some ((F @ G) @ [next_addr h1])" by (simp add: own_favicon_def)
  then have fav: "own_favicon ?h3 (Some (next_addr h1)) = Some ((F @ G) @ [next_addr h1])"
    by (rule accounts_malloc_next(3) [OF a2 framed_favicon])
  show ?thesis
    unfolding hs_routes_favicon_route_new_mem_def cache Let_def split_def fst_conv snd_conv malloc_simps(1) if_not_P [OF assms(5)]
    by (rule route_creates [OF assms(1,2) s3(2), where G = "(F @ G) @ [next_addr h1]" and H = "[next_addr ?h2]"])
      (use fav s3(1) accountsD(3) [OF s3(2)] in \<open>simp_all del: malloc_simps(3) add: own_extension_def own_released_simps\<close>)
qed

section \<open>Routers\<close>

lemma own_router_Suc:
  "own_router V U (Suc n) h (Some p) = Some F \<longleftrightarrow>
    (\<exists>r Fv. cells h p = Some (RouterB r) \<and> own_elements V (own_route U (own_router V U n)) h (m_routes r) = Some Fv \<and> F = Fv @ [p])"
  by (auto simp: own_struct_def Option.bind_eq_Some_conv split: option.splits)

lemma framed_router:
  assumes "mem_ok M C" and "users_ok M U"
  shows "framed (own_router (vectors M) U n)"
  by (rule owner.axioms(1) [OF owner_router [OF assms]])

lemma router_new_creates:
  assumes "mem_ok M C" and "users_ok M U" and "heap_ok h"
  shows "creates (own_router (vectors M) U (Suc n)) h [] (hs_router_new_mem M h)"
  unfolding own_router.simps(2) hs_router_new_mem_def Let_def split_def
  using new_vector(1) [OF assms(1,3), of "own_route U (own_router (vectors M) U n)"]
  by (intro creates_struct [OF new_vector(2) [OF assms(1,3)]], simp)
    (simp_all add: framed_field [OF framed_elements [OF framed_route [OF assms(2) framed_router [OF assms(1,2)]]]])

lemma router_as_route_creates:
  assumes "users_ok M U" and "framed R" and "heap_ok h" and "R h (Some p) = Some F" and "distinct F"
  shows "creates (own_route U R) h F (hs_router_as_route_mem (Some p) h)"
proof -
  have given: "Some p \<noteq> None" by simp
  show ?thesis
    unfolding hs_router_as_route_mem_def if_not_P [OF given]
    by (rule route_creates [OF assms(1,2) owned_account [OF assms(2,4,3,5)], where G = F and H = "[]"])
      (use assms(4,5) in \<open>simp_all add: own_extension_def own_released_simps serve_all_route_def set_all_methods_mem_def new_route_def\<close>)
qed

lemma add_route_spec:
  assumes "mem_ok M C" and "users_ok M U" and "accounts h0 F0 h (F @ G)"
    and "own_router (vectors M) U (Suc n) h (Some p) = Some F" and "own_route U (own_router (vectors M) U n) h (Some e) = Some G"
  shows "\<exists>h' F'. hs_router_add_route_mem M (Some p) (Some e) h = ret h'
    \<and> own_router (vectors M) U (Suc n) h' (Some p) = Some F' \<and> accounts h0 F0 h' F'"
proof -
  let ?V = "vectors M" and ?own = "own_route U (own_router (vectors M) U n)"
  note fr = framed_route [OF assms(2) framed_router [OF assms(1,2), of n]]
  from assms(4) obtain r Fv where r: "cells h p = Some (RouterB r)" "own_elements ?V ?own h (m_routes r) = Some Fv" "F = Fv @ [p]"
    by (auto simp only: own_router_Suc)
  then obtain a v Fe where a: "m_routes r = Some a" "cells h a = Some (VectorB v)" "Fv = Fe @ [a]" by (auto simp: own_elements_Some)
  have d: "distinct (Fv @ G)" "p \<notin> set (Fv @ G)" using accountsD(3) [OF assms(3)] r(3) by auto
  let ?h = "h\<lparr>cells := (cells h)(a \<mapsto> VectorB (vector_push ?V v e))\<rparr>"
  have el: "own_elements ?V ?own h (Some a) = Some Fv" using r(2) a(1) by simp
  note push = push_at_own [OF mem_ok_parts(1) [OF assms(1)] fr el assms(5) d(1) a(2)]
  from push(2) obtain Fv' where Fv': "own_elements ?V ?own ?h (Some a) = Some Fv'" "distinct Fv'" "set Fv' = set Fv \<union> set G" by blast
  have "a \<noteq> p" using d(2) a(3) by auto
  then have own: "own_router ?V U (Suc n) ?h (Some p) = Some (Fv' @ [p])"
    unfolding own_router_Suc using r(1) a(1) Fv'(1) by simp
  have "accounts h0 F0 ?h (F @ G)" by (rule accounts_store [OF assms(3)]) (simp add: r(3) a(3))
  then have "accounts h0 F0 ?h (Fv' @ [p])" by (rule accounts_set) (use Fv'(2,3) d r(3) in auto)
  moreover have "hs_router_add_route_mem M (Some p) (Some e) h = ret ?h"
    using r(1) a(1) push(1) by (simp add: hs_router_add_route_mem_def push_at_def)
  ultimately show ?thesis using own by blast
qed


section \<open>Sites\<close>

text \<open>
  The trees of routes a program builds with the functions above. A route is given its path as in
  \<open>src/examples/example.c\<close>, by \<open>route->path = strdup(...)\<close> (the redirection and the icon set
  their path themselves); a branch is a router that is added to another one as a route. Security
  headers can be given, with strings of their own, and a session route can have names of its own and
  a context that the library passes on; a release function of the user for that context is not among
  the leaves.
\<close>

record headers_given =
  \<comment> \<open>what a program puts into the headers it passes\<close>
  given_frame_options :: HSXFrameOptionsReponseHeader
  given_content_type_options :: HSXContentTypeOptionsResponseHeader
  given_referrer_policy :: HSReferrerPolicyResponseHeader
  given_content_security_policy :: "string option"
  given_permissions_policy :: "string option"

datatype leaf =
    Plain_route | Serve_all | Not_found | Length_required | Powered_by ptr | Payload_limit size_t | Rate_limit size_t
  | Static string HSMimeType | Security_headers | Basic_auth string ptr | File_serve string bool | Directory_serve string ptr
  | Directory_with_head string string ptr
  | Session_default | Security_given headers_given | Session_named string string ptr

datatype site =
    Leaf "string option" leaf
  | Redirection string string bool
  | Favicon string int
  | Branch "string option" "site list"

definition new_text :: "string option \<Rightarrow> ('v, 'sb, 'dt, 'fn) heap \<Rightarrow> ptr \<times> ('v, 'sb, 'dt, 'fn) heap" where
  \<comment> \<open>a copied string, or NULL\<close>
  "new_text text h = (case text of None \<Rightarrow> (None, h) | Some s \<Rightarrow> malloc (StringB s) h)"

definition headers_given_mem :: "headers_given \<Rightarrow> ('v, 'sb, 'dt, 'fn) heap \<Rightarrow> ptr \<times> ('v, 'sb, 'dt, 'fn) heap" where
  \<comment> \<open>a program that fills in the struct of \<open>hs_routes_security_headers_response_headers_new\<close>\<close>
  "headers_given_mem g h =
     (let (csp, h1) = new_text (given_content_security_policy g) h; (permissions, h2) = new_text (given_permissions_policy g) h1
      in malloc (ExtensionB (HeadersE
           \<lparr>m_x_frame_options = given_frame_options g, m_x_content_type_options = given_content_type_options g,
            m_referrer_policy = given_referrer_policy g, m_content_security_policy = csp, m_permissions_policy = permissions\<rparr>)) h2)"

definition leaf_new :: "leaf \<Rightarrow> ('v, 'sb, 'dt, 'fn) heap \<Rightarrow> ptr \<times> ('v, 'sb, 'dt, 'fn) heap" where
  "leaf_new l h =
     (case l of
        Plain_route \<Rightarrow> hs_route_new_mem h
      | Serve_all \<Rightarrow> hs_routes_common_serve_all_route_new_mem h
      | Not_found \<Rightarrow> hs_routes_error_404_not_found_route_new_mem h
      | Length_required \<Rightarrow> hs_routes_error_411_length_required_route_new_mem h
      | Powered_by given \<Rightarrow> hs_routes_powered_by_route_new_mem given h
      | Payload_limit n \<Rightarrow> hs_routes_payload_limit_route_new_mem n h
      | Rate_limit n \<Rightarrow> hs_routes_ratelimit_base_route_new_mem n h
      | Static content mime_type \<Rightarrow>
          (let (p, h1) = malloc (StringB content) h in hs_routes_static_route_new_mem p mime_type h1)
      | Security_headers \<Rightarrow> hs_routes_security_headers_route_new_mem None h
      | Basic_auth realm ctx \<Rightarrow>
          (let (p, h1) = malloc (StringB realm) h in hs_routes_security_basic_auth_route_new_mem p True ctx h1)
      | File_serve base close \<Rightarrow>
          (let (p, h1) = malloc (StringB base) h in hs_routes_fs_file_route_new_with_options_mem p close h1)
      | Directory_serve base ctx \<Rightarrow>
          (let (p, h1) = malloc (StringB base) h in hs_routes_fs_directory_route_new_with_options_mem p None ctx h1)
      | Directory_with_head base head ctx \<Rightarrow>
          (let (p, h1) = malloc (StringB base) h; (q, h2) = malloc (StringB head) h1
           in hs_routes_fs_directory_route_new_with_options_mem p q ctx h2)
      | Session_default \<Rightarrow> hs_routes_session_route_new_default_mem h
      | Security_given g \<Rightarrow>
          (let (headers, h1) = headers_given_mem g h in hs_routes_security_headers_route_new_mem headers h1)
      | Session_named cname sname ctx \<Rightarrow>
          (let (p, h1) = malloc (StringB cname) h; (q, h2) = malloc (StringB sname) h1
           in hs_routes_session_route_new_mem p q True None ctx h2))"

definition set_path :: "string option \<Rightarrow> ptr \<Rightarrow> ('v, 'sb, 'dt, 'fn) heap \<Rightarrow> ('v, 'sb, 'dt, 'fn) heap run" where
  "set_path path route h =
     (case path of
        None \<Rightarrow> ret h
      | Some s \<Rightarrow> let (p, h1) = malloc (StringB s) h
                  in bindR (load as_route route h1) (\<lambda>r. store route (RouteB (r\<lparr>m_route_path := p\<rparr>)) h1))"

primrec build ::
    "('sb, 'pv, 'cv, 'dt2, 'sh) libs \<Rightarrow> ('v, 'sb2, 'dt, 'fn) mem_lib \<Rightarrow> site \<Rightarrow> ('v, 'sb2, 'dt, 'fn) heap
      \<Rightarrow> (ptr \<times> ('v, 'sb2, 'dt, 'fn) heap) run"
  and add_sites ::
    "('sb, 'pv, 'cv, 'dt2, 'sh) libs \<Rightarrow> ('v, 'sb2, 'dt, 'fn) mem_lib \<Rightarrow> site list \<Rightarrow> ptr \<Rightarrow> ('v, 'sb2, 'dt, 'fn) heap
      \<Rightarrow> ('v, 'sb2, 'dt, 'fn) heap run" where
  "build L M (Leaf path l) h = (let (route, h1) = leaf_new l h in bindR (set_path path route h1) (\<lambda>h2. ret (route, h2)))"
| "build L M (Redirection from_path target temporary) h =
     (let (p, h1) = malloc (StringB from_path) h; (q, h2) = malloc (StringB target) h1
      in ret (hs_routes_redirection_route_new_with_options_mem p q temporary h2))"
| "build L M (Favicon path max_age_seconds) h =
     (let (p, h1) = malloc (StringB path) h in ret (hs_routes_favicon_route_new_mem L p max_age_seconds h1))"
| "build L M (Branch path sites) h =
     (let (router, h1) = hs_router_new_mem M h
      in bindR (add_sites L M sites router h1)
           (\<lambda>h2. let (route, h3) = hs_router_as_route_mem router h2
                 in bindR (set_path path route h3) (\<lambda>h4. ret (route, h4))))"
| "add_sites L M [] router h = ret h"
| "add_sites L M (s # sites) router h =
     bindR (build L M s h)
       (\<lambda>(route, h1). bindR (hs_router_add_route_mem M router route h1) (add_sites L M sites router))"

definition build_router ::
  "('sb, 'pv, 'cv, 'dt2, 'sh) libs \<Rightarrow> ('v, 'sb2, 'dt, 'fn) mem_lib \<Rightarrow> site list \<Rightarrow> ('v, 'sb2, 'dt, 'fn) heap
    \<Rightarrow> (ptr \<times> ('v, 'sb2, 'dt, 'fn) heap) run" where
  "build_router L M sites h =
     (let (router, h1) = hs_router_new_mem M h in bindR (add_sites L M sites router h1) (\<lambda>h2. ret (router, h2)))"

definition unpathed :: "ptr \<times> ('v, 'sb, 'dt, 'fn) heap \<Rightarrow> bool" where
  \<comment> \<open>a route without path\<close>
  "unpathed x \<longleftrightarrow> (\<exists>a r. fst x = Some a \<and> cells (snd x) a = Some (RouteB r) \<and> m_route_path r = None)"

lemma unpathed_malloc: "m_route_path r = None \<Longrightarrow> unpathed (malloc (RouteB r) h)"
  by (simp add: unpathed_def)

lemma leaf_unpathed: "unpathed (leaf_new l h)"
  by (cases l)
    (simp_all add: leaf_new_def Let_def split_def unpathed_malloc hs_route_new_mem_def new_route_def serve_all_route_def set_all_methods_mem_def
      hs_routes_common_serve_all_route_new_mem_def hs_routes_error_404_not_found_route_new_mem_def
      hs_routes_error_411_length_required_route_new_mem_def hs_routes_powered_by_route_new_mem_def
      hs_routes_payload_limit_route_new_mem_def hs_routes_ratelimit_base_route_new_mem_def hs_routes_static_route_new_mem_def
      hs_routes_security_headers_route_new_mem_def hs_routes_security_headers_response_headers_new_mem_def
      hs_routes_security_basic_auth_route_new_mem_def hs_routes_fs_file_route_new_with_options_mem_def
      hs_routes_fs_directory_route_new_with_options_mem_def hs_routes_session_route_new_default_mem_def
      hs_routes_session_route_new_mem_def headers_given_mem_def del: malloc_simps(2,3))

lemma as_route_unpathed: "unpathed (hs_router_as_route_mem (Some p) h)"
  by (simp add: hs_router_as_route_mem_def unpathed_malloc new_route_def serve_all_route_def set_all_methods_mem_def del: malloc_simps)

lemma creates_new_string:
  \<comment> \<open>a copied string that is passed on\<close>
  assumes "heap_ok h"
    and "\<And>h1 F1. heap_ok h1 \<Longrightarrow> own_string h1 (Some (next_addr h)) = Some F1 \<Longrightarrow> creates own h1 F1 (f (Some (next_addr h)) h1)"
  shows "creates own h [] (case malloc (StringB s) h of (p, h1) \<Rightarrow> f p h1)"
proof -
  let ?h1 = "snd (malloc (StringB s) h)"
  note s = new_string [OF accounts_none [OF assms(1)], of s, simplified append_Nil]
  obtain p h2 F where r: "f (Some (next_addr h)) ?h1 = (p, h2)" "own h2 p = Some F" "accounts ?h1 [next_addr h] h2 F"
    by (rule createsE [OF assms(2) [OF accountsD(1) [OF s(2)] s(1)]])
  then show ?thesis using accounts_trans [OF s(2) r(3)] by (simp add: creates_def split_def del: malloc_simps(2,3))
qed

lemma creates_new_strings:
  assumes "heap_ok h"
    and "\<And>h1 p q F G. heap_ok h1 \<Longrightarrow> own_string h1 (Some p) = Some F \<Longrightarrow> own_string h1 (Some q) = Some G \<Longrightarrow> distinct (F @ G) \<Longrightarrow>
      creates own h1 (F @ G) (f (Some p) (Some q) h1)"
  shows "creates own h [] (case malloc (StringB s) h of (p, h1) \<Rightarrow> case malloc (StringB t) h1 of (q, h2) \<Rightarrow> f p q h2)"
proof -
  let ?h1 = "snd (malloc (StringB s) h)"
  let ?h2 = "snd (malloc (StringB t) ?h1)"
  note s = new_string [OF accounts_none [OF assms(1)], of s, simplified append_Nil]
  note t = new_string [OF s(2), of t]
  have s': "own_string ?h2 (Some (next_addr h)) = Some [next_addr h]"
    by (rule accounts_malloc_next(3) [OF s(2) str.framed_axioms s(1)])
  obtain p h3 F where r: "f (Some (next_addr h)) (Some (next_addr ?h1)) ?h2 = (p, h3)" "own h3 p = Some F"
    "accounts ?h2 ([next_addr h] @ [next_addr ?h1]) h3 F"
    by (rule createsE [OF assms(2) [OF accountsD(1) [OF t(2)] s' t(1) accountsD(3) [OF t(2)]]])
  then show ?thesis using accounts_trans [OF t(2) r(3)] by (simp add: creates_def split_def del: malloc_simps(2,3))
qed

lemma new_text_owned:
  assumes "accounts h F0 h1 F"
  obtains G where "own_string (snd (new_text s h1)) (fst (new_text s h1)) = Some G" and "accounts h F0 (snd (new_text s h1)) (F @ G)"
    and "\<And>own (p :: ptr) F1. framed own \<Longrightarrow> own h1 p = Some F1 \<Longrightarrow> own (snd (new_text s h1)) p = Some F1"
proof (cases s)
  case None
  with assms show thesis by (intro that [of "[]"]) (simp_all add: new_text_def)
next
  case (Some t)
  note s = new_string [OF assms, of t] and keep = accounts_malloc_next(3) [OF assms, where b = "StringB t"]
  show thesis
    by (rule that [of "[next_addr h1]"]) (use s keep Some in \<open>simp_all add: new_text_def del: malloc_simps(2,3)\<close>)
qed

lemma headers_given_creates:
  assumes "users_ok M U" and "framed R" and "heap_ok h"
  shows "creates (own_route U R) h [] (case headers_given_mem g h of (headers, h1) \<Rightarrow> hs_routes_security_headers_route_new_mem headers h1)"
proof -
  obtain p h1 where 1: "new_text (given_content_security_policy g) h = (p, h1)" by fastforce
  obtain q h2 where 2: "new_text (given_permissions_policy g) h1 = (q, h2)" by fastforce
  obtain F where F: "own_string h1 p = Some F" "accounts h [] h1 F"
    by (rule new_text_owned [OF accounts_none [OF assms(3)], of "given_content_security_policy g"]) (simp add: 1)
  obtain G where G: "own_string h2 q = Some G" "accounts h [] h2 (F @ G)" "own_string h2 p = Some F"
  proof (rule new_text_owned [OF F(2), of "given_permissions_policy g"])
    fix G
    assume owned: "own_string (snd (new_text (given_permissions_policy g) h1)) (fst (new_text (given_permissions_policy g) h1)) = Some G"
      and account: "accounts h [] (snd (new_text (given_permissions_policy g) h1)) (F @ G)"
      and keep: "\<And>own (p :: ptr) F1. framed own \<Longrightarrow> own h1 p = Some F1 \<Longrightarrow> own (snd (new_text (given_permissions_policy g) h1)) p = Some F1"
    show thesis
      by (rule that [of G]) (use owned account keep [OF str.framed_axioms F(1)] in \<open>simp_all add: 2\<close>)
  qed
  have given: "Some (next_addr h2) \<noteq> None" by simp
  show ?thesis
    unfolding headers_given_mem_def 1 2 Let_def split_def fst_conv snd_conv hs_routes_security_headers_route_new_mem_def
      malloc_simps(1) if_not_P [OF given]
    by (rule extended_route_creates [where G = "F @ G" and H = "[]" and f = Security_headers_release
          and os = "[\<lambda>h headers. own_string h (m_content_security_policy headers), \<lambda>h headers. own_string h (m_permissions_policy headers)]",
          OF assms(1,2) G(2)], rule as_route_simps)
      (use G accountsD(3) [OF G(2)] in \<open>auto simp: own_released_simps serve_all_route_def set_all_methods_mem_def new_route_def
        framed_field [OF str.framed_axioms]\<close>)
qed

lemma leaf_creates:
  assumes "users_ok M U" and "framed R" and "heap_ok h"
  shows "creates (own_route U R) h [] (leaf_new l h)"
proof -
  note plain = plain_route_creates [OF assms] and simps = serve_all_route_def set_all_methods_mem_def new_route_def
  have serve_all: "creates (own_route U R) h [] (hs_routes_common_serve_all_route_new_mem h)"
    unfolding hs_routes_common_serve_all_route_new_mem_def by (rule plain) (simp_all add: simps)
  note number = number_creates [OF assms]
  show ?thesis
  proof (cases l)
    case (Payload_limit n)
    have "creates (own_route U R) h [] (hs_routes_payload_limit_route_new_mem n h)"
    proof (cases "n = 0")
      case False
      then have given: "n \<noteq> 0" .
      show ?thesis
        unfolding hs_routes_payload_limit_route_new_mem_def Let_def split_def malloc_simps(1) if_P [OF given]
        by (rule number) (auto simp: simps)
    qed (simp add: hs_routes_payload_limit_route_new_mem_def serve_all)
    then show ?thesis by (simp add: leaf_new_def Payload_limit)
  next
    case (Rate_limit n)
    have "creates (own_route U R) h [] (hs_routes_ratelimit_base_route_new_mem n h)"
      unfolding hs_routes_ratelimit_base_route_new_mem_def Let_def split_def malloc_simps(1) by (rule number) (auto simp: simps)
    then show ?thesis by (simp add: leaf_new_def Rate_limit)
  next
    case Length_required
    have "creates (own_route U R) h [] (hs_routes_error_411_length_required_route_new_mem h)"
      unfolding hs_routes_error_411_length_required_route_new_mem_def by (rule plain) (simp_all add: simps)
    then show ?thesis by (simp add: leaf_new_def Length_required)
  next
    case (Powered_by given)
    have "creates (own_route U R) h [] (hs_routes_powered_by_route_new_mem given h)"
      unfolding hs_routes_powered_by_route_new_mem_def by (rule plain) (simp_all add: simps)
    then show ?thesis by (simp add: leaf_new_def Powered_by)
  next
    case Plain_route
    have "creates (own_route U R) h [] (hs_route_new_mem h)"
      unfolding hs_route_new_mem_def by (rule plain) (simp_all add: simps)
    then show ?thesis by (simp add: leaf_new_def Plain_route)
  next
    case (Static content mime_type)
    show ?thesis unfolding leaf_new_def Static leaf.case Let_def
      by (rule creates_new_string [OF assms(3)], rule static_creates [OF assms(1,2)]) simp_all
  next
    case (Basic_auth realm ctx)
    show ?thesis unfolding leaf_new_def Basic_auth leaf.case Let_def
      by (rule creates_new_string [OF assms(3)], rule basic_auth_creates [OF assms(1,2)]) simp_all
  next
    case (File_serve base close)
    show ?thesis unfolding leaf_new_def File_serve leaf.case Let_def
      by (rule creates_new_string [OF assms(3)], rule file_creates [OF assms(1,2)]) simp_all
  next
    case (Directory_serve base ctx)
    have "creates (own_route U R) h1 F (hs_routes_fs_directory_route_new_with_options_mem p None ctx h1)"
      if "heap_ok h1" "own_string h1 p = Some F" for h1 p F
      using directory_creates [OF assms(1,2) that own_string_None] accountsD(3) [OF owned_string_account [OF that(2,1)]] by simp
    then show ?thesis unfolding leaf_new_def Directory_serve leaf.case Let_def
      by (rule creates_new_string [OF assms(3)])
  next
    case (Directory_with_head base head ctx)
    show ?thesis unfolding leaf_new_def Directory_with_head leaf.case Let_def
      by (rule creates_new_strings [OF assms(3)], rule directory_creates [OF assms(1,2)])
  next
    case Session_default
    show ?thesis unfolding leaf_new_def Session_default leaf.case hs_routes_session_route_new_default_mem_def Let_def
      by (rule creates_new_strings [OF assms(3)], rule session_creates [OF assms(1,2)])
  next
    case (Session_named cname sname ctx)
    show ?thesis unfolding leaf_new_def Session_named leaf.case Let_def
      by (rule creates_new_strings [OF assms(3)], rule session_creates [OF assms(1,2)])
  next
    case (Security_given g)
    show ?thesis unfolding leaf_new_def Security_given leaf.case Let_def
      by (rule headers_given_creates [OF assms])
  qed (simp_all add: leaf_new_def serve_all hs_routes_error_404_not_found_route_new_mem_def headers_creates [OF assms])
qed

section \<open>Building and releasing\<close>

definition builds ::
  "('v, 'sb, 'dt, 'fn) owns \<Rightarrow> ('v, 'sb, 'dt, 'fn) heap \<Rightarrow> (ptr \<times> ('v, 'sb, 'dt, 'fn) heap) run \<Rightarrow> bool" where
  "builds own h x \<longleftrightarrow> (\<exists>p h' F. x = ret (Some p, h') \<and> own h' (Some p) = Some F \<and> accounts h [] h' F)"

lemma set_path_spec:
  assumes "users_ok M U" and "framed R" and "accounts h [] h1 F" and "own_route U R h1 (Some a) = Some F"
    and "cells h1 a = Some (RouteB r)" and "m_route_path r = None"
  shows "builds (own_route U R) h (bindR (set_path path (Some a) h1) (\<lambda>h2. ret (Some a, h2)))"
proof (cases path)
  case None
  then show ?thesis using assms(3,4) by (simp add: set_path_def builds_def)
next
  case (Some s)
  let ?p = "next_addr h1"
  let ?h2 = "snd (malloc (StringB s) h1)" and ?r = "r\<lparr>m_route_path := Some ?p\<rparr>"
  let ?h3 = "?h2\<lparr>cells := (cells ?h2)(a \<mapsto> RouteB ?r)\<rparr>"
  from assms(4-6) obtain G where G: "own_extension U R h1 r = Some G" "F = G @ [a]"
    by (auto simp: own_route_def own_struct_def Option.bind_eq_Some_conv)
  note acc = new_string(2) [OF assms(3), of s]
  have a: "a \<noteq> ?p" "a \<notin> set G" "?p \<notin> set G" "cells ?h2 a = Some (RouteB r)" "distinct G"
    using accountsD(3) [OF acc] assms(5) G(2) by auto
  have "own_extension U R ?h3 r = Some G"
    by (rule framed.frame [OF framed_extension [OF assms(1,2)] G(1)]) (use a(2,3) in auto)
  then have "own_extension U R ?h3 ?r = Some G" by (simp add: own_extension_def cong: option.case_cong)
  moreover have "own_string ?h3 (Some ?p) = Some [?p]" using a(1) by (simp add: own_string_Some)
  ultimately have "own_route U R ?h3 (Some a) = Some ((G @ [?p]) @ [a])"
    by (simp add: own_route_def own_struct_def)
  moreover have "accounts h [] ?h3 (F @ [?p])" by (rule accounts_store [OF acc]) (simp add: G(2))
  then have "accounts h [] ?h3 ((G @ [?p]) @ [a])" by (rule accounts_set) (use a G(2) in auto)
  moreover have "set_path path (Some a) h1 = ret ?h3" using a(1,4) Some by (simp add: set_path_def split_def Let_def)
  ultimately show ?thesis unfolding builds_def by simp
qed

lemma builds_created:
  assumes "creates own h [] x" and "fst x \<noteq> None"
  shows "builds own h (ret x)"
  using assms by (cases x) (auto simp: creates_def builds_def)

lemma builds_pathed:
  assumes "users_ok M U" and "framed R" and "creates (own_route U R) h F x" and "unpathed x" and "accounts h0 [] h F"
  shows "builds (own_route U R) h0 (case x of (route, h1) \<Rightarrow> bindR (set_path path route h1) (\<lambda>h2. ret (route, h2)))"
proof -
  obtain p h1 F1 where x: "x = (p, h1)" "own_route U R h1 p = Some F1" "accounts h F h1 F1" by (rule createsE [OF assms(3)])
  with assms(4) obtain a r where a: "p = Some a" "cells h1 a = Some (RouteB r)" "m_route_path r = None" by (auto simp: unpathed_def)
  from set_path_spec [OF assms(1,2) accounts_trans [OF assms(5) x(3)] x(2) [unfolded a(1)] a(2,3)] show ?thesis
    by (simp add: x(1) a(1))
qed

lemma add_sites_spec:
  assumes "mem_ok M C" and "users_ok M U"
    and "\<And>s h. s \<in> set sites \<Longrightarrow> heap_ok h \<Longrightarrow> builds (own_route U (own_router (vectors M) U n)) h (build L M s h)"
    and "own_router (vectors M) U (Suc n) h (Some p) = Some F" and "accounts h0 F0 h F"
  shows "\<exists>h' F'. add_sites L M sites (Some p) h = ret h'
    \<and> own_router (vectors M) U (Suc n) h' (Some p) = Some F' \<and> accounts h0 F0 h' F'"
  using assms(3-5)
proof (induction sites arbitrary: h F)
  case (Cons s sites)
  from Cons.prems(1) [OF _ accountsD(1) [OF Cons.prems(3)], of s] obtain e h1 G where s: "build L M s h = ret (Some e, h1)"
    "own_route U (own_router (vectors M) U n) h1 (Some e) = Some G" "accounts h [] h1 G" by (auto simp: builds_def)
  note acc = accounts_next [OF Cons.prems(3) s(3)]
  have "own_router (vectors M) U (Suc n) h1 (Some p) = Some F"
    by (rule acc(3) [OF framed_router [OF assms(1,2)] Cons.prems(2)])
  from add_route_spec [OF assms(1,2) acc(1) this s(2)] obtain h2 F2 where add:
    "hs_router_add_route_mem M (Some p) (Some e) h1 = ret h2" "own_router (vectors M) U (Suc n) h2 (Some p) = Some F2"
    "accounts h0 F0 h2 F2" by blast
  have "builds (own_route U (own_router (vectors M) U n)) h (build L M t h)" if "t \<in> set sites" "heap_ok h" for t h
    using Cons.prems(1) [of t h] that by simp
  from Cons.IH [OF this add(2,3)] show ?case using s(1) add(1) by simp
qed simp

lemma router_builds:
  assumes "mem_ok M C" and "users_ok M U" and "heap_ok h"
    and "\<And>s h. s \<in> set sites \<Longrightarrow> heap_ok h \<Longrightarrow> builds (own_route U (own_router (vectors M) U n)) h (build L M s h)"
  shows "builds (own_router (vectors M) U (Suc n)) h (build_router L M sites h)"
proof -
  obtain p h1 F where new: "hs_router_new_mem M h = (p, h1)" "own_router (vectors M) U (Suc n) h1 p = Some F" "accounts h [] h1 F"
    by (rule createsE [OF router_new_creates [OF assms(1-3)]])
  moreover obtain a where "p = Some a" using new(1) by (auto simp: hs_router_new_mem_def Let_def split_def malloc_def)
  ultimately have "\<exists>h' F'. add_sites L M sites (Some a) h1 = ret h' \<and> own_router (vectors M) U (Suc n) h' (Some a) = Some F'
      \<and> accounts h [] h' F'"
    by (intro add_sites_spec [OF assms(1,2,4)]) simp_all
  with new(1) \<open>p = Some a\<close> show ?thesis by (auto simp: builds_def build_router_def)
qed

lemma build_builds:
  assumes "mem_ok M C" and "users_ok M U" and "heap_ok h" and "size s \<le> n"
  shows "builds (own_route U (own_router (vectors M) U n)) h (build L M s h)"
  using assms(3,4)
proof (induction s arbitrary: h n)
  case (Leaf path l)
  note fr = framed_router [OF assms(1,2), of n]
  show ?case unfolding build.simps Let_def
    by (rule builds_pathed [OF assms(2) fr leaf_creates [OF assms(2) fr Leaf.prems(1)] leaf_unpathed accounts_none [OF Leaf.prems(1)]])
next
  case (Redirection from_path target temporary)
  note fr = framed_router [OF assms(1,2), of n]
  have "creates (own_route U (own_router (vectors M) U n)) h []
    (case malloc (StringB from_path) h of (p, h1) \<Rightarrow> case malloc (StringB target) h1 of (q, h2) \<Rightarrow>
       hs_routes_redirection_route_new_with_options_mem p q temporary h2)"
    by (rule creates_new_strings [OF Redirection.prems(1)], rule redirection_creates [OF assms(2) fr]) simp_all
  from builds_created [OF this] show ?case
    by (simp add: Let_def split_def hs_routes_redirection_route_new_with_options_mem_def)
next
  case (Favicon path max_age_seconds)
  note fr = framed_router [OF assms(1,2), of n]
  have "creates (own_route U (own_router (vectors M) U n)) h []
    (case malloc (StringB path) h of (p, h1) \<Rightarrow> hs_routes_favicon_route_new_mem L p max_age_seconds h1)"
    by (rule creates_new_string [OF Favicon.prems(1)], rule favicon_creates [OF assms(2) fr]) simp_all
  from builds_created [OF this] show ?case
    by (simp add: Let_def split_def hs_routes_favicon_route_new_mem_def)
next
  case (Branch path sites)
  from Branch.prems(2) obtain m where m: "n = Suc m" "size_list size sites \<le> m" by (cases n) simp_all
  have "size s \<le> m" if "s \<in> set sites" for s using size_list_estimation' [OF that order_refl, of size] m(2) by simp
  from router_builds [OF assms(1,2) Branch.prems(1) Branch.IH [OF _ _ this]] obtain p h1 F where router:
    "build_router L M sites h = ret (Some p, h1)" "own_router (vectors M) U n h1 (Some p) = Some F" "accounts h [] h1 F"
    unfolding m(1) builds_def by blast
  note fr = framed_router [OF assms(1,2), of n]
  have "build L M (Branch path sites) h
    = (case hs_router_as_route_mem (Some p) h1 of (route, h2) \<Rightarrow> bindR (set_path path route h2) (\<lambda>h3. ret (route, h3)))"
    using router(1) by (auto simp: build_router_def Let_def split_def bindR_eq_ret)
  moreover have "builds (own_route U (own_router (vectors M) U n)) h \<dots>"
    by (rule builds_pathed [OF assms(2) fr router_as_route_creates [OF assms(2) fr accountsD(1) [OF router(3)] router(2)
          accountsD(3) [OF router(3)]] as_route_unpathed router(3)])
  ultimately show ?case by simp
qed

text \<open>
  C14. Releasing a router, to any depth of routers that are added as routes, frees exactly what it
  owns: the list of routes, every route with its path and its extension, whatever release function
  the route names, and the routers below. Nothing is leaked or freed twice, nothing else changes, and
  the recursion ends. A second release is a use after free.
\<close>

theorem router_release_frees_exactly:
  assumes "mem_ok M C" and "users_ok M U" and "own_router (vectors M) U n h (Some p) = Some F" and "distinct F"
  shows "hs_router_release_mem M (Some p) h = ret (gone F h)
    \<and> hs_router_release_mem M (Some p) (gone F h) = ub UseAfterFree"
proof
  show "hs_router_release_mem M (Some p) h = ret (gone F h)"
    by (rule owner.release [OF owner_router [OF assms(1,2)] assms(3,4)])
  have "p \<in> set F" using assms(3) by (cases n) (auto simp: own_router_Suc simp del: own_router.simps(2))
  then show "hs_router_release_mem M (Some p) (gone F h) = ub UseAfterFree"
    by (simp add: hs_router_release_mem.simps load_def)
qed

theorem router_release_frees_exactly_witness:
  "let h = \<lparr>cells = [0 \<mapsto> StringB ''<html/>'',
                      1 \<mapsto> ExtensionB (StaticE \<lparr>m_static_content = Some 0, m_static_mime_type = HS_MIME_TYPE_TEXT_HTML\<rparr>),
                      2 \<mapsto> RouteB (new_route\<lparr>m_extension := Some 1, m_route_release := Some Static_release\<rparr>),
                      3 \<mapsto> VectorB [2],
                      4 \<mapsto> RouterB \<lparr>m_routes = Some 3, m_support_keep_alive = True\<rparr>,
                      5 \<mapsto> StringB ''/fs/'',
                      6 \<mapsto> RouteB (serve_all_route\<lparr>m_route_path := Some 5, m_extension := Some 4, m_route_release := Some Router_release\<rparr>),
                      7 \<mapsto> VectorB [6],
                      8 \<mapsto> RouterB \<lparr>m_routes = Some 7, m_support_keep_alive = True\<rparr>,
                      9 \<mapsto> StringB ''other''],
               next_addr = 10\<rparr> :: (addr list, string, unit, unit) heap
   in hs_router_release_mem reference_mem (Some 8) h = ret (gone [0, 1, 2, 3, 4, 5, 6, 7, 8] h)
    \<and> hs_router_release_mem reference_mem (Some 8) (gone [0, 1, 2, 3, 4, 5, 6, 7, 8] h) = ub UseAfterFree"
proof -
  have users: "users_ok reference_mem (\<lambda>_ _ _. None)" by (simp add: users_ok_def owner_never)
  have one: "vec_list (vectors reference_mem) [a] = [a]" for a
    by (simp add: reference_mem_def list_vector_def vec_list_def List.map_filter_simps)
  show ?thesis
    unfolding Let_def
    by (rule router_release_frees_exactly [OF reference_mem_ok users, where n = "Suc (Suc 0)"])
      (simp_all add: own_router_Suc own_elements_def own_route_def own_extension_def own_released_simps own_string_def own_struct_def
        new_route_def serve_all_route_def set_all_methods_mem_def one)
qed

definition example_site :: "site list" where
  \<comment> \<open>the routes of \<open>src/examples/example.c\<close>, as far as their memory goes\<close>
  "example_site =
     [Leaf None Plain_route, Leaf None (Powered_by None), Leaf None Security_headers, Leaf None Length_required,
      Leaf None (Payload_limit 2097152), Leaf None (Rate_limit 10), Leaf None (Rate_limit 300),
      Leaf (Some ''/'') (Static ''<html></html>'' HS_MIME_TYPE_TEXT_HTML), Favicon ''./favicon.ico'' 31536000,
      Branch (Some ''/fs/'') [Leaf None (Basic_auth ''My Realm'' None), Leaf None (Directory_serve ''./docs'' None),
                              Leaf None (File_serve ''./docs'' True)],
      Redirection ''/fs'' ''/fs/'' True, Leaf None Not_found]"

end
