(* ===== verification/Server_Memory.thy ===== *)
theory Server_Memory
  imports Sites_Memory
begin

text \<open>
  The memory of a server (\<open>src/hs_server.c\<close>): its constructors and \<open>hs_server_release\<close> on the heap, with
  the router, the connection handler, the names of the TLS files and the internal state. The thread
  pool and the TLS context belong to other libraries; what these promise is \<open>server_lib_ok\<close>. A server
  that is created, given the routes of a site and released gives every block back.
\<close>

section \<open>The libraries of a server\<close>

record ('v, 'sb, 'dt, 'fn) server_lib =
  m_threadpool_new :: "nat \<Rightarrow> ('v, 'sb, 'dt, 'fn) heap \<Rightarrow> ptr \<times> ('v, 'sb, 'dt, 'fn) heap"
  m_threadpool_release :: "('v, 'sb, 'dt, 'fn) releaser"
  m_SSL_CTX_free :: "('v, 'sb, 'dt, 'fn) releaser"

record ('v, 'sb, 'dt, 'fn) server_contract =
  own_pool :: "('v, 'sb, 'dt, 'fn) owns"
  own_ssl_context :: "('v, 'sb, 'dt, 'fn) owns"

definition server_lib_ok ::
  "('v, 'sb, 'dt, 'fn) server_lib \<Rightarrow> ('v, 'sb, 'dt, 'fn) server_contract \<Rightarrow> bool" where
  "server_lib_ok N D \<longleftrightarrow> owner (own_pool D) (m_threadpool_release N) \<and> owner (own_ssl_context D) (m_SSL_CTX_free N)
     \<and> (\<forall>n h. heap_ok h \<longrightarrow> creates (own_pool D) h [] (m_threadpool_new N n h) \<and> fst (m_threadpool_new N n h) \<noteq> None)"

lemma server_lib_parts:
  assumes "server_lib_ok N D"
  shows "owner (own_pool D) (m_threadpool_release N)" "owner (own_ssl_context D) (m_SSL_CTX_free N)"
    and "heap_ok h \<Longrightarrow> creates (own_pool D) h [] (m_threadpool_new N n h)" and "heap_ok h \<Longrightarrow> fst (m_threadpool_new N n h) \<noteq> None"
  using assms unfolding server_lib_ok_def by blast+

section \<open>Constructors and release\<close>

definition hs_server_connection_handler_new_mem ::
  "('v, 'sb, 'dt, 'fn) heap \<Rightarrow> ptr \<times> ('v, 'sb, 'dt, 'fn) heap" where
  \<comment> \<open>the code leaves the extension uninitialised, and reads it only where a constructor has set it\<close>
  "hs_server_connection_handler_new_mem =
     malloc (ServerB (HandlerP \<lparr>m_stop_connections = None, m_handler_release = None, m_handler_extension = None\<rparr>))"

definition hs_server_new_with_handler_mem ::
  "('v, 'sb, 'dt, 'fn) mem_lib \<Rightarrow> ptr \<Rightarrow> ('v, 'sb, 'dt, 'fn) heap \<Rightarrow> ptr \<times> ('v, 'sb, 'dt, 'fn) heap" where
  \<comment> \<open>\<open>_hs_server_new\<close>\<close>
  "hs_server_new_with_handler_mem M handler h =
     (let (router, h1) = hs_router_new_mem M h;
          (info, h2) = malloc (ServerB (SSLInfoP \<lparr>m_private_key_pem_file = None, m_certificate_pem_file = None\<rparr>)) h1;
          (intern, h3) = malloc (ServerB (InternalP \<lparr>m_running = False, m_stop_requested = False, m_ssl_context = None\<rparr>)) h2
      in malloc (ServerB (ServerP \<lparr>m_router = router, m_accept_recv_timeout_seconds = -1, m_request_recv_timeout_seconds = -1,
           m_connection_handler = handler, m_ssl_info = info, m_internal = intern\<rparr>)) h3)"

definition hs_server_new_single_thread_mem ::
  "('v, 'sb, 'dt, 'fn) mem_lib \<Rightarrow> ('v, 'sb, 'dt, 'fn) heap \<Rightarrow> ptr \<times> ('v, 'sb, 'dt, 'fn) heap" where
  "hs_server_new_single_thread_mem M h =
     (let (handler, h1) = hs_server_connection_handler_new_mem h in hs_server_new_with_handler_mem M handler h1)"

definition hs_server_new_multi_thread_mem ::
  "('v, 'sb, 'dt, 'fn) mem_lib \<Rightarrow> ('v, 'sb, 'dt, 'fn) server_lib \<Rightarrow> nat \<Rightarrow> ('v, 'sb, 'dt, 'fn) heap
    \<Rightarrow> ptr \<times> ('v, 'sb, 'dt, 'fn) heap" where
  "hs_server_new_multi_thread_mem M N thread_pool_size h =
     (if thread_pool_size = 0 then (None, h)
      else let (pool, h1) = m_threadpool_new N thread_pool_size h;
               (handler, h2) = malloc (ServerB (HandlerP
                  \<lparr>m_stop_connections = None, m_handler_release = Some Multi_thread_release, m_handler_extension = pool\<rparr>)) h1
           in hs_server_new_with_handler_mem M handler h2)"

definition hs_server_multi_thread_release_mem ::
  "('v, 'sb, 'dt, 'fn) server_lib \<Rightarrow> ('v, 'sb, 'dt, 'fn) releaser" where
  "hs_server_multi_thread_release_mem N handler h =
     (if handler = None then ret h
      else bindR (load as_handler handler h)
             (\<lambda>c. if m_handler_extension c = None then ret h else m_threadpool_release N (m_handler_extension c) h))"

definition call_handler ::
  "('v, 'sb, 'dt, 'fn) mem_lib \<Rightarrow> ('v, 'sb, 'dt, 'fn) server_lib \<Rightarrow> 'fn handler_function \<Rightarrow> ('v, 'sb, 'dt, 'fn) releaser" where
  \<comment> \<open>\<open>handler->release(handler)\<close>\<close>
  "call_handler M N f =
     (case f of Multi_thread_release \<Rightarrow> hs_server_multi_thread_release_mem N | Handler_function fn \<Rightarrow> m_call M fn)"

definition hs_server_connection_handler_release_mem ::
  "('v, 'sb, 'dt, 'fn) mem_lib \<Rightarrow> ('v, 'sb, 'dt, 'fn) server_lib \<Rightarrow> ('v, 'sb, 'dt, 'fn) releaser" where
  "hs_server_connection_handler_release_mem M N handler h =
     (if handler = None then ret h
      else bindR (load as_handler handler h)
             (\<lambda>c. bindR (case m_stop_connections c of None \<Rightarrow> ret h | Some fn \<Rightarrow> m_call M fn handler h)
                (\<lambda>h1. bindR (load as_handler handler h1)
                   (\<lambda>c1. bindR (case m_handler_release c1 of None \<Rightarrow> ret h1 | Some f \<Rightarrow> call_handler M N f handler h1)
                            (hs_io_free handler)))))"

definition hs_openssl_context_release_mem ::
  "('v, 'sb, 'dt, 'fn) server_lib \<Rightarrow> ('v, 'sb, 'dt, 'fn) releaser" where
  "hs_openssl_context_release_mem N c h = (if c = None then ret h else m_SSL_CTX_free N c h)"

definition release_ssl_info :: "('v, 'sb, 'dt, 'fn) releaser" where
  "release_ssl_info = release_struct as_ssl_info
     [\<lambda>info. hs_io_free (m_private_key_pem_file info), \<lambda>info. hs_io_free (m_certificate_pem_file info)]"

definition release_internal :: "('v, 'sb, 'dt, 'fn) server_lib \<Rightarrow> ('v, 'sb, 'dt, 'fn) releaser" where
  "release_internal N intern h =
     (if intern = None then ret h
      else bindR (load as_internal intern h)
             (\<lambda>i. bindR (hs_openssl_context_release_mem N (m_ssl_context i) h)
                (\<lambda>h1. bindR (store intern (ServerB (InternalP (i\<lparr>m_ssl_context := None\<rparr>))) h1) (hs_io_free intern))))"

definition hs_server_release_mem ::
  "('v, 'sb, 'dt, 'fn) mem_lib \<Rightarrow> ('v, 'sb, 'dt, 'fn) server_lib \<Rightarrow> ('v, 'sb, 'dt, 'fn) releaser" where
  "hs_server_release_mem M N = release_struct as_server
     [\<lambda>server. hs_router_release_mem M (m_router server),
      \<lambda>server. hs_server_connection_handler_release_mem M N (m_connection_handler server),
      \<lambda>server. release_ssl_info (m_ssl_info server),
      \<lambda>server. release_internal N (m_internal server)]"

section \<open>What belongs to a server\<close>

definition own_optional :: "('v, 'sb, 'dt, 'fn) owns \<Rightarrow> ('v, 'sb, 'dt, 'fn) owns" where
  "own_optional own h p = (if p = None then Some [] else own h p)"

definition own_handler_extension ::
  "('v, 'sb, 'dt, 'fn) server_contract \<Rightarrow> ('v, 'sb, 'dt, 'fn) heap \<Rightarrow> 'fn HSServerConnectionHandler_mem \<Rightarrow> addr list option" where
  \<comment> \<open>handlers of the library\<close>
  "own_handler_extension D h c =
     (if m_stop_connections c \<noteq> None then None
      else case m_handler_release c of
             None \<Rightarrow> Some []
           | Some f \<Rightarrow> if f = Multi_thread_release then own_optional (own_pool D) h (m_handler_extension c) else None)"

definition own_handler :: "('v, 'sb, 'dt, 'fn) server_contract \<Rightarrow> ('v, 'sb, 'dt, 'fn) owns" where
  "own_handler D = own_struct as_handler [own_handler_extension D]"

definition own_ssl_info :: "('v, 'sb, 'dt, 'fn) owns" where
  "own_ssl_info = own_struct as_ssl_info
     [\<lambda>h info. own_string h (m_private_key_pem_file info), \<lambda>h info. own_string h (m_certificate_pem_file info)]"

definition own_internal :: "('v, 'sb, 'dt, 'fn) server_contract \<Rightarrow> ('v, 'sb, 'dt, 'fn) owns" where
  "own_internal D = own_struct as_internal [\<lambda>h i. own_optional (own_ssl_context D) h (m_ssl_context i)]"

definition own_server ::
  "('v, 'sb, 'dt, 'fn) mem_lib \<Rightarrow> ('fn \<Rightarrow> ('v, 'sb, 'dt, 'fn) owns) \<Rightarrow> ('v, 'sb, 'dt, 'fn) server_contract \<Rightarrow> nat
    \<Rightarrow> ('v, 'sb, 'dt, 'fn) owns" where
  "own_server M U D n = own_struct as_server
     [\<lambda>h server. own_router (vectors M) U n h (m_router server),
      \<lambda>h server. own_handler D h (m_connection_handler server),
      \<lambda>h server. own_ssl_info h (m_ssl_info server),
      \<lambda>h server. own_internal D h (m_internal server)]"

lemma own_optional_None [simp]: "own_optional own h None = Some []"
  by (simp add: own_optional_def)

lemma owner_optional:
  assumes "owner own f"
  shows "owner (own_optional own) (\<lambda>p h. if p = None then ret h else f p h)"
proof
  note fr = owner.axioms(1) [OF assms]
  fix h h' p F
  assume own: "own_optional own h p = Some F"
  show "own_optional own h' p = Some F" if "\<forall>a \<in> set F. cells h' a = cells h a"
    using own framed.frame [OF fr _ that] by (auto simp: own_optional_def split: if_splits)
  show "cells h a \<noteq> None" if "a \<in> set F" for a
    using own framed.live [OF fr _ that] that by (auto simp: own_optional_def split: if_splits)
  show "(if p = None then ret h else f p h) = ret (gone F h)" if "distinct F"
    using own owner.release [OF assms _ that] by (auto simp: own_optional_def split: if_splits)
qed

lemma framed_handler_extension:
  assumes "server_lib_ok N D"
  shows "framed (own_handler_extension D)"
proof
  note fr = owner.axioms(1) [OF owner_optional [OF server_lib_parts(1) [OF assms]]]
  fix h h' c F
  assume own: "own_handler_extension D h c = Some F"
  show "own_handler_extension D h' c = Some F" if "\<forall>a \<in> set F. cells h' a = cells h a"
    using own framed.frame [OF fr _ that] by (auto simp: own_handler_extension_def split: option.splits if_splits)
  show "cells h a \<noteq> None" if "a \<in> set F" for a
    using own framed.live [OF fr _ that] that by (auto simp: own_handler_extension_def split: option.splits if_splits)
qed

lemma owner_handler:
  assumes "server_lib_ok N D"
  shows "owner (own_handler D) (hs_server_connection_handler_release_mem M N)"
proof (intro owner.intro owner_axioms.intro)
  show "framed (own_handler D)"
    unfolding own_handler_def by (intro framed_struct) (simp add: framed_handler_extension [OF assms])
  fix h p F
  assume own: "own_handler D h p = Some F" "distinct F"
  show "hs_server_connection_handler_release_mem M N p h = ret (gone F h)"
  proof (cases p)
    case None
    with own(1) show ?thesis by (simp add: own_handler_def hs_server_connection_handler_release_mem_def)
  next
    case (Some _)
    with own(1) obtain a c F1 where p: "p = Some a" "cells h a = Some (ServerB (HandlerP c))" "own_handler_extension D h c = Some F1"
      "F = F1 @ [a]"
      unfolding own_handler_def by (auto simp: Option.bind_eq_Some_conv elim!: own_structE)
    from p(3) have stop: "m_stop_connections c = None" by (auto simp: own_handler_extension_def split: if_splits)
    note pool = owner.release [OF owner_optional [OF server_lib_parts(1) [OF assms]]]
    have "(case m_handler_release c of None \<Rightarrow> ret h | Some f \<Rightarrow> call_handler M N f (Some a) h) = ret (gone F1 h)"
    proof (cases "m_handler_release c")
      case None
      with p(3) stop show ?thesis by (simp add: own_handler_extension_def)
    next
      case (Some f)
      with p(3) stop have "f = Multi_thread_release" "own_optional (own_pool D) h (m_handler_extension c) = Some F1"
        by (simp_all add: own_handler_extension_def split: if_splits)
      with pool [of h "m_handler_extension c" F1] own(2) p(2,4) Some show ?thesis
        by (simp add: call_handler_def hs_server_multi_thread_release_mem_def)
    qed
    with own(2) p stop show ?thesis by (simp add: hs_server_connection_handler_release_mem_def)
  qed
qed

lemma owner_internal:
  assumes "server_lib_ok N D"
  shows "owner (own_internal D) (release_internal N)"
proof (intro owner.intro owner_axioms.intro)
  note ctx = owner_optional [OF server_lib_parts(2) [OF assms]]
  show "framed (own_internal D)"
    unfolding own_internal_def by (intro framed_struct) (simp add: framed_field [OF owner.axioms(1) [OF ctx]])
  fix h p F
  assume own: "own_internal D h p = Some F" "distinct F"
  show "release_internal N p h = ret (gone F h)"
  proof (cases p)
    case None
    with own(1) show ?thesis by (simp add: own_internal_def release_internal_def)
  next
    case (Some _)
    with own(1) obtain a i F1 where p: "p = Some a" "cells h a = Some (ServerB (InternalP i))"
      "own_optional (own_ssl_context D) h (m_ssl_context i) = Some F1" "F = F1 @ [a]"
      unfolding own_internal_def by (auto simp: Option.bind_eq_Some_conv elim!: own_structE)
    have "hs_openssl_context_release_mem N (m_ssl_context i) h = ret (gone F1 h)"
      using owner.release [OF ctx p(3)] own(2) p(4) by (simp add: hs_openssl_context_release_mem_def)
    moreover have "gone [a] ((gone F1 h)\<lparr>cells := (cells (gone F1 h))(a \<mapsto> b)\<rparr>) = gone F h" for b
      using p(4) by (auto simp: gone_def fun_eq_iff)
    ultimately show ?thesis using own(2) p by (simp add: release_internal_def del: gone_simps(2))
  qed
qed

lemma owner_server:
  assumes "mem_ok M C" and "users_ok M U" and "server_lib_ok N D"
  shows "owner (own_server M U D n) (hs_server_release_mem M N)"
proof -
  have info: "owner own_ssl_info release_ssl_info" unfolding own_ssl_info_def release_ssl_info_def by (rule struct_owner_strings)
  show ?thesis
    unfolding own_server_def hs_server_release_mem_def
    by (rule struct_owner)
      (simp add: owner_field [OF owner_router [OF assms(1,2)]] owner_field [OF owner_handler [OF assms(3)]] owner_field [OF info]
        owner_field [OF owner_internal [OF assms(3)]])
qed

section \<open>New servers\<close>

lemma handler_new_creates:
  assumes "server_lib_ok N D" and "heap_ok h"
  shows "creates (own_handler D) h [] (hs_server_connection_handler_new_mem h)"
  unfolding own_handler_def hs_server_connection_handler_new_mem_def
  by (rule creates_leaf [OF assms(2)], rule as_server_simps)
    (simp_all add: own_handler_extension_def framed_handler_extension [OF assms(1)])

lemma pool_handler_creates:
  assumes "server_lib_ok N D" and "own_pool D h pool = Some F" and "pool \<noteq> None" and "accounts h0 [] h F"
  shows "creates (own_handler D) h0 [] (malloc (ServerB (HandlerP
    \<lparr>m_stop_connections = None, m_handler_release = Some Multi_thread_release, m_handler_extension = pool\<rparr>)) h)"
  unfolding own_handler_def
  by (rule creates_struct [OF assms(4)], rule as_server_simps)
    (use assms(2,3) in \<open>auto simp: own_handler_extension_def own_optional_def framed_handler_extension [OF assms(1)]\<close>)

lemma server_with_handler_creates:
  assumes "mem_ok M C" and "users_ok M U" and "server_lib_ok N D" and "accounts h0 [] h F" and "own_handler D h handler = Some F"
  shows "creates (own_server M U D (Suc n)) h0 [] (hs_server_new_with_handler_mem M handler h)"
proof -
  note handler = owner.axioms(1) [OF owner_handler [OF assms(3)]] and router = framed_router [OF assms(1,2), of "Suc n"]
  note optional = owner.axioms(1) [OF owner_optional [OF server_lib_parts(2) [OF assms(3)]]]
  have info: "framed own_ssl_info" unfolding own_ssl_info_def by (rule framed_struct) (simp add: framed_field [OF str.framed_axioms])
  have intern: "framed (own_internal D)" unfolding own_internal_def by (rule framed_struct) (simp add: framed_field [OF optional])
  let ?info = "ServerB (SSLInfoP \<lparr>m_private_key_pem_file = None, m_certificate_pem_file = None\<rparr>)"
  let ?intern = "ServerB (InternalP \<lparr>m_running = False, m_stop_requested = False, m_ssl_context = None\<rparr>)"
  obtain r h1 R where r: "hs_router_new_mem M h = (r, h1)" "own_router (vectors M) U (Suc n) h1 r = Some R" "accounts h [] h1 R"
    by (rule createsE [OF router_new_creates [OF assms(1,2) accountsD(1) [OF assms(4)]]])
  note a1 = accounts_next [OF assms(4) r(3)]
  have "creates own_ssl_info h1 [] (malloc ?info h1)"
    unfolding own_ssl_info_def
    by (rule creates_leaf [OF accountsD(1) [OF a1(1)]], rule as_server_simps) (simp_all add: framed_field [OF str.framed_axioms])
  then obtain i h2 S where i: "malloc ?info h1 = (i, h2)" "own_ssl_info h2 i = Some S" "accounts h1 [] h2 S" by (rule createsE)
  note a2 = accounts_next [OF a1(1) i(3)]
  have "creates (own_internal D) h2 [] (malloc ?intern h2)"
    unfolding own_internal_def
    by (rule creates_leaf [OF accountsD(1) [OF a2(1)]], rule as_server_simps) (simp_all add: framed_field [OF optional])
  then obtain t h3 T where t: "malloc ?intern h2 = (t, h3)" "own_internal D h3 t = Some T" "accounts h2 [] h3 T" by (rule createsE)
  note a3 = accounts_next [OF a2(1) t(3)]
  have own: "own_handler D h3 handler = Some F" "own_router (vectors M) U (Suc n) h3 r = Some R" "own_ssl_info h3 i = Some S"
    by (rule a3(3) a2(3) a1(3) handler router info assms(5) r(2) i(2))+
  have acc: "accounts h0 [] h3 (R @ F @ S @ T)" by (rule accounts_set [OF a3(1)]) (use accountsD(3) [OF a3(1)] in auto)
  show ?thesis
    unfolding own_server_def hs_server_new_with_handler_mem_def r(1) i(1) t(1) Let_def split_conv
    by (rule creates_struct [OF acc], rule as_server_simps)
      (use own t(2) in \<open>simp_all del: own_router.simps add: framed_field [OF router] framed_field [OF handler] framed_field [OF info] framed_field [OF intern]\<close>)
qed

definition new_server ::
  "('v, 'sb, 'dt, 'fn) mem_lib \<Rightarrow> ('v, 'sb, 'dt, 'fn) server_lib \<Rightarrow> nat option \<Rightarrow> ('v, 'sb, 'dt, 'fn) heap
    \<Rightarrow> ptr \<times> ('v, 'sb, 'dt, 'fn) heap" where
  \<comment> \<open>with one thread or with so many\<close>
  "new_server M N threads =
     (case threads of None \<Rightarrow> hs_server_new_single_thread_mem M | Some n \<Rightarrow> hs_server_new_multi_thread_mem M N n)"

lemma new_server_creates:
  assumes "mem_ok M C" and "users_ok M U" and "server_lib_ok N D" and "heap_ok h" and "threads \<noteq> Some 0"
  shows "creates (own_server M U D (Suc n)) h [] (new_server M N threads h)"
proof (cases threads)
  case None
  obtain c h1 F where c: "hs_server_connection_handler_new_mem h = (c, h1)" "own_handler D h1 c = Some F" "accounts h [] h1 F"
    by (rule createsE [OF handler_new_creates [OF assms(3,4)]])
  from server_with_handler_creates [OF assms(1-3) c(3,2)] show ?thesis
    by (simp add: new_server_def None hs_server_new_single_thread_mem_def c(1))
next
  case (Some k)
  obtain p h1 F where p: "m_threadpool_new N k h = (p, h1)" "own_pool D h1 p = Some F" "accounts h [] h1 F"
    by (rule createsE [OF server_lib_parts(3) [OF assms(3,4)]])
  have "p \<noteq> None" using server_lib_parts(4) [OF assms(3,4), of k] p(1) by simp
  obtain c h2 G where c: "malloc (ServerB (HandlerP
      \<lparr>m_stop_connections = None, m_handler_release = Some Multi_thread_release, m_handler_extension = p\<rparr>)) h1 = (c, h2)"
    "own_handler D h2 c = Some G" "accounts h [] h2 G"
    by (rule createsE [OF pool_handler_creates [OF assms(3) p(2) \<open>p \<noteq> None\<close> p(3)]])
  from server_with_handler_creates [OF assms(1-3) c(3,2)] assms(5) Some show ?thesis
    by (simp add: new_server_def hs_server_new_multi_thread_mem_def p(1) c(1))
qed

lemma new_server_not_null: "threads \<noteq> Some 0 \<Longrightarrow> fst (new_server M N threads h) \<noteq> None"
  by (cases threads)
    (simp_all add: new_server_def hs_server_new_single_thread_mem_def hs_server_new_multi_thread_mem_def
      hs_server_new_with_handler_mem_def Let_def split_def)

section \<open>Programs\<close>

definition set_ssl_files :: "(string \<times> string) option \<Rightarrow> ptr \<Rightarrow> ('v, 'sb, 'dt, 'fn) heap \<Rightarrow> ('v, 'sb, 'dt, 'fn) heap run" where
  \<comment> \<open>the names of key and certificate are copies\<close>
  "set_ssl_files pem_files info h =
     (case pem_files of
        None \<Rightarrow> ret h
      | Some (key, cert) \<Rightarrow>
          let (k, h1) = malloc (StringB key) h; (c, h2) = malloc (StringB cert) h1
          in bindR (load as_ssl_info info h2)
               (\<lambda>i. store info (ServerB (SSLInfoP (i\<lparr>m_private_key_pem_file := k, m_certificate_pem_file := c\<rparr>))) h2))"

definition build_server ::
  "('sb, 'pv, 'cv, 'dt2, 'sh) libs \<Rightarrow> ('v, 'sb2, 'dt, 'fn) mem_lib \<Rightarrow> ('v, 'sb2, 'dt, 'fn) server_lib \<Rightarrow> nat option
    \<Rightarrow> (string \<times> string) option \<Rightarrow> site list \<Rightarrow> ('v, 'sb2, 'dt, 'fn) heap \<Rightarrow> (ptr \<times> ('v, 'sb2, 'dt, 'fn) heap) run" where
  \<comment> \<open>what a program does before it serves\<close>
  "build_server L M N threads pem_files sites h =
     (let (server, h1) = new_server M N threads h
      in bindR (load as_server server h1)
           (\<lambda>s. bindR (set_ssl_files pem_files (m_ssl_info s) h1)
              (\<lambda>h2. bindR (add_sites L M sites (m_router s) h2) (\<lambda>h3. ret (server, h3)))))"

lemma own_server_Some:
  "own_server M U D n h (Some p) = Some F \<longleftrightarrow>
    (\<exists>s R H S T. cells h p = Some (ServerB (ServerP s)) \<and> own_router (vectors M) U n h (m_router s) = Some R
      \<and> own_handler D h (m_connection_handler s) = Some H \<and> own_ssl_info h (m_ssl_info s) = Some S
      \<and> own_internal D h (m_internal s) = Some T \<and> F = R @ H @ S @ T @ [p])"
  by (auto simp: own_server_def own_struct_def Option.bind_eq_Some_conv split: option.splits simp del: own_router.simps)

definition fresh_server :: "ptr \<times> ('v, 'sb, 'dt, 'fn) heap \<Rightarrow> bool" where
  \<comment> \<open>a server with a router and without names of files\<close>
  "fresh_server x \<longleftrightarrow> (\<exists>a s r i. fst x = Some a \<and> cells (snd x) a = Some (ServerB (ServerP s)) \<and> m_router s = Some r \<and> m_ssl_info s = Some i
     \<and> cells (snd x) i = Some (ServerB (SSLInfoP \<lparr>m_private_key_pem_file = None, m_certificate_pem_file = None\<rparr>)))"

lemma new_server_fresh:
  assumes "threads \<noteq> Some 0"
  shows "fresh_server (new_server M N threads h)"
proof -
  have "fresh_server (hs_server_new_with_handler_mem M handler h1)" for handler h1
    by (simp add: fresh_server_def hs_server_new_with_handler_mem_def hs_router_new_mem_def Let_def split_def)
  with assms show ?thesis
    by (cases threads)
      (simp_all add: new_server_def hs_server_new_single_thread_mem_def hs_server_new_multi_thread_mem_def Let_def split_def)
qed

lemma set_ssl_files_spec:
  assumes "heap_ok h" and "cells h i = Some (ServerB (SSLInfoP \<lparr>m_private_key_pem_file = None, m_certificate_pem_file = None\<rparr>))"
  shows "\<exists>h' S. set_ssl_files pem_files (Some i) h = ret h' \<and> own_ssl_info h' (Some i) = Some S \<and> accounts h [i] h' S"
proof -
  have refl: "accounts h [i] h [i]" by (rule accounts_refl) (simp_all add: assms)
  show ?thesis
  proof (cases pem_files)
    case None
    have "own_ssl_info h (Some i) = Some [i]" using assms(2) by (simp add: own_ssl_info_def own_struct_def)
    with refl None show ?thesis by (auto simp: set_ssl_files_def)
  next
    case (Some files)
    obtain key cert where files: "files = (key, cert)" by (cases files)
    let ?h1 = "snd (malloc (StringB key) h)"
    let ?h2 = "snd (malloc (StringB cert) ?h1)"
    let ?k = "next_addr h" and ?c = "next_addr ?h1"
    let ?h3 = "?h2\<lparr>cells := (cells ?h2)(i \<mapsto> ServerB (SSLInfoP \<lparr>m_private_key_pem_file = Some ?k, m_certificate_pem_file = Some ?c\<rparr>))\<rparr>"
    have "accounts h [i] ?h2 (([i] @ [?k]) @ [?c])" by (rule new_string(2) [OF new_string(2) [OF refl]])
    then have acc: "accounts h [i] ?h3 (([i] @ [?k]) @ [?c])" by (rule accounts_store) simp
    have ne: "i \<noteq> ?k" "i \<noteq> ?c" using accountsD(3) [OF acc] by auto
    have "own_ssl_info ?h3 (Some i) = Some ([?k] @ [?c] @ [i])"
      using ne by (simp add: own_ssl_info_def own_struct_def own_string_Some)
    moreover have "accounts h [i] ?h3 ([?k] @ [?c] @ [i])" by (rule accounts_set [OF acc]) (use accountsD(3) [OF acc] in auto)
    moreover have "set_ssl_files pem_files (Some i) h = ret ?h3"
      using ne assms(2) by (simp add: set_ssl_files_def Some files Let_def split_def)
    ultimately show ?thesis by blast
  qed
qed

lemma sites_build:
  assumes "mem_ok M C" and "users_ok M U" and "size_list size sites \<le> n"
    and "own_router (vectors M) U (Suc n) h (Some p) = Some F" and "accounts h0 F0 h F"
  shows "\<exists>h' F'. add_sites L M sites (Some p) h = ret h' \<and> own_router (vectors M) U (Suc n) h' (Some p) = Some F'
    \<and> accounts h0 F0 h' F'"
proof -
  have "builds (own_route U (own_router (vectors M) U n)) g (build L M s g)" if s: "s \<in> set sites" "heap_ok g" for s g
  proof -
    have "size s \<le> n" using size_list_estimation' [OF s(1) order_refl, of size] assms(3) by simp
    then show ?thesis by (rule build_builds [OF assms(1,2) s(2)])
  qed
  then show ?thesis by (rule add_sites_spec [OF assms(1,2) _ assms(4,5)])
qed

lemma server_builds:
  assumes "mem_ok M C" and "users_ok M U" and "server_lib_ok N D" and "heap_ok h" and "threads \<noteq> Some 0" and "size_list size sites \<le> n"
  shows "builds (own_server M U D (Suc n)) h (build_server L M N threads pem_files sites h)"
proof -
  let ?router = "own_router (vectors M) U (Suc n)"
  note router = framed_router [OF assms(1,2), of "Suc n"] and handler = owner.axioms(1) [OF owner_handler [OF assms(3)]]
  have info: "framed own_ssl_info" unfolding own_ssl_info_def by (rule framed_struct) (simp add: framed_field [OF str.framed_axioms])
  note intern = owner.axioms(1) [OF owner_internal [OF assms(3)]]
  obtain q h1 F where new: "new_server M N threads h = (q, h1)" "own_server M U D (Suc n) h1 q = Some F" "accounts h [] h1 F"
    by (rule createsE [OF new_server_creates [OF assms(1-5)]])
  from new_server_fresh [OF assms(5), of M N h] obtain p s r i where fresh: "q = Some p" "cells h1 p = Some (ServerB (ServerP s))"
    "m_router s = Some r" "m_ssl_info s = Some i"
    "cells h1 i = Some (ServerB (SSLInfoP \<lparr>m_private_key_pem_file = None, m_certificate_pem_file = None\<rparr>))"
    unfolding fresh_server_def new(1) by auto
  from new(2) fresh(1-4) obtain R H S T where own: "?router h1 (Some r) = Some R" "own_handler D h1 (m_connection_handler s) = Some H"
    "own_ssl_info h1 (Some i) = Some S" "own_internal D h1 (m_internal s) = Some T" "F = R @ H @ S @ T @ [p]"
    by (auto simp: own_server_Some simp del: own_router.simps)
  have S: "S = [i]" using own(3) fresh(5) by (simp add: own_ssl_info_def own_struct_def)
  have F: "set F = set [i] \<union> set (R @ H @ T @ [p])" "distinct (R @ H @ T @ [p])" "set [i] \<inter> set (R @ H @ T @ [p]) = {}"
    using accountsD(3) [OF new(3)] own(5) S by auto
  from set_ssl_files_spec [OF accountsD(1) [OF new(3)] fresh(5), of pem_files] obtain h2 S2 where ssl:
    "set_ssl_files pem_files (Some i) h1 = ret h2" "own_ssl_info h2 (Some i) = Some S2" "accounts h1 [i] h2 S2" by blast
  note other = accounts_other [OF new(3) ssl(3) F]
  have own2: "?router h2 (Some r) = Some R" "own_handler D h2 (m_connection_handler s) = Some H" "own_internal D h2 (m_internal s) = Some T"
    by (rule framed.frame [OF router own(1)] framed.frame [OF handler own(2)] framed.frame [OF intern own(4)], use other(3) in simp)+
  have p2: "cells h2 p = Some (ServerB (ServerP s))" using other(3) fresh(2) by simp
  have R: "set (S2 @ R @ H @ T @ [p]) = set R \<union> set (H @ S2 @ T @ [p])" "distinct (H @ S2 @ T @ [p])" "set R \<inter> set (H @ S2 @ T @ [p]) = {}"
    "distinct R" using accountsD(3) [OF other(1)] by auto
  from sites_build [OF assms(1,2,6) own2(1) framed.accounts_own [OF router own2(1) accountsD(1) [OF other(1)] R(4)], of L]
  obtain h3 R3 where sites: "add_sites L M sites (Some r) h2 = ret h3" "?router h3 (Some r) = Some R3" "accounts h2 R h3 R3" by blast
  note other3 = accounts_other [OF other(1) sites(3) R(1-3)]
  have "own_ssl_info h3 (Some i) = Some S2" "own_handler D h3 (m_connection_handler s) = Some H" "own_internal D h3 (m_internal s) = Some T"
    by (rule framed.frame [OF info ssl(2)] framed.frame [OF handler own2(2)] framed.frame [OF intern own2(3)], use other3(3) in simp)+
  moreover have "cells h3 p = Some (ServerB (ServerP s))" using other3(3) p2 by simp
  ultimately have "own_server M U D (Suc n) h3 (Some p) = Some (R3 @ H @ S2 @ T @ [p])"
    using sites(2) fresh(3,4) by (simp add: own_server_Some del: own_router.simps)
  moreover have "build_server L M N threads pem_files sites h = ret (Some p, h3)"
    using new(1) fresh(1-4) ssl(1) sites(1) by (simp add: build_server_def)
  ultimately show ?thesis using other3(1) unfolding builds_def by blast
qed

text \<open>
  C9. The memory of a server, from \<open>hs_server_new_single_thread\<close> or \<open>hs_server_new_multi_thread\<close> to
  \<open>hs_server_release\<close>: whatever tree of routes and routers a program adds with the constructors of the
  library, to any depth, with or without names of TLS files, setting the server up succeeds, releasing
  it succeeds, and every block is given back. Each constructor fits the release function it stores.
\<close>

theorem server_memory_round_trip:
  assumes "mem_ok M C" and "server_lib_ok N D" and "heap_ok h" and "threads \<noteq> Some 0"
  shows "\<exists>p h1 h2. build_server L M N threads pem_files sites h = ret (Some p, h1)
    \<and> hs_server_release_mem M N (Some p) h1 = ret h2 \<and> cells h2 = cells h"
proof -
  let ?U = "\<lambda>_ _ _. None"
  have users: "users_ok M ?U" by (simp add: users_ok_def owner_never)
  from server_builds [OF assms(1) users assms(2-4) order_refl] obtain p h1 F where
    built: "build_server L M N threads pem_files sites h = ret (Some p, h1)" "accounts h [] h1 F"
    "own_server M ?U D (Suc (size_list size sites)) h1 (Some p) = Some F"
    unfolding builds_def by blast
  from owner.release_accounts [OF owner_server [OF assms(1) users assms(2)] built(2,3)] obtain h2 where
    rel: "hs_server_release_mem M N (Some p) h1 = ret h2" "accounts h [] h2 []" by blast
  have "cells h2 = cells h" using accountsD(6) [OF rel(2)] by (auto simp: fun_eq_iff)
  with built(1) rel(1) show ?thesis by blast
qed

text \<open>
  A pool that is one block, and the site of \<open>src/examples/example.c\<close> with a TLS server, and with
  security headers and a session route that the program has set up itself.
\<close>

definition given_site :: "site list" where
  "given_site =
     [Leaf None (Security_given
        \<lparr>given_frame_options = HS_X_FRAME_OPTIONS_RESPONSE_HEADER_DENY,
         given_content_type_options = HS_X_CONTENT_TYPE_OPTIONS_RESPONSE_HEADER_NOSNIFF,
         given_referrer_policy = HS_REFERRER_POLICY_RESPONSE_HEADER_NONE,
         given_content_security_policy = Some ''default-src https:'', given_permissions_policy = None\<rparr>),
      Leaf (Some ''/app'') (Session_named ''id'' ''state'' None)]"

definition reference_server_lib :: "(addr list, string, unit, unit) server_lib" where
  "reference_server_lib =
     \<lparr>m_threadpool_new = (\<lambda>n. malloc (ServerB (ForeignP n))), m_threadpool_release = hs_io_free, m_SSL_CTX_free = hs_io_free\<rparr>"

definition reference_server_contract :: "(addr list, string, unit, unit) server_contract" where
  "reference_server_contract = \<lparr>own_pool = own_struct as_foreign [], own_ssl_context = own_struct as_foreign []\<rparr>"

lemma reference_server_lib_ok: "server_lib_ok reference_server_lib reference_server_contract"
  unfolding server_lib_ok_def
  by (auto simp: reference_server_lib_def reference_server_contract_def owner_block intro!: creates_leaf)

theorem server_memory_round_trip_witness:
  "let h = \<lparr>cells = [0 \<mapsto> StringB ''other''], next_addr = 1\<rparr> :: (addr list, string, unit, unit) heap
   in \<exists>p h1 h2. build_server reference_libs reference_mem reference_server_lib (Some 5) (Some (''key.pem'', ''cert.pem''))
        (example_site @ given_site) h
       = ret (Some p, h1)
     \<and> hs_server_release_mem reference_mem reference_server_lib (Some p) h1 = ret h2 \<and> cells h2 = [0 \<mapsto> StringB ''other'']"
proof -
  have ok: "heap_ok \<lparr>cells = [0 \<mapsto> StringB ''other''], next_addr = 1\<rparr>" by (simp add: heap_ok_def)
  have threads: "Some (5 :: nat) \<noteq> Some 0" by simp
  show ?thesis using server_memory_round_trip [OF reference_mem_ok reference_server_lib_ok ok threads] by simp
qed

end
