(* ===== verification/Route_Contracts.thy ===== *)
theory Route_Contracts
  imports Library_Routes
begin

text \<open>
  Two more contracts of serve functions, beside \<open>route_handler\<close> and \<open>returning_handler\<close>, interpreted by the
  routes of the library: \<open>request_keeping\<close>, what a route that lets a request go on leaves of it, and
  \<open>faultless_handler\<close>, that a route runs into no fault. With the lemmas that lift them to the
  router: they are what one needs to follow a request past many routes.
\<close>


section \<open>What a route leaves of the request\<close>

text \<open>
  The third contract: a route that lets the request go on has kept a part of the request, its
  method and resource for example, and has not taken the response away.
\<close>

locale request_keeping =
  fixes view :: "('sb, 'pv, 'cv) HSHttpRequest \<Rightarrow> 'x" and path :: cstr and handler :: "('sb, 'pv, 'cv, 'dt) flow serve_function"
  assumes keep: "handler path p w = ret (HS_SERVE_FLOW_RESPONSE_CONTINUE, p1, w1) \<Longrightarrow>
    map_option view (request p1) = map_option view (request p) \<and> (response p = None \<longleftrightarrow> response p1 = None)"
begin

lemma serve_route_keeps:
  assumes "serve rt = Some handler" and "route_path rt = path" and "hs_router_serve_route L router p (Some rt) w = ret (False, p1, w1)"
  shows "map_option view (request p1) = map_option view (request p) \<and> (response p = None \<longleftrightarrow> response p1 = None)"
  using assms keep
  by (auto simp: hs_router_serve_route_def write_response_def Let_def split_def split: option.splits if_splits elim!: bindR_retE)

end

definition target :: "('sb, 'pv, 'cv) HSHttpRequest \<Rightarrow> HSHttpMethod \<times> cstr" where
  "target r = (req_method r, req_resource r)"

definition credentials :: "('sb, 'pv, 'cv) HSHttpRequest \<Rightarrow> (HSHttpMethod \<times> cstr) \<times> cstr" where
  "credentials r = (target r, req_authorization r)"

lemmas views = target_def credentials_def

lemma credentials_target:
  assumes "request_keeping credentials path h"
  shows "request_keeping target path h"
proof
  fix p w p1 w1
  assume "h path p w = ret (HS_SERVE_FLOW_RESPONSE_CONTINUE, p1, w1)"
  note keep = request_keeping.keep [OF assms this]
  have "map_option target r = map_option fst (map_option credentials r)" for r
    by (cases r) (simp_all add: credentials_def)
  with keep show "map_option target (request p1) = map_option target (request p) \<and> (response p = None \<longleftrightarrow> response p1 = None)"
    by metis
qed

interpretation powered_by_keeps: request_keeping credentials path "hs_routes_powered_by_serve L ext" for L ext path
  by unfold_locales (auto simp: hs_routes_powered_by_serve_def respond_def split: option.splits if_splits)

interpretation security_headers_keeps: request_keeping credentials path "hs_routes_security_headers_route_serve L ctx" for L ctx path
  by unfold_locales (auto simp: hs_routes_security_headers_route_serve_def respond_def split: option.splits)

interpretation length_required_keeps: request_keeping credentials path "hs_routes_411_length_required_serve L" for L path
  by unfold_locales (auto simp: hs_routes_411_length_required_serve_def respond_def split: option.splits if_splits)

interpretation payload_limit_keeps: request_keeping credentials path "hs_routes_payload_limit_serve n" for n path
  by unfold_locales (auto simp: hs_routes_payload_limit_serve_def respond_def split: option.splits if_splits)

interpretation request_limit_keeps: request_keeping credentials path "hs_routes_ratelimit_max_connection_requests_route_serve n" for n path
  by unfold_locales (auto simp: hs_routes_ratelimit_max_connection_requests_route_serve_def close_request_def views
      split: option.splits if_splits)

interpretation time_limit_keeps: request_keeping credentials path "hs_routes_ratelimit_max_connection_time_route_serve n" for n path
  by unfold_locales (auto simp: hs_routes_ratelimit_max_connection_time_route_serve_def close_request_def views Let_def
      split: option.splits if_splits)

interpretation static_keeps: request_keeping credentials path "hs_routes_static_serve ctx" for ctx path
  by unfold_locales (auto simp: hs_routes_static_serve_def respond_def split: option.splits)

interpretation favicon_keeps: request_keeping credentials path "hs_routes_favicon_route_serve L ctx" for L ctx path
  by unfold_locales (auto simp: hs_routes_favicon_route_serve_def respond_def Let_def split: option.splits if_splits)

interpretation redirection_keeps: request_keeping credentials path "hs_routes_redirection_serve L ctx" for L ctx path
  by unfold_locales (auto simp: hs_routes_redirection_serve_def hs_routes_redirection_set_header_and_status_code_def
      split: option.splits if_splits)

interpretation file_keeps: request_keeping credentials path "hs_routes_file_route_serve L ctx" for L ctx path
  by unfold_locales (auto simp: hs_routes_file_route_serve_def respond_def Let_def split: option.splits if_splits)

interpretation directory_keeps: request_keeping credentials path "hs_routes_directory_route_serve L ctx" for L ctx path
  by unfold_locales (auto simp: hs_routes_directory_route_serve_def respond_def bindR_eq_ret split: option.splits if_splits)

interpretation basic_auth_keeps: request_keeping target path "hs_routes_security_basic_auth_route_serve L ctx" for L ctx path
  by unfold_locales (auto simp: hs_routes_security_basic_auth_route_serve_def basic_auth_check_def views respond_def Let_def
      split: option.splits if_splits prod.splits)


definition kept_by :: "(('sb, 'pv, 'cv) HSHttpRequest \<Rightarrow> 'x) \<Rightarrow> ('sb, 'pv, 'cv, 'dt) route \<Rightarrow> bool" where
  "kept_by view rt \<longleftrightarrow> (\<forall>h. serve rt = Some h \<longrightarrow> request_keeping view (route_path rt) h)"

lemma serve_route_kept:
  assumes "kept_by view rt" and "hs_router_serve_route L router p (Some rt) w = ret (False, p1, w1)"
  shows "map_option view (request p1) = map_option view (request p) \<and> (response p = None \<longleftrightarrow> response p1 = None)"
proof (cases "serve rt")
  case None
  with assms(2) show ?thesis by (auto simp: hs_router_serve_route_def split: option.splits if_splits)
next
  case (Some h)
  then show ?thesis using assms request_keeping.serve_route_keeps by (fastforce simp: kept_by_def)
qed

lemma find_route_loop_keeps:
  assumes "list_all (kept_by view) rts" and "find_route_loop L router (map Some rts) p w = ret (False, p1, w1)"
  shows "map_option view (request p1) = map_option view (request p) \<and> (response p = None \<longleftrightarrow> response p1 = None)"
  using assms
proof (induction rts arbitrary: p w)
  case (Cons rt rts)
  from Cons.prems(2) obtain p2 w2 where r: "hs_router_serve_route L router p (Some rt) w = ret (False, p2, w2)"
    "find_route_loop L router (map Some rts) p2 w2 = ret (False, p1, w1)"
    by (auto elim!: bindR_retE split: if_splits)
  have "kept_by view rt" "list_all (kept_by view) rts" using Cons.prems(1) by simp_all
  from serve_route_kept [OF this(1) r(1)] Cons.IH [OF this(2) r(2)] show ?case by simp
qed simp

text \<open>A router as a route puts the resource back, so routers can be nested here, too.\<close>

lemma router_keeps:
  assumes "vector_ok V" and "list_all (kept_by target) (vec_list V (router_routes rtr))" and "path \<noteq> None"
  shows "request_keeping target path (hs_router_as_route_serve L V (Some rtr))"
proof
  fix p w p1 w1
  assume run: "hs_router_as_route_serve L V (Some rtr) path p w = ret (HS_SERVE_FLOW_RESPONSE_CONTINUE, p1, w1)"
  show "map_option target (request p1) = map_option target (request p) \<and> (response p = None \<longleftrightarrow> response p1 = None)"
  proof (cases "\<not> flow_ready p \<or> flow_closed p")
    case False
    with run obtain req rs where p: "request p = Some req" "router_state p = Some rs" "\<not> flow_done p"
      by (auto simp: hs_router_as_route_serve_def split: if_splits option.splits)
    from run False p obtain q req1 p2 req2 where r: "hs_router_remove_path_prefix path req = ret (q, req1)"
      "find_route_loop L (Some rtr) (map Some (vec_list V (router_routes rtr)))
         (p\<lparr>request := Some req1, router_state := Some (rs\<lparr>base_path := fsio_join_paths L (base_path rs) path\<rparr>)\<rparr>) w = ret (False, p2, w1)"
      "request p2 = Some req2" "request p1 = Some (req2\<lparr>req_resource := q\<rparr>)" "response p1 = response p2"
      by (auto simp: hs_router_as_route_serve_def hs_router_find_route_and_serve_def routes_of_vector [OF assms(1)]
          elim!: bindR_retE split: if_splits option.splits)
    from find_route_loop_keeps [OF assms(2) r(2)] r(3) have "target req2 = target req1" "response p = None \<longleftrightarrow> response p2 = None"
      by simp_all
    moreover have "q = req_resource req" "req_method req1 = req_method req"
      using r(1) assms(3) by (auto simp: hs_router_remove_path_prefix_def Let_def elim!: bindR_retE split: option.splits if_splits)
    ultimately show ?thesis using p(1) r(4,5) by (simp add: target_def)
  qed (use run in \<open>auto simp: hs_router_as_route_serve_def\<close>)
qed

section \<open>The loop over the routes\<close>

lemma kept_target: "kept_by credentials rt \<Longrightarrow> kept_by target rt"
  by (simp add: kept_by_def credentials_target)

lemma write_response_keep_alive:
  "support_keep_alive r1 = support_keep_alive r2 \<Longrightarrow> write_response L r1 = write_response L r2"
  by (intro ext) (simp only: write_response_def)

lemma serve_route_keep_alive:
  assumes "support_keep_alive r1 = support_keep_alive r2"
  shows "hs_router_serve_route L (Some r1) p rt w = hs_router_serve_route L (Some r2) p rt w"
  by (simp only: hs_router_serve_route_def option.case write_response_keep_alive [OF assms])

lemma loop_keep_alive:
  assumes "support_keep_alive r1 = support_keep_alive r2"
  shows "find_route_loop L (Some r1) rts = find_route_loop L (Some r2) rts"
proof (induction rts)
  case (Cons rt rts)
  then show ?case by (intro ext) (simp only: find_route_loop.simps serve_route_keep_alive [OF assms])
qed (intro ext, simp)

lemma loop_append:
  "find_route_loop L r (xs @ ys) p w = bindR (find_route_loop L r xs p w)
     (\<lambda>(served, p1, w1). if served then ret (True, p1, w1) else find_route_loop L r ys p1 w1)"
proof (induction xs arbitrary: p w)
  case (Cons x xs)
  have "bindR m (\<lambda>(s, p1, w1). if s then ret (True, p1, w1) else find_route_loop L r (xs @ ys) p1 w1)
    = bindR (bindR m (\<lambda>(s, p1, w1). if s then ret (True, p1, w1) else find_route_loop L r xs p1 w1))
       (\<lambda>(s, p1, w1). if s then ret (True, p1, w1) else find_route_loop L r ys p1 w1)" for m
    unfolding bindR_assoc Cons.IH by (rule arg_cong [where f = "bindR m"]) (auto simp: fun_eq_iff)
  then show ?case by simp
qed simp

lemma write_response_serves: "write_response L r p w = ret (served, p1, w1) \<Longrightarrow> served"
  by (auto simp: write_response_def Let_def split_def elim!: bindR_retE split: option.splits if_splits)

lemma write_response_ends:
  "bindR (write_response L r p w) (\<lambda>(served, p1, w1). if served then ret (True, p1, w1) else rest p1 w1) = write_response L r p w"
proof -
  consider "write_response L r p w = None" | f where "write_response L r p w = ub f"
    | s p1 w1 where "write_response L r p w = ret (s, p1, w1)"
    by (metis not_None_eq prod_cases3 sum.exhaust)
  then show ?thesis by cases (use write_response_serves [of L r p w] in \<open>simp_all add: bindR_def\<close>)
qed

lemma serve_all_takes:
  assumes "flow_ready p" and "request p = Some req" and "req_method req \<noteq> HS_HTTP_METHOD_UNKNOWN"
  shows "takes L p (hs_routes_common_serve_all_route_new\<lparr>serve := Some h\<rparr>)"
    "takes L p (hs_routes_common_serve_all_route_new\<lparr>serve := Some h, release_route := rel\<rparr>)"
proof -
  have "req_resource req \<noteq> None" using assms(1,2) by (auto simp: flow_ready_def split: option.splits)
  with assms(2,3) show "takes L p (hs_routes_common_serve_all_route_new\<lparr>serve := Some h\<rparr>)"
    "takes L p (hs_routes_common_serve_all_route_new\<lparr>serve := Some h, release_route := rel\<rparr>)"
    by (cases "req_method req"; simp_all add: takes_def hs_routes_common_serve_all_route_new_def hs_route_set_all_methods_def
        hs_route_new_def hs_route_is_allowed_for_method_def hs_route_is_supported_path_def split: option.split)+
qed

lemma bindR_cong: "m = m' \<Longrightarrow> (\<And>x. m' = ret x \<Longrightarrow> k x = k' x) \<Longrightarrow> bindR m k = bindR m' k'"
  by (auto simp: bindR_def split: option.split sum.split)

lemma same_guards:
  "hs_route_is_allowed_for_method (Some (rt\<lparr>serve := h, release_route := x\<rparr>)) req = hs_route_is_allowed_for_method (Some rt) req"
  "hs_route_is_supported_path L (Some (rt\<lparr>serve := h, release_route := x\<rparr>)) req = hs_route_is_supported_path L (Some rt) req"
proof -
  show "hs_route_is_allowed_for_method (Some (rt\<lparr>serve := h, release_route := x\<rparr>)) req = hs_route_is_allowed_for_method (Some rt) req"
    by (simp add: hs_route_is_allowed_for_method_def split: option.split HSHttpMethod.split)
  show "hs_route_is_supported_path L (Some (rt\<lparr>serve := h, release_route := x\<rparr>)) req = hs_route_is_supported_path L (Some rt) req"
    by (cases req) (simp_all add: hs_route_is_supported_path_def split: option.split)
qed

lemma library_route_path:
  "library_route L V rt \<Longrightarrow> library_route L V (rt\<lparr>route_path := path\<rparr>)"
  "library_route L V rt \<Longrightarrow> library_route L V (rt\<lparr>is_parent_path := b\<rparr>)"
  by (simp_all add: library_route_def)

lemma not_found_serves:
  assumes "flow_ready p" and "\<not> flow_closed p" and "\<not> flow_done p" and "request p = Some req"
    and "req_method req \<noteq> HS_HTTP_METHOD_UNKNOWN"
    and "hs_router_serve_route L (Some rtr) p (Some hs_routes_error_404_not_found_route_new) w = ret (served, p1, w1)"
  shows served
proof -
  obtain resp where resp: "response p = Some resp" using assms(1) by (auto simp: flow_ready_def split: option.splits)
  let ?p = "p\<lparr>response := Some (resp\<lparr>resp_code := HS_HTTP_RESPONSE_CODE_NOT_FOUND\<rparr>)\<rparr>"
  have takes: "takes L p hs_routes_error_404_not_found_route_new"
    "serve hs_routes_error_404_not_found_route_new = Some hs_routes_404_not_found_serve"
    using serve_all_takes(1) [OF assms(1,4,5)] by (simp_all add: hs_routes_error_404_not_found_route_new_def)
  have "hs_routes_404_not_found_serve path p w = ret (HS_SERVE_FLOW_RESPONSE_DONE, ?p, w)" for path
    using resp by (simp add: hs_routes_404_not_found_serve_def respond_def)
  moreover have "\<not> flow_done ?p" "router_state ?p \<noteq> None"
    using assms(1,3) by (auto simp: flow_done_def flow_ready_def split: option.splits)
  ultimately have "hs_router_serve_route L (Some rtr) p (Some hs_routes_error_404_not_found_route_new) w = write_response L rtr ?p w"
    by (intro serve_route_taken [OF assms(1-3) takes])
  with assms(6) write_response_serves show ?thesis by metis
qed

section \<open>No fault\<close>

text \<open>
  The fourth contract: no fault. On a flow that is ready, a serve function delivers a result, and the
  parts of the flow that the router looks at afterwards are still there.
\<close>

definition flow_whole :: "('sb, 'pv, 'cv, 'dt) flow \<Rightarrow> bool" where
  "flow_whole p \<longleftrightarrow> request p \<noteq> None \<and> response p \<noteq> None \<and> router_state p \<noteq> None"

definition whole_result :: "('d \<times> ('sb, 'pv, 'cv, 'dt) flow \<times> world) run \<Rightarrow> bool" where
  "whole_result m \<longleftrightarrow> (\<exists>d p w. m = ret (d, p, w) \<and> flow_whole p)"

definition route_covers :: "cstr \<Rightarrow> ('sb, 'pv, 'cv) HSHttpRequest option \<Rightarrow> bool" where
  \<comment> \<open>what the router has checked before it calls the serve function of a route with the path\<close>
  "route_covers path r \<longleftrightarrow> (\<forall>pre. path = Some pre \<longrightarrow> (\<exists>req resource parent. r = Some req \<and> req_resource req = Some resource \<and> covers pre parent resource))"

locale faultless_handler =
  fixes path :: cstr and handler :: "('sb, 'pv, 'cv, 'dt) flow serve_function"
  assumes runs: "route_entry fd p w \<Longrightarrow> flow_ready p \<Longrightarrow> route_covers path (request p) \<Longrightarrow> whole_result (handler path p w)"

lemma ready_whole: "flow_ready p \<Longrightarrow> flow_whole p"
  by (auto simp: flow_ready_def flow_whole_def split: option.splits)

lemma whole_ret [simp]: "whole_result (ret (d, p, w)) = flow_whole p"
  by (simp add: whole_result_def)

lemma whole_updates [simp]:
  "flow_whole p \<Longrightarrow> flow_whole (p\<lparr>request := Some a\<rparr>)" "flow_whole p \<Longrightarrow> flow_whole (p\<lparr>response := Some b\<rparr>)"
  "flow_whole p \<Longrightarrow> flow_whole (p\<lparr>router_state := Some c\<rparr>)"
  "flow_whole (p\<lparr>connection_state := d\<rparr>) = flow_whole p"
  by (simp_all add: flow_whole_def)

lemma respond_whole [simp]: "flow_whole p \<Longrightarrow> whole_result (respond change d p w)"
  by (auto simp: respond_def flow_whole_def split: option.split)

definition faultless :: "('sb, 'pv, 'cv, 'dt) route \<Rightarrow> bool" where
  "faultless rt \<longleftrightarrow> (\<forall>h. serve rt = Some h \<longrightarrow> faultless_handler (route_path rt) h)"

lemma write_response_whole:
  assumes "libs_ok L" and "route_entry fd p w" and "flow_whole p"
  shows "whole_result (write_response L rtr p w)"
proof -
  from assms(2,3) obtain req resp conn rs where "request p = Some req" "response p = Some resp" "router_state p = Some rs"
    "connection_state p = Some conn" "plain_socket (conn_socket conn) fd" "eager fd w"
    by (auto simp: flow_whole_def route_entry_def)
  from write_response_spec [OF assms(1) this(1,2,4,3,5,6), where rtr = rtr] assms(3) show ?thesis
    by (simp add: after_response_def)
qed

lemma supported_covers:
  assumes "stringfn_ok L" and "flow_ready p" and "hs_route_is_supported_path L (Some rt) (request p)"
  shows "route_covers (route_path rt) (request p)"
proof -
  obtain req resource where "request p = Some req" "req_resource req = Some resource"
    using assms(2) by (auto simp: flow_ready_def split: option.splits)
  with assms(3) supported_path_covers [OF assms(1) this(2), of rt] show ?thesis
    by (auto simp: route_covers_def)
qed

lemma serve_route_whole:
  assumes "libs_ok L" and "route_entry fd p w" and "flow_ready p" and "handled_by L rt" and "faultless rt"
  shows "whole_result (hs_router_serve_route L (Some rtr) p (Some rt) w)"
proof (cases "hs_route_is_allowed_for_method (Some rt) (request p) \<and> hs_route_is_supported_path L (Some rt) (request p) \<and> serve rt \<noteq> None")
  case False
  then show ?thesis using ready_whole [OF assms(3)] by (auto simp: hs_router_serve_route_def)
next
  case True
  then obtain h where h: "serve rt = Some h" by auto
  with assms(4,5) have rh: "route_handler L h" "faultless_handler (route_path rt) h" by (simp_all add: handled_by_def faultless_def)
  from faultless_handler.runs [OF rh(2) assms(2,3)] True supported_covers [OF libs_ok_parts(1) [OF assms(1)] assms(3)]
  obtain r p1 w1 where run: "h (route_path rt) p w = ret (r, p1, w1)" "flow_whole p1" by (auto simp: whole_result_def)
  from run(2) obtain rs where rs: "router_state p1 = Some rs" by (auto simp: flow_whole_def)
  have "r = HS_SERVE_FLOW_RESPONSE_CONTINUE \<or> router_done rs \<or> whole_result (write_response L rtr p1 w1)"
    using route_handler.outcome [OF rh(1) assms(2) run(1)] write_response_whole [OF assms(1) quiet_entry [OF assms(2)] run(2), where rtr = rtr] rs
    by (auto simp: handler_outcome_def flow_done_def)
  with True h run rs ready_whole [OF assms(3)] show ?thesis
    by (auto simp: hs_router_serve_route_def)
qed

lemma quiet_ready:
  assumes "route_entry fd p w" and "flow_ready p" and "quiet fd p w p1 w1"
    and "map_option target (request p1) = map_option target (request p)" and "response p = None \<longleftrightarrow> response p1 = None"
  shows "flow_ready p1"
  using assms by (auto simp: quiet_def route_entry_def flow_ready_def target_def split: option.splits)

lemma find_route_loop_whole:
  assumes "libs_ok L" and "list_all (handled_by L) rts" and "list_all faultless rts" and "list_all (kept_by target) rts"
    and "route_entry fd p w" and "flow_ready p"
  shows "whole_result (find_route_loop L (Some rtr) (map Some rts) p w)"
  using assms(2-)
proof (induction rts arbitrary: p w)
  case Nil
  then show ?case by (simp add: ready_whole)
next
  case (Cons rt rts)
  from Cons.prems have hd: "handled_by L rt" "faultless rt" "kept_by target rt"
    and tl: "list_all (handled_by L) rts" "list_all faultless rts" "list_all (kept_by target) rts" by simp_all
  from serve_route_whole [OF assms(1) Cons.prems(4,5) hd(1,2), where rtr = rtr] obtain s p1 w1 where
    run: "hs_router_serve_route L (Some rtr) p (Some rt) w = ret (s, p1, w1)" "flow_whole p1" by (auto simp: whole_result_def)
  show ?case
  proof (cases s)
    case True
    with run show ?thesis by simp
  next
    case False
    with serve_route_outcome_any [OF assms(1) Cons.prems(4) hd(1) run(1)] have q: "quiet fd p w p1 w1" by simp
    have "hs_router_serve_route L (Some rtr) p (Some rt) w = ret (False, p1, w1)" using run(1) False by simp
    from quiet_ready [OF Cons.prems(4,5) q] serve_route_kept [OF hd(3) this] have "flow_ready p1" by blast
    with Cons.IH [OF tl quiet_entry [OF Cons.prems(4) q]] run False show ?thesis by simp
  qed
qed

interpretation powered_by_runs: faultless_handler path "hs_routes_powered_by_serve L ext" for path L ext
  by unfold_locales (auto simp: hs_routes_powered_by_serve_def ready_whole split: option.split)

interpretation security_headers_runs: faultless_handler path "hs_routes_security_headers_route_serve L ctx" for path L ctx
  by unfold_locales (auto simp: hs_routes_security_headers_route_serve_def ready_whole split: option.split)

interpretation length_required_runs: faultless_handler path "hs_routes_411_length_required_serve L" for path L
  by unfold_locales (auto simp: hs_routes_411_length_required_serve_def ready_whole split: option.split)

interpretation payload_limit_runs: faultless_handler path "hs_routes_payload_limit_serve n" for path n
  by unfold_locales (auto simp: hs_routes_payload_limit_serve_def ready_whole split: option.split)

interpretation request_limit_runs: faultless_handler path "hs_routes_ratelimit_max_connection_requests_route_serve n" for path n
  by unfold_locales (auto simp: hs_routes_ratelimit_max_connection_requests_route_serve_def close_request_def ready_whole
      split: option.split)

interpretation time_limit_runs: faultless_handler path "hs_routes_ratelimit_max_connection_time_route_serve n" for path n
  by unfold_locales (auto simp: hs_routes_ratelimit_max_connection_time_route_serve_def close_request_def Let_def ready_whole
      split: option.split)

interpretation static_runs: faultless_handler path "hs_routes_static_serve ctx" for path ctx
  by unfold_locales (auto simp: hs_routes_static_serve_def ready_whole split: option.split)

interpretation favicon_runs: faultless_handler path "hs_routes_favicon_route_serve L ctx" for path L ctx
  by unfold_locales (auto simp: hs_routes_favicon_route_serve_def ready_whole Let_def split: option.split)

interpretation redirection_runs: faultless_handler path "hs_routes_redirection_serve L ctx" for path L ctx
  by unfold_locales (auto simp: hs_routes_redirection_serve_def hs_routes_redirection_set_header_and_status_code_def ready_whole
      split: option.split)

interpretation not_found_runs: faultless_handler path hs_routes_404_not_found_serve for path
  by unfold_locales (simp add: hs_routes_404_not_found_serve_def ready_whole)

interpretation file_runs: faultless_handler path "hs_routes_file_route_serve L ctx" for path L ctx
  by unfold_locales (auto simp: hs_routes_file_route_serve_def ready_whole Let_def split: option.split)

interpretation basic_auth_runs: faultless_handler path "hs_routes_security_basic_auth_route_serve L ctx" for path L ctx
  by unfold_locales (auto simp: hs_routes_security_basic_auth_route_serve_def ready_whole Let_def split: option.split prod.split)

definition joins :: "('sb, 'pv, 'cv, 'dt, 'sh) libs \<Rightarrow> bool" where
  \<comment> \<open>\<open>fsio_join_paths\<close> delivers a path for any two\<close>
  "joins L \<longleftrightarrow> (\<forall>a b. fsio_join_paths L (Some a) (Some b) \<noteq> None)"

lemma directory_loop_whole:
  assumes "joins L" and "flow_ready p" and "create_href context = hs_routes_fs_default_create_href L"
  shows "\<exists>b. directory_loop L context p dir_path w names buffers = ret b"
proof (induction names arbitrary: buffers)
  case (Cons n names)
  obtain req resource where req: "request p = Some req" "req_resource req = Some resource"
    using assms(2) by (auto simp: flow_ready_def split: option.splits)
  obtain href where "fsio_join_paths L (Some resource) (Some n) = Some href" using assms(1) by (auto simp: joins_def)
  then have "\<exists>b. directory_entry L context p dir_path w n buffers = ret b"
    using req assms(3) by (cases buffers) (simp add: directory_entry_def Let_def hs_routes_fs_default_create_href_def)
  with Cons.IH show ?case by auto
qed simp

lemma directory_runs:
  fixes L :: "('sb, 'pv, 'cv, 'dt, 'sh) libs" and ctx :: "('sb, 'pv, 'cv, 'dt) HSRoutesDirectoryServeContext"
  assumes "joins L" and "create_href ctx = hs_routes_fs_default_create_href L"
  shows "faultless_handler path (hs_routes_directory_route_serve L (Some ctx))"
proof
  fix fd and p :: "('sb, 'pv, 'cv, 'dt) flow" and w
  assume "flow_ready p"
  have "\<exists>html. directory_html L ctx p dir_path base w = ret html" for dir_path base
    using directory_loop_whole [OF assms(1) \<open>flow_ready p\<close> assms(2), of dir_path w _ "(stringbuffer_new L, stringbuffer_new L)"]
    by (auto simp: directory_html_def Let_def split_def bindR_eq_ret)
  then obtain html where "directory_html L ctx p dir_path base w = ret (html dir_path base)" for dir_path base by metis
  then show "whole_result (hs_routes_directory_route_serve L (Some ctx) path p w)"
    using ready_whole [OF \<open>flow_ready p\<close>]
    by (auto simp: hs_routes_directory_route_serve_def flow_whole_def split: option.split)
qed

lemma prefix_removal_runs:
  assumes "route_covers (Some pre) (Some req)"
  shows "\<exists>q req1. hs_router_remove_path_prefix (Some pre) req = ret (q, req1) \<and> req_resource req1 \<noteq> None"
proof -
  from assms obtain resource parent where "req_resource req = Some resource" "covers pre parent resource"
    by (auto simp: route_covers_def)
  then show ?thesis by (auto simp: hs_router_remove_path_prefix_def Let_def covers_def)
qed

lemma router_runs:
  fixes L :: "('sb, 'pv, 'cv, 'dt, 'sh) libs"
  assumes "libs_ok L" and "vector_ok V" and "list_all (handled_by L) (vec_list V (router_routes rtr))"
    and "list_all faultless (vec_list V (router_routes rtr))" and "list_all (kept_by target) (vec_list V (router_routes rtr))"
  shows "faultless_handler (Some pre) (hs_router_as_route_serve L V (Some rtr))"
proof
  fix fd and p :: "('sb, 'pv, 'cv, 'dt) flow" and w
  assume entry: "route_entry fd p w" and ready: "flow_ready p" and covered: "route_covers (Some pre) (request p)"
  obtain req rs where p: "request p = Some req" "router_state p = Some rs"
    using ready by (auto simp: flow_ready_def split: option.splits)
  from prefix_removal_runs covered p(1) obtain q req1 where
    q: "hs_router_remove_path_prefix (Some pre) req = ret (q, req1)" "req_resource req1 \<noteq> None" by metis
  let ?p = "p\<lparr>request := Some req1, router_state := Some (rs\<lparr>base_path := fsio_join_paths L (base_path rs) (Some pre)\<rparr>)\<rparr>"
  have "flow_ready ?p" "route_entry fd ?p w"
    using entry ready p q(2) by (auto simp: flow_ready_def route_entry_def flow_closed_def flow_done_def split: option.splits)
  from find_route_loop_whole [OF assms(1,3-5) this(2,1), where rtr = rtr] obtain d p1 w1 where
    "hs_router_find_route_and_serve L V (Some rtr) ?p w = ret (d, p1, w1)" "flow_whole p1"
    by (auto simp: whole_result_def hs_router_find_route_and_serve_def routes_of_vector [OF assms(2)])
  moreover have "\<not> flow_closed p" "\<not> flow_done p" using entry by (simp_all add: route_entry_def)
  ultimately show "whole_result (hs_router_as_route_serve L V (Some rtr) (Some pre) p w)"
    using p q ready by (auto simp: hs_router_as_route_serve_def flow_whole_def)
qed

end
