(* ===== verification/Example.thy ===== *)
theory Example
  imports Route_Contracts Server
begin

text \<open>
  The example program \<open>src/examples/example.c\<close>: it reads its arguments, makes a server with a chain of
  routes and a nested router that protects a directory, and serves. It puts the parts of the library
  together the way they are meant to be, so that what holds of each route and of the router can be
  read off for one whole server. What the program prints on the terminal is left out.
\<close>

section \<open>Arguments\<close>

datatype LookingFor =
    LOOKING_FOR_FLAG
  | LOOKING_FOR_PORT
  | LOOKING_FOR_BASE_DIR
  | LOOKING_FOR_PRIVATE_KEY
  | LOOKING_FOR_CERTIFICATE

record example_options =
  option_base_dir :: string
  option_port :: int
  option_private_key :: cstr
  option_certificate :: cstr

definition example_argument :: "string \<Rightarrow> LookingFor \<times> example_options \<Rightarrow> LookingFor \<times> example_options" where
  \<comment> \<open>the body of the loop over the arguments\<close>
  "example_argument arg = (\<lambda>(looking_for, options).
     case looking_for of
       LOOKING_FOR_FLAG \<Rightarrow>
         (if arg = ''--port'' then LOOKING_FOR_PORT
          else if arg = ''--dir'' then LOOKING_FOR_BASE_DIR
          else if arg = ''--private-key'' then LOOKING_FOR_PRIVATE_KEY
          else if arg = ''--certificate'' then LOOKING_FOR_CERTIFICATE
          else LOOKING_FOR_FLAG, options)
     | LOOKING_FOR_BASE_DIR \<Rightarrow> (LOOKING_FOR_FLAG, options\<lparr>option_base_dir := arg\<rparr>)
     | LOOKING_FOR_PORT \<Rightarrow> (LOOKING_FOR_FLAG, options\<lparr>option_port := atoi arg\<rparr>)
     | LOOKING_FOR_PRIVATE_KEY \<Rightarrow> (LOOKING_FOR_FLAG, options\<lparr>option_private_key := Some arg\<rparr>)
     | LOOKING_FOR_CERTIFICATE \<Rightarrow> (LOOKING_FOR_FLAG, options\<lparr>option_certificate := Some arg\<rparr>))"

definition example_options_of :: "string list \<Rightarrow> example_options" where
  \<comment> \<open>the arguments behind the name of the program\<close>
  "example_options_of args =
     snd (fold example_argument args
       (LOOKING_FOR_FLAG, \<lparr>option_base_dir = ''.'', option_port = 8080, option_private_key = None, option_certificate = None\<rparr>))"

text \<open>A list of flags with their values is read in order, so the last value of a flag counts.\<close>

fun option_flag :: "LookingFor \<Rightarrow> string" where
  "option_flag LOOKING_FOR_PORT = ''--port''"
| "option_flag LOOKING_FOR_BASE_DIR = ''--dir''"
| "option_flag LOOKING_FOR_PRIVATE_KEY = ''--private-key''"
| "option_flag LOOKING_FOR_CERTIFICATE = ''--certificate''"
| "option_flag LOOKING_FOR_FLAG = ''-''"

lemma example_arguments:
  assumes "list_all (\<lambda>(k, v). k \<noteq> LOOKING_FOR_FLAG) settings"
  shows "fold example_argument (concat (map (\<lambda>(k, v). [option_flag k, v]) settings)) (LOOKING_FOR_FLAG, options)
    = (LOOKING_FOR_FLAG, fold (\<lambda>(k, v) opts. snd (example_argument v (k, opts))) settings options)"
  using assms
proof (induction settings arbitrary: options)
  case (Cons s settings)
  obtain k v where s: "s = (k, v)" by (cases s)
  with Cons show ?case by (cases k) (simp_all add: example_argument_def)
qed simp

section \<open>Routes\<close>

definition log_route_serve :: "('sb, 'pv, 'cv, 'dt) flow serve_function" where
  \<comment> \<open>prints the resource; a request without one cannot get here\<close>
  "log_route_serve path p w =
     (case request p of None \<Rightarrow> ub NullDeref | Some _ \<Rightarrow> ret (HS_SERVE_FLOW_RESPONSE_CONTINUE, p, w))"

definition fs_basic_auth :: auth_function where
  \<comment> \<open>the context the route passes on is NULL; \<open>myuser:mypassword\<close>\<close>
  "fs_basic_auth auth_value w = (auth_value = Some ''bXl1c2VyOm15cGFzc3dvcmQ='', w)"

definition home_page :: string where
  "home_page = concat (map (\<lambda>l. l @ [LF]) [''<html>'', ''<head>'', ''<title>Example Home Page</title>'', ''</head>'', ''<body>'',
       ''<h1>Welcome To The Example Home Page</h1>'', ''<a href='' @ dq @ ''/fs/'' @ dq @ ''>Go To File System</a>'', ''</body>'']) @ ''</html>''"

definition log_route :: "('sb, 'pv, 'cv, 'dt) route" where
  "log_route = (the (hs_route_set_all_methods (Some hs_route_new) True))\<lparr>serve := Some log_route_serve\<rparr>"

definition home_route :: "('sb, 'pv, 'cv, 'dt) route option" where
  "home_route = map_option (\<lambda>r. r\<lparr>route_path := Some ''/''\<rparr>) (hs_routes_static_html_route_new (Some home_page))"

definition fs_routes ::
  "('sb, 'pv, 'cv, 'dt, 'sh) libs \<Rightarrow> string \<Rightarrow> ('sb, 'pv, 'cv, 'dt) route option list" where
  "fs_routes L base_dir =
     [hs_routes_security_basic_auth_route_new L (Some ''My Realm'') (Some fs_basic_auth),
      Some ((hs_routes_fs_directory_route_new_with_media_support L (Some base_dir))\<lparr>is_parent_path := True\<rparr>),
      Some ((hs_routes_fs_file_route_new L (Some base_dir))\<lparr>is_parent_path := True\<rparr>)]"

primrec add_routes ::
  "('rv, ('sb, 'pv, 'cv, 'dt) route) vector_lib \<Rightarrow> ('sb, 'pv, 'cv, 'dt) route option list \<Rightarrow> 'rv HSRouter option
    \<Rightarrow> 'rv HSRouter option run" where
  \<comment> \<open>the calls of \<open>hs_router_add_route\<close> one after the other\<close>
  "add_routes V [] router = ret router"
| "add_routes V (route # routes) router = bindR (hs_router_add_route V router route) (add_routes V routes)"

definition server_routes ::
  "('sb, 'pv, 'cv, 'dt, 'sh) libs \<Rightarrow> ('rv, ('sb, 'pv, 'cv, 'dt) route) vector_lib \<Rightarrow> 'rv HSRouter option
    \<Rightarrow> ('sb, 'pv, 'cv, 'dt) route option list" where
  "server_routes L V fs_router =
     [Some log_route,
      Some (hs_routes_powered_by_route_new L None),
      Some (hs_routes_security_headers_route_new L None),
      Some (hs_routes_error_411_length_required_route_new L),
      Some (hs_routes_payload_limit_route_new (1024 * 1024 * 2)),
      Some (hs_routes_ratelimit_max_connection_requests_route_new 10),
      Some (hs_routes_ratelimit_max_connection_time_route_new (60 * 5)),
      home_route,
      hs_routes_favicon_route_new L (Some ''./favicon.ico'') (1 * 365 * 24 * 60 * 60),
      map_option (\<lambda>r. r\<lparr>route_path := Some ''/fs/''\<rparr>) (hs_router_as_route L V fs_router),
      hs_routes_redirection_route_new L (Some ''/fs'') (Some ''/fs/''),
      Some hs_routes_error_404_not_found_route_new]"

definition example_router ::
  "('sb, 'pv, 'cv, 'dt, 'sh) libs \<Rightarrow> ('rv, ('sb, 'pv, 'cv, 'dt) route) vector_lib \<Rightarrow> string \<Rightarrow> 'rv HSRouter option
    \<Rightarrow> 'rv HSRouter option run" where
  "example_router L V base_dir router =
     bindR (add_routes V (fs_routes L base_dir) (Some (hs_router_new V)))
       (\<lambda>fs_router. add_routes V (server_routes L V fs_router) router)"

section \<open>The program\<close>

definition example_main ::
  "('sb, 'pv, 'cv, 'dt, 'sh) libs \<Rightarrow> ('rv, ('sb, 'pv, 'cv, 'dt) route) vector_lib \<Rightarrow> net_lib \<Rightarrow> ssl_ctx_lib \<Rightarrow> 'rv pool_lib
    \<Rightarrow> string list \<Rightarrow> ssl_global \<Rightarrow> world \<Rightarrow> (int \<times> ssl_global \<times> world) run" where
  "example_main L V N X T args g w =
     (case hs_server_new_multi_thread V T 5 of
        None \<Rightarrow> ub NullDeref
      | Some server \<Rightarrow>
          (let options = example_options_of args;
               server1 = server\<lparr>accept_recv_timeout_seconds := 60, request_recv_timeout_seconds := 30,
                           ssl_info := map_option (\<lambda>i. i\<lparr>private_key_pem_file := option_private_key options,
                                                          certificate_pem_file := option_certificate options\<rparr>) (ssl_info server)\<rparr>;
               address = hs_server_init_ipv4_address (word_of_int (option_port options))
           in bindR (example_router L V (option_base_dir options) (server_router server1))
                (\<lambda>router. bindR (hs_server_serve L V N X T (server1\<lparr>server_router := router\<rparr>) address None None g w)
                   (\<lambda>(_, server2, g1, w1). bindR (hs_server_release V X T (Some server2) w1) (\<lambda>w2. ret (0, g1, w2))))))"


interpretation log_keeps: request_keeping credentials path log_route_serve for path
  by unfold_locales (auto simp: log_route_serve_def split: option.splits)

section \<open>The routers\<close>

lemma add_routes_list:
  assumes "vector_ok V"
  shows "\<exists>rtr1. add_routes V (map Some rts) (Some rtr) = ret (Some rtr1) \<and> support_keep_alive rtr1 = support_keep_alive rtr
    \<and> vec_list V (router_routes rtr1) = vec_list V (router_routes rtr) @ rts"
proof (induction rts arbitrary: rtr)
  case (Cons r rts)
  from Cons.IH [of "rtr\<lparr>router_routes := vector_push V (router_routes rtr) r\<rparr>"] show ?case
    by (simp add: hs_router_add_route_def vector_laws [OF assms])
qed simp

definition auth_route :: "('sb, 'pv, 'cv, 'dt, 'sh) libs \<Rightarrow> ('sb, 'pv, 'cv, 'dt) route" where
  "auth_route L = hs_routes_common_serve_all_route_new
     \<lparr>serve := Some (hs_routes_security_basic_auth_route_serve L (Some \<lparr>auth_realm = ''My Realm'', auth = fs_basic_auth\<rparr>)),
      release_route := Some ret\<rparr>"

definition directory_route :: "('sb, 'pv, 'cv, 'dt, 'sh) libs \<Rightarrow> string \<Rightarrow> ('sb, 'pv, 'cv, 'dt) route" where
  "directory_route L base_dir = (hs_routes_fs_directory_route_new_with_media_support L (Some base_dir))\<lparr>is_parent_path := True\<rparr>"

definition files_route_of :: "('sb, 'pv, 'cv, 'dt, 'sh) libs \<Rightarrow> string \<Rightarrow> ('sb, 'pv, 'cv, 'dt) route" where
  "files_route_of L base_dir = (hs_routes_fs_file_route_new L (Some base_dir))\<lparr>is_parent_path := True\<rparr>"

definition front_routes :: "('sb, 'pv, 'cv, 'dt, 'sh) libs \<Rightarrow> ('sb, 'pv, 'cv, 'dt) route list" where
  "front_routes L =
     [log_route, hs_routes_powered_by_route_new L None, hs_routes_security_headers_route_new L None,
      hs_routes_error_411_length_required_route_new L, hs_routes_payload_limit_route_new (1024 * 1024 * 2),
      hs_routes_ratelimit_max_connection_requests_route_new 10, hs_routes_ratelimit_max_connection_time_route_new (60 * 5),
      the home_route, the (hs_routes_favicon_route_new L (Some ''./favicon.ico'') (1 * 365 * 24 * 60 * 60))]"

definition fs_route ::
  "('sb, 'pv, 'cv, 'dt, 'sh) libs \<Rightarrow> ('rv, ('sb, 'pv, 'cv, 'dt) route) vector_lib \<Rightarrow> 'rv HSRouter
    \<Rightarrow> ('sb, 'pv, 'cv, 'dt) route" where
  "fs_route L V fs_router = (the (hs_router_as_route L V (Some fs_router)))\<lparr>route_path := Some ''/fs/''\<rparr>"

lemmas constructors = home_route_def hs_routes_static_html_route_new_def hs_routes_static_route_new_def
  hs_routes_favicon_route_new_def hs_router_as_route_def hs_route_set_all_methods_def hs_routes_redirection_route_new_def
  hs_routes_redirection_route_new_with_options_def hs_routes_security_basic_auth_route_new_def

lemma server_routes_list:
  "server_routes L V (Some fs_router) = map Some (front_routes L @ fs_route L V fs_router #
     [the (hs_routes_redirection_route_new L (Some ''/fs'') (Some ''/fs/'')), hs_routes_error_404_not_found_route_new])"
  by (simp add: server_routes_def front_routes_def fs_route_def constructors)

lemma fs_routes_list: "fs_routes L base_dir = map Some [auth_route L, directory_route L base_dir, files_route_of L base_dir]"
  by (simp add: fs_routes_def auth_route_def directory_route_def files_route_of_def constructors)

lemma example_router_routes:
  assumes "vector_ok V" and "example_router L V base_dir (Some (hs_router_new V)) = ret (Some rtr)"
  obtains fs_router where "support_keep_alive rtr" "support_keep_alive fs_router"
    "vec_list V (router_routes fs_router) = [auth_route L, directory_route L base_dir, files_route_of L base_dir]"
    "vec_list V (router_routes rtr) = front_routes L @ fs_route L V fs_router #
       [the (hs_routes_redirection_route_new L (Some ''/fs'') (Some ''/fs/'')), hs_routes_error_404_not_found_route_new]"
proof -
  have new: "vec_list V (router_routes (hs_router_new V)) = []" "support_keep_alive (hs_router_new V)"
    by (simp_all add: hs_router_new_def vector_laws [OF assms(1)])
  obtain fs_router where fs: "add_routes V (fs_routes L base_dir) (Some (hs_router_new V)) = ret (Some fs_router)"
    "support_keep_alive fs_router" "vec_list V (router_routes fs_router) = [auth_route L, directory_route L base_dir, files_route_of L base_dir]"
    using add_routes_list [OF assms(1), of "[auth_route L, directory_route L base_dir, files_route_of L base_dir]" "hs_router_new V"] new
    by (auto simp: fs_routes_list)
  have "support_keep_alive rtr \<and> vec_list V (router_routes rtr) = front_routes L @ fs_route L V fs_router #
       [the (hs_routes_redirection_route_new L (Some ''/fs'') (Some ''/fs/'')), hs_routes_error_404_not_found_route_new]"
    using add_routes_list [OF assms(1), of "front_routes L @ fs_route L V fs_router #
       [the (hs_routes_redirection_route_new L (Some ''/fs'') (Some ''/fs/'')), hs_routes_error_404_not_found_route_new]" "hs_router_new V"]
      new assms(2) fs(1) by (auto simp: example_router_def server_routes_list)
  with fs that show thesis by blast
qed

lemma example_router_exists:
  assumes "vector_ok V"
  shows "\<exists>rtr. example_router L V base_dir (Some (hs_router_new V)) = ret (Some rtr)"
proof -
  obtain fs_router where "add_routes V (fs_routes L base_dir) (Some (hs_router_new V)) = ret (Some fs_router)"
    unfolding fs_routes_list using add_routes_list [OF assms] by metis
  moreover obtain rtr where "add_routes V (server_routes L V (Some fs_router)) (Some (hs_router_new V)) = ret (Some rtr)"
    unfolding server_routes_list using add_routes_list [OF assms] by metis
  ultimately show ?thesis by (simp add: example_router_def)
qed

lemma front_kept: "list_all (kept_by credentials) (front_routes L)"
  by (simp add: front_routes_def kept_by_def log_route_def home_route_def constructors hs_routes_common_serve_all_route_new_def
      hs_route_new_def hs_routes_powered_by_route_new_def hs_routes_security_headers_route_new_def
      hs_routes_error_411_length_required_route_new_def hs_routes_payload_limit_route_new_def
      hs_routes_ratelimit_max_connection_requests_route_new_def hs_routes_ratelimit_max_connection_time_route_new_def
      log_keeps.request_keeping_axioms powered_by_keeps.request_keeping_axioms security_headers_keeps.request_keeping_axioms
      length_required_keeps.request_keeping_axioms payload_limit_keeps.request_keeping_axioms
      request_limit_keeps.request_keeping_axioms time_limit_keeps.request_keeping_axioms
      static_keeps.request_keeping_axioms favicon_keeps.request_keeping_axioms)

section \<open>The protected directory\<close>

definition fs_authorization :: string where
  "fs_authorization = ''Basic '' @ ''bXl1c2VyOm15cGFzc3dvcmQ=''"

lemma auth_check_fails:
  assumes "stringfn_ok L" and "req_authorization req \<noteq> Some fs_authorization"
  shows "\<not> fst (basic_auth_check L \<lparr>auth_realm = realm, auth = fs_basic_auth\<rparr> req w)"
  using assms(2) by (auto simp: basic_auth_check_valid [OF assms(1)] fs_basic_auth_def fs_authorization_def)

lemma fs_loop_blind:
  fixes r1 r2 :: "'rv HSRouter"
  assumes "stringfn_ok L" and "support_keep_alive r1 = support_keep_alive r2"
    and "request p = Some req" and "req_authorization req \<noteq> Some fs_authorization"
  shows "find_route_loop L (Some r1) (map Some [auth_route L, directory_route L d1, files_route_of L d1]) p w
    = find_route_loop L (Some r2) (map Some [auth_route L, directory_route L d2, files_route_of L d2]) p w"
proof (cases "flow_ready p \<and> \<not> flow_closed p \<and> \<not> flow_done p \<and> req_method req \<noteq> HS_HTTP_METHOD_UNKNOWN")
  case False
  define served where "served = (flow_ready p \<and> \<not> flow_closed p \<and> flow_done p)"
  have "hs_router_serve_route L (Some r) p (Some rt) w = ret (served, p, w)" for r :: "'rv HSRouter" and rt
    using False by (cases "flow_ready p"; cases "flow_closed p"; cases "flow_done p")
      (simp_all add: served_def hs_router_serve_route_def hs_route_is_allowed_for_method_def assms(3))
  then show ?thesis by simp
next
  case True
  then have ready: "flow_ready p" "\<not> flow_closed p" "\<not> flow_done p" by simp_all
  then obtain rs resp where rs: "router_state p = Some rs" "\<not> router_done rs" "response p = Some resp"
    by (auto simp: flow_ready_def flow_done_def split: option.splits)
  let ?h = "hs_routes_security_basic_auth_route_serve L (Some \<lparr>auth_realm = ''My Realm'', auth = fs_basic_auth\<rparr>)"
  have takes: "takes L p (auth_route L)" "serve (auth_route L) = Some ?h"
    using serve_all_takes(2) [OF ready(1) assms(3), of L] True by (simp_all add: auth_route_def)
  obtain p1 w1 where h: "?h (route_path (auth_route L)) p w = ret (HS_SERVE_FLOW_RESPONSE_DONE, p1, w1)" "router_state p1 = router_state p"
    using auth_check_fails [OF assms(1,4), of "''My Realm''" w] assms(3) rs(3)
    by (cases "basic_auth_check L \<lparr>auth_realm = ''My Realm'', auth = fs_basic_auth\<rparr> req w")
      (simp add: hs_routes_security_basic_auth_route_serve_def respond_def Let_def)
  then have "\<not> flow_done p1" "router_state p1 \<noteq> None" using rs by (simp_all add: flow_done_def)
  note auth = serve_route_taken [OF ready takes h(1) this]
  show ?thesis by (simp add: auth write_response_ends write_response_keep_alive [OF assms(2)])
qed

lemma fs_serve_blind:
  assumes "stringfn_ok L" and "vector_ok V" and "support_keep_alive r1 = support_keep_alive r2"
    and "vec_list V (router_routes r1) = [auth_route L, directory_route L d1, files_route_of L d1]"
    and "vec_list V (router_routes r2) = [auth_route L, directory_route L d2, files_route_of L d2]"
    and "request p = Some req" and "req_authorization req \<noteq> Some fs_authorization"
  shows "hs_router_as_route_serve L V (Some r1) path p w = hs_router_as_route_serve L V (Some r2) path p w"
proof -
  have find: "hs_router_find_route_and_serve L V (Some r1) q w = hs_router_find_route_and_serve L V (Some r2) q w"
    if "request q = Some req1" "req_authorization req1 \<noteq> Some fs_authorization" for q req1
    using fs_loop_blind [OF assms(1,3) that] by (simp add: hs_router_find_route_and_serve_def routes_of_vector [OF assms(2)] assms(4,5))
  have "req_authorization req1 = req_authorization req" if "hs_router_remove_path_prefix path req = ret (q, req1)" for q req1
    using that by (auto simp: hs_router_remove_path_prefix_def Let_def elim!: bindR_retE split: option.splits if_splits)
  with find assms(6,7) show ?thesis
    by (cases "router_state p") (auto simp: hs_router_as_route_serve_def intro!: bindR_cong)
qed

lemma fs_route_blind:
  assumes "stringfn_ok L" and "vector_ok V" and "support_keep_alive f1 = support_keep_alive f2"
    and "vec_list V (router_routes f1) = [auth_route L, directory_route L d1, files_route_of L d1]"
    and "vec_list V (router_routes f2) = [auth_route L, directory_route L d2, files_route_of L d2]"
    and "request p = Some req" and "req_authorization req \<noteq> Some fs_authorization"
  shows "hs_router_serve_route L (Some r) p (Some (fs_route L V f1)) w = hs_router_serve_route L (Some r) p (Some (fs_route L V f2)) w"
proof -
  have "fs_route L V f2 = (fs_route L V f1)\<lparr>serve := Some (hs_router_as_route_serve L V (Some f2)), release_route := Some (hs_router_release V (Some f2))\<rparr>"
    "serve (fs_route L V f1) = Some (hs_router_as_route_serve L V (Some f1))" "route_path (fs_route L V f1) = Some ''/fs/''"
    by (simp_all add: fs_route_def constructors)
  with fs_serve_blind [OF assms(1-7), of "Some ''/fs/''" w] show ?thesis
    by (simp add: hs_router_serve_route_def same_guards)
qed

text \<open>
  C6. The directory is protected. Without the credentials of the example in its authorization, a
  request is answered in the same way whatever directory the server was started with: the outcome of
  the dispatch (the response, what is written to the connection, the state of the flow) does not
  depend on the base directory, so nothing of it can be learned.
\<close>

theorem example_directory_protected:
  assumes "stringfn_ok L" and "vector_ok V"
    and "example_router L V d1 (Some (hs_router_new V)) = ret (Some r1)"
    and "example_router L V d2 (Some (hs_router_new V)) = ret (Some r2)"
    and "request p = Some req" and "req_authorization req \<noteq> Some fs_authorization"
  shows "hs_router_find_route_and_serve L V (Some r1) p w = hs_router_find_route_and_serve L V (Some r2) p w"
proof -
  let ?post = "[the (hs_routes_redirection_route_new L (Some ''/fs'') (Some ''/fs/'')), hs_routes_error_404_not_found_route_new]"
  obtain f1 where f1: "support_keep_alive r1" "support_keep_alive f1"
    "vec_list V (router_routes f1) = [auth_route L, directory_route L d1, files_route_of L d1]"
    "vec_list V (router_routes r1) = front_routes L @ fs_route L V f1 # ?post" by (rule example_router_routes [OF assms(2,3)])
  obtain f2 where f2: "support_keep_alive r2" "support_keep_alive f2"
    "vec_list V (router_routes f2) = [auth_route L, directory_route L d2, files_route_of L d2]"
    "vec_list V (router_routes r2) = front_routes L @ fs_route L V f2 # ?post" by (rule example_router_routes [OF assms(2,4)])
  let ?front = "map Some (front_routes L)"
  have alive: "support_keep_alive r1 = support_keep_alive r2" "support_keep_alive f1 = support_keep_alive f2" using f1 f2 by simp_all
  have "find_route_loop L (Some r1) (map Some (fs_route L V f1 # ?post)) p1 w1
      = find_route_loop L (Some r2) (map Some (fs_route L V f2 # ?post)) p1 w1"
    if "find_route_loop L (Some r2) ?front p w = ret (False, p1, w1)" for p1 w1
  proof -
    have "map_option credentials (request p1) = map_option credentials (request p)"
      using find_route_loop_keeps [OF front_kept that] by simp
    with assms(5,6) obtain req1 where "request p1 = Some req1" "req_authorization req1 \<noteq> Some fs_authorization"
      by (auto simp: credentials_def)
    from fs_route_blind [OF assms(1,2) alive(2) f1(3) f2(3) this, of r2 w1] show ?thesis
      by (simp add: loop_keep_alive [OF alive(1)])
  qed
  then have "find_route_loop L (Some r1) (?front @ map Some (fs_route L V f1 # ?post)) p w
    = find_route_loop L (Some r2) (?front @ map Some (fs_route L V f2 # ?post)) p w"
    unfolding loop_append loop_keep_alive [OF alive(1)] by (intro bindR_cong) auto
  then show ?thesis by (simp add: hs_router_find_route_and_serve_def routes_of_vector [OF assms(2)] f1(4) f2(4))
qed

theorem example_directory_protected_witness:
  "\<exists>rtr1 rtr2 p. example_router reference_libs list_vector ''public'' (Some (hs_router_new list_vector)) = ret (Some rtr1)
    \<and> example_router reference_libs list_vector ''private'' (Some (hs_router_new list_vector)) = ret (Some rtr2)
    \<and> map_option req_resource (request p) = Some (Some ''/fs/x'') \<and> flow_ready p
    \<and> hs_router_find_route_and_serve reference_libs list_vector (Some rtr1) p (connection [] [])
      = hs_router_find_route_and_serve reference_libs list_vector (Some rtr2) p (connection [] [])"
proof -
  obtain rtr1 where r1: "example_router reference_libs list_vector ''public'' (Some (hs_router_new list_vector)) = ret (Some rtr1)"
    using example_router_exists [OF list_vector_ok] by metis
  obtain rtr2 where r2: "example_router reference_libs list_vector ''private'' (Some (hs_router_new list_vector)) = ret (Some rtr2)"
    using example_router_exists [OF list_vector_ok] by metis
  let ?req = "(hs_types_http_request_new reference_libs)\<lparr>req_resource := Some ''/fs/x'', req_authorization := Some ''Basic x''\<rparr>"
  let ?p = "demo_flow\<lparr>request := Some ?req\<rparr>"
  have "flow_ready ?p" using demo_flow_entry(1) by (auto simp: flow_ready_def)
  with r1 r2 example_directory_protected [OF reference_ok(1) list_vector_ok r1 r2, of ?p ?req "connection [] []"] show ?thesis
    by (intro exI [of _ rtr1] exI [of _ rtr2] exI [of _ ?p]) (simp add: fs_authorization_def)
qed

section \<open>Every request is answered\<close>

interpretation log: route_handler L log_route_serve for L
  by unfold_locales (auto simp: log_route_serve_def intro: quiet_outcome split: option.splits)

lemma fs_library:
  "list_all (library_route L V) [auth_route L, directory_route L base_dir, files_route_of L base_dir]"
proof -
  have "hs_routes_fs_default_create_href L p b n \<noteq> None" for p b n
    by (simp add: hs_routes_fs_default_create_href_def split: option.split)
  then have "library_route L V (directory_route L base_dir)"
    by (auto simp: directory_route_def hs_routes_fs_directory_route_new_with_media_support_def library_route_def
        hs_routes_fs_directory_route_new_with_options_def hs_route_set_all_methods_def hs_route_new_def
        hs_routes_common_serve_all_route_new_def intro!: directories_route)
  moreover have "library_route L V (auth_route L)"
    by (simp add: auth_route_def library_route_def fs_basic_auth_def basic_auth_route)
  ultimately show ?thesis by (simp add: files_route_of_def library_route_path library_constructors)
qed

lemma example_library:
  assumes "vec_list V (router_routes fs_router) = [auth_route L, directory_route L base_dir, files_route_of L base_dir]"
  shows "list_all (library_route L V) (tl (front_routes L) @ [fs_route L V fs_router,
      the (hs_routes_redirection_route_new L (Some ''/fs'') (Some ''/fs/'')), hs_routes_error_404_not_found_route_new])"
proof -
  have "library_route L V (the home_route)"
    using library_constructors(10) [of L V "Some home_page" HS_MIME_TYPE_TEXT_HTML]
    by (auto simp: home_route_def hs_routes_static_html_route_new_def hs_routes_static_route_new_def library_route_path)
  moreover have "library_route L V (the (hs_routes_favicon_route_new L (Some icon) age))" for icon age
    using library_constructors(12) [of L V "Some icon" age] by (auto simp: hs_routes_favicon_route_new_def)
  moreover have "library_route L V (fs_route L V fs_router)"
    using library_constructors(14) [of L V fs_router] assms fs_library [of L V base_dir]
    by (auto simp: fs_route_def hs_router_as_route_def hs_route_set_all_methods_def library_route_path)
  moreover have "library_route L V (the (hs_routes_redirection_route_new L (Some ''/fs'') (Some ''/fs/'')))"
    using library_constructors(11) [of L V "Some ''/fs''" "Some ''/fs/''"]
    by (auto simp: hs_routes_redirection_route_new_def hs_routes_redirection_route_new_with_options_def)
  ultimately show ?thesis by (simp add: front_routes_def library_constructors)
qed

lemma fs_kept: "list_all (kept_by target) [auth_route L, directory_route L base_dir, files_route_of L base_dir]"
  by (simp add: kept_by_def auth_route_def directory_route_def files_route_of_def constructors hs_route_new_def
      hs_routes_common_serve_all_route_new_def hs_routes_fs_file_route_new_def hs_routes_fs_file_route_new_with_options_def
      hs_routes_fs_directory_route_new_with_media_support_def hs_routes_fs_directory_route_new_with_options_def
      basic_auth_keeps.request_keeping_axioms credentials_target [OF directory_keeps.request_keeping_axioms]
      credentials_target [OF file_keeps.request_keeping_axioms])

lemma others_kept:
  assumes "vector_ok V" and "vec_list V (router_routes fs_router) = [auth_route L, directory_route L base_dir, files_route_of L base_dir]"
  shows "list_all (kept_by target) (front_routes L @ [fs_route L V fs_router,
    the (hs_routes_redirection_route_new L (Some ''/fs'') (Some ''/fs/''))])"
proof -
  have "kept_by target (fs_route L V fs_router)"
    using router_keeps [OF assms(1), of fs_router "Some ''/fs/''" L, unfolded assms(2), OF fs_kept]
    by (simp add: kept_by_def fs_route_def constructors)
  moreover have "kept_by target (the (hs_routes_redirection_route_new L (Some ''/fs'') (Some ''/fs/'')))"
    by (simp add: kept_by_def constructors credentials_target [OF redirection_keeps.request_keeping_axioms])
  moreover have "list_all (kept_by target) (front_routes L)"
    using front_kept by (rule list.pred_mono_strong) (rule kept_target)
  ultimately show ?thesis by simp
qed

lemma example_handled:
  assumes "libs_ok L" and "vector_ok V"
    and "vec_list V (router_routes fs_router) = [auth_route L, directory_route L base_dir, files_route_of L base_dir]"
  shows "list_all (handled_by L) (front_routes L @ [fs_route L V fs_router,
      the (hs_routes_redirection_route_new L (Some ''/fs'') (Some ''/fs/''))])"
    "handled_by L hs_routes_error_404_not_found_route_new"
proof -
  have "handled_by L log_route"
    by (simp add: log_route_def hs_route_set_all_methods_def handled_by_def log.route_handler_axioms)
  moreover have "front_routes L = log_route # tl (front_routes L)" by (simp add: front_routes_def)
  moreover note library_routes_handle [OF assms(1,2) example_library [OF assms(3)]]
  ultimately show "list_all (handled_by L) (front_routes L @ [fs_route L V fs_router,
      the (hs_routes_redirection_route_new L (Some ''/fs'') (Some ''/fs/''))])"
    "handled_by L hs_routes_error_404_not_found_route_new"
    by (metis list.pred_inject(2) list_all_append)+
qed

interpretation log_runs: faultless_handler path log_route_serve for path
  by unfold_locales (auto simp: log_route_serve_def flow_ready_def flow_whole_def split: option.splits)

lemma fs_faultless:
  assumes "joins L"
  shows "list_all faultless [auth_route L, directory_route L base_dir, files_route_of L base_dir]"
proof -
  have "faultless (directory_route L base_dir)"
    by (simp add: directory_route_def hs_routes_fs_directory_route_new_with_media_support_def faultless_def
        hs_routes_fs_directory_route_new_with_options_def hs_route_new_def directory_runs [OF assms])
  then show ?thesis
    by (simp add: faultless_def auth_route_def files_route_of_def hs_routes_fs_file_route_new_def
        hs_routes_fs_file_route_new_with_options_def basic_auth_runs.faultless_handler_axioms file_runs.faultless_handler_axioms)
qed

lemma example_faultless:
  assumes "libs_ok L" and "vector_ok V" and "joins L"
    and "vec_list V (router_routes fs_router) = [auth_route L, directory_route L base_dir, files_route_of L base_dir]"
  shows "list_all faultless (front_routes L @ [fs_route L V fs_router,
      the (hs_routes_redirection_route_new L (Some ''/fs'') (Some ''/fs/'')), hs_routes_error_404_not_found_route_new])"
proof -
  have "faultless (fs_route L V fs_router)"
    using router_runs [OF assms(1,2), of fs_router "''/fs/''", unfolded assms(4),
        OF library_routes_handle [OF assms(1,2) fs_library] fs_faultless [OF assms(3)] fs_kept]
    by (simp add: fs_route_def faultless_def constructors)
  moreover have "list_all faultless (front_routes L)"
    by (simp add: front_routes_def faultless_def log_route_def constructors hs_routes_common_serve_all_route_new_def
      hs_route_new_def hs_routes_powered_by_route_new_def hs_routes_security_headers_route_new_def
      hs_routes_error_411_length_required_route_new_def hs_routes_payload_limit_route_new_def
      hs_routes_ratelimit_max_connection_requests_route_new_def hs_routes_ratelimit_max_connection_time_route_new_def
      log_runs.faultless_handler_axioms powered_by_runs.faultless_handler_axioms security_headers_runs.faultless_handler_axioms
      length_required_runs.faultless_handler_axioms payload_limit_runs.faultless_handler_axioms
      request_limit_runs.faultless_handler_axioms time_limit_runs.faultless_handler_axioms
      static_runs.faultless_handler_axioms favicon_runs.faultless_handler_axioms)
  ultimately show ?thesis
    by (simp add: faultless_def constructors hs_routes_error_404_not_found_route_new_def
      redirection_runs.faultless_handler_axioms not_found_runs.faultless_handler_axioms)
qed

text \<open>
  C5. The example answers every request. With the routes of the example, in their order, and its
  nested router, the dispatch of a parsed request that has a resource and a method the library knows
  gives it exactly one complete response: it
  returns, without a fault, reports that the request was served and has written one
  response to the connection, whatever that resource, the headers and the files are.
\<close>

theorem example_answers_every_request:
  fixes L :: "('sb, 'pv, 'cv, 'dt, 'sh) libs"
  assumes "libs_ok L" and "joins L" and "vector_ok V" and "example_router L V base_dir (Some (hs_router_new V)) = ret (Some rtr)"
    and "route_entry fd p w" and "flow_ready p" and "request p = Some req" and "req_method req \<noteq> HS_HTTP_METHOD_UNKNOWN"
  shows "\<exists>p1 w1. hs_router_find_route_and_serve L V (Some rtr) p w = ret (True, p1, w1) \<and> answered L fd w w1"
proof -
  obtain fs_router where fs: "vec_list V (router_routes fs_router) = [auth_route L, directory_route L base_dir, files_route_of L base_dir]"
    and routes: "vec_list V (router_routes rtr) = front_routes L @ fs_route L V fs_router #
       [the (hs_routes_redirection_route_new L (Some ''/fs'') (Some ''/fs/'')), hs_routes_error_404_not_found_route_new]"
    by (rule example_router_routes [OF assms(3,4)])
  let ?pre = "front_routes L @ [fs_route L V fs_router, the (hs_routes_redirection_route_new L (Some ''/fs'') (Some ''/fs/''))]"
  let ?last = "hs_routes_error_404_not_found_route_new :: ('sb, 'pv, 'cv, 'dt) route"
  note handled = example_handled [OF assms(1,3) fs]
  have fine: "list_all faultless ?pre" "faultless ?last" using example_faultless [OF assms(1,3,2) fs] by simp_all
  note kept = others_kept [OF assms(3) fs]
  obtain s p1 w1 where pre: "find_route_loop L (Some rtr) (map Some ?pre) p w = ret (s, p1, w1)"
    using find_route_loop_whole [OF assms(1) handled(1) fine(1) kept assms(5,6), where rtr = rtr] by (auto simp: whole_result_def)
  note o = find_route_loop_outcome [OF assms(1) handled(1) assms(5) pre]
  have whole: "find_route_loop L (Some rtr) (map Some (?pre @ [?last])) p w = bindR (find_route_loop L (Some rtr) (map Some ?pre) p w)
      (\<lambda>(served, p1, w1). if served then ret (True, p1, w1) else find_route_loop L (Some rtr) (map Some [?last]) p1 w1)"
    unfolding map_append [of Some ?pre] by (rule loop_append)
  have "\<exists>p2 w2. find_route_loop L (Some rtr) (map Some (?pre @ [?last])) p w = ret (True, p2, w2) \<and> answered L fd w w2"
  proof (cases s)
    case True
    then show ?thesis unfolding whole pre using o by simp
  next
    case False
    then have pre: "find_route_loop L (Some rtr) (map Some ?pre) p w = ret (False, p1, w1)" and q: "quiet fd p w p1 w1"
      using pre o by simp_all
    note same = find_route_loop_keeps [OF kept pre]
    have ready: "flow_ready p1" using quiet_ready [OF assms(5,6) q] same by simp
    note entry = quiet_entry [OF assms(5) q]
    from entry have open1: "\<not> flow_closed p1" "\<not> flow_done p1" by (simp_all add: route_entry_def)
    obtain req1 where req1: "request p1 = Some req1" "req_method req1 \<noteq> HS_HTTP_METHOD_UNKNOWN"
      using same assms(7,8) by (auto simp: target_def)
    obtain s2 p2 w2 where last: "hs_router_serve_route L (Some rtr) p1 (Some ?last) w1 = ret (s2, p2, w2)"
      using serve_route_whole [OF assms(1) entry ready handled(2) fine(2), where rtr = rtr] by (auto simp: whole_result_def)
    have s2 by (rule not_found_serves [OF ready open1 req1 last])
    with serve_route_outcome_any [OF assms(1) entry handled(2) last] have "answered L fd w w2"
      using quiet_answered [OF q] by simp
    with last \<open>s2\<close> show ?thesis unfolding whole pre by simp
  qed
  then show ?thesis by (simp add: hs_router_find_route_and_serve_def routes_of_vector [OF assms(3)] routes)
qed

theorem example_answers_every_request_witness:
  "\<exists>rtr p1 w1. example_router reference_libs list_vector ''.'' (Some (hs_router_new list_vector)) = ret (Some rtr)
    \<and> hs_router_find_route_and_serve reference_libs list_vector (Some rtr) demo_flow (connection [] []) = ret (True, p1, w1)
    \<and> answered reference_libs 3 (connection [] []) w1"
proof -
  obtain rtr where rtr: "example_router reference_libs list_vector ''.'' (Some (hs_router_new list_vector)) = ret (Some rtr)"
    using example_router_exists [OF list_vector_ok] by metis
  have "joins reference_libs" by (simp add: joins_def reference_libs_def list_join_def split: option.split)
  from example_answers_every_request [OF reference_libs_ok this list_vector_ok rtr, of 3 demo_flow "connection [] []"] rtr
  show ?thesis by (auto simp: demo_flow_entry hs_types_http_request_new_def)
qed

end
