(* ===== verification/Spec2Isabelle.thy ===== *)
theory Spec2Isabelle
  imports Constants Routes_Basic Routes_Security Routes_Session Routes_FS Library_Routes Server_Threads Request_Memory Server_Memory Example
begin

text \<open>
  A model of the embedded HTTP server library in \<open>src/src\<close> and \<open>src/include\<close>, and what makes it
  correct. The theories follow the files of the library; definitions keep the names of the C
  functions, without the underscore that marks the static ones.

  \<^bold>\<open>How the code is read.\<close> A struct is a record, an enum a datatype, a NULL pointer \<open>None\<close>, a string a
  list of characters, \<open>size_t\<close> a word of 64 bits where it can wrap. State is passed explicitly:
  \<open>world\<close> (theory \<open>World\<close>) is the table of descriptors with the streams behind them, the files, the
  clock and \<open>rand\<close>; what a peer sends, with its failures and its silence, and what the kernel answers
  are scripts in it, so that one world is one execution. Files are written through the buffers of
  \<open>stdio\<close>, of any size, to a disk that can fill up; \<open>fflush\<close> and \<open>fclose\<close> can be the ones to notice. A result of type \<open>run\<close> is \<open>None\<close> when the code does not return, \<open>ub f\<close> when
  it runs into undefined behaviour of the kind \<open>f\<close> (a store outside of an array, a NULL pointer, a
  released session), and \<open>ret x\<close> otherwise. Loops that depend on a peer are \<open>partial_function\<close>s, so
  that their return is a theorem; there is no fuel. So is the release of routers, whose recursion
  follows pointers. Loops over data are structural or come with a measure. Most definitions see values; the memory behind them has definitions of its own, with the
  suffix \<open>_mem\<close>, on a heap of blocks.

  \<^bold>\<open>Theories.\<close>
  \<^item> \<open>Prelude\<close>: runs and faults, the parts of the C library on strings and numbers (\<open>atoi\<close>, \<open>strchr\<close>,
    decimal printing), CRLF search.
  \<^item> \<open>World\<close>, \<open>Structs\<close>: the operating system, the plain structs and enums.
  \<^item> \<open>External_Libs\<close>: the external C libraries of the build (string functions, string buffers,
    vectors, hash tables, files, ini) and OpenSSL as a record of functions that every definition takes, the
    documented behaviour the server relies on as predicates (\<open>libs_ok\<close>, \<open>fsio_ok\<close>, \<open>ini_ok\<close>), and an
    instance (\<open>reference_libs\<close>) that satisfies them.
  \<^item> \<open>Keyed_Store\<close>: the locale of containers with keys, interpreted by \<open>Types_Array\<close>
    (\<open>hs_types_array.c\<close>) and \<open>Types_Cookie\<close> (\<open>hs_types_cookie.c\<close>).
  \<^item> \<open>Sockets\<close> (\<open>hs_socket.c\<close>), \<open>IO\<close> (\<open>hs_io.c\<close>), \<open>Constants\<close> (\<open>hs_constants.c\<close>), \<open>Types\<close>
    (\<open>hs_types.c\<close>), \<open>Parser\<close> (\<open>hs_parser.c\<close>), \<open>Route\<close> (\<open>hs_route.c\<close>), \<open>Router\<close> (\<open>hs_router.c\<close>).
  \<^item> \<open>Routes_Basic\<close> (common, error, static, redirection, powered by, payload limit, rate limit,
    favicon), \<open>Routes_Security\<close>, \<open>Routes_Session\<close>, \<open>Routes_FS\<close>: the files \<open>hs_routes_*.c\<close>.
  \<^item> \<open>OpenSSL\<close> (\<open>hs_openssl.c\<close>), \<open>Server\<close> (\<open>hs_server.c\<close>), \<open>Server_Threads\<close> (the same listen loop and
    its workers as interleaved steps).
  \<^item> \<open>Serving\<close>, \<open>Liveness\<close>, \<open>Library_Routes\<close>, \<open>Route_Contracts\<close>: lemmas over several components, used below.
  \<^item> \<open>Example\<close>: \<open>src/examples/example.c\<close>, the program that puts the library together.
  \<^item> \<open>C_Heap\<close>: blocks, \<open>malloc\<close> and \<open>free\<close>, and the locale of owners: which blocks a pointer is responsible
    for, with the release function that frees exactly those. \<open>Memory\<close>: the release functions of the
    structs, each shown to be an owner. \<open>Ownership\<close>: their constructors. \<open>Ownership_Ops\<close>: the containers
    of pairs and cookies on the heap. \<open>Parser_Memory\<close>, \<open>Request_Memory\<close>: \<open>hs_parser.c\<close> on the heap.
    \<open>Routes_Memory\<close>: the release of routes and of routers, which may be nested. \<open>Sites_Memory\<close>: their
    constructors, and the trees of routes built with them. \<open>Server_Memory\<close>: \<open>hs_server.c\<close> on the heap.

  \<^bold>\<open>How the parts interact.\<close> \<open>hs_server_serve\<close> opens the listening socket and runs the listen loop, which
  accepts a connection and passes it to the connection handler, in place or through the pool. The
  handler runs \<open>hs_router_serve_forever\<close>: the loop reads a request (\<open>hs_parser_parse_request\<close>, which
  reads lines with \<open>hs_io_read_line\<close> through \<open>hs_socket_read\<close>), tries the routes in order, writes the
  response of the first that answers, and runs the callbacks. A route's serve function takes the
  path of its route, the flow of the request and the world, and its extension is closed over.
  Contracts connect routes and router. \<open>route_handler\<close> (in \<open>Router\<close>): a serve function leaves the
  connection alone, or has written one whole response and says so. \<open>returning_handler\<close> (in
  \<open>Liveness\<close>): it returns, and raises nothing of what is left to read. \<open>request_keeping\<close> and
  \<open>faultless_handler\<close> (in \<open>Route_Contracts\<close>): what it leaves of a request it lets go on, and that it does
  not fault. Routes of the library and the router itself interpret them, so routers can be nested.

  \<^bold>\<open>What is shown.\<close> Readers and writers (\<open>IO\<close>): what they deliver from smooth streams (below), however
  those are segmented; where they fault, block, resend or misreport. Parser: the request as a function
  of the bytes of a smooth stream; printing and parsing URLs
  and cookies; the query string against a reference. Payloads (\<open>Types\<close>): read once; written as far as the
  disk has room, or removed. Router: path coverage, prefixes, order of routes and of callbacks, the response as
  text. Routes: what is sent, which files can be reached, who is let through, what a session keeps.
  Server: what a run leaves behind, the TLS context freed once, who may stop it. Across them: a site as
  the map from paths to pages, for whole connections of GET requests without payload; a page from the
  bytes that arrive, in smooth segments, to the bytes
  sent; at most one answer to a request; and the end of every connection whose peer sends finitely
  much and does not leave the server waiting. The example: every request with a resource and a known
  method is answered, and its directory does not show without the credentials. Memory: the heap code
  computes what the value code says, releases free exactly what is owned, a request gives back all it
  took, except the strings that repeated headers overwrite and the copy of a target without resource,
  and a server with its routes gives back everything.

  \<^bold>\<open>Bounds.\<close> The local arrays have 256 bytes (\<open>HS_IO_READ_BUFFER_SIZE\<close>), and \<open>smooth\<close> describes the peers
  whose segments stay below that, carry no NUL and do not fail; what happens beyond is stated for
  \<open>hs_io_read_line\<close> (\<open>hs_io_read_line_overflow\<close>, \<open>hs_io_read_line_blocks\<close>), and the theorems about the end of
  connections do without it. \<open>steady\<close> allows segments of any length and content. \<open>answering\<close>: the peer is
  not silent, or there is a receive timeout. \<open>eager\<close> describes a kernel that takes every write in full.

  \<^bold>\<open>Not modelled.\<close> Symbolic links; writes that the kernel never answers; a user's release function for
  the context of a session route in the trees of \<open>Sites_Memory\<close>; the memory of sockets and of buffers that do not leave a function; the functions
  behind the external libraries; connection handlers, listen functions and loops that a user puts in
  place of those of the library; the builds
  without TLS or threads; what the example prints; \<open>src/tests\<close>, which only call the library.
\<close>

section \<open>A page and its absence\<close>

definition page_text :: "string \<Rightarrow> string" where
  \<comment> \<open>the response with an HTML page on a connection that is kept\<close>
  "page_text html = ''HTTP/1.1 200 200'' @ [CR, LF] @ ''Connection: keep-alive'' @ [CR, LF]
     @ ''Content-Type: text/html'' @ [CR, LF] @ ''Content-Length: '' @ show_nat (length html) @ [CR, LF, CR, LF] @ html"

definition not_found_text :: string where
  "not_found_text = ''HTTP/1.1 404 404'' @ [CR, LF] @ ''Connection: keep-alive'' @ [CR, LF]
     @ ''Content-Length: 0'' @ [CR, LF, CR, LF]"

definition page_route :: "string \<Rightarrow> string \<Rightarrow> ('sb, 'pv, 'cv, 'dt) route" where
  \<comment> \<open>the static route for a page, mounted under its path\<close>
  "page_route path html = (the (hs_routes_static_html_route_new (Some html)))\<lparr>route_path := Some (CHR ''/'' # path)\<rparr>"

lemma empty_new:
  assumes "libs_ok L"
  shows "header_pairs L (resp_headers (hs_types_http_response_new L)) = []"
    and "cookies_of L (resp_cookies (hs_types_http_response_new L)) = []"
  using vector_laws(3) [OF libs_ok_parts(3) [OF assms]] vector_laws(3) [OF libs_ok_parts(4) [OF assms]]
  by (simp_all add: hs_types_http_response_new_def header_pairs_def cookies_of_def array_pairs_def cookie_list_def
      hs_types_array_string_pair_new_def hs_types_cookies_new_def)

lemma codes:
  "show_nat 200 = ''200''" "show_nat 404 = ''404''"
  "hs_constants_mime_type_to_string HS_MIME_TYPE_TEXT_HTML = Some ''text/html''"
  "hs_constants_mime_type_to_string HS_MIME_TYPE_NONE = None"
  by code_simp+

lemma page_response:
  assumes "libs_ok L"
  shows "response_text L ((hs_types_http_response_new L)\<lparr>resp_code := HS_HTTP_RESPONSE_CODE_OK, resp_content_string := Some html,
      resp_mime_type := HS_MIME_TYPE_TEXT_HTML\<rparr>) False w = page_text html"
  using empty_new [OF assms]
  by (simp add: response_text_def common_header_text_def content_type_text_def content_length_text_def content_text_def
      typed_response_def page_text_def codes)

lemma not_found_response:
  assumes "libs_ok L"
  shows "response_text L ((hs_types_http_response_new L)\<lparr>resp_code := HS_HTTP_RESPONSE_CODE_NOT_FOUND\<rparr>) False w = not_found_text"
  using empty_new [OF assms]
  by (simp add: response_text_def common_header_text_def content_type_text_def content_length_text_def content_text_def
      typed_response_def not_found_text_def codes)
    (simp add: hs_types_http_response_new_def codes)

lemma page_route_get:
  "serves_get (page_route path html) path"
  "serve (page_route path html) = Some (hs_routes_static_serve (Some \<lparr>static_content = html, static_mime_type = HS_MIME_TYPE_TEXT_HTML\<rparr>))"
  by (simp_all add: serves_get_def page_route_def hs_routes_static_html_route_new_def hs_routes_static_route_new_def
      hs_route_new_def covers_def)

lemma page_serve:
  assumes "response p = Some (hs_types_http_response_new L)"
  shows "hs_routes_static_serve (Some \<lparr>static_content = html, static_mime_type = HS_MIME_TYPE_TEXT_HTML\<rparr>) q p w
    = ret (HS_SERVE_FLOW_RESPONSE_DONE, p\<lparr>response := Some ((hs_types_http_response_new L)\<lparr>resp_code := HS_HTTP_RESPONSE_CODE_OK,
        resp_content_string := Some html, resp_mime_type := HS_MIME_TYPE_TEXT_HTML\<rparr>)\<rparr>, w)"
  using assms by (simp add: hs_routes_static_serve_def respond_def hs_types_http_response_new_def)

lemma not_found_serve:
  assumes "response p = Some (hs_types_http_response_new L)"
  shows "hs_routes_404_not_found_serve q p w = ret (HS_SERVE_FLOW_RESPONSE_DONE,
    p\<lparr>response := Some ((hs_types_http_response_new L)\<lparr>resp_code := HS_HTTP_RESPONSE_CODE_NOT_FOUND\<rparr>)\<rparr>, w)"
  using assms by (simp add: hs_routes_404_not_found_serve_def respond_def)

lemma no_content_file [simp]: "resp_content_file (hs_types_http_response_new L) = None"
  by (simp add: hs_types_http_response_new_def)

lemma page_route_serves [simp]: "serves_get (page_route path html) q \<longleftrightarrow> path = q"
  by (auto simp: serves_get_def page_route_def hs_routes_static_html_route_new_def hs_routes_static_route_new_def
      hs_route_new_def covers_def)

lemma not_found_route_get:
  "serves_get hs_routes_error_404_not_found_route_new path"
  "serve hs_routes_error_404_not_found_route_new = Some hs_routes_404_not_found_serve"
  by (simp_all add: serves_get_def hs_routes_error_404_not_found_route_new_def hs_routes_common_serve_all_route_new_def
      hs_route_set_all_methods_def hs_route_new_def)

section \<open>A site\<close>

definition site_routes :: "(string \<times> string) list \<Rightarrow> ('sb, 'pv, 'cv, 'dt) route list" where
  \<comment> \<open>the pages of a site, and 404 for everything else\<close>
  "site_routes site = map (\<lambda>(path, html). page_route path html) site @ [hs_routes_error_404_not_found_route_new]"

definition site_answer :: "(string \<times> string) list \<Rightarrow> string \<Rightarrow> string" where
  \<comment> \<open>what a site means: the map from a path to its page\<close>
  "site_answer site path = (case map_of site path of Some html \<Rightarrow> page_text html | None \<Rightarrow> not_found_text)"

lemma site_routes_simps:
  "site_routes [] = [hs_routes_error_404_not_found_route_new]"
  "site_routes ((path, html) # site) = page_route path html # site_routes site"
  by (simp_all add: site_routes_def)

lemma site_route:
  fixes L :: "('sb, 'pv, 'cv, 'dt, 'sh) libs"
  assumes "libs_ok L"
  obtains pre rt post h resp where "(site_routes site :: ('sb, 'pv, 'cv, 'dt) route list) = pre @ rt # post"
    and "list_all (\<lambda>r. \<not> serves_get r path) pre" and "serves_get rt path" and "serve rt = Some h"
    and "\<And>p w. response p = Some (hs_types_http_response_new L) \<Longrightarrow>
      h (route_path rt) p w = ret (HS_SERVE_FLOW_RESPONSE_DONE, p\<lparr>response := Some resp\<rparr>, w)"
    and "\<And>w. response_text L resp False w = site_answer site path"
proof (induction site arbitrary: thesis)
  case Nil
  show ?case
    by (rule Nil [of "[]" _ "[]", OF _ _ not_found_route_get,
            of "(hs_types_http_response_new L)\<lparr>resp_code := HS_HTTP_RESPONSE_CODE_NOT_FOUND\<rparr>"])
      (simp_all add: site_routes_simps not_found_serve site_answer_def not_found_response [OF assms])
next
  case (Cons e site)
  obtain q html where e: "e = (q, html)" by (cases e)
  show ?case
  proof (cases "q = path")
    case True
    let ?resp = "(hs_types_http_response_new L)\<lparr>resp_code := HS_HTTP_RESPONSE_CODE_OK, resp_content_string := Some html,
      resp_mime_type := HS_MIME_TYPE_TEXT_HTML\<rparr>"
    show ?thesis
      by (rule Cons.prems [of "[]" "page_route path html" "site_routes site", OF _ _ page_route_get, of ?resp])
        (simp_all add: e True site_routes_simps page_serve site_answer_def page_response [OF assms])
  next
    case False
    obtain pre rt post h resp where "(site_routes site :: ('sb, 'pv, 'cv, 'dt) route list) = pre @ rt # post"
      "list_all (\<lambda>r. \<not> serves_get r path) pre" "serves_get rt path" "serve rt = Some h"
      "\<And>p w. response p = Some (hs_types_http_response_new L) \<Longrightarrow>
        h (route_path rt) p w = ret (HS_SERVE_FLOW_RESPONSE_DONE, p\<lparr>response := Some resp\<rparr>, w)"
      "\<And>w. response_text L resp False w = site_answer site path"
      using Cons.IH by blast
    then show ?thesis
      using False by (intro Cons.prems [of "page_route q html # pre" rt post h resp])
        (simp_all add: e site_routes_simps site_answer_def)
  qed
qed

lemma stream_fields: "st\<lparr>sent := a, incoming := b\<rparr> = st\<lparr>incoming := b, sent := a\<rparr>"
  by (cases st) simp

lemma site_request:
  fixes L :: "('sb, 'pv, 'cv, 'dt, 'sh) libs"
  assumes "libs_ok L" and "vector_ok V" and "vec_list V (router_routes rtr) = site_routes site" and "support_keep_alive rtr"
    and "plain_socket (conn_socket c) fd" and "wscript st = []" and "requested L path q"
  shows "hs_router_serve_next L V (Some rtr) (Some c) (arrives fd st w (segments_of q @ es))
    = ret (True, Some c, arrives fd (st\<lparr>sent := sent st @ site_answer site path\<rparr>) w es)"
proof -
  from site_route [OF assms(1), of site path] obtain pre rt post h resp where
    rt: "(site_routes site :: ('sb, 'pv, 'cv, 'dt) route list) = pre @ rt # post"
      "list_all (\<lambda>r. \<not> serves_get r path) pre" "serves_get rt path" "serve rt = Some h"
    and h: "\<And>p w. response p = Some (hs_types_http_response_new L) \<Longrightarrow>
        h (route_path rt) p w = ret (HS_SERVE_FLOW_RESPONSE_DONE, p\<lparr>response := Some resp\<rparr>, w)"
    and answer: "\<And>w. response_text L resp False w = site_answer site path" by metis
  obtain req where parse: "hs_parser_parse_request L (conn_socket c) (arrives fd st w (segments_of q @ es)) = ret (Some req, arrives fd st w es)"
    and req: "asks req path"
    by (rule parse_requested [OF assms(1,5,7)])
  have "eager fd (arrives fd st w es)" using assms(6) by (simp add: eager_def arrives_def)
  from serve_next_parsed [OF assms(1,2,5) this parse assms(3) [unfolded rt(1)] assms(4) rt(2-4) h req] show ?thesis
    by (simp add: answer after_write_def arrives_def stream_fields)
qed

lemma site_loop:
  fixes L :: "('sb, 'pv, 'cv, 'dt, 'sh) libs"
  assumes "libs_ok L" and "vector_ok V" and "vec_list V (router_routes rtr) = site_routes site" and "support_keep_alive rtr"
    and "plain_socket socket fd" and "conn_socket c = socket" and "wscript st = []" and "list_all2 (requested L) paths reqs"
  shows "serve_forever_loop L V (Some rtr) socket None (Some c) (arrives fd st w (concat (map segments_of reqs)))
    = ret (arrives fd (st\<lparr>sent := sent st @ concat (map (site_answer site) paths)\<rparr>) w [])"
  using assms(8,6,7)
proof (induction paths reqs arbitrary: c st rule: list_all2_induct)
  case Nil
  have "hs_parser_parse_request L socket (arrives fd st w []) = ret (None, arrives fd st w [])"
    by (rule parse_end_of_stream [OF assms(1,5), of _ "st\<lparr>incoming := []\<rparr>"]) (simp_all add: arrives_def)
  then show ?case
    using Nil.prems plain_socket_simps(2) [OF assms(5)]
    by (simp add: serve_forever_loop.simps [of L V "Some rtr" socket None "Some c"] hs_router_serve_next_def)
next
  case (Cons path paths q reqs)
  let ?c = "c\<lparr>request_counter := request_counter c + 1\<rparr>" and ?st = "st\<lparr>sent := sent st @ site_answer site path\<rparr>"
  have "hs_router_serve_next L V (Some rtr) (Some ?c) (arrives fd st w (segments_of q @ concat (map segments_of reqs)))
      = ret (True, Some ?c, arrives fd ?st w (concat (map segments_of reqs)))"
    using Cons.prems Cons.hyps(1) assms(5) by (intro site_request [OF assms(1-4)]) simp_all
  with Cons.IH [of ?c ?st] Cons.prems show ?case
    by (simp add: serve_forever_loop.simps [of L V "Some rtr" socket None "Some c"])
qed

section \<open>Properties\<close>

text \<open>
  C3. A connection to a site. With the static routes of the pages of a site and the route for 404
  behind them, \<open>hs_router_serve_forever\<close> implements the map from paths to pages. The peer sends GET
  requests for any paths that keep the connection and have no payload (\<open>requested\<close>): each has a request
  line and header lines of its choice for which the parser makes such a request, and arrives in any
  segments that are shorter than the read buffer and free of NUL, none of which carries bytes of two
  requests. Then the loop sends exactly the pages of the paths that are in the site and the response
  404 for the others, in the order of the requests, reads everything, changes nothing else and
  returns at the end of the stream.
\<close>

theorem site_served:
  assumes "libs_ok L" and "vector_ok V" and "vec_list V (router_routes rtr) = site_routes site" and "support_keep_alive rtr"
    and "plain_socket socket fd" and "fds w fd = Some st" and "wscript st = []"
    and "list_all2 (requested L) paths reqs" and "incoming st = concat (map segments_of reqs)"
  shows "hs_router_serve_forever L V (Some rtr) socket None w = ret (True,
    w\<lparr>fds := (fds w)(fd \<mapsto> st\<lparr>incoming := [], sent := sent st @ concat (map (site_answer site) paths)\<rparr>)\<rparr>)"
proof -
  have "st\<lparr>incoming := concat (map segments_of reqs)\<rparr> = st" using assms(9) by (cases st) simp
  then have "w = arrives fd st w (concat (map segments_of reqs))" using assms(6) by (simp add: arrives_def fun_upd_idem)
  with site_loop [OF assms(1-5) _ assms(7,8), of _ w] plain_socket_simps(2) [OF assms(5)] show ?thesis
    by (simp add: hs_router_serve_forever_def hs_types_server_connection_state_new_def Let_def)
      (simp add: arrives_def stream_fields)
qed

definition demo_site :: "(string \<times> string) list" where
  "demo_site = [(''a'', ''<p>''), (''b'', ''<b>'')]"

definition demo_site_router ::
  "((string, HSArrayPair list, HSCookie list, (string \<times> (string \<times> string) list route_value) list) route list) HSRouter" where
  "demo_site_router = \<lparr>router_routes = site_routes demo_site, support_keep_alive = True\<rparr>"

definition demo_requests :: "sent_request list" where
  \<comment> \<open>three requests, the first one with a query and more headers, and in three segments\<close>
  "demo_requests =
     [(''GET /b?x=1 HTTP/1.1'', [''Host: a'', ''Connection: keep-alive'', ''Accept: text/html''],
         [''GET /b?x=1 HT'', ''TP/1.1'' @ [CR, LF] @ ''Host: a'' @ [CR],
          [LF] @ ''Connection: keep-alive'' @ [CR, LF] @ ''Accept: text/html'' @ [CR, LF, CR, LF]]),
      (''GET /x HTTP/1.1'', [''Connection: keep-alive''], [get_request_text ''x'']),
      (''GET /a HTTP/1.1'', [''Connection: keep-alive''], [get_request_text ''a''])]"

theorem site_served_witness:
  "\<exists>w1. hs_router_serve_forever reference_libs list_vector (Some demo_site_router) connection_socket None
        (connection (concat (map segments_of demo_requests)) []) = ret (True, w1)
    \<and> sent_bytes 3 w1 = page_text ''<b>'' @ not_found_text @ page_text ''<p>''"
proof -
  let ?paths = "[''b'', ''x'', ''a'']"
  have "vec_list list_vector (router_routes demo_site_router) = site_routes demo_site" "support_keep_alive demo_site_router"
    by (simp_all add: demo_site_router_def vec_list_def list_vector_def List.map_filter_simps upt_rec site_routes_def demo_site_def)
  moreover have "list_all2 (requested reference_libs) ?paths demo_requests" by code_simp
  moreover have "concat (map (site_answer demo_site) ?paths) = page_text ''<b>'' @ not_found_text @ page_text ''<p>''"
    by (simp add: site_answer_def demo_site_def)
  ultimately show ?thesis
    using site_served [OF reference_libs_ok list_vector_ok _ _ connection_simps(1,4), where rtr = demo_site_router
        and site = demo_site and paths = ?paths and reqs = demo_requests]
    by (simp add: sent_bytes_def)
qed

text \<open>
  A page, from the bytes that arrive to the bytes that are sent. When a peer sends a request for
  a path, in any segments, and the first route that serves the path is the static route of a page,
  \<open>hs_router_serve_next\<close> sends exactly the status line, the headers and the page, keeps the connection
  and reports that it can be used further.
\<close>

theorem static_page_served:
  assumes "libs_ok L" and "vector_ok V" and "plain_socket (conn_socket c) fd" and "smooth HS_IO_READ_BUFFER_SIZE fd w" and "eager fd w"
    and "stream_bytes fd w = get_request_text path @ behind" and "plain_path path"
    and "vec_list V (router_routes rtr) = pre @ page_route path html # post" and "support_keep_alive rtr"
    and "list_all (\<lambda>r. \<not> serves_get r path) pre"
  shows "\<exists>w1. hs_router_serve_next L V (Some rtr) (Some c) w = ret (True, Some c, w1)
    \<and> sent_bytes fd w1 = sent_bytes fd w @ page_text html"
proof -
  let ?resp = "(hs_types_http_response_new L)\<lparr>resp_code := HS_HTTP_RESPONSE_CODE_OK, resp_content_string := Some html,
      resp_mime_type := HS_MIME_TYPE_TEXT_HTML\<rparr>"
  have "\<exists>w1. hs_router_serve_next L V (Some rtr) (Some c) w = ret (True, Some c, w1)
    \<and> sent_bytes fd w1 = sent_bytes fd w @ response_text L ?resp False w
    \<and> (\<exists>req w0. hs_parser_parse_request L (conn_socket c) w = ret (req, w0) \<and> stream_bytes fd w1 = stream_bytes fd w0)"
    by (rule serve_next_get [OF assms page_route_get])
      (simp_all add: page_serve)
  then show ?thesis unfolding page_response [OF assms(1)] by blast
qed

definition demo_page_router ::
  "((string, HSArrayPair list, HSCookie list, (string \<times> (string \<times> string) list route_value) list) route list) HSRouter" where
  \<comment> \<open>a limit for POST, a page and the route for 404\<close>
  "demo_page_router = \<lparr>router_routes = [hs_routes_error_411_length_required_route_new reference_libs,
      page_route ''a'' ''<p>'', hs_routes_error_404_not_found_route_new], support_keep_alive = True\<rparr>"

definition demo_conn :: HSServerConnectionState where
  "demo_conn = \<lparr>conn_socket = connection_socket, request_counter = 1, creation_time = 0\<rparr>"

lemma demo_page_router_simps:
  "vec_list list_vector (router_routes demo_page_router) = [hs_routes_error_411_length_required_route_new reference_libs,
      page_route ''a'' ''<p>'', hs_routes_error_404_not_found_route_new]"
  "support_keep_alive demo_page_router" "plain_socket (conn_socket demo_conn) 3"
  "\<not> serves_get (hs_routes_error_411_length_required_route_new L) path"
  by (simp_all add: demo_page_router_def demo_conn_def vec_list_def list_vector_def List.map_filter_simps upt_rec
      serves_get_def hs_routes_error_411_length_required_route_new_def hs_route_new_def)

lemma demo_request:
  "smooth HS_IO_READ_BUFFER_SIZE 3 (connection [Arrive (get_request_text ''a'')] [])"
  "smooth HS_IO_READ_BUFFER_SIZE 3 (connection [Arrive (get_request_text ''a'' @ get_request_text ''b'')] [])"
  "smooth HS_IO_READ_BUFFER_SIZE 3 (connection [Arrive (get_request_text ''b'')] [])"
  "plain_path ''a''" "plain_path ''b''"
  by code_simp+

theorem static_page_served_witness:
  "\<exists>w1. hs_router_serve_next reference_libs list_vector (Some demo_page_router) (Some demo_conn)
        (connection [Arrive (get_request_text ''a'')] []) = ret (True, Some demo_conn, w1)
    \<and> sent_bytes 3 w1 = page_text ''<p>''"
  using static_page_served [OF reference_libs_ok list_vector_ok demo_page_router_simps(3) demo_request(1) _ _ demo_request(4),
      of "[]" demo_page_router "[hs_routes_error_411_length_required_route_new reference_libs]" "''<p>''"
        "[hs_routes_error_404_not_found_route_new]"]
  by (simp add: demo_page_router_simps sent_bytes_def)

text \<open>
  A path that no route serves. When the routes in front of the route for 404 do not serve the
  path of a request, exactly the response 404 is sent, and the connection is kept.
\<close>

theorem unserved_path_is_404:
  assumes "libs_ok L" and "vector_ok V" and "plain_socket (conn_socket c) fd" and "smooth HS_IO_READ_BUFFER_SIZE fd w" and "eager fd w"
    and "stream_bytes fd w = get_request_text path @ behind" and "plain_path path"
    and "vec_list V (router_routes rtr) = pre @ hs_routes_error_404_not_found_route_new # post" and "support_keep_alive rtr"
    and "list_all (\<lambda>r. \<not> serves_get r path) pre"
  shows "\<exists>w1. hs_router_serve_next L V (Some rtr) (Some c) w = ret (True, Some c, w1)
    \<and> sent_bytes fd w1 = sent_bytes fd w @ not_found_text"
proof -
  let ?resp = "(hs_types_http_response_new L)\<lparr>resp_code := HS_HTTP_RESPONSE_CODE_NOT_FOUND\<rparr>"
  have "\<exists>w1. hs_router_serve_next L V (Some rtr) (Some c) w = ret (True, Some c, w1)
    \<and> sent_bytes fd w1 = sent_bytes fd w @ response_text L ?resp False w
    \<and> (\<exists>req w0. hs_parser_parse_request L (conn_socket c) w = ret (req, w0) \<and> stream_bytes fd w1 = stream_bytes fd w0)"
    by (rule serve_next_get [OF assms not_found_route_get])
      (simp_all add: not_found_serve)
  then show ?thesis unfolding not_found_response [OF assms(1)] by blast
qed

theorem unserved_path_is_404_witness:
  "\<exists>w1. hs_router_serve_next reference_libs list_vector (Some demo_page_router) (Some demo_conn)
        (connection [Arrive (get_request_text ''b'')] []) = ret (True, Some demo_conn, w1)
    \<and> sent_bytes 3 w1 = not_found_text"
proof -
  show ?thesis
    using unserved_path_is_404 [OF reference_libs_ok list_vector_ok demo_page_router_simps(3) demo_request(3) _ _ demo_request(5),
        of "[]" demo_page_router "[hs_routes_error_411_length_required_route_new reference_libs, page_route ''a'' ''<p>'']" "[]"]
    by (simp add: demo_page_router_simps sent_bytes_def)
qed

text \<open>
  C38. Pipelined requests are lost. The bytes that arrive in one segment behind the header of a
  request, a complete second request for example, are read into the work buffer of the parser,
  which is given up with the request: after the answer nothing is left to read.
\<close>

theorem pipelined_bytes_dropped:
  assumes "libs_ok L" and "vector_ok V" and "plain_socket (conn_socket c) fd"
    and "fds w fd = Some st" and "incoming st = [Arrive (get_request_text path @ behind)]" and "wscript st = []"
    and "length (get_request_text path @ behind) < HS_IO_READ_BUFFER_SIZE" and "nul_free (get_request_text path @ behind)"
    and "plain_path path" and "vec_list V (router_routes rtr) = page_route path html # post" and "support_keep_alive rtr"
  shows "\<exists>w1. hs_router_serve_next L V (Some rtr) (Some c) w = ret (True, Some c, w1)
    \<and> sent_bytes fd w1 = sent_bytes fd w @ page_text html \<and> stream_bytes fd w1 = []"
proof -
  let ?resp = "(hs_types_http_response_new L)\<lparr>resp_code := HS_HTTP_RESPONSE_CODE_OK, resp_content_string := Some html,
      resp_mime_type := HS_MIME_TYPE_TEXT_HTML\<rparr>"
  have "get_request_text path \<noteq> []" by (simp add: get_request_text_def)
  with assms(4-8) have w: "smooth HS_IO_READ_BUFFER_SIZE fd w" "eager fd w" "stream_bytes fd w = get_request_text path @ behind"
    by (simp_all add: smooth_def eager_def stream_bytes_def)
  have "\<exists>w1. hs_router_serve_next L V (Some rtr) (Some c) w = ret (True, Some c, w1)
    \<and> sent_bytes fd w1 = sent_bytes fd w @ response_text L ?resp False w
    \<and> (\<exists>req w0. hs_parser_parse_request L (conn_socket c) w = ret (req, w0) \<and> stream_bytes fd w1 = stream_bytes fd w0)"
    by (rule serve_next_get [OF assms(1-3) w assms(9), where pre = "[]" and post = post, OF _ assms(11) _ page_route_get])
      (simp_all add: assms(10) page_serve)
  moreover have "returns (hs_parser_parse_request L (conn_socket c) w) (\<lambda>(req, w0). stream_bytes fd w0 = [])"
    using assms(7) by (intro parse_request_drains [OF assms(1,3,4,5)]) simp
  ultimately show ?thesis unfolding page_response [OF assms(1)] by fastforce
qed

theorem pipelined_bytes_dropped_witness:
  "\<exists>w1. hs_router_serve_next reference_libs list_vector
        (Some \<lparr>router_routes = [page_route ''a'' ''<p>'', page_route ''b'' ''<b>''], support_keep_alive = True\<rparr>) (Some demo_conn)
        (connection [Arrive (get_request_text ''a'' @ get_request_text ''b'')] []) = ret (True, Some demo_conn, w1)
    \<and> sent_bytes 3 w1 = page_text ''<p>'' \<and> stream_bytes 3 w1 = []"
proof -
  let ?r = "\<lparr>router_routes = [page_route ''a'' ''<p>'', page_route ''b'' ''<b>''], support_keep_alive = True\<rparr>"
  have "vec_list list_vector (router_routes ?r) = [page_route ''a'' ''<p>'', page_route ''b'' ''<b>'']"
    by (simp add: vec_list_def list_vector_def List.map_filter_simps upt_rec)
  moreover have "length (get_request_text ''a'' @ get_request_text ''b'') < HS_IO_READ_BUFFER_SIZE"
    "nul_free (get_request_text ''a'' @ get_request_text ''b'')" by code_simp+
  ultimately show ?thesis
    using pipelined_bytes_dropped [OF reference_libs_ok list_vector_ok demo_page_router_simps(3) _ _ _ _ _ demo_request(4),
        where behind = "get_request_text ''b''" and rtr = ?r and html = "''<p>''" and post = "[page_route ''b'' ''<b>'']"
          and w = "connection [Arrive (get_request_text ''a'' @ get_request_text ''b'')] []"]
    by (simp add: sent_bytes_def)
qed

text \<open>
  C4. One answer. For a router of the routes of the library, nested routers included, dispatching a
  request either writes exactly one complete response to the connection and reports that, or
  reports that nothing was served and has written nothing.
\<close>

theorem dispatch_answers_once:
  assumes "libs_ok L" and "vector_ok V" and "list_all (library_route L V) (vec_list V (router_routes rtr))"
    and "route_entry fd p w" and "hs_router_find_route_and_serve L V (Some rtr) p w = ret (served, p1, w1)"
  shows "if served then answered L fd w w1 else quiet fd p w p1 w1"
  by (rule find_route_outcome [OF assms(1,2) library_routes_handle [OF assms(1-3)] assms(4,5)])

lemma demo_page_router_library: "list_all (library_route reference_libs list_vector) (vec_list list_vector (router_routes demo_page_router))"
proof -
  have "library_route reference_libs list_vector (page_route ''a'' ''<p>'')"
    unfolding library_route_def page_route_get by (simp add: static_route)
  then show ?thesis by (simp add: demo_page_router_simps library_constructors)
qed

theorem dispatch_answers_once_witness:
  "\<exists>served p1 w1. hs_router_find_route_and_serve reference_libs list_vector (Some demo_page_router) demo_flow (connection [] [])
        = ret (served, p1, w1)
    \<and> (if served then answered reference_libs 3 (connection [] []) w1 else quiet 3 demo_flow (connection [] []) p1 w1)"
proof -
  let ?rts = "[hs_routes_error_411_length_required_route_new reference_libs, page_route ''a'' ''<p>'']"
  let ?d = "demo_flow\<lparr>response := Some ((hs_types_http_response_new reference_libs)\<lparr>resp_code := HS_HTTP_RESPONSE_CODE_NOT_FOUND\<rparr>)\<rparr>"
  have entry: "route_entry 3 demo_flow (connection [] [])" by (simp add: demo_flow_entry)
  have takes: "takes reference_libs demo_flow r \<longleftrightarrow> serves_get r ''a/b''" for r
    by (rule takes_get [OF reference_ok(1) demo_flow_simps(1)]) (simp_all add: hs_types_http_request_new_def)
  have rts: "list_all (\<lambda>r. \<not> takes reference_libs demo_flow r) ?rts"
    by (simp add: takes demo_page_router_simps)
  have rt: "takes reference_libs demo_flow hs_routes_error_404_not_found_route_new"
    "serve hs_routes_error_404_not_found_route_new = Some hs_routes_404_not_found_serve"
    by (simp_all add: takes not_found_route_get)
  obtain p1 w1 where answer: "write_response reference_libs demo_page_router ?d (connection [] []) = ret (True, p1, w1)"
    using write_response_spec [OF reference_libs_ok, of ?d _ _ _ _ 3 "connection [] []" demo_page_router] by auto
  have done0: "hs_routes_404_not_found_serve path demo_flow w = ret (HS_SERVE_FLOW_RESPONSE_DONE, ?d, w)" for path w
    by (simp add: hs_routes_404_not_found_serve_def respond_def)
  have "\<not> flow_done ?d" using demo_flow_entry(3) by (simp add: flow_done_def)
  with answer have "find_route_loop reference_libs (Some demo_page_router)
      (map Some (?rts @ [hs_routes_error_404_not_found_route_new])) demo_flow (connection [] []) = ret (True, p1, w1)"
    unfolding map_append find_route_skips [OF demo_flow_entry(1-3) rts]
    using serve_route_taken [OF demo_flow_entry(1-3) rt done0, of demo_page_router] by simp
  then have run: "hs_router_find_route_and_serve reference_libs list_vector (Some demo_page_router) demo_flow (connection [] []) = ret (True, p1, w1)"
    by (simp add: hs_router_find_route_and_serve_def routes_of_vector [OF list_vector_ok] demo_page_router_simps)
  from dispatch_answers_once [OF reference_libs_ok list_vector_ok demo_page_router_library entry run] run show ?thesis by blast
qed

text \<open>
  C7. When a connection ends. The routes are those of the library, the socket is plain. Against any
  peer that sends finitely much and is not silent without a receive timeout (\<open>answering\<close>), whatever it
  sends, in whatever segments and with whatever failures, and whatever a kernel that answers every
  write takes of the answers, the loop over the requests of a connection comes to an end: it returns,
  with nothing raised of what is left to read, or it runs into one of the modelled faults. A peer that
  is silent from the start without a receive timeout, which is the default, is waited for forever (by
  a loop that no stop function has ended before).
\<close>

theorem connection_ends:
  assumes "libs_ok L" and "vector_ok V" and "list_all (library_route L V) (vec_list V (router_routes rtr))"
    and "plain_socket socket fd"
  shows "(answering fd w \<longrightarrow> (\<exists>r. hs_router_serve_forever L V (Some rtr) socket stop w = Some r
        \<and> (\<forall>b w1. r = Inr (b, w1) \<longrightarrow> pending fd w1 \<le> pending fd w)))
    \<and> (\<forall>st es. fds w fd = Some st \<and> incoming st = Silence # es \<and> rcvtimeo st \<le> 0
        \<longrightarrow> hs_router_serve_forever L V (Some rtr) socket None w = None)"
proof (intro conjI impI allI)
  assume answering: "answering fd w"
  then have less: "to_read fd w1 \<le> to_read fd w \<Longrightarrow> pending fd w1 \<le> pending fd w" for w1
    by (simp add: to_read_def split: if_splits)
  show "\<exists>r. hs_router_serve_forever L V (Some rtr) socket stop w = Some r
        \<and> (\<forall>b w1. r = Inr (b, w1) \<longrightarrow> pending fd w1 \<le> pending fd w)"
    using serve_forever_returns [OF assms(1,2) library_routes_end [OF assms(1-3)] assms(4) answering, of stop] less
    by (auto simp: returns_def split: option.splits sum.splits)
next
  fix st es
  assume "fds w fd = Some st \<and> incoming st = Silence # es \<and> rcvtimeo st \<le> 0"
  then have st: "fds w fd = Some st" "incoming st = Silence # es" "rcvtimeo st \<le> 0" by simp_all
  note sb = libs_ok_parts(2) [OF assms(1)]
  obtain s where s: "socket = Some s" using plain_socket_simps(3) [OF assms(4)] by auto
  have "crlf_index (stringbuffer_to_string L (stringbuffer_new L)) = None"
    by (simp add: stringbuffer_laws(1) [OF sb] crlf_index.simps)
  then have "hs_parser_parse_request L socket w = None"
    using hs_io_read_line_blocks [OF sb assms(4) st(1) _ st(2,3)] by (simp add: hs_parser_parse_request_def s)
  then show "hs_router_serve_forever L V (Some rtr) socket None w = None"
    using plain_socket_simps(2) [OF assms(4)]
    by (simp add: hs_router_serve_forever_def Let_def hs_types_server_connection_state_new_def
        serve_forever_loop.simps [of L V "Some rtr" socket None] hs_router_serve_next_def)
qed

theorem connection_ends_witness:
  "(\<exists>r. hs_router_serve_forever reference_libs list_vector (Some demo_page_router) connection_socket None
      (connection [Arrive (get_request_text ''a''), ReadFail, Arrive ''GET''] [3, -1]) = Some r)
   \<and> hs_router_serve_forever reference_libs list_vector (Some demo_page_router) connection_socket None (connection [Silence] []) = None"
proof -
  have "answering 3 (connection [Arrive (get_request_text ''a''), ReadFail, Arrive ''GET''] [3, -1])"
    by (simp add: answering_def)
  with connection_ends [OF reference_libs_ok list_vector_ok demo_page_router_library connection_simps(1)] show ?thesis by fastforce
qed

end
